(* ===== verification/Prelude.thy ===== *)
theory Prelude
  imports Main "HOL-Library.Monad_Syntax"
begin

text \<open>
  Shared vocabulary of the development: the three-way comparison results of
  \<^verbatim>\<open>Firestore/core/src/util/comparison.h\<close>, the contract every
  comparator of the code base satisfies (locale \<open>comparator\<close>), and the generic
  list lemmas about sequences sorted by a comparator that the container and model
  theories share.
\<close>

section \<open>Comparison results\<close>

datatype ComparisonResult = Ascending | Same | Descending

definition ComparisonResultFromInt :: "int \<Rightarrow> ComparisonResult" where
  "ComparisonResultFromInt value =
     (if value < 0 then Ascending else if value > 0 then Descending else Same)"

fun ReverseOrder :: "ComparisonResult \<Rightarrow> ComparisonResult" where
  "ReverseOrder Ascending = Descending"
| "ReverseOrder Same = Same"
| "ReverseOrder Descending = Ascending"

definition DefaultCompare :: "'a::ord \<Rightarrow> 'a \<Rightarrow> ComparisonResult" where
  "DefaultCompare left right =
     (if left < right then Ascending else if right < left then Descending else Same)"

fun CompareContainer ::
  "('a \<Rightarrow> 'a \<Rightarrow> ComparisonResult) \<Rightarrow> 'a list \<Rightarrow> 'a list \<Rightarrow> ComparisonResult" where
  "CompareContainer cmp [] [] = Same"
| "CompareContainer cmp [] (y # ys) = Ascending"
| "CompareContainer cmp (x # xs) [] = Descending"
| "CompareContainer cmp (x # xs) (y # ys) =
     (if cmp x y \<noteq> Same then cmp x y else CompareContainer cmp xs ys)"

lemma ReverseOrder_involutive [simp]: "ReverseOrder (ReverseOrder r) = r"
  by (cases r) auto

lemma ReverseOrder_eq_iff [simp]:
  "ReverseOrder r = Same \<longleftrightarrow> r = Same"
  "ReverseOrder r = Ascending \<longleftrightarrow> r = Descending"
  "ReverseOrder r = Descending \<longleftrightarrow> r = Ascending"
  "Same = ReverseOrder r \<longleftrightarrow> r = Same"
  "Ascending = ReverseOrder r \<longleftrightarrow> r = Descending"
  "Descending = ReverseOrder r \<longleftrightarrow> r = Ascending"
  by (cases r; simp)+

section \<open>The comparator contract\<close>

text \<open>
  What the sorted containers and the query code rely on: comparing a value with itself
  gives Same, swapping the arguments reverses the answer, and the order is
  transitive. Same need not mean equal (a document comparator may ignore the
  contents), so this is a total preorder, not a linear order.
\<close>

locale comparator =
  fixes cmp :: "'a \<Rightarrow> 'a \<Rightarrow> ComparisonResult"
  assumes cmp_refl: "cmp x x = Same"
    and cmp_swap: "cmp y x = ReverseOrder (cmp x y)"
    and cmp_trans: "cmp x y \<noteq> Descending \<Longrightarrow> cmp y z \<noteq> Descending \<Longrightarrow> cmp x z \<noteq> Descending"
begin

lemma gt_iff: "cmp x y = Descending \<longleftrightarrow> cmp y x = Ascending"
  using cmp_swap [of y x] by (cases "cmp x y") auto

lemma same_sym: "cmp x y = Same \<longleftrightarrow> cmp y x = Same"
  using cmp_swap [of y x] by (cases "cmp x y") auto

lemma same_trans: "cmp x y = Same \<Longrightarrow> cmp y z = Same \<Longrightarrow> cmp x z = Same"
  using cmp_trans [of x y z] cmp_trans [of z y x] cmp_swap [of x z] cmp_swap [of x y] cmp_swap [of y z]
  by (cases "cmp x z") auto

lemma lt_le_trans: "cmp x y = Ascending \<Longrightarrow> cmp y z \<noteq> Descending \<Longrightarrow> cmp x z = Ascending"
  using cmp_trans [of x y z] cmp_trans [of y z x] cmp_swap [of x z] cmp_swap [of x y] cmp_swap [of y z]
  by (cases "cmp x z") auto

lemma le_lt_trans: "cmp x y \<noteq> Descending \<Longrightarrow> cmp y z = Ascending \<Longrightarrow> cmp x z = Ascending"
  using cmp_trans [of x y z] cmp_trans [of z x y] cmp_swap [of x z] cmp_swap [of x y] cmp_swap [of y z]
  by (cases "cmp x z") auto

lemma lt_trans: "cmp x y = Ascending \<Longrightarrow> cmp y z = Ascending \<Longrightarrow> cmp x z = Ascending"
  by (rule lt_le_trans) auto

lemma lt_same: "cmp x y = Ascending \<Longrightarrow> cmp y z = Same \<Longrightarrow> cmp x z = Ascending"
  by (rule lt_le_trans) auto

lemma same_lt: "cmp x y = Same \<Longrightarrow> cmp y z = Ascending \<Longrightarrow> cmp x z = Ascending"
  by (rule le_lt_trans) auto

lemma same_cong: "cmp x y = Same \<Longrightarrow> cmp x z = cmp y z"
  using same_trans [of y x z] same_lt [of y x z] same_trans [of x y z] same_lt [of x y z]
    same_sym [of x y] lt_same [of z x y] gt_iff [of x z] gt_iff [of y z]
  by (cases "cmp x z"; cases "cmp y z") auto

lemma same_cong_right: "cmp x y = Same \<Longrightarrow> cmp z x = cmp z y"
  using same_cong [of x y z] cmp_swap [of z x] cmp_swap [of z y]
  by (metis ReverseOrder_involutive)

end

lemma comparator_DefaultCompare: "comparator (DefaultCompare :: 'a::linorder \<Rightarrow> 'a \<Rightarrow> _)"
  by unfold_locales (auto simp: DefaultCompare_def split: if_splits)

interpretation default_int: comparator "DefaultCompare :: int \<Rightarrow> int \<Rightarrow> ComparisonResult"
  by (rule comparator_DefaultCompare)

lemma DefaultCompare_Same [simp]: "DefaultCompare (x :: 'a::linorder) y = Same \<longleftrightarrow> x = y"
  by (auto simp: DefaultCompare_def)

lemma DefaultCompare_simps:
  "DefaultCompare (x :: 'a::linorder) y = Ascending \<longleftrightarrow> x < y"
  "DefaultCompare (x :: 'a::linorder) y = Descending \<longleftrightarrow> y < x"
  by (auto simp: DefaultCompare_def)

text \<open>Lexicographic comparison of sequences inherits the contract from the elements.\<close>

context comparator
begin

lemma container_refl: "CompareContainer cmp xs xs = Same"
  by (induction xs) (auto simp: cmp_refl)

lemma container_swap: "CompareContainer cmp ys xs = ReverseOrder (CompareContainer cmp xs ys)"
proof (induction xs arbitrary: ys)
  case Nil
  then show ?case by (cases ys) auto
next
  case (Cons x xs)
  then show ?case using cmp_swap [of "hd ys" x] by (cases ys) auto
qed

lemma container_trans:
  "CompareContainer cmp xs ys \<noteq> Descending \<Longrightarrow> CompareContainer cmp ys zs \<noteq> Descending \<Longrightarrow>
   CompareContainer cmp xs zs \<noteq> Descending"
proof (induction xs arbitrary: ys zs)
  case Nil
  then show ?case by (cases zs) auto
next
  case (Cons x xs)
  from Cons.prems obtain y ys' where ys: "ys = y # ys'" by (cases ys) auto
  with Cons.prems obtain z zs' where zs: "zs = z # zs'" by (cases zs) auto
  have le: "cmp x y \<noteq> Descending" "cmp y z \<noteq> Descending"
    using Cons.prems ys zs by (auto split: if_splits)
  show ?case
  proof (cases "cmp x y = Same \<and> cmp y z = Same")
    case True
    then have "cmp x z = Same" using same_trans by blast
    then show ?thesis using True Cons.IH [of ys' zs'] Cons.prems ys zs by auto
  next
    case False
    then have "cmp x z = Ascending"
      using le lt_le_trans [of x y z] le_lt_trans [of x y z] by (cases "cmp x y"; cases "cmp y z") auto
    then show ?thesis using zs by simp
  qed
qed

lemma container: "comparator (CompareContainer cmp)"
  by unfold_locales (auto simp: container_refl container_trans intro: container_swap)

lemma container_Same_length: "CompareContainer cmp xs ys = Same \<Longrightarrow> length xs = length ys"
  by (induction cmp xs ys rule: CompareContainer.induct) (auto split: if_splits)

end

end
