(* ===== verification/OrderedMap.thy ===== *)
theory OrderedMap
  imports Prelude
begin

text \<open>
  The contract of the immutable sorted maps of
  \<^verbatim>\<open>Firestore/core/src/immutable/\<close>.  A map is seen through the list of
  its entries in iteration order; \<open>lookup_entries\<close> is the partial map that the
  list stands for.  The locale \<open>ordered_map\<close> states what the clients (document
  sets, mutation queues, target maps) rely on, and derives the algebra of insertions
  and erasures from it once; the array, the tree and the combined representation
  provide it in their own theories.
\<close>

section \<open>Sorted entry lists\<close>

definition sorted_entries :: "('k \<Rightarrow> 'k \<Rightarrow> ComparisonResult) \<Rightarrow> ('k \<times> 'v) list \<Rightarrow> bool" where
  "sorted_entries cmp es = sorted_wrt (\<lambda>e f. cmp (fst e) (fst f) = Ascending) es"

definition lookup_entries ::
  "('k \<Rightarrow> 'k \<Rightarrow> ComparisonResult) \<Rightarrow> ('k \<times> 'v) list \<Rightarrow> 'k \<Rightarrow> 'v option" where
  "lookup_entries cmp es k = map_option snd (find (\<lambda>e. cmp k (fst e) = Same) es)"

definition erase_entries ::
  "('k \<Rightarrow> 'k \<Rightarrow> ComparisonResult) \<Rightarrow> 'k \<Rightarrow> ('k \<times> 'v) list \<Rightarrow> ('k \<times> 'v) list" where
  "erase_entries cmp k es = filter (\<lambda>e. cmp k (fst e) \<noteq> Same) es"

text \<open>
  Insertion into a sorted list.  The flag says which key survives when an entry with an
  equal key is already present: the array writes the new pair, the tree overwrites the
  value under the old key.
\<close>

fun insert_entries ::
  "bool \<Rightarrow> ('k \<Rightarrow> 'k \<Rightarrow> ComparisonResult) \<Rightarrow> 'k \<Rightarrow> 'v \<Rightarrow> ('k \<times> 'v) list \<Rightarrow> ('k \<times> 'v) list" where
  "insert_entries keep_old cmp k v [] = [(k, v)]"
| "insert_entries keep_old cmp k v (e # es) =
     (case cmp (fst e) k of
        Ascending \<Rightarrow> e # insert_entries keep_old cmp k v es
      | Same \<Rightarrow> ((if keep_old then fst e else k), v) # es
      | Descending \<Rightarrow> (k, v) # e # es)"

lemma sorted_entries_simps [simp]:
  "sorted_entries cmp []"
  "sorted_entries cmp (e # es) \<longleftrightarrow>
     (\<forall>f \<in> set es. cmp (fst e) (fst f) = Ascending) \<and> sorted_entries cmp es"
  "sorted_entries cmp (es @ fs) \<longleftrightarrow> sorted_entries cmp es \<and> sorted_entries cmp fs \<and>
     (\<forall>e \<in> set es. \<forall>f \<in> set fs. cmp (fst e) (fst f) = Ascending)"
  by (auto simp: sorted_entries_def sorted_wrt_append)

lemma lookup_entries_simps [simp]:
  "lookup_entries cmp [] k = None"
  "lookup_entries cmp (e # es) k = (if cmp k (fst e) = Same then Some (snd e) else lookup_entries cmp es k)"
  by (auto simp: lookup_entries_def)

lemma lookup_entries_append:
  "lookup_entries cmp (es @ fs) k =
     (case lookup_entries cmp es k of None \<Rightarrow> lookup_entries cmp fs k | Some v \<Rightarrow> Some v)"
  by (induction es) auto

lemma lookup_entries_None_iff:
  "lookup_entries cmp es k = None \<longleftrightarrow> (\<forall>e \<in> set es. cmp k (fst e) \<noteq> Same)"
  by (induction es) auto

lemma lookup_entries_not_Same [simp]:
  "\<forall>e \<in> set es. cmp k (fst e) \<noteq> Same \<Longrightarrow> lookup_entries cmp es k = None"
  by (simp add: lookup_entries_None_iff)

lemma erase_entries_simps [simp]:
  "erase_entries cmp k [] = []"
  "erase_entries cmp k (e # es) = (if cmp k (fst e) = Same then erase_entries cmp k es else e # erase_entries cmp k es)"
  "erase_entries cmp k (es @ fs) = erase_entries cmp k es @ erase_entries cmp k fs"
  by (auto simp: erase_entries_def)

lemma erase_entries_id: "\<forall>e \<in> set es. cmp k (fst e) \<noteq> Same \<Longrightarrow> erase_entries cmp k es = es"
  by (auto simp: erase_entries_def filter_id_conv)

lemma set_erase_entries: "set (erase_entries cmp k es) = {e \<in> set es. cmp k (fst e) \<noteq> Same}"
  by (auto simp: erase_entries_def)

lemma sorted_erase_entries: "sorted_entries cmp es \<Longrightarrow> sorted_entries cmp (erase_entries cmp k es)"
  by (induction es) (auto simp: set_erase_entries)

context comparator
begin

lemma insert_entries_keys:
  "e \<in> set (insert_entries b cmp k v es) \<Longrightarrow> e \<in> set es \<or> cmp (fst e) k = Same"
proof (induction es)
  case Nil
  then show ?case by (simp add: cmp_refl)
next
  case (Cons f es)
  then show ?case by (cases "cmp (fst f) k") (auto simp: cmp_refl split: if_splits)
qed

lemma sorted_insert_entries:
  "sorted_entries cmp es \<Longrightarrow> sorted_entries cmp (insert_entries b cmp k v es)"
proof (induction es)
  case Nil
  then show ?case by simp
next
  case (Cons f es)
  show ?case
  proof (cases "cmp (fst f) k")
    case Ascending
    then show ?thesis using Cons
      by (auto dest!: insert_entries_keys simp: same_sym [of _ k] intro: lt_same)
  next
    case Same
    then have "cmp k (fst f) = Same" by (simp add: same_sym)
    with Same show ?thesis using Cons by (auto intro: same_lt)
  next
    case Descending
    then have "cmp k (fst f) = Ascending" by (simp add: gt_iff)
    with Descending show ?thesis using Cons by (auto intro: lt_trans)
  qed
qed

lemma lookup_insert_entries:
  "sorted_entries cmp es \<Longrightarrow> lookup_entries cmp (insert_entries b cmp k v es) k' =
     (if cmp k' k = Same then Some v else lookup_entries cmp es k')"
proof (induction es)
  case Nil
  then show ?case by simp
next
  case (Cons f es)
  show ?case
  proof (cases "cmp (fst f) k")
    case Ascending
    then have "cmp k' k = Same \<Longrightarrow> cmp k' (fst f) \<noteq> Same"
      using same_trans same_sym by (metis ComparisonResult.distinct(1))
    with Ascending show ?thesis using Cons by auto
  next
    case Same
    then have "cmp k' (fst f) = cmp k' k" by (rule same_cong_right)
    with Same show ?thesis using Cons by auto
  next
    case Descending
    then show ?thesis using Cons by auto
  qed
qed

lemma lookup_erase_entries:
  "lookup_entries cmp (erase_entries cmp k es) k' =
     (if cmp k' k = Same then None else lookup_entries cmp es k')"
proof (induction es)
  case Nil
  then show ?case by simp
next
  case (Cons f es)
  have "cmp k' k = Same \<Longrightarrow> cmp k' (fst f) = cmp k (fst f)" by (rule same_cong)
  moreover have "cmp k (fst f) = Same \<Longrightarrow> cmp k' (fst f) = cmp k' k"
    by (rule same_cong_right [symmetric])
  ultimately show ?case using Cons by auto
qed

lemma length_insert_entries:
  "sorted_entries cmp es \<Longrightarrow> length (insert_entries b cmp k v es) =
     (if lookup_entries cmp es k = None then Suc (length es) else length es)"
proof (induction es)
  case Nil
  then show ?case by simp
next
  case (Cons f es)
  show ?case
  proof (cases "cmp (fst f) k")
    case Ascending
    then show ?thesis using Cons same_sym [of k "fst f"] by auto
  next
    case Same
    then show ?thesis using same_sym [of k "fst f"] by auto
  next
    case Descending
    then have lt: "cmp k (fst f) = Ascending" by (simp add: gt_iff)
    then have "lookup_entries cmp es k = None"
      using Cons.prems by (auto simp: lookup_entries_None_iff dest: lt_trans)
    with lt Descending show ?thesis by simp
  qed
qed

text \<open>The insertion point splits the list at its first entry that is not below the key.\<close>

lemma insert_entries_split:
  assumes "\<forall>e \<in> set es. cmp (fst e) k = Ascending" and "\<forall>e \<in> set fs. cmp (fst e) k = Descending"
  shows "insert_entries b cmp k v (es @ fs) = es @ (k, v) # fs"
  using assms(1)
proof (induction es)
  case Nil
  then show ?case using assms(2) by (cases fs) auto
qed simp

lemma insert_entries_below:
  "\<forall>e \<in> set es. cmp (fst e) k = Ascending \<Longrightarrow>
   insert_entries b cmp k v (es @ fs) = es @ insert_entries b cmp k v fs"
  by (induction es) auto

lemma insert_entries_above:
  "cmp (fst f) k = Descending \<Longrightarrow>
   insert_entries b cmp k v (es @ f # fs) = insert_entries b cmp k v es @ f # fs"
  by (induction es) (auto split: ComparisonResult.splits)

end

section \<open>The interface\<close>

locale ordered_map = comparator cmp
  for cmp :: "'k \<Rightarrow> 'k \<Rightarrow> ComparisonResult" +
  fixes entries :: "'m \<Rightarrow> ('k \<times> 'v) list"
    and inv :: "'m \<Rightarrow> bool"
    and room :: "'m \<Rightarrow> bool"
    and emp :: 'm
    and ins :: "'k \<Rightarrow> 'v \<Rightarrow> 'm \<Rightarrow> 'm option"
    and del :: "'k \<Rightarrow> 'm \<Rightarrow> 'm option"
    and get :: "'m \<Rightarrow> 'k \<Rightarrow> 'v option"
    and count :: "'m \<Rightarrow> nat"
  assumes inv_empty: "inv emp" and entries_empty: "entries emp = []"
    and inv_sorted: "inv m \<Longrightarrow> sorted_entries cmp (entries m)"
    and ins_ok: "inv m \<Longrightarrow> room m \<Longrightarrow> \<exists>b m'. ins k v m = Some m' \<and> inv m' \<and>
       entries m' = insert_entries b cmp k v (entries m)"
    and del_ok: "inv m \<Longrightarrow> \<exists>m'. del k m = Some m' \<and> inv m' \<and>
       entries m' = erase_entries cmp k (entries m)"
    and get_ok: "inv m \<Longrightarrow> get m k = lookup_entries cmp (entries m) k"
    and count_ok: "inv m \<Longrightarrow> count m = length (entries m)"
begin

lemma ins_total: "inv m \<Longrightarrow> room m \<Longrightarrow> \<exists>m'. ins k v m = Some m'"
  using ins_ok by blast

lemma del_total: "inv m \<Longrightarrow> \<exists>m'. del k m = Some m'"
  using del_ok by blast

lemma ins_inv: "inv m \<Longrightarrow> room m \<Longrightarrow> ins k v m = Some m' \<Longrightarrow> inv m'"
  using ins_ok [of m k v] by auto

lemma del_inv: "inv m \<Longrightarrow> del k m = Some m' \<Longrightarrow> inv m'"
  using del_ok [of m k] by auto

lemma get_empty: "get emp k = None"
  by (simp add: get_ok inv_empty entries_empty)

lemma get_ins:
  assumes "inv m" and "room m" and "ins k v m = Some m'"
  shows "get m' k' = (if cmp k' k = Same then Some v else get m k')"
proof -
  obtain b where "inv m'" and "entries m' = insert_entries b cmp k v (entries m)"
    using ins_ok [OF assms(1,2), of k v] assms(3) by auto
  then show ?thesis
    using assms(1) by (simp add: get_ok lookup_insert_entries inv_sorted)
qed

lemma get_del:
  assumes "inv m" and "del k m = Some m'"
  shows "get m' k' = (if cmp k' k = Same then None else get m k')"
proof -
  have "inv m'" and "entries m' = erase_entries cmp k (entries m)"
    using del_ok [OF assms(1), of k] assms(2) by auto
  then show ?thesis
    using assms(1) by (simp add: get_ok lookup_erase_entries)
qed

lemma count_ins:
  assumes "inv m" and "room m" and "ins k v m = Some m'"
  shows "count m' = (if get m k = None then Suc (count m) else count m)"
proof -
  obtain b where "inv m'" and "entries m' = insert_entries b cmp k v (entries m)"
    using ins_ok [OF assms(1,2), of k v] assms(3) by auto
  then show ?thesis
    using assms(1) by (simp add: get_ok count_ok length_insert_entries inv_sorted)
qed

lemma sorted_distinct:
  "sorted_entries cmp es \<Longrightarrow> e \<in> set es \<Longrightarrow> lookup_entries cmp es (fst e) = Some (snd e)"
proof (induction es)
  case (Cons f es)
  then show ?case
    using cmp_refl [of "fst e"] same_sym [of "fst e" "fst f"] by auto
qed simp

lemma get_entry: "inv m \<Longrightarrow> e \<in> set (entries m) \<Longrightarrow> get m (fst e) = Some (snd e)"
  by (simp add: get_ok inv_sorted sorted_distinct)

lemma get_del_ins:
  assumes "inv m" and "room m" and "ins k v m = Some m1" and "del k m1 = Some m2"
  shows "get m2 k' = (if cmp k' k = Same then None else get m k')"
  using assms by (simp add: get_del [of m1] get_ins [of m] ins_inv)

end

end
