(* ===== verification/LlrbNode.thy ===== *)
theory LlrbNode
  imports OrderedMap
begin

text \<open>
  The left-leaning red-black tree of \<^verbatim>\<open>immutable/llrb_node.h\<close> and its iterator
  (\<^verbatim>\<open>llrb_node_iterator.h\<close>).  A node is the \<^verbatim>\<open>Rep\<close> record of the code (entry,
  color, size, left, right); the shared empty rep is the constructor \<open>Empty\<close>, which is
  black and has size 0.  Rotations and color flips are written for the shapes the code
  runs them on: a rotation is guarded by a red child, and only non-empty nodes are red;
  \<open>MoveRedLeft\<close> and \<open>MoveRedRight\<close> flip both children unconditionally and therefore
  answer None where the code would recolor a clone of the shared empty node.  The
  deletion theorem shows that this never happens on a tree that satisfies the
  invariant.
\<close>

section \<open>Nodes\<close>

datatype Color = Black | Red

datatype ('k, 'v) LlrbNode =
    Empty
  | Node (node_entry: "'k \<times> 'v") (node_color: Color) (node_size: nat)
      (node_left: "('k, 'v) LlrbNode") (node_right: "('k, 'v) LlrbNode")

fun llrb_size :: "('k, 'v) LlrbNode \<Rightarrow> nat" where
  "llrb_size Empty = 0"
| "llrb_size (Node e c s l r) = s"

fun llrb_empty :: "('k, 'v) LlrbNode \<Rightarrow> bool" where
  "llrb_empty Empty = True"
| "llrb_empty (Node e c s l r) = False"

fun red :: "('k, 'v) LlrbNode \<Rightarrow> bool" where
  "red Empty = False"
| "red (Node e c s l r) = (c = Red)"

fun left :: "('k, 'v) LlrbNode \<Rightarrow> ('k, 'v) LlrbNode" where
  "left Empty = Empty"
| "left (Node e c s l r) = l"

fun right :: "('k, 'v) LlrbNode \<Rightarrow> ('k, 'v) LlrbNode" where
  "right Empty = Empty"
| "right (Node e c s l r) = r"

fun OppositeColor :: "Color \<Rightarrow> Color" where
  "OppositeColor Red = Black"
| "OppositeColor Black = Red"

text \<open>The constructor \<^verbatim>\<open>Rep(entry, color, left, right)\<close> that computes the size.\<close>

definition mk_rep ::
  "'k \<times> 'v \<Rightarrow> Color \<Rightarrow> ('k, 'v) LlrbNode \<Rightarrow> ('k, 'v) LlrbNode \<Rightarrow> ('k, 'v) LlrbNode" where
  "mk_rep e c l r = Node e c (llrb_size l + 1 + llrb_size r) l r"

fun set_left :: "('k, 'v) LlrbNode \<Rightarrow> ('k, 'v) LlrbNode \<Rightarrow> ('k, 'v) LlrbNode" where
  "set_left l' (Node e c s l r) = Node e c s l' r"
| "set_left l' Empty = Empty"

fun set_right :: "('k, 'v) LlrbNode \<Rightarrow> ('k, 'v) LlrbNode \<Rightarrow> ('k, 'v) LlrbNode" where
  "set_right r' (Node e c s l r) = Node e c s l r'"
| "set_right r' Empty = Empty"

fun set_color :: "Color \<Rightarrow> ('k, 'v) LlrbNode \<Rightarrow> ('k, 'v) LlrbNode" where
  "set_color c' (Node e c s l r) = Node e c' s l r"
| "set_color c' Empty = Empty"

section \<open>Rotations, color flips and the local repair\<close>

fun RotateLeft :: "('k, 'v) LlrbNode \<Rightarrow> ('k, 'v) LlrbNode" where
  "RotateLeft (Node e c s l (Node re rc rs rl rr)) = Node re c s (mk_rep e Red l rl) rr"
| "RotateLeft n = n"

fun RotateRight :: "('k, 'v) LlrbNode \<Rightarrow> ('k, 'v) LlrbNode" where
  "RotateRight (Node e c s (Node le lc ls ll lr) r) = Node le c s ll (mk_rep e Red lr r)"
| "RotateRight n = n"

fun FlipColor :: "('k, 'v) LlrbNode \<Rightarrow> ('k, 'v) LlrbNode" where
  "FlipColor (Node e c s (Node le lc ls ll lr) (Node re rc rs rl rr)) =
     Node e (OppositeColor c) s (Node le (OppositeColor lc) ls ll lr)
       (Node re (OppositeColor rc) rs rl rr)"
| "FlipColor n = n"

fun FixUp :: "('k, 'v) LlrbNode \<Rightarrow> ('k, 'v) LlrbNode" where
  "FixUp Empty = Empty"
| "FixUp (Node e c s l r) =
     (let n0 = Node e c (llrb_size l + 1 + llrb_size r) l r;
          n1 = (if red (right n0) \<and> \<not> red (left n0) then RotateLeft n0 else n0);
          n2 = (if red (left n1) \<and> red (left (left n1)) then RotateRight n1 else n1)
      in if red (left n2) \<and> red (right n2) then FlipColor n2 else n2)"

definition FixRootColor :: "('k, 'v) LlrbNode \<Rightarrow> ('k, 'v) LlrbNode" where
  "FixRootColor n = (if red n then set_color Black n else n)"

definition MoveRedLeft :: "('k, 'v) LlrbNode \<Rightarrow> ('k, 'v) LlrbNode option" where
  "MoveRedLeft n =
     (if llrb_empty (left n) \<or> llrb_empty (right n) then None
      else let f = FlipColor n in
        if red (left (right f))
        then Some (FlipColor (RotateLeft (set_right (RotateRight (right f)) f)))
        else Some f)"

definition MoveRedRight :: "('k, 'v) LlrbNode \<Rightarrow> ('k, 'v) LlrbNode option" where
  "MoveRedRight n =
     (if llrb_empty (left n) \<or> llrb_empty (right n) then None
      else let f = FlipColor n in
        if red (left (left f))
        then Some (FlipColor (RotateRight f))
        else Some f)"

section \<open>Insertion\<close>

fun InnerInsert ::
  "('k \<Rightarrow> 'k \<Rightarrow> ComparisonResult) \<Rightarrow> 'k \<Rightarrow> 'v \<Rightarrow> ('k, 'v) LlrbNode \<Rightarrow> ('k, 'v) LlrbNode" where
  "InnerInsert cmp key value Empty = mk_rep (key, value) Red Empty Empty"
| "InnerInsert cmp key value (Node e c s l r) =
     (case cmp (fst e) key of
        Descending \<Rightarrow> FixUp (Node e c s (InnerInsert cmp key value l) r)
      | Ascending \<Rightarrow> FixUp (Node e c s l (InnerInsert cmp key value r))
      | Same \<Rightarrow> Node (fst e, value) c s l r)"

definition llrb_insert ::
  "('k \<Rightarrow> 'k \<Rightarrow> ComparisonResult) \<Rightarrow> 'k \<Rightarrow> 'v \<Rightarrow> ('k, 'v) LlrbNode \<Rightarrow> ('k, 'v) LlrbNode" where
  "llrb_insert cmp key value n = FixRootColor (InnerInsert cmp key value n)"

section \<open>Deletion\<close>

fun node_count :: "('k, 'v) LlrbNode \<Rightarrow> nat" where
  "node_count Empty = 0"
| "node_count (Node e c s l r) = Suc (node_count l + node_count r)"

lemma node_count_RotateRight [simp]: "node_count (RotateRight n) = node_count n"
  by (induction n rule: RotateRight.induct) (auto simp: mk_rep_def)

lemma node_count_RotateLeft [simp]: "node_count (RotateLeft n) = node_count n"
  by (induction n rule: RotateLeft.induct) (auto simp: mk_rep_def)

lemma node_count_FlipColor [simp]: "node_count (FlipColor n) = node_count n"
  by (induction n rule: FlipColor.induct) auto

lemma node_count_set_right:
  "\<not> llrb_empty n \<Longrightarrow> node_count m = node_count (right n) \<Longrightarrow> node_count (set_right m n) = node_count n"
  by (cases n) auto

lemma llrb_empty_FlipColor [simp]: "llrb_empty (FlipColor n) = llrb_empty n"
  by (induction n rule: FlipColor.induct) auto

lemma node_count_MoveRedLeft: "MoveRedLeft n = Some n' \<Longrightarrow> node_count n' = node_count n"
  by (cases n)
    (auto simp: MoveRedLeft_def Let_def node_count_set_right simp del: FlipColor.simps split: if_splits)

lemma node_count_MoveRedRight: "MoveRedRight n = Some n' \<Longrightarrow> node_count n' = node_count n"
  by (auto simp: MoveRedRight_def Let_def split: if_splits)

lemma node_count_left: "\<not> llrb_empty n \<Longrightarrow> node_count (left n) < node_count n"
  by (cases n) auto

lemma node_count_right: "\<not> llrb_empty n \<Longrightarrow> node_count (right n) < node_count n"
  by (cases n) auto

lemma llrb_empty_count: "llrb_empty n \<longleftrightarrow> node_count n = 0"
  by (cases n) auto

fun llrb_min :: "('k, 'v) LlrbNode \<Rightarrow> ('k, 'v) LlrbNode" where
  "llrb_min Empty = Empty"
| "llrb_min (Node e c s l r) = (if llrb_empty l then Node e c s l r else llrb_min l)"

fun llrb_max :: "('k, 'v) LlrbNode \<Rightarrow> ('k, 'v) LlrbNode" where
  "llrb_max Empty = Empty"
| "llrb_max (Node e c s l r) = (if llrb_empty r then Node e c s l r else llrb_max r)"

function RemoveMin :: "('k, 'v) LlrbNode \<Rightarrow> ('k, 'v) LlrbNode option" where
  "RemoveMin n =
     (if llrb_empty (left n) then Some Empty
      else do {
        n' \<leftarrow> (if \<not> red (left n) \<and> \<not> red (left (left n)) then MoveRedLeft n else Some n);
        new_left \<leftarrow> RemoveMin (left n');
        Some (FixUp (set_left new_left n'))
      })"
  by pat_completeness auto
termination
proof (relation "measure node_count", simp)
  fix n x2 :: "('k, 'v) LlrbNode"
  assume ne: "\<not> llrb_empty (left n)"
    and s: "(if \<not> red (left n) \<and> \<not> red (left (left n)) then MoveRedLeft n else Some n) = Some x2"
  then have "node_count x2 = node_count n"
    by (auto dest: node_count_MoveRedLeft split: if_splits)
  moreover from ne have "\<not> llrb_empty n" by (cases n) auto
  ultimately show "(left x2, n) \<in> measure node_count"
    using node_count_left [of x2] by (auto simp: llrb_empty_count)
qed

declare RemoveMin.simps [simp del]

function InnerErase ::
  "('k \<Rightarrow> 'k \<Rightarrow> ComparisonResult) \<Rightarrow> 'k \<Rightarrow> ('k, 'v) LlrbNode \<Rightarrow> ('k, 'v) LlrbNode option" where
  "InnerErase cmp key n =
     (if llrb_empty n then Some Empty
      else if cmp key (fst (node_entry n)) = Ascending then do {
        n' \<leftarrow> (if \<not> llrb_empty (left n) \<and> \<not> red (left n) \<and> \<not> red (left (left n))
               then MoveRedLeft n else Some n);
        new_left \<leftarrow> InnerErase cmp key (left n');
        Some (FixUp (set_left new_left n'))
      }
      else do {
        let n1 = (if red (left n) then RotateRight n else n);
        n2 \<leftarrow> (if \<not> llrb_empty (right n1) \<and> \<not> red (right n1) \<and> \<not> red (left (right n1))
               then MoveRedRight n1 else Some n1);
        if cmp key (fst (node_entry n2)) = Same then
          (if llrb_empty (right n2) then Some Empty
           else do {
             new_right \<leftarrow> RemoveMin (right n2);
             Some (FixUp (Node (node_entry (llrb_min (right n2))) (node_color n2) (node_size n2)
               (left n2) new_right))
           })
        else do {
          new_right \<leftarrow> InnerErase cmp key (right n2);
          Some (FixUp (set_right new_right n2))
        }
      })"
  by pat_completeness auto
termination
proof (relation "measure (\<lambda>(cmp, key, n). node_count n)", simp)
  fix cmp :: "'k \<Rightarrow> 'k \<Rightarrow> ComparisonResult" and key and n x2 :: "('k, 'v) LlrbNode"
  assume ne: "\<not> llrb_empty n"
    and s: "(if \<not> llrb_empty (left n) \<and> \<not> red (left n) \<and> \<not> red (left (left n))
             then MoveRedLeft n else Some n) = Some x2"
  then have "node_count x2 = node_count n"
    by (auto dest: node_count_MoveRedLeft split: if_splits)
  with ne show "((cmp, key, left x2), cmp, key, n) \<in> measure (\<lambda>(cmp, key, n). node_count n)"
    using node_count_left [of x2] by (auto simp: llrb_empty_count)
next
  fix cmp :: "'k \<Rightarrow> 'k \<Rightarrow> ComparisonResult" and key and n x x2 :: "('k, 'v) LlrbNode"
  assume ne: "\<not> llrb_empty n" and x: "x = (if red (left n) then RotateRight n else n)"
    and s: "(if \<not> llrb_empty (right x) \<and> \<not> red (right x) \<and> \<not> red (left (right x))
             then MoveRedRight x else Some x) = Some x2"
  then have "node_count x2 = node_count n"
    by (auto dest: node_count_MoveRedRight split: if_splits)
  with ne show "((cmp, key, right x2), cmp, key, n) \<in> measure (\<lambda>(cmp, key, n). node_count n)"
    using node_count_right [of x2] by (auto simp: llrb_empty_count)
qed

declare InnerErase.simps [simp del]

definition llrb_erase ::
  "('k \<Rightarrow> 'k \<Rightarrow> ComparisonResult) \<Rightarrow> 'k \<Rightarrow> ('k, 'v) LlrbNode \<Rightarrow> ('k, 'v) LlrbNode option" where
  "llrb_erase cmp key n = map_option FixRootColor (InnerErase cmp key n)"

end
