(* ===== verification/LlrbCorrect.thy ===== *)
theory LlrbCorrect
  imports LlrbNode
begin

text \<open>
  Correctness of the red-black tree of \<open>LlrbNode\<close>: the left-leaning red-black
  invariant with exact size fields, its preservation by insertion and deletion, and the
  effect of both on the entry list.  Deletion is the delicate part: the descent keeps the
  current node or its left child red, except at a black root, where the run is compared
  with the run from the same root painted red.
\<close>

section \<open>Invariants\<close>

fun llrb_entries :: "('k, 'v) LlrbNode \<Rightarrow> ('k \<times> 'v) list" where
  "llrb_entries Empty = []"
| "llrb_entries (Node e c s l r) = llrb_entries l @ e # llrb_entries r"

fun black_height :: "('k, 'v) LlrbNode \<Rightarrow> nat" where
  "black_height Empty = 0"
| "black_height (Node e c s l r) = (if c = Black then Suc (black_height l) else black_height l)"

fun balanced :: "('k, 'v) LlrbNode \<Rightarrow> bool" where
  "balanced Empty = True"
| "balanced (Node e c s l r) = (black_height l = black_height r \<and> balanced l \<and> balanced r)"

fun left_leaning :: "('k, 'v) LlrbNode \<Rightarrow> bool" where
  "left_leaning Empty = True"
| "left_leaning (Node e c s l r) =
     (\<not> red r \<and> (c = Red \<longrightarrow> \<not> red l) \<and> left_leaning l \<and> left_leaning r)"

fun sizes_exact :: "('k, 'v) LlrbNode \<Rightarrow> bool" where
  "sizes_exact Empty = True"
| "sizes_exact (Node e c s l r) =
     (s = llrb_size l + 1 + llrb_size r \<and> sizes_exact l \<and> sizes_exact r)"

definition good :: "('k, 'v) LlrbNode \<Rightarrow> bool" where
  "good n = (left_leaning n \<and> balanced n \<and> sizes_exact n)"

definition llrb_inv :: "('k \<Rightarrow> 'k \<Rightarrow> ComparisonResult) \<Rightarrow> ('k, 'v) LlrbNode \<Rightarrow> bool" where
  "llrb_inv cmp n = (good n \<and> \<not> red n \<and> sorted_entries cmp (llrb_entries n))"

lemma good_simps [simp]:
  "good Empty"
  "good (Node e c s l r) \<longleftrightarrow> \<not> red r \<and> (c = Red \<longrightarrow> \<not> red l) \<and> good l \<and> good r \<and>
     black_height l = black_height r \<and> s = llrb_size l + 1 + llrb_size r"
  by (auto simp: good_def)

lemma mk_rep_simps [simp]:
  "llrb_entries (mk_rep e c l r) = llrb_entries l @ e # llrb_entries r"
  "llrb_size (mk_rep e c l r) = llrb_size l + 1 + llrb_size r"
  "red (mk_rep e c l r) \<longleftrightarrow> c = Red"
  "left (mk_rep e c l r) = l" "right (mk_rep e c l r) = r"
  "black_height (mk_rep e c l r) = (if c = Black then Suc (black_height l) else black_height l)"
  "good (mk_rep e c l r) \<longleftrightarrow> \<not> red r \<and> (c = Red \<longrightarrow> \<not> red l) \<and> good l \<and> good r \<and>
     black_height l = black_height r"
  "llrb_empty (mk_rep e c l r) \<longleftrightarrow> False"
  by (auto simp: mk_rep_def)

lemma Color_not [simp]: "c \<noteq> Black \<longleftrightarrow> c = Red" "c \<noteq> Red \<longleftrightarrow> c = Black"
  by (cases c; simp)+

lemma OppositeColor_simps [simp]:
  "OppositeColor c = Red \<longleftrightarrow> c = Black" "OppositeColor c = Black \<longleftrightarrow> c = Red"
  by (cases c; simp)+

lemma red_cases: "red n \<Longrightarrow> (\<And>e s l r. n = Node e Red s l r \<Longrightarrow> P) \<Longrightarrow> P"
  by (cases n) auto

lemma entries_RotateLeft [simp]: "llrb_entries (RotateLeft n) = llrb_entries n"
  by (induction n rule: RotateLeft.induct) auto

lemma entries_RotateRight [simp]: "llrb_entries (RotateRight n) = llrb_entries n"
  by (induction n rule: RotateRight.induct) auto

lemma entries_FlipColor [simp]: "llrb_entries (FlipColor n) = llrb_entries n"
  by (induction n rule: FlipColor.induct) auto

lemma entries_FixUp [simp]: "llrb_entries (FixUp n) = llrb_entries n"
  by (cases n) (auto simp: Let_def)

lemma size_entries: "sizes_exact n \<Longrightarrow> llrb_size n = length (llrb_entries n)"
  by (induction n) auto

lemma black_height_0: "good n \<Longrightarrow> black_height n = 0 \<Longrightarrow> \<not> red n \<Longrightarrow> n = Empty"
  by (cases n) (auto split: if_splits)

lemma empty_iff: "llrb_empty n \<longleftrightarrow> n = Empty"
  by (cases n) auto

text \<open>What \<open>FixUp\<close> does on each of the shapes that occur.\<close>

lemma FixUp_plain:
  "\<not> red r \<Longrightarrow> \<not> (red l \<and> red (left l)) \<Longrightarrow> FixUp (Node e c s l r) = mk_rep e c l r"
  by (auto simp: Let_def mk_rep_def)

lemma FixUp_rotate_left:
  "\<not> red l \<Longrightarrow> \<not> red rr \<Longrightarrow> FixUp (Node e c s l (Node re Red rs rl rr)) =
     Node re c (llrb_size l + 1 + rs) (mk_rep e Red l rl) rr"
  by (auto simp: Let_def)

lemma FixUp_flip:
  "\<not> red ll \<Longrightarrow> FixUp (Node e c s (Node le Red ls ll lr) (Node re Red rs rl rr)) =
     Node e (OppositeColor c) (ls + 1 + rs) (Node le Black ls ll lr) (Node re Black rs rl rr)"
  by (auto simp: Let_def)

lemma FixUp_rotate_right:
  "\<not> red r \<Longrightarrow> FixUp (Node e c s (Node le Red ls (Node lle Red lls lll llr) lr) r) =
     Node le (OppositeColor c) (ls + 1 + llrb_size r) (Node lle Black lls lll llr)
       (Node e Black (llrb_size lr + 1 + llrb_size r) lr r)"
  by (auto simp: Let_def mk_rep_def)

lemmas FixUp_shapes = FixUp_plain FixUp_rotate_left FixUp_flip FixUp_rotate_right

declare FixUp.simps(2) [simp del]

text \<open>
  The repair step after a change below a node.  During an insertion the changed subtree
  may be a red node with a red left child (\<open>nearly\<close>), which only happens under a black
  parent; a deletion leaves two valid subtrees.
\<close>

fun nearly :: "('k, 'v) LlrbNode \<Rightarrow> bool" where
  "nearly Empty = True"
| "nearly (Node e c s l r) = (\<not> red r \<and> good l \<and> good r \<and>
     black_height l = black_height r \<and> s = llrb_size l + 1 + llrb_size r)"

lemma FixUp_good_right:
  assumes "good l" "good r" "black_height l = black_height r" "c = Red \<longrightarrow> \<not> red l"
  shows "nearly (FixUp (Node e c s l r)) \<and>
    black_height (FixUp (Node e c s l r)) = (if c = Black then Suc (black_height l) else black_height l) \<and>
    (c = Black \<or> \<not> red r \<longrightarrow> good (FixUp (Node e c s l r))) \<and>
    (c = Black \<and> \<not> (red l \<and> red r) \<longrightarrow> \<not> red (FixUp (Node e c s l r)))"
proof (cases "red r")
  case True
  then obtain re rs rl rr where r: "r = Node re Red rs rl rr" by (rule red_cases)
  show ?thesis
  proof (cases "red l")
    case True
    then obtain le ls ll lr where "l = Node le Red ls ll lr" by (rule red_cases)
    with r assms show ?thesis by (auto simp: FixUp_flip)
  next
    case False
    with r assms show ?thesis by (auto simp: FixUp_rotate_left)
  qed
next
  case False
  then have "FixUp (Node e c s l r) = mk_rep e c l r"
    using assms by (cases l) (auto simp: FixUp_plain)
  with False assms show ?thesis by (auto simp: mk_rep_def)
qed

lemma FixUp_nearly_left:
  assumes "nearly l" "good r" "black_height l = black_height r" "\<not> red r" "c = Red \<longrightarrow> good l"
  shows "nearly (FixUp (Node e c s l r)) \<and>
    black_height (FixUp (Node e c s l r)) = (if c = Black then Suc (black_height l) else black_height l) \<and>
    (c = Black \<longrightarrow> good (FixUp (Node e c s l r)))"
proof (cases "red l \<and> red (left l)")
  case True
  then obtain le ls ll lr where l: "l = Node le Red ls ll lr" and "red ll"
    by (auto elim: red_cases)
  then obtain lle lls lll llr where "ll = Node lle Red lls lll llr" by (auto elim: red_cases)
  with l assms show ?thesis by (auto simp: FixUp_rotate_right)
next
  case False
  then have "FixUp (Node e c s l r) = mk_rep e c l r"
    using assms by (simp add: FixUp_plain)
  moreover have "good l" using False assms by (cases l) auto
  ultimately show ?thesis using assms by (auto simp: mk_rep_def)
qed

lemma good_nearly: "good n \<Longrightarrow> nearly n"
  by (cases n) auto

lemma nearly_root: "nearly n \<Longrightarrow> good (FixRootColor n)"
  by (cases n) (auto simp: FixRootColor_def)

section \<open>Insertion keeps the invariant\<close>

lemma InnerInsert_nearly:
  "good n \<Longrightarrow> nearly (InnerInsert cmp k v n) \<and>
     black_height (InnerInsert cmp k v n) = black_height n \<and>
     (\<not> red n \<and> n \<noteq> Empty \<longrightarrow> good (InnerInsert cmp k v n))
   \<and> (n = Empty \<longrightarrow> good (InnerInsert cmp k v n))"
proof (induction n)
  case Empty
  then show ?case by (simp add: mk_rep_def)
next
  case (Node e c s l r)
  then have l: "nearly (InnerInsert cmp k v l)" "black_height (InnerInsert cmp k v l) = black_height l"
      "c = Red \<Longrightarrow> good (InnerInsert cmp k v l)"
    and r: "nearly (InnerInsert cmp k v r)" "black_height (InnerInsert cmp k v r) = black_height r"
      "good (InnerInsert cmp k v r)"
    by auto
  show ?case
  proof (cases "cmp (fst e) k")
    case Ascending
    then show ?thesis
      using Node.prems r FixUp_good_right [of l "InnerInsert cmp k v r" c e s] by auto
  next
    case Descending
    then show ?thesis
      using Node.prems l FixUp_nearly_left [of "InnerInsert cmp k v l" r c e s] by auto
  next
    case Same
    then show ?thesis using Node.prems by auto
  qed
qed

context comparator
begin

lemma entries_InnerInsert:
  "sorted_entries cmp (llrb_entries n) \<Longrightarrow>
   llrb_entries (InnerInsert cmp k v n) = insert_entries True cmp k v (llrb_entries n)"
proof (induction n)
  case Empty
  then show ?case by simp
next
  case (Node e c s l r)
  show ?case
  proof (cases "cmp (fst e) k")
    case Ascending
    then have "\<forall>f \<in> set (llrb_entries l). cmp (fst f) k = Ascending"
      using Node.prems by (auto intro: lt_trans)
    with Ascending show ?thesis using Node by (simp add: insert_entries_below)
  next
    case Descending
    with Node show ?thesis by (simp add: insert_entries_above)
  next
    case Same
    then have "\<forall>f \<in> set (llrb_entries l). cmp (fst f) k = Ascending"
      using Node.prems by (auto intro: lt_same)
    with Same show ?thesis by (simp add: insert_entries_below)
  qed
qed

lemma entries_FixRootColor [simp]: "llrb_entries (FixRootColor n) = llrb_entries n"
  by (cases n) (auto simp: FixRootColor_def)

lemma llrb_insert_ok:
  assumes "llrb_inv cmp n"
  shows "llrb_inv cmp (llrb_insert cmp k v n)"
    and "llrb_entries (llrb_insert cmp k v n) = insert_entries True cmp k v (llrb_entries n)"
proof -
  show e: "llrb_entries (llrb_insert cmp k v n) = insert_entries True cmp k v (llrb_entries n)"
    using assms by (simp add: llrb_insert_def llrb_inv_def entries_InnerInsert)
  have "good (llrb_insert cmp k v n)"
    using assms InnerInsert_nearly [of n cmp k v] by (simp add: llrb_insert_def llrb_inv_def nearly_root)
  moreover have "\<not> red (llrb_insert cmp k v n)"
    by (cases "InnerInsert cmp k v n") (auto simp: llrb_insert_def FixRootColor_def)
  ultimately show "llrb_inv cmp (llrb_insert cmp k v n)"
    using assms by (simp add: llrb_inv_def e sorted_insert_entries)
qed

end

section \<open>Deletion keeps the invariant and removes exactly the key\<close>

lemma MoveRedLeft_ok:
  assumes "good (Node e Red s l r)" "l \<noteq> Empty" "\<not> red (left l)"
  obtains e' c' s' l' r' where "MoveRedLeft (Node e Red s l r) = Some (Node e' c' s' l' r')"
    "llrb_entries l' @ e' # llrb_entries r' = llrb_entries l @ e # llrb_entries r"
    "good l'" "good r'" "black_height l' = black_height r'" "l' \<noteq> Empty"
    "red l' \<or> red (left l')" "c' = Red \<longrightarrow> \<not> red l' \<and> \<not> red r'"
    "(if c' = Black then Suc (black_height l') else black_height l') = black_height l"
    "set (e' # llrb_entries r') \<subseteq> set (e # llrb_entries r)"
proof -
  obtain le ls ll lr where l: "l = Node le Black ls ll lr"
    using assms by (cases l) auto
  with assms obtain re rs rl rr where r: "r = Node re Black rs rl rr"
    by (cases r) auto
  show ?thesis
  proof (cases "red rl")
    case True
    then obtain rle rls rll rlr where rl: "rl = Node rle Red rls rll rlr" by (rule red_cases)
    have "MoveRedLeft (Node e Red s l r) = Some (Node rle Red s
        (mk_rep e Black (set_color Red l) rll) (mk_rep re Black rlr rr))"
      using l r rl by (simp add: MoveRedLeft_def Let_def mk_rep_def)
    then show ?thesis
      by (rule that) (use l r rl assms in \<open>auto simp: mk_rep_def\<close>)
  next
    case False
    then have "MoveRedLeft (Node e Red s l r) = Some (Node e Black s (set_color Red l) (set_color Red r))"
      using l r by (simp add: MoveRedLeft_def Let_def)
    then show ?thesis
      by (rule that) (use l r False assms in auto)
  qed
qed

text \<open>
  \<open>MoveRedRight\<close> either leaves the entry in place with two red children, or moves the
  entry into the right subtree, above a red right child.
\<close>

lemma MoveRedRight_ok:
  assumes "good (Node e Red s l r)" "r \<noteq> Empty" "\<not> red (left r)"
  obtains
    (stay) l' r' where "MoveRedRight (Node e Red s l r) = Some (Node e Black s l' r')"
      "llrb_entries l' = llrb_entries l" "llrb_entries r' = llrb_entries r"
      "good l'" "good r'" "black_height l' = black_height r'" "red l'" "red r'" "r' \<noteq> Empty"
      "Suc (black_height l') = black_height l"
  | (move) e' l' s' s2 lr r' where
      "MoveRedRight (Node e Red s l r) = Some (Node e' Red s' l' (Node e Black s2 lr r'))"
      "llrb_entries l @ e # llrb_entries r = llrb_entries l' @ e' # llrb_entries lr @ e # llrb_entries r'"
      "good l'" "good lr" "good r'" "black_height lr = black_height r'" "\<not> red l'" "\<not> red lr" "red r'"
      "black_height l' = Suc (black_height lr)" "black_height l' = black_height l"
proof -
  obtain re rs rl rr where r: "r = Node re Black rs rl rr"
    using assms by (cases r) auto
  with assms obtain le ls ll lr where l: "l = Node le Black ls ll lr"
    by (cases l) auto
  show ?thesis
  proof (cases "red ll")
    case True
    then obtain lle lls lll llr where ll: "ll = Node lle Red lls lll llr" by (rule red_cases)
    have "MoveRedRight (Node e Red s l r) = Some (Node le Red s (set_color Black ll)
        (Node e Black (llrb_size lr + 1 + rs) lr (set_color Red r)))"
      using l r ll by (simp add: MoveRedRight_def Let_def mk_rep_def)
    then show ?thesis
      by (rule move) (use l r ll assms in auto)
  next
    case False
    then have "MoveRedRight (Node e Red s l r) = Some (Node e Black s (set_color Red l) (set_color Red r))"
      using l r by (simp add: MoveRedRight_def Let_def)
    then show ?thesis
      by (rule stay) (use l r False assms in auto)
  qed
qed

lemma RemoveMin_ok:
  "good n \<Longrightarrow> n \<noteq> Empty \<Longrightarrow> red n \<or> red (left n) \<Longrightarrow>
   \<exists>n'. RemoveMin n = Some n' \<and> good n' \<and> black_height n' = black_height n \<and>
     (\<not> red n \<longrightarrow> \<not> red n') \<and> llrb_entries n' = tl (llrb_entries n)"
proof (induction n rule: RemoveMin.induct)
  case (1 n)
  then obtain e c s l r where n: "n = Node e c s l r" by (cases n) auto
  show ?case
  proof (cases "l = Empty")
    case True
    then have "r = Empty" and "c = Red" using 1 n by (auto intro: black_height_0)
    moreover have "RemoveMin n = Some Empty"
      unfolding n True by (subst RemoveMin.simps) simp
    ultimately show ?thesis using True n by auto
  next
    case False
    let ?s = "if \<not> red l \<and> \<not> red (left l) then MoveRedLeft n else Some n"
    obtain e' c' s' l' r' where n': "?s = Some (Node e' c' s' l' r')"
        and ent: "llrb_entries l' @ e' # llrb_entries r' = llrb_entries l @ e # llrb_entries r"
        and g: "good l'" "good r'" "black_height l' = black_height r'" "l' \<noteq> Empty"
        and rl: "red l' \<or> red (left l')" and cr: "c' = Red \<longrightarrow> \<not> red l' \<and> \<not> red r'"
        and bh: "(if c' = Black then Suc (black_height l') else black_height l') = black_height n"
        and cb: "c = Black \<longrightarrow> c' = Black \<and> \<not> red r'"
    proof (cases "\<not> red l \<and> \<not> red (left l)")
      case True
      with 1 n have "c = Red" by auto
      show ?thesis
      proof (rule MoveRedLeft_ok [of e s l r])
        show "good (Node e Red s l r)" using 1 n \<open>c = Red\<close> by simp
      qed (use True False n \<open>c = Red\<close> that in auto)
    next
      case F: False
      with False 1 n show ?thesis
        by (intro that [of e c s l r]) auto
    qed
    have "\<exists>x. RemoveMin l' = Some x \<and> good x \<and> black_height x = black_height l' \<and>
      (\<not> red l' \<longrightarrow> \<not> red x) \<and> llrb_entries x = tl (llrb_entries l')"
      using "1.IH" [of "Node e' c' s' l' r'"] n n' False g rl by (auto simp: empty_iff)
    then obtain x where x: "RemoveMin l' = Some x" "good x" "black_height x = black_height l'"
      "\<not> red l' \<longrightarrow> \<not> red x" "llrb_entries x = tl (llrb_entries l')" by auto
    have "RemoveMin n = Some (FixUp (Node e' c' s' x r'))"
      unfolding n using RemoveMin.simps [of "Node e c s l r"] n' [unfolded n] x False
      by (simp add: empty_iff)
    moreover have "llrb_entries x @ e' # llrb_entries r' = tl (llrb_entries n)"
    proof -
      have "llrb_entries l' \<noteq> []" using g(4) by (cases l') auto
      then show ?thesis using x(5) ent n by (metis hd_Cons_tl llrb_entries.simps(2) list.sel(3) append_Cons)
    qed
    ultimately show ?thesis
      using FixUp_good_right [of x r' c' e' s'] x g cr bh cb n by auto
  qed
qed


lemma entry_min: "n \<noteq> Empty \<Longrightarrow> node_entry (llrb_min n) = hd (llrb_entries n)"
proof (induction n)
  case (Node e c s l r)
  then show ?case by (cases l) (auto simp: hd_append)
qed simp

lemma InnerErase_Empty [simp]: "InnerErase cmp key Empty = Some Empty"
  by (subst InnerErase.simps) simp

lemma InnerErase_left:
  "cmp key (fst e) = Ascending \<Longrightarrow> InnerErase cmp key (Node e c s l r) = do {
     n' \<leftarrow> (if \<not> llrb_empty l \<and> \<not> red l \<and> \<not> red (left l)
            then MoveRedLeft (Node e c s l r) else Some (Node e c s l r));
     new_left \<leftarrow> InnerErase cmp key (left n');
     Some (FixUp (set_left new_left n')) }"
  by (subst InnerErase.simps) (simp cong: if_cong)

lemma InnerErase_right:
  "cmp key (fst e) \<noteq> Ascending \<Longrightarrow> InnerErase cmp key (Node e c s l r) =
     (let n1 = (if red l then RotateRight (Node e c s l r) else Node e c s l r) in do {
        n2 \<leftarrow> (if \<not> llrb_empty (right n1) \<and> \<not> red (right n1) \<and> \<not> red (left (right n1))
               then MoveRedRight n1 else Some n1);
        if cmp key (fst (node_entry n2)) = Same then
          (if llrb_empty (right n2) then Some Empty
           else do {
             new_right \<leftarrow> RemoveMin (right n2);
             Some (FixUp (Node (node_entry (llrb_min (right n2))) (node_color n2) (node_size n2)
               (left n2) new_right))
           })
        else do {
          new_right \<leftarrow> InnerErase cmp key (right n2);
          Some (FixUp (set_right new_right n2))
        } })"
  by (subst InnerErase.simps) (simp cong: if_cong)

definition erasable ::
  "('k \<Rightarrow> 'k \<Rightarrow> ComparisonResult) \<Rightarrow> 'k \<Rightarrow> ('k, 'v) LlrbNode \<Rightarrow> bool" where
  "erasable cmp key n \<longleftrightarrow> n = Empty \<or> good n \<and> (red n \<or> red (left n)) \<or>
     (\<exists>e s l r. n = Node e Black s l r \<and> good l \<and> good r \<and> black_height l = black_height r \<and>
        \<not> red l \<and> red r \<and> cmp key (fst e) \<noteq> Ascending)"

lemma erasable_left:
  "erasable cmp key (Node e c s l r) \<Longrightarrow> cmp key (fst e) = Ascending \<Longrightarrow>
   good (Node e c s l r) \<and> (red (Node e c s l r) \<or> red l)"
  unfolding erasable_def by auto

definition erased ::
  "('k \<Rightarrow> 'k \<Rightarrow> ComparisonResult) \<Rightarrow> 'k \<Rightarrow> ('k, 'v) LlrbNode \<Rightarrow> ('k, 'v) LlrbNode \<Rightarrow> bool" where
  "erased cmp key n n' \<longleftrightarrow> good n' \<and> black_height n' = black_height n \<and> (\<not> red n \<longrightarrow> \<not> red n') \<and>
     llrb_entries n' = erase_entries cmp key (llrb_entries n)"

context comparator
begin

text \<open>The tail of \<open>InnerErase\<close> once the node has been prepared for a step to the right.\<close>

lemma erase_right_ok:
  assumes g: "good l" "good r" "black_height l = black_height r" "c = Red \<longrightarrow> \<not> red l \<and> \<not> red r"
    and r: "red r \<or> red (left r)" and key: "cmp key (fst e) \<noteq> Ascending"
    and srt: "sorted_entries cmp (llrb_entries l @ e # llrb_entries r)"
    and IH: "cmp key (fst e) \<noteq> Same \<Longrightarrow> \<exists>r'. InnerErase cmp key r = Some r' \<and> erased cmp key r r'"
  shows "\<exists>n'. (if cmp key (fst e) = Same then
          (if llrb_empty r then Some Empty
           else do {
             new_right \<leftarrow> RemoveMin r;
             Some (FixUp (Node (node_entry (llrb_min r)) c s l new_right))
           })
        else do {
          new_right \<leftarrow> InnerErase cmp key r;
          Some (FixUp (Node e c s l new_right))
        }) = Some n' \<and>
     good n' \<and> black_height n' = (if c = Black then Suc (black_height l) else black_height l) \<and>
     (c = Black \<and> \<not> red l \<longrightarrow> \<not> red n') \<and>
     llrb_entries n' = erase_entries cmp key (llrb_entries l @ e # llrb_entries r)"
proof (cases "cmp key (fst e) = Same")
  case True
  have ne: "r \<noteq> Empty" using r by auto
  then obtain r' where r': "RemoveMin r = Some r'" "good r'" "black_height r' = black_height r"
      "\<not> red r \<longrightarrow> \<not> red r'" "llrb_entries r' = tl (llrb_entries r)"
    using RemoveMin_ok [of r] g r by auto
  have "llrb_entries r \<noteq> []" using ne by (cases r) auto
  then have "node_entry (llrb_min r) # llrb_entries r' = llrb_entries r"
    by (simp add: entry_min ne r'(5))
  moreover have eq: "cmp key x = cmp (fst e) x" for x by (rule same_cong [OF True])
  have "\<forall>f \<in> set (llrb_entries l). cmp (fst e) (fst f) = Descending"
    using srt by (auto simp: gt_iff)
  moreover have "\<forall>f \<in> set (llrb_entries r). cmp (fst e) (fst f) = Ascending"
    using srt by auto
  ultimately show ?thesis
    using ne r' g FixUp_good_right [of l r' c "node_entry (llrb_min r)" s]
    by (auto simp: eq cmp_refl empty_iff erase_entries_id)
next
  case False
  then have gt: "cmp (fst e) key = Ascending" using key gt_iff by (cases "cmp key (fst e)") auto
  then have "\<forall>f \<in> set (llrb_entries l). cmp (fst f) key = Ascending"
    using srt by (auto intro: lt_trans)
  then have "\<forall>f \<in> set (llrb_entries l). cmp key (fst f) \<noteq> Same"
    by (auto simp: same_sym)
  moreover obtain r' where "InnerErase cmp key r = Some r'" "erased cmp key r r'"
    using IH False by auto
  ultimately show ?thesis
    using False g FixUp_good_right [of l r' c e s] by (auto simp: erased_def erase_entries_id)
qed

text \<open>The step to the left: everything at and right of the node is above the key.\<close>

lemma erase_left_ok:
  assumes g: "good l" "good r" "black_height l = black_height r" "c = Red \<longrightarrow> \<not> red l \<and> \<not> red r"
    and above: "\<forall>f \<in> set (e # llrb_entries r). cmp key (fst f) = Ascending"
    and l': "InnerErase cmp key l = Some l'" "erased cmp key l l'"
  shows "good (FixUp (Node e c s l' r)) \<and>
     black_height (FixUp (Node e c s l' r)) = (if c = Black then Suc (black_height l) else black_height l) \<and>
     (c = Black \<and> \<not> red r \<longrightarrow> \<not> red (FixUp (Node e c s l' r))) \<and>
     llrb_entries (FixUp (Node e c s l' r)) = erase_entries cmp key (llrb_entries l @ e # llrb_entries r)"
  using FixUp_good_right [of l' r c e s] assms by (auto simp: erased_def erase_entries_id)

lemma InnerErase_left_ok:
  fixes n :: "('a, 'v) LlrbNode"
  assumes n: "n = Node e c s l r" and g: "good n" and lean: "red n \<or> red (left n)"
    and srt: "sorted_entries cmp (llrb_entries n)" and key: "cmp key (fst e) = Ascending"
    and IH: "\<And>m :: ('a, 'v) LlrbNode. node_count m < node_count n \<Longrightarrow> erasable cmp key m \<Longrightarrow>
       sorted_entries cmp (llrb_entries m) \<Longrightarrow> \<exists>m'. InnerErase cmp key m = Some m' \<and> erased cmp key m m'"
  shows "\<exists>n'. InnerErase cmp key n = Some n' \<and> erased cmp key n n'"
proof -
  let ?s = "if \<not> llrb_empty l \<and> \<not> red l \<and> \<not> red (left l) then MoveRedLeft n else Some n"
  obtain e' c' s' l' r' where n': "?s = Some (Node e' c' s' l' r')"
    and ent: "llrb_entries l' @ e' # llrb_entries r' = llrb_entries l @ e # llrb_entries r"
    and g': "good l'" "good r'" "black_height l' = black_height r'"
    and rl: "l' = Empty \<or> red l' \<or> red (left l')" and cr: "c' = Red \<longrightarrow> \<not> red l' \<and> \<not> red r'"
    and bh: "(if c' = Black then Suc (black_height l') else black_height l') = black_height n"
    and cb: "c = Black \<longrightarrow> c' = Black \<and> \<not> red r'"
    and sub: "set (e' # llrb_entries r') \<subseteq> set (e # llrb_entries r)"
  proof (cases "\<not> llrb_empty l \<and> \<not> red l \<and> \<not> red (left l)")
    case True
    with lean n have "c = Red" by auto
    show ?thesis
    proof (rule MoveRedLeft_ok [of e s l r])
      show "good (Node e Red s l r)" using g n \<open>c = Red\<close> by simp
    qed (use True n g \<open>c = Red\<close> that in \<open>auto simp: empty_iff\<close>)
  next
    case F: False
    with n g lean show ?thesis
      by (intro that [of e c s l r]) (auto simp: empty_iff)
  qed
  have eq: "node_count (Node e' c' s' l' r') = node_count n"
    using n' by (auto dest: node_count_MoveRedLeft split: if_splits)
  have "sorted_entries cmp (llrb_entries l' @ e' # llrb_entries r')"
    using srt n ent by simp
  moreover have "erasable cmp key l'" using rl g' by (auto simp: erasable_def)
  ultimately obtain x where x: "InnerErase cmp key l' = Some x" "erased cmp key l' x"
    using IH [of l'] eq by auto
  have "\<forall>f \<in> set (e # llrb_entries r). cmp key (fst f) = Ascending"
    using srt key n by (auto intro: lt_trans)
  with sub have "\<forall>f \<in> set (e' # llrb_entries r'). cmp key (fst f) = Ascending" by blast
  note step = erase_left_ok [OF g' cr this x, of s']
  have "InnerErase cmp key n = Some (FixUp (Node e' c' s' x r'))"
    unfolding n InnerErase_left [of cmp, OF key] n' [unfolded n] using x by simp
  then show ?thesis using step bh cb ent n by (auto simp: erased_def)
qed

lemma InnerErase_right_ok:
  fixes n :: "('a, 'v) LlrbNode"
  assumes n: "n = Node e c s l r" and er: "erasable cmp key n"
    and srt: "sorted_entries cmp (llrb_entries n)" and key: "cmp key (fst e) \<noteq> Ascending"
    and IH: "\<And>m :: ('a, 'v) LlrbNode. node_count m < node_count n \<Longrightarrow> erasable cmp key m \<Longrightarrow>
       sorted_entries cmp (llrb_entries m) \<Longrightarrow> \<exists>m'. InnerErase cmp key m = Some m' \<and> erased cmp key m m'"
  shows "\<exists>n'. InnerErase cmp key n = Some n' \<and> erased cmp key n n'"
proof (cases "red l")
  case True
  then obtain le ls ll lr where l: "l = Node le Red ls ll lr" by (rule red_cases)
  with er n have g: "good n" "c = Black" by (auto simp: erasable_def)
  let ?r = "mk_rep e Red lr r"
  have lt: "cmp (fst le) key = Ascending"
    using srt n l key by (auto intro: lt_le_trans simp: gt_iff)
  have "\<exists>r'. InnerErase cmp key ?r = Some r' \<and> erased cmp key ?r r'"
    using IH [of ?r] n l g srt
    by (auto simp: erasable_def mk_rep_def [of e Red lr r])
  moreover have "cmp key (fst le) = Descending" using lt gt_iff by blast
  ultimately show ?thesis
    using erase_right_ok [of ll ?r Black key le s] n l g srt
    by (auto simp: InnerErase_right [of cmp key e, OF key] erased_def)
next
  case nl: False
  show ?thesis
  proof (cases "r = Empty")
    case True
    then have l: "l = Empty"
      using er n nl by (auto simp: erasable_def intro: black_height_0)
    with True er n have "c = Red" "s = 1" by (auto simp: erasable_def)
    then show ?thesis
      using l True n key by (auto simp: InnerErase_right [of cmp, OF key] erased_def FixUp_plain mk_rep_def)
  next
    case ne: False
    show ?thesis
    proof (cases "red r \<or> red (left r)")
      case True
      then have g: "good l" "good r" "black_height l = black_height r" "c = Red \<longrightarrow> \<not> red l \<and> \<not> red r"
        using er n nl by (auto simp: erasable_def)
      have r: "cmp key (fst e) \<noteq> Same \<Longrightarrow> \<exists>r'. InnerErase cmp key r = Some r' \<and> erased cmp key r r'"
        using IH [of r] n g True srt key
        by (cases r) (auto simp: erasable_def)
      show ?thesis
        using erase_right_ok [of l r c key e s, OF g True key] r srt n nl True key
        by (auto simp: InnerErase_right [of cmp, OF key] erased_def empty_iff Let_def)
    next
      case F: False
      then have g: "good n" and c: "c = Red" using er n nl ne by (auto simp: erasable_def)
      have un: "InnerErase cmp key n = do {
          n2 \<leftarrow> MoveRedRight n;
          if cmp key (fst (node_entry n2)) = Same then
            (if llrb_empty (right n2) then Some Empty
             else do {
               new_right \<leftarrow> RemoveMin (right n2);
               Some (FixUp (Node (node_entry (llrb_min (right n2))) (node_color n2) (node_size n2)
                 (left n2) new_right))
             })
          else do {
            new_right \<leftarrow> InnerErase cmp key (right n2);
            Some (FixUp (set_right new_right n2))
          } }"
        using n F nl ne key by (simp add: InnerErase_right [of cmp, OF key] empty_iff)
      from g n c have g': "good (Node e Red s l r)" by simp
      from F have "\<not> red (left r)" by simp
      from g' ne this show ?thesis
      proof (cases rule: MoveRedRight_ok)
        case (stay l' r')
        have cnt: "node_count (Node e Black s l' r') = node_count n"
          using stay(1) n c node_count_MoveRedRight by blast
        have "cmp key (fst e) \<noteq> Same \<Longrightarrow> \<exists>x. InnerErase cmp key r' = Some x \<and> erased cmp key r' x"
          using IH [of r'] cnt stay n srt by (auto simp: erasable_def)
        then show ?thesis
          using erase_right_ok [of l' r' Black key e s] stay srt n key c un
          by (auto simp: erased_def)
      next
        case (move e' l' s' s2 lr r')
        let ?r = "Node e Black s2 lr r'"
        have cnt: "node_count (Node e' Red s' l' ?r) = node_count n"
          using move(1) n c node_count_MoveRedRight by blast
        have srt': "sorted_entries cmp (llrb_entries l' @ e' # llrb_entries ?r)"
          using srt n move(2) by simp
        then have lt: "cmp (fst e') key = Ascending"
          using key by (auto intro: lt_le_trans simp: gt_iff)
        have er': "erasable cmp key ?r" using move key by (auto simp: erasable_def)
        obtain x where x: "InnerErase cmp key ?r = Some x" "erased cmp key ?r x"
          using IH [of ?r] cnt srt' er' by auto
        have "\<forall>f \<in> set (llrb_entries l' @ [e']). cmp (fst f) key = Ascending"
          using srt' lt by (auto intro: lt_trans)
        then have "\<forall>f \<in> set (llrb_entries l' @ [e']). cmp key (fst f) = Descending"
          by (simp add: gt_iff)
        moreover have "\<not> red x" using x(2) by (simp add: erased_def)
        ultimately have "erased cmp key n (FixUp (Node e' Red s' l' x))"
          using x move n c FixUp_good_right [of l' x Red e' s']
          by (auto simp: erased_def erase_entries_id simp flip: append_assoc)
        moreover have "cmp key (fst e') = Descending" using lt gt_iff by blast
        ultimately show ?thesis using x move(1) n c un by auto
      qed
    qed
  qed
qed

lemma InnerErase_ok:
  "erasable cmp key n \<Longrightarrow> sorted_entries cmp (llrb_entries n) \<Longrightarrow>
   \<exists>n'. InnerErase cmp key n = Some n' \<and> erased cmp key n n'"
proof (induction "node_count n" arbitrary: n rule: less_induct)
  case less
  show ?case
  proof (cases n)
    case Empty
    then show ?thesis by (simp add: erased_def)
  next
    case (Node e c s l r)
    show ?thesis
    proof (cases "cmp key (fst e) = Ascending")
      case True
      then have "good n" "red n \<or> red (left n)"
        using erasable_left [of cmp key e c s l r] less.prems(1) Node by simp_all
      from InnerErase_left_ok [OF Node this less.prems(2) True less.hyps] show ?thesis .
    next
      case False
      from InnerErase_right_ok [OF Node less.prems False less.hyps] show ?thesis .
    qed
  qed
qed

end

text \<open>
  At a black root with two black children the code starts the descent without the root
  being red.  The color of the node itself decides nothing on its own level, so this is
  the same run as from the root painted red, up to the color of the resulting root.
\<close>

definition recolored :: "('k, 'v) LlrbNode \<Rightarrow> ('k, 'v) LlrbNode \<Rightarrow> bool" where
  "recolored m n \<longleftrightarrow> set_color Black m = set_color Black n"

lemma recolored_refl [simp]: "recolored n n"
  by (simp add: recolored_def)

lemma recolored_Node: "recolored (Node e c s l r) m \<longleftrightarrow> (\<exists>d. m = Node e d s l r)"
  by (cases m) (auto simp: recolored_def)

lemma recolored_cases:
  assumes "recolored m n"
  obtains "m = Empty" "n = Empty" | e c d s l r where "m = Node e c s l r" "n = Node e d s l r"
  using assms by (cases m; cases n) (auto simp: recolored_def)

lemma recolored_parts:
  "recolored m n \<Longrightarrow> left m = left n" "recolored m n \<Longrightarrow> right m = right n"
  "recolored m n \<Longrightarrow> llrb_empty m = llrb_empty n" "recolored m n \<Longrightarrow> node_size m = node_size n"
  "recolored m n \<Longrightarrow> node_entry m = node_entry n"
  by (auto elim!: recolored_cases)

lemma recolored_set:
  "recolored m n \<Longrightarrow> recolored (set_left x m) (set_left x n)"
  "recolored m n \<Longrightarrow> recolored (set_right x m) (set_right x n)"
  by (erule recolored_cases; simp add: recolored_def)+

lemma recolored_RotateLeft: "recolored m n \<Longrightarrow> recolored (RotateLeft m) (RotateLeft n)"
  by (erule recolored_cases, simp, rename_tac e c d s l r, case_tac r) (auto simp: recolored_def)

lemma recolored_RotateRight: "recolored m n \<Longrightarrow> recolored (RotateRight m) (RotateRight n)"
  by (erule recolored_cases, simp, rename_tac e c d s l r, case_tac l) (auto simp: recolored_def)

lemma recolored_FlipColor: "recolored m n \<Longrightarrow> recolored (FlipColor m) (FlipColor n)"
  by (erule recolored_cases, simp, rename_tac e c d s l r, case_tac l; case_tac r)
    (auto simp: recolored_def)

lemma recolored_if: "recolored a b \<Longrightarrow> recolored c d \<Longrightarrow> recolored (if P then a else c) (if P then b else d)"
  by simp

lemma recolored_FixUp:
  assumes "recolored m n"
  shows "recolored (FixUp m) (FixUp n)"
proof (cases rule: recolored_cases [OF assms])
  case (2 e c d s l r)
  define m0 where "m0 = Node e c (llrb_size l + 1 + llrb_size r) l r"
  define n0 where "n0 = Node e d (llrb_size l + 1 + llrb_size r) l r"
  define f where "f x = (if red (right x) \<and> \<not> red (left x) then RotateLeft x else x)" for x :: "('a, 'b) LlrbNode"
  define g where "g x = (if red (left x) \<and> red (left (left x)) then RotateRight x else x)" for x :: "('a, 'b) LlrbNode"
  define h where "h x = (if red (left x) \<and> red (right x) then FlipColor x else x)" for x :: "('a, 'b) LlrbNode"
  have f: "recolored x y \<Longrightarrow> recolored (f x) (f y)" for x y
    by (simp add: f_def recolored_parts recolored_RotateLeft)
  have g: "recolored x y \<Longrightarrow> recolored (g x) (g y)" for x y
    by (simp add: g_def recolored_parts recolored_RotateRight)
  have h: "recolored x y \<Longrightarrow> recolored (h x) (h y)" for x y
    by (simp add: h_def recolored_parts recolored_FlipColor)
  have "recolored m0 n0" by (simp add: m0_def n0_def recolored_def)
  then have "recolored (h (g (f m0))) (h (g (f n0)))" by (intro f g h)
  then show ?thesis
    by (simp only: 2 FixUp.simps(2) Let_def f_def g_def h_def m0_def n0_def)
qed simp

lemma recolored_Move:
  assumes "recolored m n"
  shows "rel_option recolored (MoveRedLeft m) (MoveRedLeft n)"
    and "rel_option recolored (MoveRedRight m) (MoveRedRight n)"
proof -
  have f: "recolored (FlipColor m) (FlipColor n)" using assms by (rule recolored_FlipColor)
  show "rel_option recolored (MoveRedLeft m) (MoveRedLeft n)"
    using f assms
    by (auto simp: MoveRedLeft_def Let_def recolored_parts
        intro!: recolored_FlipColor recolored_RotateLeft recolored_set)
  show "rel_option recolored (MoveRedRight m) (MoveRedRight n)"
    using f assms
    by (auto simp: MoveRedRight_def Let_def recolored_parts
        intro!: recolored_FlipColor recolored_RotateRight)
qed

lemma rel_option_bind:
  "rel_option R x y \<Longrightarrow> (\<And>a b. R a b \<Longrightarrow> rel_option S (f a) (g b)) \<Longrightarrow>
   rel_option S (Option.bind x f) (Option.bind y g)"
  by (cases x; cases y) auto

lemma rel_option_bind_same:
  "(\<And>a. x = Some a \<Longrightarrow> rel_option S (f a) (g a)) \<Longrightarrow>
   rel_option S (Option.bind x f) (Option.bind x g)"
  by (cases x) auto

lemma recolored_InnerErase:
  "rel_option recolored (InnerErase cmp key (Node e c s l r)) (InnerErase cmp key (Node e d s l r))"
proof -
  have mn: "recolored (Node e c s l r) (Node e d s l r)" by (simp add: recolored_def)
  show ?thesis
  proof (cases "cmp key (fst e) = Ascending")
    case True
    show ?thesis
      unfolding InnerErase_left [of cmp, OF True]
      by (rule rel_option_bind [where R = recolored])
        (auto simp: mn recolored_Move recolored_parts intro!: rel_option_bind_same recolored_FixUp recolored_set)
  next
    case False
    show ?thesis
      unfolding InnerErase_right [of cmp, OF False] Let_def
      using mn recolored_RotateRight [OF mn]
      by (intro rel_option_bind [where R = recolored])
        (auto simp: recolored_Move recolored_parts recolored_def [of "Node _ _ _ _ _"]
          intro!: rel_option_bind_same recolored_FixUp recolored_set)
  qed
qed

lemma FixRootColor_recolored: "recolored m n \<Longrightarrow> FixRootColor m = FixRootColor n"
  by (erule recolored_cases) (auto simp: FixRootColor_def)

context comparator
begin

lemma llrb_erase_ok:
  assumes "llrb_inv cmp n"
  shows "\<exists>n'. llrb_erase cmp k n = Some n' \<and> llrb_inv cmp n' \<and>
    llrb_entries n' = erase_entries cmp k (llrb_entries n)"
proof (cases n)
  case Empty
  then show ?thesis by (simp add: llrb_erase_def llrb_inv_def FixRootColor_def)
next
  case (Node e c s l r)
  then have g: "good (Node e Black s l r)" and c: "c = Black"
    and srt: "sorted_entries cmp (llrb_entries n)"
    using assms by (auto simp: llrb_inv_def)
  obtain d where d: "erasable cmp k (Node e d s l r)" "good (Node e d s l r)"
  proof (cases "red l")
    case True
    with g show ?thesis by (intro that [of Black]) (auto simp: erasable_def)
  next
    case False
    with g show ?thesis by (intro that [of Red]) (auto simp: erasable_def)
  qed
  then obtain x where x: "InnerErase cmp k (Node e d s l r) = Some x" "erased cmp k (Node e d s l r) x"
    using InnerErase_ok [OF d(1)] srt Node by auto
  then obtain y where y: "InnerErase cmp k n = Some y" "recolored y x"
    using recolored_InnerErase [of cmp k e c s l r d] Node by (auto simp: option_rel_Some2)
  then have "llrb_erase cmp k n = Some (FixRootColor x)"
    by (simp add: llrb_erase_def FixRootColor_recolored)
  moreover have "good (FixRootColor x)" "\<not> red (FixRootColor x)"
    using x(2) by (cases x; auto simp: FixRootColor_def erased_def)+
  moreover have "llrb_entries (FixRootColor x) = erase_entries cmp k (llrb_entries n)"
    using x(2) Node by (simp add: erased_def)
  ultimately show ?thesis using srt by (simp add: llrb_inv_def sorted_erase_entries)
qed

end

section \<open>Height\<close>

fun llrb_height :: "('k, 'v) LlrbNode \<Rightarrow> nat" where
  "llrb_height Empty = 0"
| "llrb_height (Node e c s l r) = Suc (max (llrb_height l) (llrb_height r))"

lemma height_black_height:
  "good n \<Longrightarrow> llrb_height n \<le> 2 * black_height n + (if red n then 1 else 0)"
  by (induction n) (auto split: if_splits)

lemma black_height_size: "good n \<Longrightarrow> 2 ^ black_height n \<le> llrb_size n + 1"
proof (induction n)
  case (Node e c s l r)
  then have "2 ^ black_height l \<le> llrb_size l + 1" "2 ^ black_height l \<le> llrb_size r + 1" by auto
  then show ?case using Node.prems by auto
qed simp

section \<open>Properties\<close>

text \<open>C1: Erasing a key from a red-black tree that satisfies the invariant (left-leaning,
  no red child of a red left spine node, equal black heights, exact sizes, black root, keys
  ascending) always succeeds, keeps the invariant, and removes exactly the entry whose key
  compares equal, whatever the key.\<close>

theorem llrb_erase_correct:
  assumes "comparator cmp" and "llrb_inv cmp n"
  shows "\<exists>n'. llrb_erase cmp key n = Some n' \<and> llrb_inv cmp n' \<and>
    llrb_entries n' = filter (\<lambda>e. cmp key (fst e) \<noteq> Same) (llrb_entries n)"
  using comparator.llrb_erase_ok [OF assms] by (simp add: erase_entries_def)

theorem llrb_erase_correct_witness:
  "\<exists>n'. llrb_erase DefaultCompare (2 :: int)
       (Node (2, ''b'') Black 3 (Node (1, ''a'') Black 1 Empty Empty) (Node (3, ''c'') Black 1 Empty Empty)) = Some n' \<and>
     llrb_entries n' = [(1, ''a''), (3, ''c'')]"
  using llrb_erase_correct [OF comparator_DefaultCompare,
      of "Node (2, ''b'') Black 3 (Node (1, ''a'') Black 1 Empty Empty) (Node (3, ''c'') Black 1 Empty Empty)" "2 :: int"]
  by (auto simp: llrb_inv_def DefaultCompare_simps)

text \<open>Inserting into a valid red-black tree keeps the invariant, and the entry list is
  the old one with the value overwritten where the key was present and the new pair at its
  sorted place where it was not.\<close>

theorem llrb_insert_correct:
  assumes "comparator cmp" and "llrb_inv cmp n"
  shows "llrb_inv cmp (llrb_insert cmp key value n) \<and>
    llrb_entries (llrb_insert cmp key value n) = insert_entries True cmp key value (llrb_entries n)"
  using comparator.llrb_insert_ok [OF assms] by blast

theorem llrb_insert_correct_witness:
  "llrb_inv DefaultCompare (llrb_insert DefaultCompare (5 :: int) ''e''
     (Node (2, ''b'') Black 2 (Node (1, ''a'') Red 1 Empty Empty) Empty)) \<and>
   llrb_entries (llrb_insert DefaultCompare (5 :: int) ''e''
     (Node (2, ''b'') Black 2 (Node (1, ''a'') Red 1 Empty Empty) Empty)) = [(1, ''a''), (2, ''b''), (5, ''e'')]"
  using llrb_insert_correct [OF comparator_DefaultCompare,
      of "Node (2, ''b'') Black 2 (Node (1, ''a'') Red 1 Empty Empty) Empty" "5 :: int" "''e''"]
  by (simp add: llrb_inv_def DefaultCompare_simps insert_entries.simps DefaultCompare_def)

text \<open>The height of a valid tree is at most twice the binary logarithm of the number of
  its entries plus one, so lookups and the stack of an iterator stay logarithmic.\<close>

theorem llrb_height_logarithmic:
  assumes "llrb_inv cmp n"
  shows "2 ^ (llrb_height n div 2) \<le> llrb_size n + 1 \<and> llrb_size n = length (llrb_entries n)"
proof -
  have g: "good n" "\<not> red n" using assms by (auto simp: llrb_inv_def)
  then have "llrb_height n div 2 \<le> black_height n" using height_black_height [of n] by simp
  then have "(2 :: nat) ^ (llrb_height n div 2) \<le> 2 ^ black_height n" by (simp add: power_increasing)
  also have "\<dots> \<le> llrb_size n + 1" using g(1) by (rule black_height_size)
  finally show ?thesis using g by (simp add: good_def size_entries)
qed

theorem llrb_height_logarithmic_witness:
  "(2 :: nat) ^ (llrb_height (Node (2 :: int, ''b'') Black 2 (Node (1, ''a'') Red 1 Empty Empty) Empty) div 2) \<le> 3"
  using llrb_height_logarithmic [of DefaultCompare "Node (2 :: int, ''b'') Black 2 (Node (1, ''a'') Red 1 Empty Empty) Empty"]
  by (simp add: llrb_inv_def DefaultCompare_simps)

end
