(* ===== verification/SortedMap.thy ===== *)
theory SortedMap
  imports LlrbCorrect
begin

text \<open>
  The three sorted maps of \<^verbatim>\<open>immutable/\<close>: the array of at most 25 entries
  (\<^verbatim>\<open>array_sorted_map.h\<close>), the tree (\<^verbatim>\<open>tree_sorted_map.h\<close>, with the iterator of
  \<^verbatim>\<open>llrb_node_iterator.h\<close>) and \<^verbatim>\<open>SortedMap\<close>, which switches from the array to the
  tree when an insertion could overflow the array and back when an erasure empties the
  tree.  A failed \<^verbatim>\<open>HARD_ASSERT\<close> is None.  Each of the three provides the interface
  \<open>ordered_map\<close>.
\<close>

section \<open>FixedArray and ArraySortedMap\<close>

definition kFixedSize :: nat where
  "kFixedSize = 25"

definition FixedArray_append :: "'a list \<Rightarrow> 'a list \<Rightarrow> 'a list option" where
  "FixedArray_append contents src =
     (if length contents + length src \<le> kFixedSize then Some (contents @ src) else None)"

definition array_lower_bound ::
  "('k \<Rightarrow> 'k \<Rightarrow> ComparisonResult) \<Rightarrow> 'k \<Rightarrow> ('k \<times> 'v) list \<Rightarrow> nat" where
  "array_lower_bound cmp key es = length (takeWhile (\<lambda>e. cmp (fst e) key = Ascending) es)"

definition array_insert ::
  "('k \<Rightarrow> 'k \<Rightarrow> ComparisonResult) \<Rightarrow> 'k \<Rightarrow> 'v \<Rightarrow> ('k \<times> 'v) list \<Rightarrow> ('k \<times> 'v) list option" where
  "array_insert cmp key value es =
     (let pos = array_lower_bound cmp key es;
          replacing_entry = (pos \<noteq> length es \<and> cmp key (fst (es ! pos)) = Same)
      in if replacing_entry \<and> value = snd (es ! pos) then Some es
         else do {
           copy \<leftarrow> FixedArray_append [] (take pos es);
           copy \<leftarrow> FixedArray_append copy [(key, value)];
           FixedArray_append copy (if replacing_entry then drop (pos + 1) es else drop pos es)
         })"

fun array_find_index ::
  "('k \<Rightarrow> 'k \<Rightarrow> ComparisonResult) \<Rightarrow> 'k \<Rightarrow> ('k \<times> 'v) list \<Rightarrow> nat option" where
  "array_find_index cmp key [] = None"
| "array_find_index cmp key (e # es) =
     (if cmp key (fst e) = Same then Some 0 else map_option Suc (array_find_index cmp key es))"

definition array_find ::
  "('k \<Rightarrow> 'k \<Rightarrow> ComparisonResult) \<Rightarrow> ('k \<times> 'v) list \<Rightarrow> 'k \<Rightarrow> ('k \<times> 'v) option" where
  "array_find cmp es key = find (\<lambda>e. cmp key (fst e) = Same) es"

definition array_erase ::
  "('k \<Rightarrow> 'k \<Rightarrow> ComparisonResult) \<Rightarrow> 'k \<Rightarrow> ('k \<times> 'v) list \<Rightarrow> ('k \<times> 'v) list option" where
  "array_erase cmp key es =
     (case array_find_index cmp key es of
        None \<Rightarrow> Some es
      | Some pos \<Rightarrow>
          if length es \<le> 1 then Some []
          else do {
            copy \<leftarrow> FixedArray_append [] (take pos es);
            FixedArray_append copy (drop (pos + 1) es)
          })"

definition array_inv :: "('k \<Rightarrow> 'k \<Rightarrow> ComparisonResult) \<Rightarrow> ('k \<times> 'v) list \<Rightarrow> bool" where
  "array_inv cmp es \<longleftrightarrow> sorted_entries cmp es \<and> length es \<le> kFixedSize"

definition array_room :: "('k \<times> 'v) list \<Rightarrow> bool" where
  "array_room es \<longleftrightarrow> length es < kFixedSize"

lemma array_find_index_Some:
  "array_find_index cmp key es = Some i \<Longrightarrow> i < length es \<and> cmp key (fst (es ! i)) = Same"
  by (induction es arbitrary: i) (auto split: if_splits)

lemma array_find_index_None:
  "array_find_index cmp key es = None \<longleftrightarrow> (\<forall>e \<in> set es. cmp key (fst e) \<noteq> Same)"
  by (induction es) auto

lemma dropWhile_downward:
  "sorted_wrt R es \<Longrightarrow> (\<And>x y. R x y \<Longrightarrow> P y \<Longrightarrow> P x) \<Longrightarrow> f \<in> set (dropWhile P es) \<Longrightarrow> \<not> P f"
  by (induction es) (auto split: if_splits)

lemma sorted_split:
  assumes "sorted_entries cmp es" and "i < length es"
  shows "\<forall>e \<in> set (take i es). cmp (fst e) (fst (es ! i)) = Ascending"
    and "\<forall>e \<in> set (drop (Suc i) es). cmp (fst (es ! i)) (fst e) = Ascending"
proof -
  have "sorted_entries cmp (take i es @ es ! i # drop (Suc i) es)"
    using assms by (simp add: id_take_nth_drop [symmetric])
  then show "\<forall>e \<in> set (take i es). cmp (fst e) (fst (es ! i)) = Ascending"
    and "\<forall>e \<in> set (drop (Suc i) es). cmp (fst (es ! i)) (fst e) = Ascending"
    by auto
qed

context comparator
begin

lemma array_erase_ok:
  assumes "array_inv cmp es"
  shows "array_erase cmp k es = Some (erase_entries cmp k es)"
proof (cases "array_find_index cmp k es")
  case None
  then show ?thesis
    using array_find_index_None [of cmp k es] by (simp add: array_erase_def erase_entries_id)
next
  case (Some i)
  then have i: "i < length es" and same: "cmp k (fst (es ! i)) = Same"
    by (auto dest: array_find_index_Some)
  have eq: "cmp k x = cmp (fst (es ! i)) x" for x by (rule same_cong [OF same])
  have es: "es = take i es @ es ! i # drop (Suc i) es"
    using i by (simp add: id_take_nth_drop [symmetric])
  have "\<forall>e \<in> set (take i es). cmp (fst (es ! i)) (fst e) = Descending"
    using sorted_split(1) [of cmp es i] i assms by (auto simp: array_inv_def gt_iff)
  moreover have "\<forall>e \<in> set (drop (Suc i) es). cmp (fst (es ! i)) (fst e) = Ascending"
    using sorted_split(2) [of cmp es i] i assms by (auto simp: array_inv_def)
  ultimately have "erase_entries cmp k (take i es @ es ! i # drop (Suc i) es) = take i es @ drop (Suc i) es"
    by (simp add: eq cmp_refl erase_entries_id)
  then have er: "erase_entries cmp k es = take i es @ drop (Suc i) es"
    using es by simp
  show ?thesis
  proof (cases "length es \<le> 1")
    case True
    with i have "i = 0" "drop (Suc i) es = []" by auto
    with True Some er show ?thesis by (simp add: array_erase_def)
  next
    case False
    with Some er i assms show ?thesis
      by (auto simp: array_erase_def FixedArray_append_def array_inv_def)
  qed
qed

lemma array_lower_bound_split:
  assumes "sorted_entries cmp es"
  shows "\<forall>e \<in> set (take (array_lower_bound cmp k es) es). cmp (fst e) k = Ascending"
    and "\<forall>e \<in> set (drop (array_lower_bound cmp k es) es). cmp (fst e) k \<noteq> Ascending"
proof -
  have "take (array_lower_bound cmp k es) es = takeWhile (\<lambda>e. cmp (fst e) k = Ascending) es"
    by (simp add: array_lower_bound_def takeWhile_eq_take [symmetric])
  then show "\<forall>e \<in> set (take (array_lower_bound cmp k es) es). cmp (fst e) k = Ascending"
    by (auto dest: set_takeWhileD)
  have d: "drop (array_lower_bound cmp k es) es = dropWhile (\<lambda>e. cmp (fst e) k = Ascending) es"
    by (simp add: array_lower_bound_def dropWhile_eq_drop [symmetric])
  show "\<forall>e \<in> set (drop (array_lower_bound cmp k es) es). cmp (fst e) k \<noteq> Ascending"
    unfolding d
    by (rule ballI, rule dropWhile_downward [OF assms [unfolded sorted_entries_def]])
      (erule (1) lt_trans)
qed

text \<open>
  What the array insertion computes: the list insertion that writes the new pair, except
  that an unchanged value leaves the array as it is, with its old key.
\<close>

lemma array_insert_ok:
  assumes inv: "array_inv cmp es" and room: "array_room es"
  shows "\<exists>b. array_insert cmp k v es = Some (insert_entries b cmp k v es)"
proof -
  define pos where "pos = array_lower_bound cmp k es"
  have srt: "sorted_entries cmp es" using inv by (simp add: array_inv_def)
  note lower = array_lower_bound_split [OF srt, of k, folded pos_def]
  have pos_le: "pos \<le> length es"
    by (simp add: pos_def array_lower_bound_def length_takeWhile_le)
  have len: "length es < kFixedSize" using room by (simp add: array_room_def)
  show ?thesis
  proof (cases "pos \<noteq> length es \<and> cmp k (fst (es ! pos)) = Same")
    case True
    then have pos: "pos < length es" and same: "cmp k (fst (es ! pos)) = Same"
      using pos_le by auto
    then have same': "cmp (fst (es ! pos)) k = Same" by (simp add: same_sym)
    have es: "es = take pos es @ es ! pos # drop (Suc pos) es"
      using pos by (simp add: id_take_nth_drop [symmetric])
    have ins: "insert_entries b cmp k v es =
        take pos es @ ((if b then fst (es ! pos) else k), v) # drop (Suc pos) es" for b
      using insert_entries_below [OF lower(1), of b v "es ! pos # drop (Suc pos) es"] es same'
      by simp
    show ?thesis
    proof (cases "v = snd (es ! pos)")
      case True
      then have "insert_entries True cmp k v es = es"
        using ins [of True] es by simp
      with True pos same show ?thesis
        by (intro exI [of _ True]) (simp add: array_insert_def Let_def flip: pos_def)
    next
      case False
      with pos same len ins [of False] show ?thesis
        by (intro exI [of _ False])
          (auto simp: array_insert_def Let_def FixedArray_append_def simp flip: pos_def)
    qed
  next
    case False
    have above: "\<forall>e \<in> set (drop pos es). cmp (fst e) k = Descending"
    proof (cases "pos < length es")
      case True
      with False have "cmp k (fst (es ! pos)) \<noteq> Same" by simp
      moreover have "cmp (fst (es ! pos)) k \<noteq> Ascending"
        using lower(2) True by (simp flip: Cons_nth_drop_Suc)
      ultimately have hd: "cmp (fst (es ! pos)) k = Descending"
        by (cases "cmp (fst (es ! pos)) k") (auto simp: same_sym)
      have "drop pos es = es ! pos # drop (Suc pos) es" using True by (simp add: Cons_nth_drop_Suc)
      moreover have "\<forall>e \<in> set (drop (Suc pos) es). cmp k (fst e) = Ascending"
        using sorted_split(2) [OF srt True] hd by (auto simp: gt_iff intro: lt_trans)
      ultimately show ?thesis using hd by (auto simp: gt_iff)
    qed simp
    have "insert_entries b cmp k v (take pos es @ drop pos es) = take pos es @ (k, v) # drop pos es" for b
      using lower(1) above by (rule insert_entries_split)
    then have "insert_entries b cmp k v es = take pos es @ (k, v) # drop pos es" for b by simp
    with False len pos_le show ?thesis
      by (auto simp: array_insert_def Let_def FixedArray_append_def simp flip: pos_def)
  qed
qed

end

section \<open>The tree iterator\<close>

text \<open>The iterator is its stack of nodes, top first; the empty stack is \<^verbatim>\<open>End()\<close>.\<close>

fun AccumulateLeft ::
  "('k, 'v) LlrbNode \<Rightarrow> ('k, 'v) LlrbNode list \<Rightarrow> ('k, 'v) LlrbNode list" where
  "AccumulateLeft Empty stack = stack"
| "AccumulateLeft (Node e c s l r) stack = AccumulateLeft l (Node e c s l r # stack)"

definition iter_begin :: "('k, 'v) LlrbNode \<Rightarrow> ('k, 'v) LlrbNode list" where
  "iter_begin root = AccumulateLeft root []"

fun iter_lower_bound ::
  "('k \<Rightarrow> 'k \<Rightarrow> ComparisonResult) \<Rightarrow> 'k \<Rightarrow> ('k, 'v) LlrbNode \<Rightarrow> ('k, 'v) LlrbNode list \<Rightarrow>
   ('k, 'v) LlrbNode list" where
  "iter_lower_bound cmp key Empty stack = stack"
| "iter_lower_bound cmp key (Node e c s l r) stack =
     (case cmp key (fst e) of
        Same \<Rightarrow> Node e c s l r # stack
      | Ascending \<Rightarrow> iter_lower_bound cmp key l (Node e c s l r # stack)
      | Descending \<Rightarrow> iter_lower_bound cmp key r stack)"

fun iter_get :: "('k, 'v) LlrbNode list \<Rightarrow> ('k \<times> 'v) option" where
  "iter_get [] = None"
| "iter_get (n # stack) = Some (node_entry n)"

fun iter_next :: "('k, 'v) LlrbNode list \<Rightarrow> ('k, 'v) LlrbNode list option" where
  "iter_next [] = None"
| "iter_next (n # stack) = Some (AccumulateLeft (right n) stack)"

text \<open>
  The entries an iterator has still to visit, and the loop that visits them; the loop
  takes the number of steps it may make.
\<close>

definition remaining :: "('k, 'v) LlrbNode list \<Rightarrow> ('k \<times> 'v) list" where
  "remaining stack = concat (map (\<lambda>n. node_entry n # llrb_entries (right n)) stack)"

fun iter_collect :: "nat \<Rightarrow> ('k, 'v) LlrbNode list \<Rightarrow> ('k \<times> 'v) list" where
  "iter_collect 0 stack = []"
| "iter_collect (Suc fuel) stack =
     (case (iter_get stack, iter_next stack) of
        (Some e, Some stack') \<Rightarrow> e # iter_collect fuel stack'
      | _ \<Rightarrow> [])"

lemma remaining_simps [simp]:
  "remaining [] = []"
  "remaining (n # stack) = node_entry n # llrb_entries (right n) @ remaining stack"
  by (simp_all add: remaining_def)

lemma remaining_AccumulateLeft [simp]:
  "remaining (AccumulateLeft n stack) = llrb_entries n @ remaining stack"
  by (induction n stack rule: AccumulateLeft.induct) auto

lemma iter_collect_remaining:
  "length (remaining stack) \<le> fuel \<Longrightarrow> iter_collect fuel stack = remaining stack"
proof (induction fuel arbitrary: stack)
  case 0
  then show ?case by (cases stack) auto
next
  case (Suc fuel)
  then show ?case by (cases stack) auto
qed

context comparator
begin

lemma remaining_lower_bound:
  "sorted_entries cmp (llrb_entries n) \<Longrightarrow>
   remaining (iter_lower_bound cmp k n stack) =
     dropWhile (\<lambda>e. cmp (fst e) k = Ascending) (llrb_entries n) @ remaining stack"
proof (induction n arbitrary: stack)
  case Empty
  then show ?case by simp
next
  case (Node e c s l r)
  show ?case
  proof (cases "cmp k (fst e)")
    case Ascending
    then have "cmp (fst e) k = Descending" by (simp add: gt_iff)
    with Ascending Node show ?thesis by (simp add: dropWhile_append)
  next
    case Same
    then have same: "cmp (fst e) k = Same" by (simp add: same_sym)
    have "\<forall>f \<in> set (llrb_entries l). cmp (fst f) k = Ascending"
      using Node.prems same by (auto intro: lt_same)
    with Same same show ?thesis by (simp add: dropWhile_append2)
  next
    case Descending
    then have gt: "cmp (fst e) k = Ascending" by (simp add: gt_iff)
    have "\<forall>f \<in> set (llrb_entries l). cmp (fst f) k = Ascending"
      using Node.prems gt by (auto intro: lt_trans)
    with Descending gt Node show ?thesis by (simp add: dropWhile_append2)
  qed
qed

end

section \<open>TreeSortedMap\<close>

definition tree_create ::
  "('k \<Rightarrow> 'k \<Rightarrow> ComparisonResult) \<Rightarrow> ('k \<times> 'v) list \<Rightarrow> ('k, 'v) LlrbNode" where
  "tree_create cmp elements = foldl (\<lambda>node e. llrb_insert cmp (fst e) (snd e) node) Empty elements"

fun tree_contains :: "('k \<Rightarrow> 'k \<Rightarrow> ComparisonResult) \<Rightarrow> 'k \<Rightarrow> ('k, 'v) LlrbNode \<Rightarrow> bool" where
  "tree_contains cmp key Empty = False"
| "tree_contains cmp key (Node e c s l r) =
     (case cmp key (fst e) of
        Same \<Rightarrow> True
      | Ascending \<Rightarrow> tree_contains cmp key l
      | Descending \<Rightarrow> tree_contains cmp key r)"

definition tree_find ::
  "('k \<Rightarrow> 'k \<Rightarrow> ComparisonResult) \<Rightarrow> ('k, 'v) LlrbNode \<Rightarrow> 'k \<Rightarrow> ('k \<times> 'v) option" where
  "tree_find cmp root key =
     (case iter_get (iter_lower_bound cmp key root []) of
        Some found \<Rightarrow> if cmp key (fst found) = Same then Some found else None
      | None \<Rightarrow> None)"

fun tree_find_index ::
  "('k \<Rightarrow> 'k \<Rightarrow> ComparisonResult) \<Rightarrow> 'k \<Rightarrow> nat \<Rightarrow> ('k, 'v) LlrbNode \<Rightarrow> nat option" where
  "tree_find_index cmp key pruned_nodes Empty = None"
| "tree_find_index cmp key pruned_nodes (Node e c s l r) =
     (case cmp key (fst e) of
        Same \<Rightarrow> Some (pruned_nodes + llrb_size l)
      | Ascending \<Rightarrow> tree_find_index cmp key pruned_nodes l
      | Descending \<Rightarrow> tree_find_index cmp key (pruned_nodes + (llrb_size l + 1)) r)"

definition tree_max :: "('k, 'v) LlrbNode \<Rightarrow> ('k \<times> 'v) option" where
  "tree_max root = (if llrb_empty root then None else Some (node_entry (llrb_max root)))"

context comparator
begin

lemma llrb_inv_Empty [simp]: "llrb_inv cmp Empty"
  by (simp add: llrb_inv_def)

lemma tree_create_ok:
  assumes "sorted_entries cmp es"
  shows "llrb_inv cmp (tree_create cmp es)" and "llrb_entries (tree_create cmp es) = es"
proof -
  have "llrb_inv cmp (foldl (\<lambda>node e. llrb_insert cmp (fst e) (snd e) node) n es) \<and>
      llrb_entries (foldl (\<lambda>node e. llrb_insert cmp (fst e) (snd e) node) n es) = llrb_entries n @ es"
    if "llrb_inv cmp n" "sorted_entries cmp (llrb_entries n @ es)" for n :: "('a, 'b) LlrbNode"
    using that
  proof (induction es arbitrary: n)
    case (Cons e es)
    have "llrb_entries (llrb_insert cmp (fst e) (snd e) n) = llrb_entries n @ [e]"
      using Cons.prems by (simp add: llrb_insert_ok insert_entries_split [of _ _ "[]", simplified])
    with Cons show ?case by (simp add: llrb_insert_ok)
  qed simp
  from this [of Empty] assms show "llrb_inv cmp (tree_create cmp es)"
    and "llrb_entries (tree_create cmp es) = es"
    by (simp_all add: tree_create_def)
qed

lemma lookup_dropWhile:
  "sorted_entries cmp es \<Longrightarrow>
   (case dropWhile (\<lambda>e. cmp (fst e) k = Ascending) es of
      [] \<Rightarrow> None | e # _ \<Rightarrow> if cmp k (fst e) = Same then Some e else None) =
   find (\<lambda>e. cmp k (fst e) = Same) es"
proof (induction es)
  case (Cons e es)
  show ?case
  proof (cases "cmp k (fst e)")
    case Ascending
    then have "\<forall>f \<in> set es. cmp k (fst f) \<noteq> Same"
      using Cons.prems lt_trans [of k "fst e"] by fastforce
    then have "find (\<lambda>e. cmp k (fst e) = Same) es = None" by (auto simp: find_None_iff)
    with Ascending show ?thesis using gt_iff [of "fst e" k] by simp
  next
    case Same
    then show ?thesis using same_sym [of k "fst e"] by simp
  next
    case Descending
    with Cons show ?thesis using gt_iff [of k "fst e"] by simp
  qed
qed simp

lemma iter_get_remaining: "iter_get stack = (case remaining stack of [] \<Rightarrow> None | e # _ \<Rightarrow> Some e)"
  by (cases stack) auto

lemma tree_find_ok:
  assumes "llrb_inv cmp n"
  shows "tree_find cmp n k = find (\<lambda>e. cmp k (fst e) = Same) (llrb_entries n)"
proof -
  have srt: "sorted_entries cmp (llrb_entries n)" using assms by (simp add: llrb_inv_def)
  have "remaining (iter_lower_bound cmp k n []) = dropWhile (\<lambda>e. cmp (fst e) k = Ascending) (llrb_entries n)"
    using remaining_lower_bound [OF srt, of k "[]"] by simp
  then show ?thesis
    using lookup_dropWhile [OF srt, of k]
    by (cases "dropWhile (\<lambda>e. cmp (fst e) k = Ascending) (llrb_entries n)")
      (simp_all add: tree_find_def iter_get_remaining)
qed

lemma tree_contains_ok:
  "sorted_entries cmp (llrb_entries n) \<Longrightarrow>
   tree_contains cmp k n \<longleftrightarrow> lookup_entries cmp (llrb_entries n) k \<noteq> None"
proof (induction n)
  case (Node e c s l r)
  show ?case
  proof (cases "cmp k (fst e)")
    case Ascending
    then have "\<forall>f \<in> set (llrb_entries r). cmp k (fst f) \<noteq> Same"
      using Node.prems lt_trans [of k "fst e"] by fastforce
    then have "lookup_entries cmp (llrb_entries r) k = None" by simp
    with Ascending Node show ?thesis
      by (auto simp: lookup_entries_append split: option.splits)
  next
    case Same
    then show ?thesis by (auto simp: lookup_entries_append split: option.splits)
  next
    case Descending
    then have "cmp (fst e) k = Ascending" by (simp add: gt_iff)
    then have "\<forall>f \<in> set (llrb_entries l). cmp (fst f) k = Ascending"
      using Node.prems by (auto intro: lt_trans)
    then have "\<forall>f \<in> set (llrb_entries l). cmp k (fst f) = Descending" by (simp add: gt_iff)
    then have "lookup_entries cmp (llrb_entries l) k = None" by simp
    with Descending Node show ?thesis by (simp add: lookup_entries_append)
  qed
qed simp

lemma array_find_index_append:
  "array_find_index cmp k (es @ fs) =
     (case array_find_index cmp k es of Some i \<Rightarrow> Some i
      | None \<Rightarrow> map_option (\<lambda>i. length es + i) (array_find_index cmp k fs))"
  by (cases "array_find_index cmp k fs"; induction es) (auto split: option.splits)

lemma tree_find_index_ok:
  "sizes_exact n \<Longrightarrow> sorted_entries cmp (llrb_entries n) \<Longrightarrow>
   tree_find_index cmp k pruned n = map_option (\<lambda>i. pruned + i) (array_find_index cmp k (llrb_entries n))"
proof (induction n arbitrary: pruned)
  case (Node e c s l r)
  have len: "llrb_size l = length (llrb_entries l)" using Node.prems by (simp add: size_entries)
  show ?case
  proof (cases "cmp k (fst e)")
    case Ascending
    then have "\<forall>f \<in> set (llrb_entries r). cmp k (fst f) \<noteq> Same"
      using Node.prems lt_trans [of k "fst e"] by fastforce
    then have "array_find_index cmp k (llrb_entries r) = None" by (simp add: array_find_index_None)
    with Ascending Node show ?thesis by (simp add: array_find_index_append split: option.splits)
  next
    case Same
    then have "cmp (fst e) k = Same" by (simp add: same_sym)
    then have "\<forall>f \<in> set (llrb_entries l). cmp (fst f) k = Ascending"
      using Node.prems by (auto intro: lt_same)
    then have "\<forall>f \<in> set (llrb_entries l). cmp k (fst f) = Descending" by (simp add: gt_iff)
    then have "array_find_index cmp k (llrb_entries l) = None" by (simp add: array_find_index_None)
    with Same show ?thesis by (simp add: array_find_index_append len)
  next
    case Descending
    then have "cmp (fst e) k = Ascending" by (simp add: gt_iff)
    then have "\<forall>f \<in> set (llrb_entries l). cmp (fst f) k = Ascending"
      using Node.prems by (auto intro: lt_trans)
    then have "\<forall>f \<in> set (llrb_entries l). cmp k (fst f) = Descending" by (simp add: gt_iff)
    then have "array_find_index cmp k (llrb_entries l) = None" by (simp add: array_find_index_None)
    with Descending Node show ?thesis
      by (cases "array_find_index cmp k (llrb_entries r)") (simp_all add: array_find_index_append len)
  qed
qed simp

end

lemma entry_max: "n \<noteq> Empty \<Longrightarrow> node_entry (llrb_max n) = last (llrb_entries n)"
proof (induction n)
  case (Node e c s l r)
  then show ?case by (cases r) auto
qed simp

section \<open>SortedMap\<close>

datatype ('k, 'v) SortedMap = ArrayRep "('k \<times> 'v) list" | TreeRep "('k, 'v) LlrbNode"

definition sm_empty :: "('k, 'v) SortedMap" where
  "sm_empty = ArrayRep []"

fun sm_is_empty :: "('k, 'v) SortedMap \<Rightarrow> bool" where
  "sm_is_empty (ArrayRep es) = (length es = 0)"
| "sm_is_empty (TreeRep t) = llrb_empty t"

fun sm_size :: "('k, 'v) SortedMap \<Rightarrow> nat" where
  "sm_size (ArrayRep es) = length es"
| "sm_size (TreeRep t) = llrb_size t"

fun sm_insert ::
  "('k \<Rightarrow> 'k \<Rightarrow> ComparisonResult) \<Rightarrow> 'k \<Rightarrow> 'v \<Rightarrow> ('k, 'v) SortedMap \<Rightarrow> ('k, 'v) SortedMap option" where
  "sm_insert cmp key value (ArrayRep es) =
     (if length es \<ge> kFixedSize
      then Some (TreeRep (llrb_insert cmp key value (tree_create cmp es)))
      else map_option ArrayRep (array_insert cmp key value es))"
| "sm_insert cmp key value (TreeRep t) = Some (TreeRep (llrb_insert cmp key value t))"

fun sm_erase ::
  "('k \<Rightarrow> 'k \<Rightarrow> ComparisonResult) \<Rightarrow> 'k \<Rightarrow> ('k, 'v) SortedMap \<Rightarrow> ('k, 'v) SortedMap option" where
  "sm_erase cmp key (ArrayRep es) = map_option ArrayRep (array_erase cmp key es)"
| "sm_erase cmp key (TreeRep t) =
     map_option (\<lambda>result. if llrb_empty result then sm_empty else TreeRep result) (llrb_erase cmp key t)"

fun sm_contains :: "('k \<Rightarrow> 'k \<Rightarrow> ComparisonResult) \<Rightarrow> ('k, 'v) SortedMap \<Rightarrow> 'k \<Rightarrow> bool" where
  "sm_contains cmp (ArrayRep es) key = (array_find_index cmp key es \<noteq> None)"
| "sm_contains cmp (TreeRep t) key = tree_contains cmp key t"

fun sm_find :: "('k \<Rightarrow> 'k \<Rightarrow> ComparisonResult) \<Rightarrow> ('k, 'v) SortedMap \<Rightarrow> 'k \<Rightarrow> ('k \<times> 'v) option" where
  "sm_find cmp (ArrayRep es) key = array_find cmp es key"
| "sm_find cmp (TreeRep t) key = tree_find cmp t key"

fun sm_find_index :: "('k \<Rightarrow> 'k \<Rightarrow> ComparisonResult) \<Rightarrow> ('k, 'v) SortedMap \<Rightarrow> 'k \<Rightarrow> nat option" where
  "sm_find_index cmp (ArrayRep es) key = array_find_index cmp key es"
| "sm_find_index cmp (TreeRep t) key = tree_find_index cmp key 0 t"

definition sm_get :: "('k \<Rightarrow> 'k \<Rightarrow> ComparisonResult) \<Rightarrow> ('k, 'v) SortedMap \<Rightarrow> 'k \<Rightarrow> 'v option" where
  "sm_get cmp m key = map_option snd (sm_find cmp m key)"

fun sm_min :: "('k, 'v) SortedMap \<Rightarrow> ('k \<times> 'v) option" where
  "sm_min (ArrayRep es) = (case es of [] \<Rightarrow> None | e # _ \<Rightarrow> Some e)"
| "sm_min (TreeRep t) = iter_get (iter_begin t)"

fun sm_max :: "('k, 'v) SortedMap \<Rightarrow> ('k \<times> 'v) option" where
  "sm_max (ArrayRep es) = (if es = [] then None else Some (es ! (length es - 1)))"
| "sm_max (TreeRep t) = tree_max t"

text \<open>
  Iteration: the entries from an iterator to the end, and the range between two lower
  bounds.  The range loop stops at the first entry whose key equals the key at the end
  iterator, which is how the tree iterators compare.
\<close>

fun sm_to_list :: "('k, 'v) SortedMap \<Rightarrow> ('k \<times> 'v) list" where
  "sm_to_list (ArrayRep es) = es"
| "sm_to_list (TreeRep t) = iter_collect (llrb_size t) (iter_begin t)"

fun sm_from :: "('k \<Rightarrow> 'k \<Rightarrow> ComparisonResult) \<Rightarrow> ('k, 'v) SortedMap \<Rightarrow> 'k \<Rightarrow> ('k \<times> 'v) list" where
  "sm_from cmp (ArrayRep es) key = drop (array_lower_bound cmp key es) es"
| "sm_from cmp (TreeRep t) key = iter_collect (llrb_size t) (iter_lower_bound cmp key t [])"

definition keys_from :: "('k \<Rightarrow> 'k \<Rightarrow> ComparisonResult) \<Rightarrow> ('k, 'v) SortedMap \<Rightarrow> 'k \<Rightarrow> 'k list" where
  "keys_from cmp m key = map fst (sm_from cmp m key)"

definition keys_in :: "('k \<Rightarrow> 'k \<Rightarrow> ComparisonResult) \<Rightarrow> ('k, 'v) SortedMap \<Rightarrow> 'k \<Rightarrow> 'k \<Rightarrow> 'k list" where
  "keys_in cmp m start_key end_key =
     (if cmp start_key end_key \<noteq> Ascending then []
      else case keys_from cmp m end_key of
        [] \<Rightarrow> keys_from cmp m start_key
      | stop # _ \<Rightarrow> takeWhile (\<lambda>k. k \<noteq> stop) (keys_from cmp m start_key))"

fun sm_entries :: "('k, 'v) SortedMap \<Rightarrow> ('k \<times> 'v) list" where
  "sm_entries (ArrayRep es) = es"
| "sm_entries (TreeRep t) = llrb_entries t"

fun sm_inv :: "('k \<Rightarrow> 'k \<Rightarrow> ComparisonResult) \<Rightarrow> ('k, 'v) SortedMap \<Rightarrow> bool" where
  "sm_inv cmp (ArrayRep es) = array_inv cmp es"
| "sm_inv cmp (TreeRep t) = (llrb_inv cmp t \<and> \<not> llrb_empty t)"

section \<open>The sorted maps provide the interface\<close>

context comparator
begin

lemma sm_insert_ok:
  assumes "sm_inv cmp m"
  shows "\<exists>b m'. sm_insert cmp k v m = Some m' \<and> sm_inv cmp m' \<and>
    sm_entries m' = insert_entries b cmp k v (sm_entries m)"
proof (cases m)
  case (ArrayRep es)
  with assms have inv: "array_inv cmp es" by simp
  then have srt: "sorted_entries cmp es" by (simp add: array_inv_def)
  show ?thesis
  proof (cases "length es \<ge> kFixedSize")
    case True
    have t: "llrb_inv cmp (tree_create cmp es)" "llrb_entries (tree_create cmp es) = es"
      using tree_create_ok [OF srt] by auto
    have e: "llrb_entries (llrb_insert cmp k v (tree_create cmp es)) = insert_entries True cmp k v es"
      using llrb_insert_ok(2) [OF t(1), of k v] t(2) by simp
    have "insert_entries True cmp k v es \<noteq> []"
      by (cases es) (auto split: ComparisonResult.splits)
    then have "\<not> llrb_empty (llrb_insert cmp k v (tree_create cmp es))"
      using e by (auto simp: empty_iff)
    then have "sm_inv cmp (TreeRep (llrb_insert cmp k v (tree_create cmp es)))"
      using llrb_insert_ok(1) [OF t(1), of k v] by simp
    moreover have "sm_insert cmp k v m = Some (TreeRep (llrb_insert cmp k v (tree_create cmp es)))"
      using True ArrayRep by simp
    ultimately show ?thesis using e ArrayRep by fastforce
  next
    case False
    then have "array_room es" by (simp add: array_room_def)
    from array_insert_ok [OF inv this, of k v]
    obtain b where b: "array_insert cmp k v es = Some (insert_entries b cmp k v es)" by (rule exE)
    have "array_inv cmp (insert_entries b cmp k v es)"
      using srt False length_insert_entries [OF srt, of b k v]
      by (auto simp: array_inv_def sorted_insert_entries split: if_splits)
    with False ArrayRep b show ?thesis by auto
  qed
next
  case (TreeRep t)
  then have e: "llrb_entries (llrb_insert cmp k v t) = insert_entries True cmp k v (llrb_entries t)"
    and i: "llrb_inv cmp (llrb_insert cmp k v t)"
    using assms llrb_insert_ok by auto
  have "insert_entries True cmp k v (llrb_entries t) \<noteq> []"
    by (cases "llrb_entries t") (auto split: ComparisonResult.splits)
  then have "\<not> llrb_empty (llrb_insert cmp k v t)" using e by (auto simp: empty_iff)
  with TreeRep e i show ?thesis by auto
qed

lemma sm_erase_ok:
  assumes "sm_inv cmp m"
  shows "\<exists>m'. sm_erase cmp k m = Some m' \<and> sm_inv cmp m' \<and>
    sm_entries m' = erase_entries cmp k (sm_entries m)"
proof (cases m)
  case (ArrayRep es)
  moreover have "array_inv cmp (erase_entries cmp k es)" if "array_inv cmp es"
  proof -
    have "length (erase_entries cmp k es) \<le> length es" by (simp add: erase_entries_def)
    with that show ?thesis by (simp add: array_inv_def sorted_erase_entries)
  qed
  ultimately show ?thesis using assms by (simp add: array_erase_ok)
next
  case (TreeRep t)
  then obtain t' where "llrb_erase cmp k t = Some t'" "llrb_inv cmp t'"
      "llrb_entries t' = erase_entries cmp k (llrb_entries t)"
    using assms llrb_erase_ok by auto
  with TreeRep show ?thesis
    by (cases t') (auto simp: sm_empty_def array_inv_def)
qed

lemma sm_find_ok:
  "sm_inv cmp m \<Longrightarrow> sm_find cmp m k = find (\<lambda>e. cmp k (fst e) = Same) (sm_entries m)"
  by (cases m) (auto simp: array_find_def tree_find_ok)

lemma sm_size_ok: "sm_inv cmp m \<Longrightarrow> sm_size m = length (sm_entries m)"
  by (cases m) (auto simp: llrb_inv_def good_def size_entries)

lemma sm_sorted: "sm_inv cmp m \<Longrightarrow> sorted_entries cmp (sm_entries m)"
  by (cases m) (auto simp: array_inv_def llrb_inv_def)

lemma sm_to_list_ok: "sm_inv cmp m \<Longrightarrow> sm_to_list m = sm_entries m"
  by (cases m) (auto simp: iter_collect_remaining iter_begin_def llrb_inv_def good_def size_entries)

lemma sm_from_ok:
  "sm_inv cmp m \<Longrightarrow> sm_from cmp m k = dropWhile (\<lambda>e. cmp (fst e) k = Ascending) (sm_entries m)"
proof (cases m)
  case (TreeRep t)
  moreover assume "sm_inv cmp m"
  ultimately have "llrb_size t = length (llrb_entries t)" "sorted_entries cmp (llrb_entries t)"
    by (auto simp: llrb_inv_def good_def size_entries)
  moreover from this have
    "remaining (iter_lower_bound cmp k t []) = dropWhile (\<lambda>e. cmp (fst e) k = Ascending) (llrb_entries t)"
    by (simp add: remaining_lower_bound)
  ultimately show ?thesis using TreeRep by (simp add: iter_collect_remaining length_dropWhile_le)
qed (simp add: array_lower_bound_def dropWhile_eq_drop)

lemma sm_find_index_ok:
  "sm_inv cmp m \<Longrightarrow> sm_find_index cmp m k = array_find_index cmp k (sm_entries m)"
  by (cases m) (auto simp: tree_find_index_ok llrb_inv_def good_def option.map_ident)

lemma sm_contains_ok:
  "sm_inv cmp m \<Longrightarrow> sm_contains cmp m k \<longleftrightarrow> sm_get cmp m k \<noteq> None"
proof (cases m)
  case (ArrayRep es)
  have "array_find_index cmp k es = None \<longleftrightarrow> find (\<lambda>e. cmp k (fst e) = Same) es = None"
    by (auto simp: array_find_index_None find_None_iff)
  with ArrayRep show ?thesis by (simp add: sm_get_def array_find_def)
next
  case (TreeRep t)
  moreover assume "sm_inv cmp m"
  ultimately show ?thesis
    by (auto simp: sm_get_def tree_find_ok tree_contains_ok llrb_inv_def lookup_entries_def)
qed

end

sublocale comparator \<subseteq> sorted: ordered_map cmp sm_entries "sm_inv cmp" "\<lambda>_. True" sm_empty
  "sm_insert cmp" "sm_erase cmp" "sm_get cmp" sm_size
proof unfold_locales
  fix m :: "('a, 'b) SortedMap" and k v
  show "sm_inv cmp m \<Longrightarrow> \<exists>b m'. sm_insert cmp k v m = Some m' \<and> sm_inv cmp m' \<and>
      sm_entries m' = insert_entries b cmp k v (sm_entries m)"
    by (rule sm_insert_ok)
  show "sm_inv cmp m \<Longrightarrow> \<exists>m'. sm_erase cmp k m = Some m' \<and> sm_inv cmp m' \<and>
      sm_entries m' = erase_entries cmp k (sm_entries m)"
    by (rule sm_erase_ok)
qed (auto simp: sm_empty_def array_inv_def sm_sorted sm_get_def sm_find_ok lookup_entries_def sm_size_ok)

section \<open>SortedSet\<close>

text \<open>A set is a map to the empty value (\<^verbatim>\<open>immutable/sorted_set.h\<close>).\<close>

type_synonym 'k SortedSet = "('k, unit) SortedMap"

definition set_insert :: "('k \<Rightarrow> 'k \<Rightarrow> ComparisonResult) \<Rightarrow> 'k \<Rightarrow> 'k SortedSet \<Rightarrow> 'k SortedSet option" where
  "set_insert cmp key s = sm_insert cmp key () s"

fun set_insert_all ::
  "('k \<Rightarrow> 'k \<Rightarrow> ComparisonResult) \<Rightarrow> 'k list \<Rightarrow> 'k SortedSet \<Rightarrow> 'k SortedSet option" where
  "set_insert_all cmp [] s = Some s"
| "set_insert_all cmp (k # ks) s = do { s' \<leftarrow> set_insert cmp k s; set_insert_all cmp ks s' }"

definition set_union_with ::
  "('k \<Rightarrow> 'k \<Rightarrow> ComparisonResult) \<Rightarrow> 'k SortedSet \<Rightarrow> 'k SortedSet \<Rightarrow> 'k SortedSet option" where
  "set_union_with cmp this other =
     (let (result, rest) = (if sm_size this < sm_size other then (other, this) else (this, other))
      in set_insert_all cmp (map fst (sm_to_list rest)) result)"

context comparator
begin

lemma set_insert_all_ok:
  "sm_inv cmp s \<Longrightarrow> \<exists>s'. set_insert_all cmp ks s = Some s' \<and> sm_inv cmp s' \<and>
     (\<forall>k. sm_contains cmp s' k \<longleftrightarrow> sm_contains cmp s k \<or> (\<exists>x \<in> set ks. cmp k x = Same))"
proof (induction ks arbitrary: s)
  case Nil
  then show ?case by simp
next
  case (Cons x ks)
  obtain b s1 where s1: "set_insert cmp x s = Some s1" "sm_inv cmp s1"
    using sm_insert_ok [OF Cons.prems, of x "()"] by (auto simp: set_insert_def)
  from Cons.IH [OF s1(2)] obtain s' where s': "set_insert_all cmp ks s1 = Some s'" "sm_inv cmp s'"
    "\<forall>k. sm_contains cmp s' k \<longleftrightarrow> sm_contains cmp s1 k \<or> (\<exists>x \<in> set ks. cmp k x = Same)" by blast
  have "sm_contains cmp s1 k \<longleftrightarrow> sm_contains cmp s k \<or> cmp k x = Same" for k
    using sorted.get_ins [OF Cons.prems _ s1(1) [unfolded set_insert_def], of k] s1(2) Cons.prems
    by (simp add: sm_contains_ok)
  with s1 s' show ?case by auto
qed

lemma entry_contains:
  "sm_inv cmp m \<Longrightarrow> sm_contains cmp m k \<longleftrightarrow> (\<exists>e \<in> set (sm_entries m). cmp k (fst e) = Same)"
  using lookup_entries_None_iff [of cmp "sm_entries m" k]
  by (auto simp: sm_contains_ok sorted.get_ok)

lemma set_union_ok:
  assumes "sm_inv cmp s" "sm_inv cmp t"
  shows "\<exists>u. set_union_with cmp s t = Some u \<and> sm_inv cmp u \<and>
    (\<forall>k. sm_contains cmp u k \<longleftrightarrow> sm_contains cmp s k \<or> sm_contains cmp t k)"
  using set_insert_all_ok [OF assms(1), of "map fst (sm_entries t)"]
    set_insert_all_ok [OF assms(2), of "map fst (sm_entries s)"] assms
  by (auto simp: set_union_with_def sm_to_list_ok entry_contains [of s] entry_contains [of t])

end

section \<open>Histories of operations\<close>

text \<open>
  The abstract map: a partial function on keys up to the comparator.  A history of
  insertions and erasures, run on the code's representation, must agree with it.
\<close>

datatype ('k, 'v) map_op = Insert 'k 'v | Erase 'k

fun sm_apply ::
  "('k \<Rightarrow> 'k \<Rightarrow> ComparisonResult) \<Rightarrow> ('k, 'v) map_op \<Rightarrow> ('k, 'v) SortedMap \<Rightarrow> ('k, 'v) SortedMap option" where
  "sm_apply cmp (Insert k v) m = sm_insert cmp k v m"
| "sm_apply cmp (Erase k) m = sm_erase cmp k m"

fun sm_run ::
  "('k \<Rightarrow> 'k \<Rightarrow> ComparisonResult) \<Rightarrow> ('k, 'v) map_op list \<Rightarrow> ('k, 'v) SortedMap \<Rightarrow> ('k, 'v) SortedMap option" where
  "sm_run cmp [] m = Some m"
| "sm_run cmp (x # xs) m = do { m' \<leftarrow> sm_apply cmp x m; sm_run cmp xs m' }"

fun spec_apply ::
  "('k \<Rightarrow> 'k \<Rightarrow> ComparisonResult) \<Rightarrow> ('k, 'v) map_op \<Rightarrow> ('k \<Rightarrow> 'v option) \<Rightarrow> 'k \<Rightarrow> 'v option" where
  "spec_apply cmp (Insert k v) f = (\<lambda>k'. if cmp k' k = Same then Some v else f k')"
| "spec_apply cmp (Erase k) f = (\<lambda>k'. if cmp k' k = Same then None else f k')"

definition spec_run ::
  "('k \<Rightarrow> 'k \<Rightarrow> ComparisonResult) \<Rightarrow> ('k, 'v) map_op list \<Rightarrow> 'k \<Rightarrow> 'v option" where
  "spec_run cmp ops = foldl (\<lambda>f x. spec_apply cmp x f) (\<lambda>_. None) ops"

context comparator
begin

lemma sm_apply_ok:
  assumes "sm_inv cmp m"
  shows "\<exists>m'. sm_apply cmp x m = Some m' \<and> sm_inv cmp m' \<and> sm_get cmp m' = spec_apply cmp x (sm_get cmp m)"
proof (cases x)
  case (Insert k v)
  obtain m' where m': "sm_insert cmp k v m = Some m'" "sm_inv cmp m'"
    using sm_insert_ok [OF assms, of k v] by auto
  have "sm_get cmp m' = spec_apply cmp x (sm_get cmp m)"
    using sorted.get_ins [OF assms _ m'(1)] Insert by (simp add: fun_eq_iff)
  with Insert m' show ?thesis by simp
next
  case (Erase k)
  obtain m' where m': "sm_erase cmp k m = Some m'" "sm_inv cmp m'"
    using sm_erase_ok [OF assms, of k] by auto
  have "sm_get cmp m' = spec_apply cmp x (sm_get cmp m)"
    using sorted.get_del [OF assms m'(1)] Erase by (simp add: fun_eq_iff)
  with Erase m' show ?thesis by simp
qed

lemma sm_run_ok:
  "sm_inv cmp m \<Longrightarrow> \<exists>m'. sm_run cmp ops m = Some m' \<and> sm_inv cmp m' \<and>
     sm_get cmp m' = foldl (\<lambda>f x. spec_apply cmp x f) (sm_get cmp m) ops"
proof (induction ops arbitrary: m)
  case Nil
  then show ?case by simp
next
  case (Cons x ops)
  obtain m1 where "sm_apply cmp x m = Some m1" "sm_inv cmp m1" "sm_get cmp m1 = spec_apply cmp x (sm_get cmp m)"
    using sm_apply_ok [OF Cons.prems, of x] by auto
  with Cons.IH [of m1] show ?case by auto
qed

lemma keys_in_entries:
  assumes "sm_inv cmp m" "cmp a b = Ascending"
  shows "keys_in cmp m a b =
    map fst (filter (\<lambda>e. cmp (fst e) a \<noteq> Ascending \<and> cmp (fst e) b = Ascending) (sm_entries m))"
proof -
  let ?P = "\<lambda>k e. cmp (fst e) k = Ascending"
  have dropw: "dropWhile (?P k) es = filter (\<lambda>e. \<not> ?P k e) es" if "sorted_entries cmp es" for k and es :: "('a \<times> 'b) list"
    using that
  proof (induction es)
    case (Cons e es)
    show ?case
    proof (cases "?P k e")
      case False
      then have "\<forall>f \<in> set es. \<not> ?P k f"
        using Cons.prems lt_trans [of "fst e" _ k] by auto
      with False show ?thesis by (simp add: filter_id_conv [THEN iffD2])
    qed (use Cons in simp)
  qed simp
  have stop: "takeWhile (\<lambda>k. k \<noteq> x) (map fst (filter (\<lambda>e. \<not> ?P a e) es)) =
      map fst (filter (\<lambda>e. \<not> ?P a e \<and> ?P b e) es)"
    if "sorted_entries cmp es" "filter (\<lambda>e. \<not> ?P b e) es = (x, v) # fs" for x v fs and es :: "('a \<times> 'b) list"
    using that
  proof (induction es)
    case (Cons e es)
    show ?case
    proof (cases "?P b e")
      case True
      then have "(x, v) \<in> set (filter (\<lambda>e. \<not> ?P b e) es)" using Cons.prems(2) by simp
      then have "(x, v) \<in> set es" by simp
      then have "fst e \<noteq> x" using Cons.prems(1) cmp_refl [of x] by fastforce
      with True Cons show ?thesis by auto
    next
      case False
      then have e: "e = (x, v)" using Cons.prems(2) by simp
      have "\<not> ?P a e" using False assms(2) lt_trans [of "fst e" a b] by auto
      moreover have "\<forall>f \<in> set es. \<not> ?P b f"
        using False Cons.prems(1) lt_trans [of "fst e" _ b] by auto
      ultimately show ?thesis using False e by (simp add: filter_empty_conv)
    qed
  qed simp
  have srt: "sorted_entries cmp (sm_entries m)" using assms(1) by (rule sm_sorted)
  show ?thesis
  proof (cases "filter (\<lambda>e. \<not> ?P b e) (sm_entries m)")
    case Nil
    then have "\<forall>e \<in> set (sm_entries m). ?P b e" by (simp add: filter_empty_conv)
    then show ?thesis using assms Nil srt
      by (auto simp: keys_in_def keys_from_def sm_from_ok dropw intro!: arg_cong [where f = "map fst"] filter_cong)
  next
    case (Cons e fs)
    then show ?thesis using assms srt stop [of "sm_entries m" "fst e" "snd e" fs]
      by (simp add: keys_in_def keys_from_def sm_from_ok dropw)
  qed
qed

end

section \<open>Properties\<close>

text \<open>C2: Any history of insertions and erasures, run from the empty sorted map, succeeds
  (no assertion of the array or of the tree fails), ends in a valid representation, and looks
  up exactly what the abstract partial map looks up after the same history; this holds
  across the switches between the array and the tree.\<close>

theorem sorted_map_history_refines:
  fixes ops :: "('k, 'v) map_op list"
  assumes "comparator cmp"
  shows "\<exists>m. sm_run cmp ops sm_empty = Some m \<and> sm_inv cmp m \<and> sm_get cmp m = spec_run cmp ops"
proof -
  have "sm_inv cmp (sm_empty :: ('k, 'v) SortedMap)" by (simp add: sm_empty_def array_inv_def)
  moreover have "sm_get cmp (sm_empty :: ('k, 'v) SortedMap) = (\<lambda>_. None)"
    by (simp add: sm_get_def sm_empty_def array_find_def fun_eq_iff)
  ultimately show ?thesis
    using comparator.sm_run_ok [OF assms, of sm_empty ops] by (simp add: spec_run_def)
qed

theorem sorted_map_history_refines_witness:
  "\<exists>m. sm_run DefaultCompare [Insert (2 :: int) ''b'', Insert 1 ''a'', Erase 2] sm_empty = Some m \<and>
     sm_get DefaultCompare m 1 = Some ''a'' \<and> sm_get DefaultCompare m 2 = None"
  using sorted_map_history_refines [OF comparator_DefaultCompare,
      of "[Insert (2 :: int) ''b'', Insert 1 ''a'', Erase 2]"]
  by (auto simp: spec_run_def)

text \<open>C15: Iterating a valid map, in either representation, visits its entries in ascending
  key order, and the view of the keys between two bounds is exactly the keys that are not
  below the first bound and below the second.\<close>

theorem sorted_map_iteration:
  assumes "comparator cmp" and "sm_inv cmp m" and "cmp start_key end_key = Ascending"
  shows "sm_to_list m = sm_entries m \<and> sorted_entries cmp (sm_to_list m) \<and>
    keys_in cmp m start_key end_key =
      filter (\<lambda>k. cmp k start_key \<noteq> Ascending \<and> cmp k end_key = Ascending) (map fst (sm_to_list m))"
  using comparator.sm_to_list_ok [OF assms(1,2)] comparator.sm_sorted [OF assms(1,2)]
    comparator.keys_in_entries [OF assms]
  by (simp add: filter_map comp_def)

theorem sorted_map_iteration_witness:
  "keys_in DefaultCompare (ArrayRep [(1 :: int, ''a''), (4, ''b''), (7, ''c'')]) 2 7 = [4]"
  using sorted_map_iteration [OF comparator_DefaultCompare,
      of "ArrayRep [(1 :: int, ''a''), (4, ''b''), (7, ''c'')]" 2 7]
  by (simp add: array_inv_def kFixedSize_def DefaultCompare_simps)

text \<open>The union of two sorted sets succeeds and contains exactly the members of either,
  whichever of the two is larger.\<close>

theorem sorted_set_union:
  assumes "comparator cmp" and "sm_inv cmp s" and "sm_inv cmp t"
  shows "\<exists>u. set_union_with cmp s t = Some u \<and> sm_inv cmp u \<and>
    (\<forall>k. sm_contains cmp u k \<longleftrightarrow> sm_contains cmp s k \<or> sm_contains cmp t k)"
  using comparator.set_union_ok [OF assms] .

theorem sorted_set_union_witness:
  "\<exists>u. set_union_with DefaultCompare (ArrayRep [(1 :: int, ())]) (ArrayRep [(2, ())]) = Some u \<and>
     sm_contains DefaultCompare u 2"
  using sorted_set_union [OF comparator_DefaultCompare,
      of "ArrayRep [(1 :: int, ())]" "ArrayRep [(2, ())]"]
  by (auto simp: array_inv_def kFixedSize_def)

end
