(* ===== verification/Numbers.thy ===== *)
theory Numbers
  imports Prelude "HOL-Library.Word"
begin

text \<open>
  Number comparison (\<^verbatim>\<open>util/comparison.cc\<close>).  A C++ \<^verbatim>\<open>double\<close> is its 64-bit
  IEEE 754 pattern and an \<^verbatim>\<open>int64_t\<close> a 64-bit word read with \<open>sint\<close>.  The value of a
  double that is not a NaN is an integer multiple of \<open>2 ^ -1074\<close>; \<open>dbl_key\<close> is that
  multiple, and the same formula puts the infinities above and below every finite
  value.  The casts of the language are modelled: to \<^verbatim>\<open>int64_t\<close> by truncation, with
  None for a value out of range (undefined behaviour in C++), and from an integer by
  rounding to nearest, ties to even.
\<close>

section \<open>IEEE doubles\<close>

type_synonym double = "64 word"

type_synonym int64 = "64 word"

definition dbl_negative :: "double \<Rightarrow> bool" where
  "dbl_negative d \<longleftrightarrow> 2 ^ 63 \<le> unat d"

definition dbl_mag :: "double \<Rightarrow> nat" where
  "dbl_mag d = unat d mod 2 ^ 63"

definition inf_mag :: nat where
  "inf_mag = 2047 * 2 ^ 52"

definition isnan :: "double \<Rightarrow> bool" where
  "isnan d \<longleftrightarrow> inf_mag < dbl_mag d"

definition isinf :: "double \<Rightarrow> bool" where
  "isinf d \<longleftrightarrow> dbl_mag d = inf_mag"

definition mag_value :: "nat \<Rightarrow> nat" where
  "mag_value m =
     (if m < 2 ^ 52 then m else (2 ^ 52 + m mod 2 ^ 52) * 2 ^ (m div 2 ^ 52 - 1))"

definition dbl_key :: "double \<Rightarrow> int" where
  "dbl_key d = (if dbl_negative d then - int (mag_value (dbl_mag d)) else int (mag_value (dbl_mag d)))"

definition dbl_less :: "double \<Rightarrow> double \<Rightarrow> bool" where
  "dbl_less x y \<longleftrightarrow> \<not> isnan x \<and> \<not> isnan y \<and> dbl_key x < dbl_key y"

definition dbl_eq :: "double \<Rightarrow> double \<Rightarrow> bool" where
  "dbl_eq x y \<longleftrightarrow> \<not> isnan x \<and> \<not> isnan y \<and> dbl_key x = dbl_key y"

definition dbl_NAN :: double where
  "dbl_NAN = 0x7FF8000000000000"

text \<open>Rounding an integer multiple of \<open>2 ^ -1074\<close> to a double.\<close>

fun bit_length :: "nat \<Rightarrow> nat" where
  "bit_length n = (if n = 0 then 0 else Suc (bit_length (n div 2)))"

declare bit_length.simps [simp del]

definition round_mag :: "nat \<Rightarrow> nat" where
  "round_mag a =
     (let sh = bit_length a - 53; q = a div 2 ^ sh; r = a mod 2 ^ sh
      in sh * 2 ^ 52 + (if 2 * r > 2 ^ sh \<or> (2 * r = 2 ^ sh \<and> odd q) then q + 1 else q))"

definition dbl_of_scaled :: "int \<Rightarrow> double" where
  "dbl_of_scaled k =
     word_of_nat (min (round_mag (nat \<bar>k\<bar>)) inf_mag + (if k < 0 then 2 ^ 63 else 0))"

definition dbl_of_int :: "int \<Rightarrow> double" where
  "dbl_of_int n = dbl_of_scaled (n * 2 ^ 1074)"

definition dbl_trunc :: "double \<Rightarrow> int" where
  "dbl_trunc d = sgn (dbl_key d) * (\<bar>dbl_key d\<bar> div 2 ^ 1074)"

definition dbl_to_int64 :: "double \<Rightarrow> int64 option" where
  "dbl_to_int64 d =
     (if isnan d \<or> isinf d \<or> dbl_trunc d < - (2 ^ 63) \<or> 2 ^ 63 \<le> dbl_trunc d then None
      else Some (word_of_int (dbl_trunc d)))"

definition dbl_add :: "double \<Rightarrow> double \<Rightarrow> double" where
  "dbl_add x y =
     (if isnan x \<or> isnan y then dbl_NAN
      else if isinf x then (if isinf y \<and> dbl_negative x \<noteq> dbl_negative y then dbl_NAN else x)
      else if isinf y then y
      else if dbl_key x + dbl_key y = 0
        then (if dbl_negative x \<and> dbl_negative y then x else 0)
      else dbl_of_scaled (dbl_key x + dbl_key y))"

section \<open>The comparisons of the code\<close>

definition CompareInt64 :: "int64 \<Rightarrow> int64 \<Rightarrow> ComparisonResult" where
  "CompareInt64 x y = DefaultCompare (sint x) (sint y)"

definition CompareDouble :: "double \<Rightarrow> double \<Rightarrow> ComparisonResult" where
  "CompareDouble x y =
     (if dbl_less x y then Ascending
      else if dbl_less y x then Descending
      else if dbl_eq x y then Same
      else if \<not> isnan y then Ascending
      else if \<not> isnan x then Descending
      else Same)"

definition INT64_MIN_VALUE_AS_DOUBLE :: double where
  "INT64_MIN_VALUE_AS_DOUBLE = dbl_of_int (- (2 ^ 63))"

definition INT64_MAX_VALUE_AS_DOUBLE :: double where
  "INT64_MAX_VALUE_AS_DOUBLE = dbl_of_int (2 ^ 63 - 1)"

definition CompareMixedNumber :: "double \<Rightarrow> int64 \<Rightarrow> ComparisonResult option" where
  "CompareMixedNumber double_value int64_value =
     (if dbl_less double_value INT64_MIN_VALUE_AS_DOUBLE then Some Ascending
      else if dbl_less INT64_MAX_VALUE_AS_DOUBLE double_value \<or>
              dbl_eq INT64_MAX_VALUE_AS_DOUBLE double_value then Some Descending
      else if isnan double_value then Some Ascending
      else do {
        double_as_int64 \<leftarrow> dbl_to_int64 double_value;
        let cmp = CompareInt64 double_as_int64 int64_value;
        if cmp \<noteq> Same then Some cmp
        else Some (CompareDouble double_value (dbl_of_int (sint int64_value)))
      })"

definition DoubleBits :: "double \<Rightarrow> 64 word" where
  "DoubleBits d = (if isnan d then dbl_NAN else d)"

definition DoubleBitwiseEquals :: "double \<Rightarrow> double \<Rightarrow> bool" where
  "DoubleBitwiseEquals x y \<longleftrightarrow> DoubleBits x = DoubleBits y"

section \<open>The order of doubles\<close>

text \<open>A NaN sorts as an integer below every key.\<close>

definition nan_key :: "double \<Rightarrow> int" where
  "nan_key d = (if isnan d then - (2 ^ 3000) else dbl_key d)"

lemma CompareDouble_nan_key_aux:
  "(\<not> isnan x \<longrightarrow> - (2 ^ 3000) < dbl_key x) \<Longrightarrow> (\<not> isnan y \<longrightarrow> - (2 ^ 3000) < dbl_key y) \<Longrightarrow>
   CompareDouble x y = DefaultCompare (nan_key x) (nan_key y)"
  by (auto simp: CompareDouble_def dbl_less_def dbl_eq_def nan_key_def DefaultCompare_def)

lemma mag_value_bound:
  assumes "m \<le> inf_mag" shows "mag_value m < 2 ^ 2099"
proof (cases "m < 2 ^ 52")
  case True
  moreover have "(2 :: nat) ^ 52 \<le> 2 ^ 2099" by (rule power_increasing) auto
  ultimately show ?thesis by (simp only: mag_value_def if_True)
next
  case False
  have "m div 2 ^ 52 \<le> 2047" using assms unfolding inf_mag_def by (metis div_le_mono nonzero_mult_div_cancel_right power_not_zero zero_neq_numeral)
  then have "(2 :: nat) ^ (m div 2 ^ 52 - 1) \<le> 2 ^ 2046" by (intro power_increasing) auto
  moreover have "(2 :: nat) ^ 52 + m mod 2 ^ 52 < 2 ^ 53"
    using mod_less_divisor [of "(2 :: nat) ^ 52" m] by simp
  ultimately have "mag_value m < 2 ^ 53 * 2 ^ 2046"
    using False unfolding mag_value_def by (simp only: if_False) (intro mult_less_le_imp_less; simp)
  then show ?thesis by (simp only: power_add [symmetric]) simp
qed

lemma dbl_key_bound:
  assumes "\<not> isnan d" shows "\<bar>dbl_key d\<bar> < 2 ^ 3000"
proof -
  have "mag_value (dbl_mag d) < 2 ^ 2099"
    using assms mag_value_bound [of "dbl_mag d"] by (simp add: isnan_def)
  moreover have "(2 :: nat) ^ 2099 \<le> 2 ^ 3000" by (rule power_increasing) auto
  ultimately have "mag_value (dbl_mag d) < 2 ^ 3000" by (rule less_le_trans)
  then have "int (mag_value (dbl_mag d)) < int (2 ^ 3000)" by (simp only: of_nat_less_iff)
  then have "int (mag_value (dbl_mag d)) < 2 ^ 3000" by (simp only: of_nat_power of_nat_numeral)
  then show ?thesis unfolding dbl_key_def by (simp only: abs_minus abs_of_nat if_distrib [of abs] if_cancel)
qed

lemma CompareDouble_nan_key: "CompareDouble x y = DefaultCompare (nan_key x) (nan_key y)"
proof (rule CompareDouble_nan_key_aux)
  have "- (2 ^ 3000) < dbl_key d" if "\<not> isnan d" for d
    using abs_ge_minus_self [of "dbl_key d"] dbl_key_bound [OF that] by linarith
  then show "\<not> isnan x \<longrightarrow> - (2 ^ 3000) < dbl_key x" "\<not> isnan y \<longrightarrow> - (2 ^ 3000) < dbl_key y" by blast+
qed

lemma comparator_CompareDouble: "comparator CompareDouble"
proof
  fix x y z
  show "CompareDouble x x = Same" by (simp add: CompareDouble_nan_key)
  show "CompareDouble y x = ReverseOrder (CompareDouble x y)"
    unfolding CompareDouble_nan_key by (rule default_int.cmp_swap)
  show "CompareDouble x y \<noteq> Descending \<Longrightarrow> CompareDouble y z \<noteq> Descending \<Longrightarrow> CompareDouble x z \<noteq> Descending"
    unfolding CompareDouble_nan_key by (rule default_int.cmp_trans)
qed

interpretation double_order: comparator CompareDouble
  by (rule comparator_CompareDouble)

section \<open>Rounding\<close>

lemma bit_length_0 [simp]: "bit_length 0 = 0"
  by (simp add: bit_length.simps)

lemma bit_length_le: "n < 2 ^ k \<Longrightarrow> bit_length n \<le> k"
proof (induction k arbitrary: n)
  case (Suc k)
  then have "n div 2 < 2 ^ k" by simp
  then show ?case using Suc.IH [of "n div 2"] by (simp add: bit_length.simps [of n])
qed simp

lemma bit_length_upper: "n < 2 ^ bit_length n"
proof (induction n rule: bit_length.induct)
  case (1 n)
  then show ?case by (cases "n = 0") (simp_all add: bit_length.simps [of n])
qed

lemma bit_length_lower: "0 < n \<Longrightarrow> 2 ^ (bit_length n - 1) \<le> n"
proof (induction n rule: bit_length.induct)
  case (1 n)
  show ?case
  proof (cases "n div 2 = 0")
    case True
    with 1 show ?thesis by (simp add: bit_length.simps [of n])
  next
    case False
    then obtain k where k: "bit_length (n div 2) = Suc k"
      by (metis bit_length.simps)
    have "2 ^ (bit_length (n div 2) - 1) \<le> n div 2" using 1 False by simp
    then show ?thesis using k 1 by (simp add: bit_length.simps [of n])
  qed
qed

lemma bit_length_eq: "2 ^ k \<le> n \<Longrightarrow> n < 2 ^ Suc k \<Longrightarrow> bit_length n = Suc k"
proof -
  assume a: "2 ^ k \<le> n" "n < 2 ^ Suc k"
  have "bit_length n \<le> Suc k" using a(2) by (rule bit_length_le)
  moreover have "\<not> bit_length n \<le> k"
  proof
    assume "bit_length n \<le> k"
    then have "(2 :: nat) ^ bit_length n \<le> 2 ^ k" by (simp add: power_increasing)
    with bit_length_upper [of n] a(1) show False by linarith
  qed
  ultimately show ?thesis by simp
qed

lemma block_div_mod: "f < B \<Longrightarrow> (k * B + f) div B = k \<and> (k * B + f) mod B = (f :: nat)"
  by simp

text \<open>A value of at most 53 significant bits is rounded exactly.\<close>

lemma mag_round_exact:
  assumes "q < 2 ^ 53"
  shows "mag_value (round_mag (q * 2 ^ s)) = q * 2 ^ s"
proof -
  define a where "a = q * 2 ^ s"
  define sh where "sh = bit_length a - 53"
  have "a < 2 ^ (53 + s)" using assms by (simp add: a_def power_add)
  then have shs: "sh \<le> s" using bit_length_le [of a "53 + s"] by (simp add: sh_def)
  have "a = (q * 2 ^ (s - sh)) * 2 ^ sh"
    using shs by (simp add: a_def mult.assoc power_add [symmetric])
  then obtain p where p: "a = p * 2 ^ sh" by blast
  then have dm: "a div 2 ^ sh = p" "a mod 2 ^ sh = 0" by simp_all
  have r: "round_mag a = sh * 2 ^ 52 + p"
    by (simp add: round_mag_def Let_def sh_def [symmetric] dm)
  show ?thesis
  proof (cases "bit_length a \<le> 53")
    case True
    then have sh0: "sh = 0" by (simp add: sh_def)
    then have ap: "a = p" using p by simp
    have "a < 2 ^ 53"
      using bit_length_upper [of a] power_increasing [OF True, of "2 :: nat"] by linarith
    then have lt: "a - 2 ^ 52 < 2 ^ 52" by simp
    show ?thesis
    proof (cases "a < 2 ^ 52")
      case True
      then show ?thesis using r sh0 ap by (simp add: mag_value_def a_def [symmetric])
    next
      case False
      then have "a div 2 ^ 52 = 1" "a mod 2 ^ 52 = a - 2 ^ 52"
        using lt by (simp_all add: le_div_geq le_mod_geq)
      then show ?thesis using r sh0 ap False by (simp add: mag_value_def a_def [symmetric])
    qed
  next
    case False
    then have bl: "bit_length a = Suc (52 + sh)" by (simp add: sh_def)
    then have "a < 2 ^ Suc (52 + sh)" using bit_length_upper [of a] by simp
    then have p1: "p < 2 * 2 ^ 52" using p by (simp add: power_add)
    have "a \<noteq> 0" using False by (intro notI) simp
    then have "2 ^ (52 + sh) \<le> a" using bit_length_lower [of a] bl by simp
    then have p2: "2 ^ 52 \<le> p" using p by (simp add: power_add)
    define f where "f = p - 2 ^ 52"
    have f: "p = 2 ^ 52 + f" "f < 2 ^ 52" using p1 p2 by (simp_all add: f_def)
    have r': "round_mag a = Suc sh * 2 ^ 52 + f" using r f by simp
    have "round_mag a div 2 ^ 52 = Suc sh \<and> round_mag a mod 2 ^ 52 = f"
      unfolding r' by (rule block_div_mod [OF f(2)])
    moreover have "\<not> round_mag a < 2 ^ 52" unfolding r' by simp
    ultimately have "mag_value (round_mag a) = (2 ^ 52 + f) * 2 ^ sh"
      by (simp add: mag_value_def)
    then show ?thesis using p f by (simp add: a_def [symmetric])
  qed
qed

lemma mag_value_form: "\<exists>q s. mag_value m = q * 2 ^ s \<and> q < 2 ^ 53"
proof (cases "m < 2 ^ 52")
  case True
  then show ?thesis by (intro exI [of _ m] exI [of _ 0]) (simp add: mag_value_def)
next
  case False
  have "2 ^ 52 + m mod 2 ^ 52 < 2 ^ 53"
    using mod_less_divisor [of "(2 :: nat) ^ 52" m] by simp
  with False show ?thesis unfolding mag_value_def by (simp only: if_False) blast
qed

lemma mag_value_large:
  assumes "inf_mag \<le> m" shows "2 ^ 2098 \<le> mag_value m"
proof -
  have "2047 \<le> m div 2 ^ 52"
    using assms unfolding inf_mag_def by (metis div_le_mono nonzero_mult_div_cancel_right power_not_zero zero_neq_numeral)
  then have "(2 :: nat) ^ 2046 \<le> 2 ^ (m div 2 ^ 52 - 1)" by (intro power_increasing) auto
  then have "(2 :: nat) ^ 52 * 2 ^ 2046 \<le> (2 ^ 52 + m mod 2 ^ 52) * 2 ^ (m div 2 ^ 52 - 1)"
    by (intro mult_le_mono) auto
  moreover have "\<not> m < 2 ^ 52" using assms by (simp add: inf_mag_def)
  ultimately show ?thesis unfolding mag_value_def
    by (simp only: power_add [symmetric] if_False) simp
qed

lemma unat_signed_mag:
  assumes "m \<le> inf_mag"
  shows "unat (word_of_nat (m + (if b then 2 ^ 63 else 0)) :: 64 word) = m + (if b then 2 ^ 63 else 0)"
proof -
  have "m + (if b then 2 ^ 63 else 0) < 2 ^ 64" using assms by (simp add: inf_mag_def)
  then show ?thesis by (simp only: unat_of_nat len_num1 len_bit0) simp
qed

lemma dbl_of_scaled_parts:
  fixes k :: int
  defines "m \<equiv> min (round_mag (nat \<bar>k\<bar>)) inf_mag"
  shows "dbl_mag (dbl_of_scaled k) = m" "dbl_negative (dbl_of_scaled k) \<longleftrightarrow> k < 0"
proof -
  have m: "m \<le> inf_mag" by (simp add: m_def)
  then have "m < 2 ^ 63" by (simp add: inf_mag_def)
  then show "dbl_mag (dbl_of_scaled k) = m" "dbl_negative (dbl_of_scaled k) \<longleftrightarrow> k < 0"
    using unat_signed_mag [OF m, of "k < 0"]
    by (simp_all add: dbl_mag_def dbl_negative_def dbl_of_scaled_def m_def [symmetric])
qed

lemma dbl_of_scaled_exact:
  assumes "nat \<bar>k\<bar> = q * 2 ^ s" "q < 2 ^ 53" "nat \<bar>k\<bar> < 2 ^ 2098"
  shows "dbl_key (dbl_of_scaled k) = k" "\<not> isnan (dbl_of_scaled k)" "\<not> isinf (dbl_of_scaled k)"
proof -
  define m where "m = round_mag (nat \<bar>k\<bar>)"
  have v: "mag_value m = nat \<bar>k\<bar>"
    using mag_round_exact [OF assms(2), of s] by (simp add: m_def assms(1))
  have "m < inf_mag"
  proof (rule ccontr)
    assume "\<not> m < inf_mag"
    then have "2 ^ 2098 \<le> mag_value m" by (intro mag_value_large) simp
    then show False using assms(3) v by linarith
  qed
  then have m: "dbl_mag (dbl_of_scaled k) = m" "dbl_negative (dbl_of_scaled k) \<longleftrightarrow> k < 0" "m < inf_mag"
    using dbl_of_scaled_parts [of k] by (simp_all add: m_def)
  show "\<not> isnan (dbl_of_scaled k)" "\<not> isinf (dbl_of_scaled k)"
    using m by (simp_all add: isnan_def isinf_def)
  show "dbl_key (dbl_of_scaled k) = k"
    unfolding dbl_key_def m v by auto
qed

lemma dbl_of_scaled_key:
  assumes "\<not> isnan d" "\<not> isinf d"
  shows "dbl_key (dbl_of_scaled (dbl_key d)) = dbl_key d"
proof -
  obtain q s where qs: "mag_value (dbl_mag d) = q * 2 ^ s" "q < 2 ^ 53" using mag_value_form by blast
  have abs: "nat \<bar>dbl_key d\<bar> = mag_value (dbl_mag d)" by (simp add: dbl_key_def)
  have "dbl_mag d < inf_mag" using assms by (simp add: isnan_def isinf_def)
  then have "dbl_mag d div 2 ^ 52 < 2047" unfolding inf_mag_def by (intro less_mult_imp_div_less)
  then have "(2 :: nat) ^ (dbl_mag d div 2 ^ 52 - 1) \<le> 2 ^ 2045" by (intro power_increasing) auto
  moreover have "(2 :: nat) ^ 52 + dbl_mag d mod 2 ^ 52 < 2 ^ 53"
    using mod_less_divisor [of "(2 :: nat) ^ 52" "dbl_mag d"] by simp
  ultimately have "(2 ^ 52 + dbl_mag d mod 2 ^ 52) * 2 ^ (dbl_mag d div 2 ^ 52 - 1) < (2 :: nat) ^ 53 * 2 ^ 2045"
    by (intro mult_less_le_imp_less) simp_all
  moreover have "(2 :: nat) ^ 52 \<le> 2 ^ 2098" by (rule power_increasing) auto
  ultimately have "mag_value (dbl_mag d) < 2 ^ 2098" unfolding mag_value_def
    by (cases "dbl_mag d < 2 ^ 52") (simp_all only: if_True if_False power_add [symmetric], simp_all)
  then show ?thesis using dbl_of_scaled_exact(1) [of "dbl_key d" q s] qs abs by simp
qed

section \<open>Mixed comparison is exact\<close>

lemma nat_two_power: "nat (2 ^ k) = 2 ^ k"
  by (simp add: nat_power_eq)

lemma INT64_MIN_key: "dbl_key INT64_MIN_VALUE_AS_DOUBLE = - (2 ^ 1137)" "\<not> isnan INT64_MIN_VALUE_AS_DOUBLE"
proof -
  have k: "- (2 ^ 63) * 2 ^ 1074 = (- (2 ^ 1137) :: int)" by simp
  have "nat \<bar>- (2 ^ 1137) :: int\<bar> = 1 * 2 ^ 1137"
    by (simp only: abs_minus abs_power2 power_abs abs_numeral nat_two_power mult_1)
  moreover have "(2 :: nat) ^ 1137 < 2 ^ 2098" by (rule power_strict_increasing) auto
  ultimately show "dbl_key INT64_MIN_VALUE_AS_DOUBLE = - (2 ^ 1137)" "\<not> isnan INT64_MIN_VALUE_AS_DOUBLE"
    using dbl_of_scaled_exact [of "- (2 ^ 1137)" 1 1137]
    by (simp_all only: INT64_MIN_VALUE_AS_DOUBLE_def dbl_of_int_def k) simp_all
qed

lemma round_mag_up:
  assumes "bit_length a = 53 + sh" "a div 2 ^ sh = q \<and> a mod 2 ^ sh = r" "2 ^ sh < 2 * r"
  shows "round_mag a = sh * 2 ^ 52 + (q + 1)"
  using assms by (simp add: round_mag_def Let_def)

lemma round_mag_exact:
  assumes "bit_length a = 53 + sh" "a div 2 ^ sh = q \<and> a mod 2 ^ sh = 0"
  shows "round_mag a = sh * 2 ^ 52 + q"
  using assms by (simp add: round_mag_def Let_def)

lemma round_mag_int64_max: "round_mag ((2 ^ 63 - 1) * 2 ^ 1074) = round_mag (1 * 2 ^ 1137)"
proof -
  have bl: "bit_length ((2 ^ 63 - 1) * 2 ^ 1074) = Suc 1136"
  proof (rule bit_length_eq)
    have "(2 :: nat) ^ 62 * 2 ^ 1074 \<le> (2 ^ 63 - 1) * 2 ^ 1074" by (rule mult_le_mono1) simp
    then show "(2 :: nat) ^ 1136 \<le> (2 ^ 63 - 1) * 2 ^ 1074" by (simp only: power_add [symmetric]) simp
    have "(2 ^ 63 - 1) * 2 ^ 1074 < (2 :: nat) ^ 63 * 2 ^ 1074" by (rule mult_less_mono1) simp_all
    then show "(2 ^ 63 - 1) * 2 ^ 1074 < (2 :: nat) ^ Suc 1136" by (simp only: power_add [symmetric]) simp
  qed
  have e: "(2 ^ 63 - 1) * 2 ^ 1074 = (2 ^ 53 - 1) * 2 ^ 1084 + 1023 * (2 :: nat) ^ 1074" by simp
  have d: "(2 ^ 63 - 1) * 2 ^ 1074 div (2 :: nat) ^ 1084 = 2 ^ 53 - 1 \<and>
      (2 ^ 63 - 1) * 2 ^ 1074 mod (2 :: nat) ^ 1084 = 1023 * 2 ^ 1074"
    unfolding e by (rule block_div_mod) simp
  have bl': "bit_length ((2 ^ 63 - 1) * 2 ^ 1074) = 53 + 1084" unfolding bl by simp
  have c: "(2 :: nat) ^ 1084 < 2 * (1023 * 2 ^ 1074)" by simp
  have l: "round_mag ((2 ^ 63 - 1) * 2 ^ 1074) = 1084 * 2 ^ 52 + (2 ^ 53 - 1 + 1)"
    by (rule round_mag_up [OF bl' d c])
  have "bit_length (1 * 2 ^ 1137) = Suc 1137" by (rule bit_length_eq) (simp_all only: mult_1 power_Suc, simp_all)
  then have b2: "bit_length (1 * 2 ^ 1137) = 53 + 1085" by linarith
  have d2: "(1 * 2 ^ 1137) div (2 :: nat) ^ 1085 = 2 ^ 52 \<and> (1 * 2 ^ 1137) mod (2 :: nat) ^ 1085 = 0" by simp
  show ?thesis unfolding l round_mag_exact [OF b2 d2] by simp
qed

lemma INT64_MAX_key: "dbl_key INT64_MAX_VALUE_AS_DOUBLE = 2 ^ 1137" "\<not> isnan INT64_MAX_VALUE_AS_DOUBLE"
proof -
  have n: "nat \<bar>(2 ^ 63 - 1) * 2 ^ 1074 :: int\<bar> = (2 ^ 63 - 1) * 2 ^ 1074" by simp
  have n': "nat \<bar>2 ^ 1137 :: int\<bar> = 1 * 2 ^ 1137"
    by (simp only: power_abs abs_numeral nat_two_power mult_1)
  have neg: "((2 ^ 63 - 1) * 2 ^ 1074 < (0 :: int)) = (2 ^ 1137 < (0 :: int))" by simp
  have same: "dbl_of_int (2 ^ 63 - 1) = dbl_of_scaled (2 ^ 1137)"
    unfolding dbl_of_int_def dbl_of_scaled_def n n' neg round_mag_int64_max ..
  have "(2 :: nat) ^ 1137 < 2 ^ 2098" by (rule power_strict_increasing) auto
  then show "dbl_key INT64_MAX_VALUE_AS_DOUBLE = 2 ^ 1137" "\<not> isnan INT64_MAX_VALUE_AS_DOUBLE"
    using dbl_of_scaled_exact [of "2 ^ 1137" 1 1137] n'
    by (simp_all only: INT64_MAX_VALUE_AS_DOUBLE_def same) simp_all
qed

lemma trunc_less:
  fixes k n S :: int
  assumes "0 < S"
  shows "sgn k * (\<bar>k\<bar> div S) < n \<Longrightarrow> k < n * S"
    and "n < sgn k * (\<bar>k\<bar> div S) \<Longrightarrow> n * S < k"
proof -
  define q r where "q = \<bar>k\<bar> div S" and "r = \<bar>k\<bar> mod S"
  have k: "\<bar>k\<bar> = q * S + r" "0 \<le> r" "r < S" "0 \<le> q"
    using assms by (simp_all add: q_def r_def pos_imp_zdiv_nonneg_iff)
  have up: "a * S + r < b * S" if "a < b" for a b
  proof -
    have "(a + 1) * S \<le> b * S" using that assms by (intro mult_right_mono) auto
    then show ?thesis using k(3) by (simp add: algebra_simps)
  qed
  have lt: "a * S < b * S" if "a < b" for a b using that assms by simp
  have neg: "- n * S = - (n * S)" for n by simp
  consider (pos) "0 < k" | (zero) "k = 0" | (neg) "k < 0" by linarith
  note cases = this
  show "sgn k * (\<bar>k\<bar> div S) < n \<Longrightarrow> k < n * S"
    unfolding q_def [symmetric]
  proof (cases rule: cases)
    case pos
    then show "sgn k * q < n \<Longrightarrow> k < n * S" using k up [of q n] by simp
  next
    case zero
    then show "sgn k * q < n \<Longrightarrow> k < n * S" using lt [of 0 n] by simp
  next
    case neg
    then show "sgn k * q < n \<Longrightarrow> k < n * S" using k lt [of "- q" n] by simp
  qed
  show "n < sgn k * (\<bar>k\<bar> div S) \<Longrightarrow> n * S < k"
    unfolding q_def [symmetric]
  proof (cases rule: cases)
    case pos
    then have "sgn k * q = q" "k = q * S + r" using k by simp_all
    then show "n < sgn k * q \<Longrightarrow> n * S < k" using lt [of n q] k(2) by linarith
  next
    case zero
    then show "n < sgn k * q \<Longrightarrow> n * S < k" using lt [of n 0] by simp
  next
    case neg
    then show "n < sgn k * q \<Longrightarrow> n * S < k" using k up [of q "- n"] by simp
  qed
qed

lemma dbl_key_form:
  obtains q s where "nat \<bar>dbl_key d\<bar> = q * 2 ^ s" "q < 2 ^ 53"
proof -
  obtain q s where "mag_value (dbl_mag d) = q * 2 ^ s" "q < 2 ^ 53" using mag_value_form by blast
  moreover have "nat \<bar>dbl_key d\<bar> = mag_value (dbl_mag d)" by (simp add: dbl_key_def)
  ultimately show ?thesis using that by simp
qed

lemma shifted_div_form:
  assumes "q < 2 ^ 53" shows "\<exists>q' s'. q * 2 ^ s div 2 ^ t = q' * 2 ^ s' \<and> q' < (2 :: nat) ^ 53"
proof (cases "t \<le> s")
  case True
  then obtain u where "s = u + t" using le_Suc_ex by (metis add.commute)
  then have "q * 2 ^ s div 2 ^ t = q * 2 ^ u" by (simp add: power_add mult.assoc [symmetric])
  then show ?thesis using assms by blast
next
  case False
  then obtain u where t: "t = s + u" using le_Suc_ex by (metis nat_le_linear)
  have "q * 2 ^ s div 2 ^ t = q div 2 ^ u" by (simp add: t power_add mult.commute)
  moreover have "q div 2 ^ u < 2 ^ 53" using div_le_dividend [of q "2 ^ u"] assms by linarith
  ultimately show ?thesis by (intro exI [of _ "q div 2 ^ u"] exI [of _ 0]) simp
qed

lemma dbl_of_trunc_key:
  assumes "\<bar>dbl_trunc d\<bar> \<le> 2 ^ 63"
  shows "dbl_key (dbl_of_int (dbl_trunc d)) = dbl_trunc d * 2 ^ 1074"
    "\<not> isnan (dbl_of_int (dbl_trunc d))"
proof -
  obtain q s where qs: "nat \<bar>dbl_key d\<bar> = q * 2 ^ s" "q < 2 ^ 53" by (rule dbl_key_form)
  have "nat \<bar>dbl_trunc d\<bar> = nat \<bar>dbl_key d\<bar> div 2 ^ 1074"
    by (simp add: dbl_trunc_def abs_mult nat_div_distrib nat_two_power sgn_if)
  with qs shifted_div_form [of q s 1074] obtain q' s'
    where q': "nat \<bar>dbl_trunc d\<bar> = q' * 2 ^ s'" "q' < 2 ^ 53" by auto
  define T :: nat where "T = 2 ^ 1074"
  have T: "int T = 2 ^ 1074" by (simp only: T_def of_nat_power of_nat_numeral)
  have e: "nat \<bar>dbl_trunc d * 2 ^ 1074\<bar> = nat \<bar>dbl_trunc d\<bar> * T"
    unfolding T [symmetric] by (simp add: abs_mult nat_mult_distrib)
  then have form: "nat \<bar>dbl_trunc d * 2 ^ 1074\<bar> = q' * 2 ^ (s' + 1074)"
    unfolding q'(1) T_def by (simp only: power_add mult.assoc)
  have "nat \<bar>dbl_trunc d\<bar> \<le> 2 ^ 63" using assms by simp
  then have "nat \<bar>dbl_trunc d\<bar> * T \<le> 2 ^ 63 * 2 ^ 1074" unfolding T_def by (rule mult_le_mono1)
  also have "\<dots> = (2 :: nat) ^ 1137" by (simp only: power_add [symmetric]) simp
  also have "\<dots> < 2 ^ 2098" by (rule power_strict_increasing) auto
  finally have "nat \<bar>dbl_trunc d * 2 ^ 1074\<bar> < 2 ^ 2098" unfolding e .
  then show "dbl_key (dbl_of_int (dbl_trunc d)) = dbl_trunc d * 2 ^ 1074"
    "\<not> isnan (dbl_of_int (dbl_trunc d))"
    using dbl_of_scaled_exact [OF form q'(2)] by (simp_all only: dbl_of_int_def) simp_all
qed

lemma sint_int64: "sint (word_of_int n :: int64) = n" if "- (2 ^ 63) \<le> n" "n < 2 ^ 63"
  using that by (simp add: sint_sbintrunc' signed_take_bit_int_eq_self)

lemma sint_int64_range: "- (2 ^ 63) \<le> sint (i :: int64)" "sint (i :: int64) < 2 ^ 63"
  using sint_range_size [of i] by (simp_all add: word_size)

lemma isinf_key:
  assumes "isinf d" shows "\<bar>dbl_key d\<bar> = 2 ^ 2098"
proof -
  have m: "\<not> inf_mag < 2 ^ 52" "inf_mag mod 2 ^ 52 = 0" "inf_mag div 2 ^ 52 = 2047"
    by (simp_all add: inf_mag_def)
  have "mag_value inf_mag = 2 ^ 52 * 2 ^ 2046" unfolding mag_value_def using m by (simp only: if_False) simp
  then have "mag_value inf_mag = 2 ^ 2098" by (simp only: power_add [symmetric]) simp
  then have "int (mag_value (dbl_mag d)) = 2 ^ 2098"
    using assms by (simp only: isinf_def of_nat_power of_nat_numeral)
  then show ?thesis unfolding dbl_key_def by (simp only: abs_minus power_abs abs_numeral if_distrib [of abs] if_cancel)
qed

definition exact_mixed_order :: "double \<Rightarrow> int64 \<Rightarrow> ComparisonResult" where
  "exact_mixed_order d i =
     (if isnan d then Ascending else DefaultCompare (dbl_key d) (sint i * 2 ^ 1074))"

lemma mixed_in_range:
  assumes "\<not> isnan d" "- (2 ^ 1137) \<le> dbl_key d" "dbl_key d < 2 ^ 1137"
  shows "dbl_to_int64 d = Some (word_of_int (dbl_trunc d))" "- (2 ^ 63) \<le> dbl_trunc d" "dbl_trunc d < 2 ^ 63"
proof -
  define S :: int where "S = 2 ^ 1074"
  have S: "0 < S" by (simp add: S_def)
  have big: "(2 ^ 1137 :: int) = 2 ^ 63 * S" by (simp only: S_def power_add [symmetric]) simp
  have lo: "- (2 ^ 63) \<le> dbl_trunc d"
  proof (rule ccontr)
    assume "\<not> - (2 ^ 63) \<le> dbl_trunc d"
    then have "dbl_key d < - (2 ^ 63) * S"
      unfolding dbl_trunc_def S_def [symmetric] by (intro trunc_less(1) [OF S]) simp
    then show False using assms(2) unfolding big by linarith
  qed
  have hi: "dbl_trunc d < 2 ^ 63"
  proof (rule ccontr)
    assume "\<not> dbl_trunc d < 2 ^ 63"
    then have "2 ^ 63 - 1 < dbl_trunc d" by linarith
    moreover have "dbl_trunc d * S \<le> dbl_key d" if "0 < dbl_trunc d"
    proof -
      have "0 < dbl_key d" using that by (auto simp: dbl_trunc_def sgn_if pos_imp_zdiv_nonneg_iff S_def split: if_splits)
      then have t: "dbl_trunc d = dbl_key d div S" by (simp add: dbl_trunc_def S_def)
      have "dbl_key d div S * S \<le> dbl_key d" using div_mult_mod_eq [of "dbl_key d" S] S pos_mod_sign [OF S, of "dbl_key d"] by linarith
      then show ?thesis unfolding t .
    qed
    ultimately have "dbl_trunc d * S \<le> dbl_key d" "2 ^ 63 * S \<le> dbl_trunc d * S"
      using S by (simp_all add: mult_right_mono)
    then show False using assms(3) unfolding big by linarith
  qed
  have "\<not> isinf d"
  proof
    assume "isinf d"
    then have "\<bar>dbl_key d\<bar> = 2 ^ 2098" by (rule isinf_key)
    moreover have "(2 :: int) ^ 1137 < 2 ^ 2098" by (rule power_strict_increasing) auto
    ultimately show False using assms(2,3) by linarith
  qed
  then show "dbl_to_int64 d = Some (word_of_int (dbl_trunc d))" "- (2 ^ 63) \<le> dbl_trunc d" "dbl_trunc d < 2 ^ 63"
    using lo hi assms(1) by (auto simp: dbl_to_int64_def)
qed

lemma CompareMixedNumber_exact: "CompareMixedNumber d i = Some (exact_mixed_order d i)"
proof -
  define S :: int where "S = 2 ^ 1074"
  have S: "0 < S" by (simp add: S_def)
  have big: "(2 ^ 1137 :: int) = 2 ^ 63 * S" by (simp only: S_def power_add [symmetric]) simp
  have i: "- (2 ^ 63) * S \<le> sint i * S" "sint i * S < 2 ^ 63 * S"
    using sint_int64_range [of i] S by (simp_all only: mult_le_cancel_right_pos mult_less_cancel_right_pos)
  consider (nan) "isnan d" | (low) "\<not> isnan d" "dbl_key d < - (2 ^ 1137)"
    | (high) "\<not> isnan d" "2 ^ 1137 \<le> dbl_key d"
    | (mid) "\<not> isnan d" "- (2 ^ 1137) \<le> dbl_key d" "dbl_key d < 2 ^ 1137" by linarith
  then show ?thesis
  proof cases
    case nan
    then show ?thesis by (simp add: CompareMixedNumber_def exact_mixed_order_def dbl_less_def dbl_eq_def)
  next
    case low
    then have "dbl_key d < sint i * S" using i unfolding big by linarith
    then show ?thesis using low unfolding CompareMixedNumber_def exact_mixed_order_def S_def [symmetric]
      by (simp only: dbl_less_def INT64_MIN_key) (simp add: DefaultCompare_def)
  next
    case high
    then have "sint i * S < dbl_key d" using i unfolding big by linarith
    moreover have "\<not> dbl_key d < - (2 ^ 1137)" using high(2) by (smt (verit) zero_less_power)
    moreover have "2 ^ 1137 < dbl_key d \<or> 2 ^ 1137 = dbl_key d" using high(2) by linarith
    ultimately show ?thesis using high unfolding CompareMixedNumber_def exact_mixed_order_def S_def [symmetric]
      by (simp only: dbl_less_def dbl_eq_def INT64_MIN_key INT64_MAX_key) (simp add: DefaultCompare_def)
  next
    case mid
    note r = mixed_in_range [OF mid]
    have "\<not> dbl_less d INT64_MIN_VALUE_AS_DOUBLE" "\<not> dbl_less INT64_MAX_VALUE_AS_DOUBLE d"
      "\<not> dbl_eq INT64_MAX_VALUE_AS_DOUBLE d"
      unfolding dbl_less_def dbl_eq_def INT64_MIN_key INT64_MAX_key using mid by linarith+
    then have c: "CompareMixedNumber d i =
        (if DefaultCompare (dbl_trunc d) (sint i) \<noteq> Same then Some (DefaultCompare (dbl_trunc d) (sint i))
         else Some (CompareDouble d (dbl_of_int (sint i))))"
      using mid(1) r by (simp add: CompareMixedNumber_def Let_def CompareInt64_def sint_int64)
    consider "dbl_trunc d < sint i" | "sint i < dbl_trunc d" | (eq) "dbl_trunc d = sint i" by linarith
    then show ?thesis
    proof cases
      case 1
      then have "dbl_key d < sint i * S"
        unfolding dbl_trunc_def S_def [symmetric] by (rule trunc_less(1) [OF S])
      with 1 show ?thesis unfolding c exact_mixed_order_def S_def [symmetric] using mid(1)
        by (simp add: DefaultCompare_def)
    next
      case 2
      then have "sint i * S < dbl_key d"
        unfolding dbl_trunc_def S_def [symmetric] by (rule trunc_less(2) [OF S])
      with 2 show ?thesis unfolding c exact_mixed_order_def S_def [symmetric] using mid(1)
        by (simp add: DefaultCompare_def)
    next
      case eq
      have "\<bar>dbl_trunc d\<bar> \<le> 2 ^ 63" using r by linarith
      then have "dbl_key (dbl_of_int (sint i)) = sint i * S" "\<not> isnan (dbl_of_int (sint i))"
        using dbl_of_trunc_key [of d] unfolding eq S_def by simp_all
      then show ?thesis unfolding c exact_mixed_order_def S_def [symmetric] using mid(1) eq
        by (simp add: CompareDouble_def DefaultCompare_def dbl_less_def dbl_eq_def)
    qed
  qed
qed

section \<open>Properties\<close>

text \<open>C17: Comparing a double with a 64-bit integer never runs into the undefined cast, puts NaN
  first, and otherwise gives the exact order of the two mathematical values, although the
  code compares a truncated and then a rounded value.\<close>

theorem mixed_comparison_exact:
  "CompareMixedNumber d i =
     Some (if isnan d then Ascending else DefaultCompare (dbl_key d) (sint i * 2 ^ 1074))"
  by (simp add: CompareMixedNumber_exact exact_mixed_order_def)

end
