(* ===== verification/Values.thy ===== *)
theory Values
  imports Numbers "HOL-Library.Multiset" "HOL-Library.List_Lexorder" "HOL-Library.Char_ord"
begin

text \<open>
  Field values, their order and their equality (\<^verbatim>\<open>model/value_util.cc\<close>,
  \<^verbatim>\<open>model/server_timestamp_util.cc\<close>).  A \<^verbatim>\<open>google_firestore_v1_Value\<close> is a tagged
  union, so it is a datatype with one constructor per tag; strings and blobs are lists of
  bytes (\<open>string\<close>), a null pointer being the empty string, which no function of the code
  tells apart; a map is the list of its entries in the order of the message.  A failed
  \<^verbatim>\<open>HARD_ASSERT\<close> or \<^verbatim>\<open>HARD_FAIL\<close> is None.
\<close>

section \<open>Values\<close>

record Timestamp =
  seconds :: int64
  nanos :: "32 word"

datatype Value =
    null_value
  | boolean_value bool
  | integer_value int64
  | double_value double
  | timestamp_value Timestamp
  | string_value string
  | bytes_value string
  | reference_value string
  | geo_point_value double double
  | array_value "Value list"
  | map_value "(string \<times> Value) list"

type_synonym fields = "(string \<times> Value) list"

fun IsMap :: "Value \<Rightarrow> bool" where
  "IsMap (map_value fs) = True"
| "IsMap _ = False"

fun IsArray :: "Value \<Rightarrow> bool" where
  "IsArray (array_value vs) = True"
| "IsArray _ = False"

fun map_fields :: "Value \<Rightarrow> fields" where
  "map_fields (map_value fs) = fs"
| "map_fields _ = []"

fun array_values :: "Value \<Rightarrow> Value list" where
  "array_values (array_value vs) = vs"
| "array_values _ = []"

definition kTypeKey :: string where "kTypeKey = ''__type__''"
definition kLocalWriteTimeKey :: string where "kLocalWriteTimeKey = ''__local_write_time__''"
definition kPreviousValueKey :: string where "kPreviousValueKey = ''__previous_value__''"
definition kServerTimestampSentinel :: string where "kServerTimestampSentinel = ''server_timestamp''"
definition kRawMaxValueFieldValue :: string where "kRawMaxValueFieldValue = ''__max__''"
definition kRawVectorTypeFieldValue :: string where "kRawVectorTypeFieldValue = ''__vector__''"
definition kRawVectorValueFieldKey :: string where "kRawVectorValueFieldKey = ''value''"
definition kMinimumReferenceValue :: string where
  "kMinimumReferenceValue = ''projects//databases//documents/''"

section \<open>Server timestamps\<close>

fun IsServerTimestamp :: "Value \<Rightarrow> bool" where
  "IsServerTimestamp (map_value fs) =
     (length fs \<le> 3 \<and>
      (case find (\<lambda>f. fst f = kTypeKey) fs of
         None \<Rightarrow> False
       | Some f \<Rightarrow> snd f = string_value kServerTimestampSentinel))"
| "IsServerTimestamp _ = False"

fun GetLocalWriteTime_in :: "fields \<Rightarrow> Timestamp option" where
  "GetLocalWriteTime_in [] = None"
| "GetLocalWriteTime_in (f # fs) =
     (if fst f = kLocalWriteTimeKey
      then (case snd f of timestamp_value ts \<Rightarrow> Some ts | _ \<Rightarrow> GetLocalWriteTime_in fs)
      else GetLocalWriteTime_in fs)"

definition GetLocalWriteTime :: "Value \<Rightarrow> Timestamp option" where
  "GetLocalWriteTime value = GetLocalWriteTime_in (map_fields value)"

fun GetPreviousValue :: "Value \<Rightarrow> Value option" and GetPreviousValue_in :: "fields \<Rightarrow> Value option" where
  "GetPreviousValue (map_value fs) = GetPreviousValue_in fs"
| "GetPreviousValue _ = None"
| "GetPreviousValue_in [] = None"
| "GetPreviousValue_in ((k, v) # fs) =
     (if k = kPreviousValueKey then (if IsServerTimestamp v then GetPreviousValue v else Some v)
      else GetPreviousValue_in fs)"

definition EncodeServerTimestamp :: "Timestamp \<Rightarrow> Value option \<Rightarrow> Value" where
  "EncodeServerTimestamp local_write_time previous_value =
     (let previous = (case previous_value of
                        Some p \<Rightarrow> if IsServerTimestamp p then GetPreviousValue p else Some p
                      | None \<Rightarrow> None)
      in map_value ([(kTypeKey, string_value kServerTimestampSentinel),
                     (kLocalWriteTimeKey, timestamp_value local_write_time)] @
                    (case previous of Some p \<Rightarrow> [(kPreviousValueKey, p)] | None \<Rightarrow> [])))"

section \<open>Special values\<close>

fun IsMaxValue :: "Value \<Rightarrow> bool" where
  "IsMaxValue (map_value [(k, string_value s)]) = (k = kTypeKey \<and> s = kRawMaxValueFieldValue)"
| "IsMaxValue _ = False"

fun IndexOfKey :: "fields \<Rightarrow> string \<Rightarrow> nat option" where
  "IndexOfKey [] key = None"
| "IndexOfKey (f # fs) key = (if fst f = key then Some 0 else map_option Suc (IndexOfKey fs key))"

definition IsVectorValue :: "Value \<Rightarrow> bool" where
  "IsVectorValue value \<longleftrightarrow>
     (case value of
        map_value fs \<Rightarrow>
          2 \<le> length fs \<and>
          (case IndexOfKey fs kTypeKey of
             None \<Rightarrow> False
           | Some i \<Rightarrow>
               snd (fs ! i) = string_value kRawVectorTypeFieldValue \<and>
               (case IndexOfKey fs kRawVectorValueFieldKey of
                  None \<Rightarrow> False
                | Some j \<Rightarrow> IsArray (snd (fs ! j))))
      | _ \<Rightarrow> False)"

datatype TypeOrder =
  kNull | kBoolean | kNumber | kTimestamp | kServerTimestamp | kString | kBlob | kReference
| kGeoPoint | kArray | kVector | kMap | kMaxValue

fun type_rank :: "TypeOrder \<Rightarrow> int" where
  "type_rank kNull = 0"
| "type_rank kBoolean = 1"
| "type_rank kNumber = 2"
| "type_rank kTimestamp = 3"
| "type_rank kServerTimestamp = 4"
| "type_rank kString = 5"
| "type_rank kBlob = 6"
| "type_rank kReference = 7"
| "type_rank kGeoPoint = 8"
| "type_rank kArray = 9"
| "type_rank kVector = 10"
| "type_rank kMap = 11"
| "type_rank kMaxValue = 12"

fun GetTypeOrder :: "Value \<Rightarrow> TypeOrder" where
  "GetTypeOrder null_value = kNull"
| "GetTypeOrder (boolean_value b) = kBoolean"
| "GetTypeOrder (integer_value i) = kNumber"
| "GetTypeOrder (double_value d) = kNumber"
| "GetTypeOrder (timestamp_value t) = kTimestamp"
| "GetTypeOrder (string_value s) = kString"
| "GetTypeOrder (bytes_value s) = kBlob"
| "GetTypeOrder (reference_value s) = kReference"
| "GetTypeOrder (geo_point_value lat lng) = kGeoPoint"
| "GetTypeOrder (array_value vs) = kArray"
| "GetTypeOrder (map_value fs) =
     (if IsServerTimestamp (map_value fs) then kServerTimestamp
      else if IsMaxValue (map_value fs) then kMaxValue
      else if IsVectorValue (map_value fs) then kVector
      else kMap)"

section \<open>Sorting the fields of maps\<close>

fun SortFields :: "Value \<Rightarrow> Value" where
  "SortFields (map_value fs) = map_value (map (\<lambda>(k, v). (k, SortFields v)) (sort_key fst fs))"
| "SortFields (array_value vs) = array_value (map SortFields vs)"
| "SortFields v = v"

fun vsize :: "Value \<Rightarrow> nat" where
  "vsize (array_value vs) = Suc (sum_list (map (\<lambda>v. Suc (vsize v)) vs))"
| "vsize (map_value fs) = Suc (sum_list (map (\<lambda>(k, v). Suc (vsize v)) fs))"
| "vsize _ = 1"

lemma sum_list_sort: "sum_list (map g (sort_key h xs)) = (sum_list (map g xs) :: nat)"
  by (metis mset_map mset_sort sum_mset_sum_list)

lemma vsize_SortFields [simp]: "vsize (SortFields v) = vsize v"
proof (induction v rule: SortFields.induct)
  case (1 fs)
  then have "sum_list (map (\<lambda>(k, v). Suc (vsize (SortFields v))) (sort_key fst fs)) =
      sum_list (map (\<lambda>(k, v). Suc (vsize v)) (sort_key fst fs))"
    by (intro arg_cong [where f = sum_list] map_cong) auto
  then show ?case by (simp add: comp_def case_prod_unfold sum_list_sort)
next
  case (2 vs)
  then have "sum_list (map (\<lambda>v. Suc (vsize (SortFields v))) vs) = sum_list (map (\<lambda>v. Suc (vsize v)) vs)"
    by (intro arg_cong [where f = sum_list] map_cong) auto
  then show ?case by (simp add: comp_def)
qed auto

section \<open>Comparison\<close>

fun CompareNumbers :: "Value \<Rightarrow> Value \<Rightarrow> ComparisonResult option" where
  "CompareNumbers (double_value l) (double_value r) = Some (CompareDouble l r)"
| "CompareNumbers (double_value l) (integer_value r) = CompareMixedNumber l r"
| "CompareNumbers (integer_value l) (integer_value r) = Some (CompareInt64 l r)"
| "CompareNumbers (integer_value l) (double_value r) = map_option ReverseOrder (CompareMixedNumber r l)"
| "CompareNumbers _ _ = None"

definition CompareTimestamps :: "Timestamp \<Rightarrow> Timestamp \<Rightarrow> ComparisonResult" where
  "CompareTimestamps l r =
     (let cmp = CompareInt64 (seconds l) (seconds r)
      in if cmp \<noteq> Same then cmp else DefaultCompare (sint (nanos l)) (sint (nanos r)))"

definition CompareStrings :: "string \<Rightarrow> string \<Rightarrow> ComparisonResult" where
  "CompareStrings l r = DefaultCompare l r"

fun memcmp :: "nat \<Rightarrow> string \<Rightarrow> string \<Rightarrow> int" where
  "memcmp (Suc n) (a # as) (b # bs) =
     (if a = b then memcmp n as bs else of_char a - of_char b)"
| "memcmp _ _ _ = 0"

definition CompareBlobs :: "string \<Rightarrow> string \<Rightarrow> ComparisonResult" where
  "CompareBlobs l r =
     (let cmp = memcmp (min (length l) (length r)) l r
      in if cmp \<noteq> 0 then ComparisonResultFromInt cmp else DefaultCompare (length l) (length r))"

fun StrSplit :: "char \<Rightarrow> string \<Rightarrow> string list" where
  "StrSplit sep [] = [[]]"
| "StrSplit sep (c # cs) =
     (if c = sep then [] # StrSplit sep cs
      else case StrSplit sep cs of [] \<Rightarrow> [[c]] | s # ss \<Rightarrow> (c # s) # ss)"

definition SkipEmpty :: "string list \<Rightarrow> string list" where
  "SkipEmpty ss = filter (\<lambda>s. s \<noteq> []) ss"

definition CompareReferences :: "string \<Rightarrow> string \<Rightarrow> ComparisonResult" where
  "CompareReferences l r =
     CompareContainer CompareStrings (SkipEmpty (StrSplit (CHR ''/'') l)) (SkipEmpty (StrSplit (CHR ''/'') r))"

definition CompareGeoPoints :: "double \<Rightarrow> double \<Rightarrow> double \<Rightarrow> double \<Rightarrow> ComparisonResult" where
  "CompareGeoPoints llat llng rlat rlng =
     (let cmp = CompareDouble llat rlat in if cmp \<noteq> Same then cmp else CompareDouble llng rlng)"

text \<open>The elements of a vector value: the array under the key \<^verbatim>\<open>value\<close>.\<close>

definition vector_elements :: "Value \<Rightarrow> Value list" where
  "vector_elements value =
     (case IndexOfKey (map_fields value) kRawVectorValueFieldKey of
        None \<Rightarrow> []
      | Some i \<Rightarrow> array_values (snd (map_fields value ! i)))"

definition vsizes :: "Value list \<Rightarrow> nat" where
  "vsizes vs = sum_list (map (\<lambda>v. Suc (vsize v)) vs)"

definition fsizes :: "fields \<Rightarrow> nat" where
  "fsizes fs = sum_list (map (\<lambda>f. Suc (vsize (snd f))) fs)"

lemma sizes_simps [simp]:
  "vsizes [] = 0" "vsizes (v # vs) = Suc (vsize v + vsizes vs)"
  "fsizes [] = 0" "fsizes (f # fs) = Suc (vsize (snd f) + fsizes fs)"
  by (simp_all add: vsizes_def fsizes_def)

lemma vsize_sizes [simp]: "vsize (array_value vs) = Suc (vsizes vs)" "vsize (map_value fs) = Suc (fsizes fs)"
  by (simp_all add: vsizes_def fsizes_def case_prod_unfold)

declare vsize.simps(1,2) [simp del]

lemma vsize_pos: "0 < vsize v"
  by (cases v) (simp_all add: vsize.simps)

lemma vsizes_array_values: "vsizes (array_values v) < vsize v"
  by (cases v) (auto simp: vsizes_def vsize_pos)

lemma fsizes_nth: "i < length fs \<Longrightarrow> vsize (snd (fs ! i)) < fsizes fs"
proof (induction fs arbitrary: i)
  case (Cons f fs)
  then show ?case by (cases i) (auto simp: less_Suc_eq trans_less_add2)
qed simp

lemma IndexOfKey_length: "IndexOfKey fs k = Some i \<Longrightarrow> i < length fs"
  by (induction fs arbitrary: i) (auto split: if_splits)

lemma vsizes_vector_elements: "vsizes (vector_elements v) < vsize v"
proof (cases "IndexOfKey (map_fields v) kRawVectorValueFieldKey")
  case None
  then show ?thesis by (simp add: vector_elements_def vsizes_def vsize_pos)
next
  case (Some i)
  then obtain fs where v: "v = map_value fs" by (cases v) auto
  with Some have "i < length fs" using IndexOfKey_length by auto
  then have "vsizes (array_values (snd (fs ! i))) < fsizes fs"
    using vsizes_array_values [of "snd (fs ! i)"] fsizes_nth [of i fs] by linarith
  with v Some show ?thesis by (simp add: vector_elements_def)
qed

lemma fsizes_SortFields: "fsizes (map_fields (SortFields v)) < vsize v"
proof (cases "SortFields v")
  case (map_value fs)
  then show ?thesis using vsize_SortFields [of v] by simp
qed (auto simp: vsize_pos)

function (sequential)
  ValueCompare :: "Value \<Rightarrow> Value \<Rightarrow> ComparisonResult option" and
  CompareArrays :: "Value list \<Rightarrow> Value list \<Rightarrow> ComparisonResult option" and
  CompareMaps_sorted :: "fields \<Rightarrow> fields \<Rightarrow> ComparisonResult option"
where
  "ValueCompare l r =
     (if GetTypeOrder l \<noteq> GetTypeOrder r
      then Some (DefaultCompare (type_rank (GetTypeOrder l)) (type_rank (GetTypeOrder r)))
      else case (GetTypeOrder l, l, r) of
        (kNull, _, _) \<Rightarrow> Some Same
      | (kBoolean, boolean_value a, boolean_value b) \<Rightarrow> Some (DefaultCompare a b)
      | (kNumber, _, _) \<Rightarrow> CompareNumbers l r
      | (kTimestamp, timestamp_value a, timestamp_value b) \<Rightarrow> Some (CompareTimestamps a b)
      | (kServerTimestamp, _, _) \<Rightarrow>
          do { a \<leftarrow> GetLocalWriteTime l; b \<leftarrow> GetLocalWriteTime r; Some (CompareTimestamps a b) }
      | (kString, string_value a, string_value b) \<Rightarrow> Some (CompareStrings a b)
      | (kBlob, bytes_value a, bytes_value b) \<Rightarrow> Some (CompareBlobs a b)
      | (kReference, reference_value a, reference_value b) \<Rightarrow> Some (CompareReferences a b)
      | (kGeoPoint, geo_point_value la lo, geo_point_value la' lo') \<Rightarrow> Some (CompareGeoPoints la lo la' lo')
      | (kArray, array_value a, array_value b) \<Rightarrow> CompareArrays a b
      | (kMap, _, _) \<Rightarrow> CompareMaps_sorted (map_fields (SortFields l)) (map_fields (SortFields r))
      | (kVector, _, _) \<Rightarrow>
          (if vector_elements l = [] \<and> vector_elements r = [] then Some Same
           else if length (vector_elements l) \<noteq> length (vector_elements r)
             then Some (DefaultCompare (length (vector_elements l)) (length (vector_elements r)))
           else CompareArrays (vector_elements l) (vector_elements r))
      | (kMaxValue, _, _) \<Rightarrow> Some Same
      | _ \<Rightarrow> None)"
| "CompareArrays [] rs = Some (DefaultCompare 0 (length rs))"
| "CompareArrays ls [] = Some (DefaultCompare (length ls) 0)"
| "CompareArrays (l # ls) (r # rs) =
     do { cmp \<leftarrow> ValueCompare l r; if cmp \<noteq> Same then Some cmp else CompareArrays ls rs }"
| "CompareMaps_sorted [] rs = Some (DefaultCompare 0 (length rs))"
| "CompareMaps_sorted ls [] = Some (DefaultCompare (length ls) 0)"
| "CompareMaps_sorted (l # ls) (r # rs) =
     (if CompareStrings (fst l) (fst r) \<noteq> Same then Some (CompareStrings (fst l) (fst r))
      else do {
        cmp \<leftarrow> ValueCompare (snd l) (snd r);
        if cmp \<noteq> Same then Some cmp else CompareMaps_sorted ls rs
      })"
  by pat_completeness auto
termination
  by (relation "measure (\<lambda>x. case x of Inl (l, r) \<Rightarrow> vsize l | Inr (Inl (ls, rs)) \<Rightarrow> vsizes ls | Inr (Inr (ls, rs)) \<Rightarrow> fsizes ls)")
    (auto simp: fsizes_SortFields vsizes_vector_elements)

definition CompareMaps :: "fields \<Rightarrow> fields \<Rightarrow> ComparisonResult option" where
  "CompareMaps l r =
     CompareMaps_sorted (map_fields (SortFields (map_value l))) (map_fields (SortFields (map_value r)))"

definition LowerBoundCompare :: "Value \<Rightarrow> bool \<Rightarrow> Value \<Rightarrow> bool \<Rightarrow> ComparisonResult option" where
  "LowerBoundCompare l left_inclusive r right_inclusive =
     do {
       cmp \<leftarrow> ValueCompare l r;
       Some (if cmp \<noteq> Same then cmp
             else if left_inclusive \<and> \<not> right_inclusive then Ascending
             else if \<not> left_inclusive \<and> right_inclusive then Descending
             else Same)
     }"

definition UpperBoundCompare :: "Value \<Rightarrow> bool \<Rightarrow> Value \<Rightarrow> bool \<Rightarrow> ComparisonResult option" where
  "UpperBoundCompare l left_inclusive r right_inclusive =
     do {
       cmp \<leftarrow> ValueCompare l r;
       Some (if cmp \<noteq> Same then cmp
             else if left_inclusive \<and> \<not> right_inclusive then Descending
             else if \<not> left_inclusive \<and> right_inclusive then Ascending
             else Same)
     }"

section \<open>Equality\<close>

fun NumberEquals :: "Value \<Rightarrow> Value \<Rightarrow> bool" where
  "NumberEquals (integer_value l) (integer_value r) = (l = r)"
| "NumberEquals (double_value l) (double_value r) = DoubleBitwiseEquals l r"
| "NumberEquals _ _ = False"

definition MapValueEquals :: "fields \<Rightarrow> fields \<Rightarrow> bool option" where
  "MapValueEquals l r =
     (if length l \<noteq> length r then Some False
      else do { cmp \<leftarrow> CompareMaps l r; Some (cmp = Same) })"

lemma vsizes_less_array: "v = array_value vs \<Longrightarrow> vsizes vs < vsize v"
  by simp

function (sequential)
  ValueEquals :: "Value \<Rightarrow> Value \<Rightarrow> bool option" and
  ArrayEquals_from :: "Value list \<Rightarrow> Value list \<Rightarrow> bool option"
where
  "ValueEquals l r =
     (if GetTypeOrder l \<noteq> GetTypeOrder r then Some False
      else case (GetTypeOrder l, l, r) of
        (kNull, _, _) \<Rightarrow> Some True
      | (kBoolean, boolean_value a, boolean_value b) \<Rightarrow> Some (a = b)
      | (kNumber, _, _) \<Rightarrow> Some (NumberEquals l r)
      | (kTimestamp, timestamp_value a, timestamp_value b) \<Rightarrow>
          Some (seconds a = seconds b \<and> nanos a = nanos b)
      | (kServerTimestamp, _, _) \<Rightarrow>
          do { a \<leftarrow> GetLocalWriteTime l; b \<leftarrow> GetLocalWriteTime r;
               Some (seconds a = seconds b \<and> nanos a = nanos b) }
      | (kString, string_value a, string_value b) \<Rightarrow> Some (a = b)
      | (kBlob, bytes_value a, bytes_value b) \<Rightarrow> Some (CompareBlobs a b = Same)
      | (kReference, reference_value a, reference_value b) \<Rightarrow> Some (a = b)
      | (kGeoPoint, geo_point_value la lo, geo_point_value la' lo') \<Rightarrow> Some (dbl_eq la la' \<and> dbl_eq lo lo')
      | (kArray, array_value a, array_value b) \<Rightarrow>
          (if length a \<noteq> length b then Some False else ArrayEquals_from a b)
      | (kVector, _, _) \<Rightarrow> MapValueEquals (map_fields l) (map_fields r)
      | (kMap, _, _) \<Rightarrow> MapValueEquals (map_fields l) (map_fields r)
      | (kMaxValue, _, _) \<Rightarrow> MapValueEquals (map_fields l) (map_fields r)
      | _ \<Rightarrow> None)"
| "ArrayEquals_from (l # ls) (r # rs) =
     do { eq \<leftarrow> ValueEquals l r; if \<not> eq then Some False else ArrayEquals_from ls rs }"
| "ArrayEquals_from _ _ = Some True"
  by pat_completeness auto
termination
  by (relation "measure (\<lambda>x. case x of Inl (l, r) \<Rightarrow> vsize l | Inr (ls, rs) \<Rightarrow> vsizes ls)") auto

definition ArrayEquals :: "Value list \<Rightarrow> Value list \<Rightarrow> bool option" where
  "ArrayEquals l r = (if length l \<noteq> length r then Some False else ArrayEquals_from l r)"

fun ArrayContains :: "Value list \<Rightarrow> Value \<Rightarrow> bool option" where
  "ArrayContains [] needle = Some False"
| "ArrayContains (v # haystack) needle =
     do { eq \<leftarrow> ValueEquals v needle; if eq then Some True else ArrayContains haystack needle }"

section \<open>Strict equality of pipeline expressions\<close>

datatype StrictEqualsResult = kEq | kNotEq | kNull_result

fun StrictNumberEquals :: "Value \<Rightarrow> Value \<Rightarrow> StrictEqualsResult" where
  "StrictNumberEquals (integer_value l) (integer_value r) = (if l = r then kEq else kNotEq)"
| "StrictNumberEquals (double_value l) (double_value r) = (if dbl_eq l r then kEq else kNotEq)"
| "StrictNumberEquals (integer_value l) (double_value r) =
     (if dbl_eq (dbl_of_int (sint l)) r then kEq else kNotEq)"
| "StrictNumberEquals (double_value l) (integer_value r) =
     (if dbl_eq l (dbl_of_int (sint r)) then kEq else kNotEq)"
| "StrictNumberEquals _ _ = kNotEq"

fun IsNullValue :: "Value \<Rightarrow> bool" where
  "IsNullValue null_value = True"
| "IsNullValue _ = False"

function (sequential)
  StrictEquals :: "Value \<Rightarrow> Value \<Rightarrow> StrictEqualsResult option" and
  StrictArrayEquals :: "bool \<Rightarrow> Value list \<Rightarrow> Value list \<Rightarrow> StrictEqualsResult option" and
  StrictMapEquals :: "bool \<Rightarrow> fields \<Rightarrow> fields \<Rightarrow> StrictEqualsResult option"
where
  "StrictEquals l r =
     (if IsNullValue l \<or> IsNullValue r then Some kNull_result
      else if GetTypeOrder l \<noteq> GetTypeOrder r then Some kNotEq
      else if GetTypeOrder l = kNumber then Some (StrictNumberEquals l r)
      else if GetTypeOrder l = kArray then
        (if length (array_values l) \<noteq> length (array_values r) then Some kNotEq
         else StrictArrayEquals False (array_values l) (array_values r))
      else if GetTypeOrder l = kVector \<or> GetTypeOrder l = kMap then
        (if length (map_fields l) \<noteq> length (map_fields r) then Some kNotEq
         else StrictMapEquals False (map_fields (SortFields l)) (map_fields (SortFields r)))
      else map_option (\<lambda>eq. if eq then kEq else kNotEq) (ValueEquals l r))"
| "StrictArrayEquals found_null (l # ls) (r # rs) =
     do {
       element_result \<leftarrow> StrictEquals l r;
       case element_result of
         kNotEq \<Rightarrow> Some kNotEq
       | kNull_result \<Rightarrow> StrictArrayEquals True ls rs
       | kEq \<Rightarrow> StrictArrayEquals found_null ls rs
     }"
| "StrictArrayEquals found_null _ _ = Some (if found_null then kNull_result else kEq)"
| "StrictMapEquals found_null (l # ls) (r # rs) =
     (if fst l \<noteq> fst r then Some kNotEq
      else do {
        value_result \<leftarrow> StrictEquals (snd l) (snd r);
        case value_result of
          kNotEq \<Rightarrow> Some kNotEq
        | kNull_result \<Rightarrow> StrictMapEquals True ls rs
        | kEq \<Rightarrow> StrictMapEquals found_null ls rs
      })"
| "StrictMapEquals found_null _ _ = Some (if found_null then kNull_result else kEq)"
  by pat_completeness auto
termination
  by (relation "measure (\<lambda>x. case x of Inl (l, r) \<Rightarrow> vsize l | Inr (Inl (b, ls, rs)) \<Rightarrow> vsizes ls
      | Inr (Inr (b, ls, rs)) \<Rightarrow> fsizes ls)")
    (auto simp: fsizes_SortFields vsizes_array_values)

declare ValueEquals.simps [simp del] StrictEquals.simps [simp del]

section \<open>Bounds of the value types\<close>

definition MinBoolean :: Value where "MinBoolean = boolean_value False"

definition MinNumber :: Value where "MinNumber = double_value dbl_NAN"

definition MinTimestamp :: Value where
  "MinTimestamp = timestamp_value \<lparr>seconds = word_of_int (- (2 ^ 63)), nanos = 0\<rparr>"

definition MinString :: Value where "MinString = string_value []"

definition MinBytes :: Value where "MinBytes = bytes_value []"

definition MinReference :: Value where "MinReference = reference_value kMinimumReferenceValue"

definition MinGeoPoint :: Value where
  "MinGeoPoint = geo_point_value (dbl_of_int (- 90)) (dbl_of_int (- 180))"

definition MinArray :: Value where "MinArray = array_value []"

definition MinVector :: Value where
  "MinVector = map_value [(kTypeKey, string_value kRawVectorTypeFieldValue),
     (kRawVectorValueFieldKey, array_value [])]"

definition MinMap :: Value where "MinMap = map_value []"

definition MaxValue :: Value where
  "MaxValue = map_value [(kTypeKey, string_value kRawMaxValueFieldValue)]"

fun GetLowerBound :: "Value \<Rightarrow> Value" where
  "GetLowerBound null_value = null_value"
| "GetLowerBound (boolean_value _) = MinBoolean"
| "GetLowerBound (integer_value _) = MinNumber"
| "GetLowerBound (double_value _) = MinNumber"
| "GetLowerBound (timestamp_value _) = MinTimestamp"
| "GetLowerBound (string_value _) = MinString"
| "GetLowerBound (bytes_value _) = MinBytes"
| "GetLowerBound (reference_value _) = MinReference"
| "GetLowerBound (geo_point_value _ _) = MinGeoPoint"
| "GetLowerBound (array_value _) = MinArray"
| "GetLowerBound (map_value fs) = (if IsVectorValue (map_value fs) then MinVector else MinMap)"

fun GetUpperBound :: "Value \<Rightarrow> Value" where
  "GetUpperBound null_value = MinBoolean"
| "GetUpperBound (boolean_value _) = MinNumber"
| "GetUpperBound (integer_value _) = MinTimestamp"
| "GetUpperBound (double_value _) = MinTimestamp"
| "GetUpperBound (timestamp_value _) = MinString"
| "GetUpperBound (string_value _) = MinBytes"
| "GetUpperBound (bytes_value _) = MinReference"
| "GetUpperBound (reference_value _) = MinGeoPoint"
| "GetUpperBound (geo_point_value _ _) = MinArray"
| "GetUpperBound (array_value _) = MinVector"
| "GetUpperBound (map_value fs) = (if IsVectorValue (map_value fs) then MinMap else MaxValue)"

definition FindEntry :: "Value \<Rightarrow> string \<Rightarrow> Value option" where
  "FindEntry value field = map_of (map_fields value) field"

end
