(* ===== verification/OrderKey.thy ===== *)
theory OrderKey
  imports Prelude "HOL-Library.List_Lexorder" "HOL-Library.Char_ord"
begin

text \<open>
  Order keys: trees of integers compared lexicographically.  They are the abstract
  specification of the comparison functions of the model layer: a comparison function
  is correct when it answers what the keys of its arguments answer.  The order of keys is
  linear, so every comparison with such a specification satisfies the comparator contract.
\<close>

datatype okey = OInt int | ONode "okey list"

fun okey_compare :: "okey \<Rightarrow> okey \<Rightarrow> ComparisonResult"
  and okeys_compare :: "okey list \<Rightarrow> okey list \<Rightarrow> ComparisonResult" where
  "okey_compare (OInt a) (OInt b) = DefaultCompare a b"
| "okey_compare (OInt a) (ONode ys) = Ascending"
| "okey_compare (ONode xs) (OInt b) = Descending"
| "okey_compare (ONode xs) (ONode ys) = okeys_compare xs ys"
| "okeys_compare [] [] = Same"
| "okeys_compare [] (y # ys) = Ascending"
| "okeys_compare (x # xs) [] = Descending"
| "okeys_compare (x # xs) (y # ys) =
     (if okey_compare x y \<noteq> Same then okey_compare x y else okeys_compare xs ys)"

lemma okey_compare_Same: "okey_compare x y = Same \<longleftrightarrow> x = y"
  and okeys_compare_Same: "okeys_compare xs ys = Same \<longleftrightarrow> xs = ys"
  by (induction x y and xs ys rule: okey_compare_okeys_compare.induct) auto

lemma okey_compare_swap: "okey_compare y x = ReverseOrder (okey_compare x y)"
  and okeys_compare_swap: "okeys_compare ys xs = ReverseOrder (okeys_compare xs ys)"
proof (induction x y and xs ys rule: okey_compare_okeys_compare.induct)
  case (1 a b)
  then show ?case using default_int.cmp_swap [of b a] by simp
next
  case (8 x xs y ys)
  then show ?case by (cases "okey_compare x y") auto
qed auto

lemma okey_less_trans:
  "okey_compare x y = Ascending \<Longrightarrow> okey_compare y z = Ascending \<Longrightarrow> okey_compare x z = Ascending"
  and okeys_less_trans:
  "okeys_compare xs ys = Ascending \<Longrightarrow> okeys_compare ys zs = Ascending \<Longrightarrow> okeys_compare xs zs = Ascending"
proof (induction x y and xs ys arbitrary: z and zs rule: okey_compare_okeys_compare.induct)
  case (1 a b)
  then show ?case by (cases z) (auto simp: DefaultCompare_simps)
next
  case (2 a ys)
  then show ?case by (cases z) auto
next
  case (4 xs ys)
  then show ?case by (cases z) auto
next
  case (6 y ys)
  then show ?case by (cases zs) auto
next
  case (8 x xs y ys)
  from 8(4,5) obtain z zs' where zs: "zs = z # zs'" by (cases zs) auto
  show ?case
  proof (cases "okey_compare x y = Same")
    case True
    then have "x = y" by (simp add: okey_compare_Same)
    then show ?thesis using 8(3) True 8(4,5) zs by (auto split: if_splits)
  next
    case False
    then have xy: "okey_compare x y = Ascending" using 8(4) by simp
    show ?thesis
    proof (cases "okey_compare y z = Same")
      case True
      then have "y = z" by (simp add: okey_compare_Same)
      then show ?thesis using xy zs by simp
    next
      case False
      then have "okey_compare y z = Ascending" using 8(5) zs by simp
      then show ?thesis using 8(1) [OF xy] zs by simp
    qed
  qed
qed auto

instantiation okey :: linorder
begin

definition less_okey :: "okey \<Rightarrow> okey \<Rightarrow> bool" where
  "less_okey x y \<longleftrightarrow> okey_compare x y = Ascending"

definition less_eq_okey :: "okey \<Rightarrow> okey \<Rightarrow> bool" where
  "less_eq_okey x y \<longleftrightarrow> okey_compare x y \<noteq> Descending"

instance
proof
  fix x y z :: okey
  have asym: "okey_compare x y = Ascending \<longleftrightarrow> okey_compare y x = Descending" for x y
    using okey_compare_swap [of x y] by (cases "okey_compare x y") auto
  have le: "x \<le> y \<longleftrightarrow> x < y \<or> x = y" for x y :: okey
    using okey_compare_Same [of x y] by (cases "okey_compare x y") (auto simp: less_eq_okey_def less_okey_def)
  show "(x < y) = (x \<le> y \<and> \<not> y \<le> x)"
    using asym [of x y] by (auto simp: less_eq_okey_def less_okey_def)
  show "x \<le> x" by (simp add: le)
  show "x \<le> y \<Longrightarrow> y \<le> z \<Longrightarrow> x \<le> z"
    unfolding le by (auto simp: less_okey_def intro: okey_less_trans)
  show "x \<le> y \<Longrightarrow> y \<le> x \<Longrightarrow> x = y"
    unfolding le using okey_less_trans [of x y x] okey_compare_Same [of x x] by (auto simp: less_okey_def)
  show "x \<le> y \<or> y \<le> x"
    using okey_compare_swap [of y x] by (cases "okey_compare x y") (auto simp: less_eq_okey_def)
qed

end

lemma okey_compare_DefaultCompare: "okey_compare x y = DefaultCompare x y"
proof (cases "okey_compare x y")
  case Descending
  then have "okey_compare y x = Ascending" using okey_compare_swap [of y x] by simp
  with Descending show ?thesis by (simp add: DefaultCompare_def less_okey_def)
qed (simp_all add: DefaultCompare_def less_okey_def okey_compare_Same)

interpretation okey_order: comparator okey_compare
  unfolding okey_compare_DefaultCompare [abs_def] by (rule comparator_DefaultCompare)

text \<open>A comparison that is a comparison of keys satisfies the contract.\<close>

lemma comparator_by_key:
  assumes "\<And>x y. cmp x y = okey_compare (key x) (key y)"
  shows "comparator cmp"
proof
  fix x y z
  show "cmp x x = Same" by (simp add: assms okey_order.cmp_refl)
  show "cmp y x = ReverseOrder (cmp x y)" unfolding assms by (rule okey_order.cmp_swap)
  show "cmp x y \<noteq> Descending \<Longrightarrow> cmp y z \<noteq> Descending \<Longrightarrow> cmp x z \<noteq> Descending"
    unfolding assms by (rule okey_order.cmp_trans)
qed

section \<open>Keys of the basic data\<close>

definition string_key :: "string \<Rightarrow> okey" where
  "string_key s = ONode (map (\<lambda>c. OInt (of_char c)) s)"

lemma DefaultCompare_char: "DefaultCompare (of_char c :: int) (of_char d) = DefaultCompare c d"
proof -
  have "(of_char c :: int) = int (of_char c)" "(of_char d :: int) = int (of_char d)" by (simp_all only: of_nat_of_char)
  then show ?thesis unfolding DefaultCompare_def less_char_def by (simp only: of_nat_less_iff)
qed

lemma DefaultCompare_Cons:
  "DefaultCompare (c # s) (d # t) = (if DefaultCompare c d \<noteq> Same then DefaultCompare c d else DefaultCompare s t)"
  for c d :: "'a :: linorder"
  by (auto simp: DefaultCompare_def)

lemma string_key_compare: "okey_compare (string_key s) (string_key t) = DefaultCompare s t"
proof (induction s arbitrary: t)
  case Nil
  then show ?case by (cases t) (auto simp: string_key_def DefaultCompare_def)
next
  case (Cons c s)
  show ?case
  proof (cases t)
    case (Cons d t')
    then show ?thesis using Cons.IH [of t']
      by (simp add: string_key_def DefaultCompare_char DefaultCompare_Cons)
  qed (simp add: string_key_def DefaultCompare_def)
qed

lemma okeys_compare_container:
  assumes "\<And>x y. cmp x y = okey_compare (key x) (key y)"
  shows "CompareContainer cmp xs ys = okeys_compare (map key xs) (map key ys)"
proof (induction xs arbitrary: ys)
  case Nil
  then show ?case by (cases ys) auto
next
  case (Cons x xs)
  then show ?case by (cases ys) (auto simp: assms)
qed

end
