(* ===== verification/Paths.thy ===== *)
theory Paths
  imports Values OrderKey
begin

text \<open>
  Paths and document keys (\<^verbatim>\<open>model/base_path.h\<close>, \<^verbatim>\<open>resource_path.cc\<close>,
  \<^verbatim>\<open>field_path.cc\<close>, \<^verbatim>\<open>document_key.cc\<close>).  A path is its list of segments.  The parsers
  return the error branches as None; \<^verbatim>\<open>std::stol\<close>, which the comparison of numeric ids
  calls, is None where it throws.
\<close>

section \<open>BasePath\<close>

type_synonym path = "string list"

definition path_at :: "path \<Rightarrow> nat \<Rightarrow> string option" where
  "path_at p i = (if i < length p then Some (p ! i) else None)"

definition first_segment :: "path \<Rightarrow> string option" where
  "first_segment p = (if p = [] then None else Some (p ! 0))"

definition last_segment :: "path \<Rightarrow> string option" where
  "last_segment p = (if p = [] then None else Some (p ! (length p - 1)))"

definition path_append :: "path \<Rightarrow> string \<Rightarrow> path" where
  "path_append p segment = p @ [segment]"

definition PopFirst :: "nat \<Rightarrow> path \<Rightarrow> path option" where
  "PopFirst n p = (if n \<le> length p then Some (drop n p) else None)"

definition PopLast :: "path \<Rightarrow> path option" where
  "PopLast p = (if p = [] then None else Some (take (length p - 1) p))"

definition IsPrefixOf :: "path \<Rightarrow> path \<Rightarrow> bool" where
  "IsPrefixOf p rhs \<longleftrightarrow> length p \<le> length rhs \<and> p = take (length p) rhs"

definition IsImmediateParentOf :: "path \<Rightarrow> path \<Rightarrow> bool" where
  "IsImmediateParentOf p potential_child \<longleftrightarrow>
     length p + 1 = length potential_child \<and> p = take (length p) potential_child"

definition kNumericIdPrefixLength :: nat where "kNumericIdPrefixLength = 4"
definition kNumericIdSuffixLength :: nat where "kNumericIdSuffixLength = 2"
definition kNumericIdTotalOverhead :: nat where
  "kNumericIdTotalOverhead = kNumericIdPrefixLength + kNumericIdSuffixLength"

definition substr :: "nat \<Rightarrow> nat \<Rightarrow> string \<Rightarrow> string" where
  "substr pos len s = take len (drop pos s)"

definition IsNumericId :: "string \<Rightarrow> bool" where
  "IsNumericId segment \<longleftrightarrow>
     length segment > kNumericIdTotalOverhead \<and>
     substr 0 kNumericIdPrefixLength segment = ''__id'' \<and>
     drop (length segment - kNumericIdSuffixLength) segment = ''__''"

text \<open>\<^verbatim>\<open>std::stol\<close>: leading white space, an optional sign, then the longest run of
  digits; it throws when there is no digit or the number does not fit 64 bits.\<close>

definition is_digit :: "char \<Rightarrow> bool" where
  "is_digit c \<longleftrightarrow> CHR ''0'' \<le> c \<and> c \<le> CHR ''9''"

definition is_space :: "char \<Rightarrow> bool" where
  "is_space c \<longleftrightarrow> c = CHR '' '' \<or> (9 \<le> (of_char c :: nat) \<and> (of_char c :: nat) \<le> 13)"

definition digits_value :: "string \<Rightarrow> int" where
  "digits_value ds = foldl (\<lambda>n c. 10 * n + (of_char c - 48)) 0 ds"

definition stol :: "string \<Rightarrow> int64 option" where
  "stol s =
     (let body = dropWhile is_space s;
          negative = (body \<noteq> [] \<and> hd body = CHR ''-'');
          digits = takeWhile is_digit
            (if body \<noteq> [] \<and> (hd body = CHR ''-'' \<or> hd body = CHR ''+'') then tl body else body);
          n = (if negative then - digits_value digits else digits_value digits)
      in if digits = [] \<or> n < - (2 ^ 63) \<or> 2 ^ 63 \<le> n then None else Some (word_of_int n))"

definition ExtractNumericId :: "string \<Rightarrow> int64 option" where
  "ExtractNumericId segment =
     stol (substr kNumericIdPrefixLength (length segment - kNumericIdSuffixLength) segment)"

definition CompareSegments :: "string \<Rightarrow> string \<Rightarrow> ComparisonResult option" where
  "CompareSegments lhs rhs =
     (if IsNumericId lhs \<and> \<not> IsNumericId rhs then Some Ascending
      else if \<not> IsNumericId lhs \<and> IsNumericId rhs then Some Descending
      else if IsNumericId lhs \<and> IsNumericId rhs then do {
        l \<leftarrow> ExtractNumericId lhs;
        r \<leftarrow> ExtractNumericId rhs;
        Some (CompareInt64 l r)
      }
      else Some (DefaultCompare lhs rhs))"

fun path_CompareTo :: "path \<Rightarrow> path \<Rightarrow> ComparisonResult option" where
  "path_CompareTo (l # ls) (r # rs) =
     do { cmp \<leftarrow> CompareSegments l r; if cmp \<noteq> Same then Some cmp else path_CompareTo ls rs }"
| "path_CompareTo ls rs = Some (DefaultCompare (length ls) (length rs))"

section \<open>ResourcePath\<close>

fun contains_double_slash :: "string \<Rightarrow> bool" where
  "contains_double_slash (a # b # cs) = (a = CHR ''/'' \<and> b = CHR ''/'' \<or> contains_double_slash (b # cs))"
| "contains_double_slash _ = False"

definition ResourcePath_FromString :: "string \<Rightarrow> path option" where
  "ResourcePath_FromString path =
     (if contains_double_slash path then None else Some (SkipEmpty (StrSplit (CHR ''/'') path)))"

fun StrJoin :: "string list \<Rightarrow> string \<Rightarrow> string" where
  "StrJoin [] sep = []"
| "StrJoin [s] sep = s"
| "StrJoin (s # ss) sep = s @ sep @ StrJoin ss sep"

definition ResourcePath_CanonicalString :: "path \<Rightarrow> string" where
  "ResourcePath_CanonicalString p = StrJoin p ''/''"

section \<open>DocumentKey\<close>

definition IsDocumentKey :: "path \<Rightarrow> bool" where
  "IsDocumentKey path \<longleftrightarrow> length path mod 2 = 0"

definition DocumentKey_of :: "path \<Rightarrow> path option" where
  "DocumentKey_of path = (if IsDocumentKey path then Some path else None)"

definition DocumentKey_FromPathString :: "string \<Rightarrow> path option" where
  "DocumentKey_FromPathString path = do { p \<leftarrow> ResourcePath_FromString path; DocumentKey_of p }"

definition DocumentKey_FromName :: "string \<Rightarrow> path option" where
  "DocumentKey_FromName name = do {
     resource_name \<leftarrow> ResourcePath_FromString name;
     if length resource_name > 4 \<and> resource_name ! 0 = ''projects'' \<and>
        resource_name ! 2 = ''databases'' \<and> resource_name ! 4 = ''documents''
     then do { p \<leftarrow> PopFirst 5 resource_name; DocumentKey_of p }
     else None
   }"

definition GetCollectionGroup :: "path \<Rightarrow> string option" where
  "GetCollectionGroup path =
     (if length path < 2 then None else Some (path ! (length path - 2)))"

definition HasCollectionGroup :: "path \<Rightarrow> string \<Rightarrow> bool" where
  "HasCollectionGroup path collection_group \<longleftrightarrow> GetCollectionGroup path = Some collection_group"

section \<open>FieldPath\<close>

definition identifier_start :: "char \<Rightarrow> bool" where
  "identifier_start c \<longleftrightarrow>
     c = CHR ''_'' \<or> (CHR ''a'' \<le> c \<and> c \<le> CHR ''z'') \<or> (CHR ''A'' \<le> c \<and> c \<le> CHR ''Z'')"

definition IsValidIdentifier :: "string \<Rightarrow> bool" where
  "IsValidIdentifier segment \<longleftrightarrow>
     (case segment of
        [] \<Rightarrow> False
      | c # cs \<Rightarrow> identifier_start c \<and> list_all (\<lambda>c. identifier_start c \<or> is_digit c) cs)"

definition escape_char :: "char \<Rightarrow> string" where
  "escape_char c =
     (if c = CHR 0x5C then [CHR 0x5C, CHR 0x5C] else if c = CHR ''`'' then [CHR 0x5C, CHR ''`''] else [c])"

definition escaped_segment :: "string \<Rightarrow> string" where
  "escaped_segment segment =
     (let escaped = concat (map escape_char segment)
      in if \<not> IsValidIdentifier escaped then ''`'' @ escaped @ ''`'' else escaped)"

definition FieldPath_CanonicalString :: "path \<Rightarrow> string" where
  "FieldPath_CanonicalString p = StrJoin (map escaped_segment p) ''.''"

definition FieldPath_FromDotSeparatedString :: "string \<Rightarrow> path option" where
  "FieldPath_FromDotSeparatedString path =
     (if list_ex (\<lambda>c. c \<in> set ''~*/[]'') path then None
      else let segments = StrSplit (CHR ''.'') path
        in if list_ex (\<lambda>s. s = []) segments then None else Some segments)"

definition ValidateSegments :: "path \<Rightarrow> path option" where
  "ValidateSegments segments =
     (if segments = [] \<or> list_ex (\<lambda>s. s = []) segments then None else Some segments)"

datatype field_path_error = EmptySegment | TrailingEscape | Unterminated

text \<open>The loop of \<^verbatim>\<open>FromServerFormatView\<close>: the characters left, whether the loop is inside
  backticks, the segment being built and the segments finished, both in order.\<close>

fun server_format_loop :: "string \<Rightarrow> bool \<Rightarrow> string \<Rightarrow> path \<Rightarrow> field_path_error + path" where
  "server_format_loop [] inside_backticks segment segments =
     (if segment = [] then Inl EmptySegment
      else if inside_backticks then Inl Unterminated
      else Inr (segments @ [segment]))"
| "server_format_loop (c # cs) inside_backticks segment segments =
     (if c = CHR 0x00 then
        (if segment = [] then Inl EmptySegment
         else if inside_backticks then Inl Unterminated
         else Inr (segments @ [segment]))
      else if c = CHR ''.'' then
        (if \<not> inside_backticks then
           (if segment = [] then Inl EmptySegment
            else server_format_loop cs inside_backticks [] (segments @ [segment]))
         else server_format_loop cs inside_backticks (segment @ [c]) segments)
      else if c = CHR ''`'' then server_format_loop cs (\<not> inside_backticks) segment segments
      else if c = CHR 0x5C then
        (case cs of
           [] \<Rightarrow> Inl TrailingEscape
         | d # ds \<Rightarrow> server_format_loop ds inside_backticks (segment @ [d]) segments)
      else server_format_loop cs inside_backticks (segment @ [c]) segments)"

definition FieldPath_FromServerFormat :: "string \<Rightarrow> field_path_error + path" where
  "FieldPath_FromServerFormat path = server_format_loop path False [] []"

definition kDocumentKeyPath :: string where "kDocumentKeyPath = ''__name__''"

definition IsKeyFieldPath :: "path \<Rightarrow> bool" where
  "IsKeyFieldPath p \<longleftrightarrow> length p = 1 \<and> p ! 0 = kDocumentKeyPath"

section \<open>The order of paths\<close>

definition segment_ok :: "string \<Rightarrow> bool" where
  "segment_ok s \<longleftrightarrow> (IsNumericId s \<longrightarrow> ExtractNumericId s \<noteq> None)"

definition segment_key :: "string \<Rightarrow> okey" where
  "segment_key s =
     (if IsNumericId s then ONode [OInt 0, OInt (sint (the (ExtractNumericId s)))]
      else ONode [OInt 1, string_key s])"

definition path_key :: "path \<Rightarrow> okey" where
  "path_key p = ONode (map segment_key p)"

lemma CompareSegments_key:
  "segment_ok l \<Longrightarrow> segment_ok r \<Longrightarrow> CompareSegments l r = Some (okey_compare (segment_key l) (segment_key r))"
  by (auto simp: CompareSegments_def segment_key_def segment_ok_def CompareInt64_def string_key_compare DefaultCompare_def)

lemma okeys_compare_Nil_cases:
  "okeys_compare [] (map f rs) = (if rs = [] then Same else Ascending)"
  "okeys_compare (map f ls) [] = (if ls = [] then Same else Descending)"
  by (cases rs; simp) (cases ls; simp)

lemma path_CompareTo_keys:
  "list_all segment_ok p \<Longrightarrow> list_all segment_ok q \<Longrightarrow>
   path_CompareTo p q = Some (okeys_compare (map segment_key p) (map segment_key q))"
proof (induction p q rule: path_CompareTo.induct)
  case (1 l ls r rs)
  then show ?case by (auto simp: CompareSegments_key)
qed (simp_all add: DefaultCompare_def okeys_compare_Nil_cases)

lemma path_CompareTo_key:
  "list_all segment_ok p \<Longrightarrow> list_all segment_ok q \<Longrightarrow> path_CompareTo p q = Some (okey_compare (path_key p) (path_key q))"
  by (simp add: path_key_def path_CompareTo_keys)

typedef document_key = "{p. IsDocumentKey p \<and> list_all segment_ok p}"
  by (rule exI [of _ "[]"]) (simp add: IsDocumentKey_def)

setup_lifting type_definition_document_key

lift_definition key_compare :: "document_key \<Rightarrow> document_key \<Rightarrow> ComparisonResult" is
  "\<lambda>l r. the (path_CompareTo l r)" .

lift_definition key_okey :: "document_key \<Rightarrow> okey" is path_key .

interpretation document_key_order: comparator key_compare
  by (rule comparator_by_key [of _ key_okey]) (transfer, simp add: path_CompareTo_key)

section \<open>Parsing field paths\<close>

lemma loop_steps:
  "server_format_loop (CHR 0x5C # d # cs) b seg segs = server_format_loop cs b (seg @ [d]) segs"
  "server_format_loop (CHR ''`'' # cs) b seg segs = server_format_loop cs (\<not> b) seg segs"
  "c \<noteq> CHR 0x00 \<Longrightarrow> c \<noteq> CHR ''`'' \<Longrightarrow> c \<noteq> CHR 0x5C \<Longrightarrow> b \<or> c \<noteq> CHR ''.'' \<Longrightarrow>
     server_format_loop (c # cs) b seg segs = server_format_loop cs b (seg @ [c]) segs"
  "seg \<noteq> [] \<Longrightarrow> server_format_loop (CHR ''.'' # cs) False seg segs = server_format_loop cs False [] (segs @ [seg])"
  by (simp_all, auto)

declare server_format_loop.simps(2) [simp del]

lemma loop_escaped_char:
  "c \<noteq> CHR 0x00 \<Longrightarrow> b \<or> c \<noteq> CHR ''.'' \<Longrightarrow>
   server_format_loop (escape_char c @ rest) b seg segs = server_format_loop rest b (seg @ [c]) segs"
  by (simp add: escape_char_def loop_steps)

lemma loop_escaped:
  "CHR 0x00 \<notin> set s \<Longrightarrow> b \<or> CHR ''.'' \<notin> set s \<Longrightarrow>
   server_format_loop (concat (map escape_char s) @ rest) b seg segs = server_format_loop rest b (seg @ s) segs"
proof (induction s arbitrary: seg)
  case (Cons c s)
  have "c \<noteq> CHR 0x00" "b \<or> c \<noteq> CHR ''.''" using Cons.prems by auto
  then have "server_format_loop (escape_char c @ concat (map escape_char s) @ rest) b seg segs =
      server_format_loop (concat (map escape_char s) @ rest) b (seg @ [c]) segs"
    by (rule loop_escaped_char)
  moreover have "server_format_loop (concat (map escape_char s) @ rest) b (seg @ [c]) segs =
      server_format_loop rest b ((seg @ [c]) @ s) segs"
    using Cons.prems by (intro Cons.IH) auto
  ultimately show ?case by simp
qed simp

lemma valid_identifier_no_dot: "IsValidIdentifier s \<Longrightarrow> CHR ''.'' \<notin> set s"
proof -
  assume s: "IsValidIdentifier s"
  have "\<not> identifier_start (CHR ''.'')" "\<not> is_digit (CHR ''.'')"
    by (simp_all add: identifier_start_def is_digit_def)
  with s show ?thesis by (cases s) (auto simp: IsValidIdentifier_def list_all_iff)
qed

lemma dot_escaped: "CHR ''.'' \<in> set s \<Longrightarrow> CHR ''.'' \<in> set (concat (map escape_char s))"
  by (induction s) (auto simp: escape_char_def)

lemma loop_segment:
  assumes "CHR 0x00 \<notin> set s"
  shows "server_format_loop (escaped_segment s @ rest) False [] segs = server_format_loop rest False s segs"
proof (cases "IsValidIdentifier (concat (map escape_char s))")
  case True
  then have "CHR ''.'' \<notin> set s" using valid_identifier_no_dot dot_escaped by blast
  then show ?thesis using True loop_escaped [OF assms, of False rest "[]" segs]
    by (simp add: escaped_segment_def)
next
  case False
  then show ?thesis using loop_escaped [OF assms, of True "''`'' @ rest" "[]" segs]
    by (simp add: escaped_segment_def loop_steps)
qed

lemma loop_path:
  "p \<noteq> [] \<Longrightarrow> \<forall>s \<in> set p. s \<noteq> [] \<and> CHR 0x00 \<notin> set s \<Longrightarrow>
   server_format_loop (StrJoin (map escaped_segment p) ''.'') False [] segs = Inr (segs @ p)"
proof (induction p arbitrary: segs)
  case (Cons s p)
  show ?case
  proof (cases p)
    case Nil
    then show ?thesis using Cons.prems loop_segment [of s "[]" segs] by simp
  next
    case (Cons t q)
    then have "server_format_loop (StrJoin (map escaped_segment p) ''.'') False [] (segs @ [s]) = Inr ((segs @ [s]) @ p)"
      using Cons.IH Cons.prems by simp
    then show ?thesis using Cons Cons.prems loop_segment [of s "''.'' @ StrJoin (map escaped_segment p) ''.''" segs]
      by (simp add: loop_steps)
  qed
qed simp

section \<open>Parsing resource paths\<close>

lemma StrSplit_no_sep: "sep \<notin> set s \<Longrightarrow> StrSplit sep s = [s]"
  by (induction s) auto

lemma StrSplit_sep: "sep \<notin> set s \<Longrightarrow> StrSplit sep (s @ sep # rest) = s # StrSplit sep rest"
  by (induction s) auto

lemma StrSplit_join:
  "p \<noteq> [] \<Longrightarrow> \<forall>s \<in> set p. sep \<notin> set s \<Longrightarrow> StrSplit sep (StrJoin p [sep]) = p"
  by (induction p "[sep]" rule: StrJoin.induct) (simp_all add: StrSplit_no_sep StrSplit_sep)

lemma double_slash_append:
  "CHR ''/'' \<notin> set s \<Longrightarrow> \<not> contains_double_slash t \<Longrightarrow> t \<noteq> [] \<Longrightarrow> hd t \<noteq> CHR ''/'' \<Longrightarrow>
   \<not> contains_double_slash (s @ CHR ''/'' # t)"
proof (induction s)
  case Nil
  then show ?case by (cases t) auto
next
  case (Cons c s)
  then show ?case by (cases s) auto
qed

lemma double_slash_single: "CHR ''/'' \<notin> set s \<Longrightarrow> \<not> contains_double_slash s"
  by (induction s rule: contains_double_slash.induct) auto

lemma double_slash_join:
  "\<forall>s \<in> set p. s \<noteq> [] \<and> CHR ''/'' \<notin> set s \<Longrightarrow> \<not> contains_double_slash (StrJoin p ''/'')"
proof (induction p "''/''" rule: StrJoin.induct)
  case (3 s t ss)
  have "StrJoin (t # ss) ''/'' \<noteq> [] \<and> hd (StrJoin (t # ss) ''/'') \<noteq> CHR ''/''"
    using 3 by (cases ss; cases t) auto
  then show ?case using 3 double_slash_append [of s "StrJoin (t # ss) ''/''"] by simp
qed (auto simp: double_slash_single)

section \<open>Properties\<close>

text \<open>C21: Printing a field path in its canonical form and parsing it back gives the same path,
  for every path of non-empty segments without NUL, whatever dots, backticks and backslashes
  the segments hold.\<close>

theorem field_path_round_trip:
  assumes "p \<noteq> []" "\<forall>s \<in> set p. s \<noteq> [] \<and> CHR 0x00 \<notin> set s"
  shows "FieldPath_FromServerFormat (FieldPath_CanonicalString p) = Inr p"
  using loop_path [OF assms, of "[]"] by (simp add: FieldPath_FromServerFormat_def FieldPath_CanonicalString_def)

theorem field_path_round_trip_witness:
  "FieldPath_FromServerFormat (FieldPath_CanonicalString [''a.b'', ''c`d'']) = Inr [''a.b'', ''c`d'']"
  using field_path_round_trip [of "[''a.b'', ''c`d'']"] by simp

text \<open>A resource path of non-empty segments without slashes is parsed back from its
  canonical string, and so is a document key.\<close>

theorem resource_path_round_trip:
  assumes "\<forall>s \<in> set p. s \<noteq> [] \<and> CHR ''/'' \<notin> set s"
  shows "ResourcePath_FromString (ResourcePath_CanonicalString p) = Some p \<and>
    (IsDocumentKey p \<longrightarrow> DocumentKey_FromPathString (ResourcePath_CanonicalString p) = Some p)"
proof -
  have "SkipEmpty (StrSplit (CHR ''/'') (StrJoin p ''/'')) = p"
  proof (cases "p = []")
    case False
    then show ?thesis using assms StrSplit_join [of p "CHR ''/''"] by (simp add: SkipEmpty_def)
  qed (simp add: SkipEmpty_def)
  then show ?thesis using double_slash_join [OF assms]
    by (simp add: ResourcePath_FromString_def ResourcePath_CanonicalString_def DocumentKey_FromPathString_def
        DocumentKey_of_def)
qed

theorem resource_path_round_trip_witness:
  "DocumentKey_FromPathString (ResourcePath_CanonicalString [''rooms'', ''eros'']) = Some [''rooms'', ''eros'']"
  using resource_path_round_trip [of "[''rooms'', ''eros'']"] by (simp add: IsDocumentKey_def)

text \<open>The comparison of two numeric ids throws when one of them has no leading digits
  between its markers, because the test for a numeric id does not look at what is between
  them; a document id of the user can have this form.\<close>

theorem numeric_id_comparison_throws:
  assumes "c \<noteq> CHR ''-''" "c \<noteq> CHR ''+''" "\<not> is_digit c" "\<not> is_space c" "IsNumericId rhs"
  shows "CompareSegments (''__id'' @ c # cs @ ''__'') rhs = None"
proof -
  have n: "IsNumericId (''__id'' @ c # cs @ ''__'')"
    by (simp add: IsNumericId_def kNumericIdTotalOverhead_def kNumericIdPrefixLength_def kNumericIdSuffixLength_def substr_def)
  have "ExtractNumericId (''__id'' @ c # cs @ ''__'') = None"
    using assms
    by (simp add: ExtractNumericId_def kNumericIdPrefixLength_def kNumericIdSuffixLength_def substr_def stol_def Let_def)
  then show ?thesis using n assms(5) by (simp add: CompareSegments_def)
qed

theorem numeric_id_comparison_throws_witness:
  "CompareSegments ''__idle__'' ''__id7__'' = None"
  using numeric_id_comparison_throws [of "CHR ''l''" "''__id7__''" "''e''"]
  by (simp add: is_digit_def is_space_def IsNumericId_def kNumericIdTotalOverhead_def kNumericIdPrefixLength_def
      kNumericIdSuffixLength_def substr_def)

end
