(* ===== verification/ValueOrder.thy ===== *)
theory ValueOrder
  imports Values OrderKey
begin

text \<open>
  The order of field values is a linear order of keys.  \<open>vkey\<close> is the abstract
  specification of the order; \<open>ValueCompare_key\<close> shows that the comparison of the code,
  with its casts, its sorting of map fields and its special maps, answers exactly the
  order of the keys on every value it is meant for (\<open>value_ok\<close>: distinct field names in
  every map, and a local write time in every server timestamp), and that it fails on none
  of them.
\<close>

section \<open>Keys of values\<close>

definition dbl_scale :: int where
  "dbl_scale = 2 ^ 1074"

definition ts_key :: "Timestamp \<Rightarrow> okey list" where
  "ts_key t = [OInt (sint (seconds t)), OInt (sint (nanos t))]"

lemma vsize_in_list: "v \<in> set vs \<Longrightarrow> vsize v < vsizes vs"
  by (induction vs) (auto simp: less_Suc_eq trans_less_add2)

lemma vsize_in_fields: "f \<in> set fs \<Longrightarrow> vsize (snd f) < fsizes fs"
  by (induction fs) (auto simp: less_Suc_eq trans_less_add2)

lemma vsize_in_vector: "v \<in> set (vector_elements u) \<Longrightarrow> vsize v < vsize u"
  using vsize_in_list [of v "vector_elements u"] vsizes_vector_elements [of u] by simp

lemma vsize_in_sorted: "f \<in> set (map_fields (SortFields u)) \<Longrightarrow> vsize (snd f) < vsize u"
  using vsize_in_fields [of f "map_fields (SortFields u)"] fsizes_SortFields [of u] by simp

function vkey :: "Value \<Rightarrow> okey" where
  "vkey v = ONode (OInt (type_rank (GetTypeOrder v)) #
     (case GetTypeOrder v of
        kBoolean \<Rightarrow> (case v of boolean_value b \<Rightarrow> [OInt (of_bool b)] | _ \<Rightarrow> [])
      | kNumber \<Rightarrow>
          (case v of integer_value i \<Rightarrow> [OInt (sint i * dbl_scale)] | double_value d \<Rightarrow> [OInt (nan_key d)] | _ \<Rightarrow> [])
      | kTimestamp \<Rightarrow> (case v of timestamp_value t \<Rightarrow> ts_key t | _ \<Rightarrow> [])
      | kServerTimestamp \<Rightarrow> (case GetLocalWriteTime v of Some t \<Rightarrow> ts_key t | None \<Rightarrow> [])
      | kString \<Rightarrow> (case v of string_value s \<Rightarrow> [string_key s] | _ \<Rightarrow> [])
      | kBlob \<Rightarrow> (case v of bytes_value s \<Rightarrow> [string_key s] | _ \<Rightarrow> [])
      | kReference \<Rightarrow>
          (case v of reference_value s \<Rightarrow> map string_key (SkipEmpty (StrSplit (CHR ''/'') s)) | _ \<Rightarrow> [])
      | kGeoPoint \<Rightarrow>
          (case v of geo_point_value lat lng \<Rightarrow> [OInt (nan_key lat), OInt (nan_key lng)] | _ \<Rightarrow> [])
      | kArray \<Rightarrow> (case v of array_value vs \<Rightarrow> map vkey vs | _ \<Rightarrow> [])
      | kVector \<Rightarrow> OInt (int (length (vector_elements v))) # map vkey (vector_elements v)
      | kMap \<Rightarrow> map (\<lambda>f. ONode [string_key (fst f), vkey (snd f)]) (map_fields (SortFields v))
      | _ \<Rightarrow> []))"
  by pat_completeness auto
termination
  by (relation "measure vsize")
    (auto simp: vsize_in_vector vsize_in_sorted less_Suc_eq_le intro!: less_imp_le vsize_in_list)

declare vkey.simps [simp del]

definition fkey :: "string \<times> Value \<Rightarrow> okey" where
  "fkey f = ONode [string_key (fst f), vkey (snd f)]"

section \<open>Values the comparison is meant for\<close>

fun value_ok :: "Value \<Rightarrow> bool" where
  "value_ok (array_value vs) = (\<forall>v \<in> set vs. value_ok v)"
| "value_ok (map_value fs) =
     (distinct (map fst fs) \<and>
      (IsServerTimestamp (map_value fs) \<longrightarrow> GetLocalWriteTime (map_value fs) \<noteq> None) \<and>
      (\<forall>f \<in> set fs. value_ok (snd f)))"
| "value_ok _ = True"

lemma find_map_of: "find (\<lambda>f. fst f = k) fs = map_option (\<lambda>v. (k, v)) (map_of fs k)"
  by (induction fs) auto

lemma map_of_sorted:
  assumes "distinct (map fst fs)"
  shows "map_of (map_fields (SortFields (map_value fs))) k = map_option SortFields (map_of fs k)"
proof -
  have "distinct (map fst (sort_key fst fs))"
    using assms by (metis distinct_map distinct_sort set_sort)
  then have "map_of (sort_key fst fs) = map_of fs"
    using assms by (intro map_of_inject_set [THEN iffD2]) auto
  then show ?thesis by (simp add: map_of_map)
qed

lemma SortFields_tags [simp]:
  "SortFields v = string_value s \<longleftrightarrow> v = string_value s"
  "SortFields v = timestamp_value t \<longleftrightarrow> v = timestamp_value t"
  by (cases v; simp)+

lemma GetLocalWriteTime_map_of:
  "distinct (map fst fs) \<Longrightarrow> GetLocalWriteTime_in fs =
     (case map_of fs kLocalWriteTimeKey of Some (timestamp_value ts) \<Rightarrow> Some ts | _ \<Rightarrow> None)"
proof (induction fs)
  case (Cons f fs)
  have "map_of fs kLocalWriteTimeKey = None" if "fst f = kLocalWriteTimeKey"
    using Cons.prems that by (simp add: map_of_eq_None_iff)
  with Cons show ?case by (cases f) (auto split: Value.splits)
qed simp

lemma IsServerTimestamp_map_of:
  "IsServerTimestamp (map_value fs) \<longleftrightarrow>
     length fs \<le> 3 \<and> map_of fs kTypeKey = Some (string_value kServerTimestampSentinel)"
  by (auto simp: find_map_of split: option.splits)

lemma IsServerTimestamp_sorted:
  "distinct (map fst fs) \<Longrightarrow> IsServerTimestamp (SortFields (map_value fs)) = IsServerTimestamp (map_value fs)"
  using map_of_sorted [of fs kTypeKey] unfolding SortFields.simps(1) IsServerTimestamp_map_of by auto

lemma GetLocalWriteTime_sorted:
  assumes "distinct (map fst fs)" "distinct (map fst (map_fields (SortFields (map_value fs))))"
  shows "GetLocalWriteTime (SortFields (map_value fs)) = GetLocalWriteTime (map_value fs)"
  unfolding GetLocalWriteTime_def GetLocalWriteTime_map_of [OF assms(2)] map_of_sorted [OF assms(1)]
  using GetLocalWriteTime_map_of [OF assms(1)]
  by (auto split: option.splits Value.splits)

lemma distinct_sorted_fields:
  assumes "distinct (map fst fs)"
  shows "distinct (map fst (map_fields (SortFields (map_value fs))))"
proof -
  have "distinct (map fst (sort_key fst fs))"
    using assms by (metis distinct_map distinct_sort set_sort)
  then show ?thesis by (simp add: comp_def case_prod_unfold)
qed

lemma value_ok_SortFields: "value_ok v \<Longrightarrow> value_ok (SortFields v)"
proof (induction v rule: SortFields.induct)
  case (1 fs)
  have d: "distinct (map fst fs)" using 1 by simp
  have "IsServerTimestamp (SortFields (map_value fs)) \<longrightarrow> GetLocalWriteTime (SortFields (map_value fs)) \<noteq> None"
    using 1(2) IsServerTimestamp_sorted [OF d] GetLocalWriteTime_sorted [OF d distinct_sorted_fields [OF d]]
    by simp
  moreover have "\<forall>f \<in> set (map_fields (SortFields (map_value fs))). value_ok (snd f)"
    using 1 by fastforce
  ultimately show ?case using distinct_sorted_fields [OF d] by simp
qed auto

lemma value_ok_sorted_field: "value_ok v \<Longrightarrow> f \<in> set (map_fields (SortFields v)) \<Longrightarrow> value_ok (snd f)"
  using value_ok_SortFields [of v] by (cases "SortFields v") auto

lemma IndexOfKey_nth: "IndexOfKey fs k = Some i \<Longrightarrow> fs ! i \<in> set fs"
  by (simp add: IndexOfKey_length)

lemma value_ok_vector_element: "value_ok v \<Longrightarrow> u \<in> set (vector_elements v) \<Longrightarrow> value_ok u"
proof -
  assume v: "value_ok v" and u: "u \<in> set (vector_elements v)"
  then obtain i where i: "IndexOfKey (map_fields v) kRawVectorValueFieldKey = Some i"
    and e: "u \<in> set (array_values (snd (map_fields v ! i)))"
    by (cases "IndexOfKey (map_fields v) kRawVectorValueFieldKey") (auto simp: vector_elements_def)
  from i have "map_fields v ! i \<in> set (map_fields v)" by (rule IndexOfKey_nth)
  with v have "value_ok (snd (map_fields v ! i))" by (cases v) auto
  with e show "value_ok u" by (cases "snd (map_fields v ! i)") auto
qed

section \<open>The comparison answers the order of keys\<close>

lemma CompareTimestamps_key: "CompareTimestamps a b = okeys_compare (ts_key a) (ts_key b)"
  by (simp add: CompareTimestamps_def CompareInt64_def ts_key_def)

lemma CompareReferences_key:
  "CompareReferences a b =
     okeys_compare (map string_key (SkipEmpty (StrSplit (CHR ''/'') a)))
       (map string_key (SkipEmpty (StrSplit (CHR ''/'') b)))"
  unfolding CompareReferences_def
  by (rule okeys_compare_container) (simp add: CompareStrings_def string_key_compare)

lemma CompareGeoPoints_key:
  "CompareGeoPoints a b c d =
     okeys_compare [OInt (nan_key a), OInt (nan_key b)] [OInt (nan_key c), OInt (nan_key d)]"
  by (simp add: CompareGeoPoints_def CompareDouble_nan_key)

lemma memcmp_prefix:
  "CompareBlobs a b = DefaultCompare a b"
proof (induction a arbitrary: b)
  case Nil
  then show ?case by (cases b) (auto simp: CompareBlobs_def DefaultCompare_def)
next
  case (Cons x a)
  show ?case
  proof (cases b)
    case Nil
    then show ?thesis by (simp add: CompareBlobs_def DefaultCompare_def)
  next
    case (Cons y b')
    have "ComparisonResultFromInt (of_char x - of_char y) = DefaultCompare (of_char x :: int) (of_char y)"
      by (auto simp: ComparisonResultFromInt_def DefaultCompare_def)
    moreover have "(of_char x :: int) - of_char y = 0 \<longleftrightarrow> x = y" by (simp add: of_char_eq_iff)
    moreover have "CompareBlobs (x # a) (x # b') = CompareBlobs a b'"
      by (simp add: CompareBlobs_def Let_def DefaultCompare_def)
    ultimately show ?thesis using Cons Cons.IH [of b']
      by (cases "x = y") (auto simp: CompareBlobs_def Let_def DefaultCompare_Cons DefaultCompare_char)
  qed
qed

lemma exact_mixed_order_key:
  "exact_mixed_order d i = DefaultCompare (nan_key d) (sint i * dbl_scale)"
proof (cases "isnan d")
  case True
  have S: "0 < dbl_scale" "- (2 ^ 3000) < - (2 ^ 63) * dbl_scale" unfolding dbl_scale_def by simp_all
  have "- (2 ^ 63) * dbl_scale \<le> sint i * dbl_scale"
    using sint_int64_range [of i] S(1) by (simp only: mult_le_cancel_right_pos)
  with S(2) have "nan_key d < sint i * dbl_scale" using True unfolding nan_key_def if_P [OF True] by linarith
  then show ?thesis using True by (simp add: exact_mixed_order_def DefaultCompare_def)
qed (simp only: exact_mixed_order_def nan_key_def dbl_scale_def if_False)

lemma CompareInt64_scaled:
  "CompareInt64 a b = DefaultCompare (sint a * dbl_scale) (sint b * dbl_scale)"
proof -
  have "0 < dbl_scale" by (simp add: dbl_scale_def)
  then show ?thesis by (simp add: CompareInt64_def DefaultCompare_def)
qed

definition number_key :: "Value \<Rightarrow> int" where
  "number_key v =
     (case v of integer_value i \<Rightarrow> sint i * dbl_scale | double_value d \<Rightarrow> nan_key d | _ \<Rightarrow> 0)"

lemma number_cases:
  assumes "GetTypeOrder v = kNumber"
  obtains i where "v = integer_value i" | d where "v = double_value d"
  using assms by (cases v) (simp_all split: if_splits)

lemma vkey_integer: "vkey (integer_value i) = ONode [OInt 2, OInt (sint i * dbl_scale)]"
  by (subst vkey.simps) simp

lemma vkey_double: "vkey (double_value d) = ONode [OInt 2, OInt (nan_key d)]"
  by (subst vkey.simps) simp

lemma vkey_number:
  assumes "GetTypeOrder v = kNumber"
  shows "vkey v = ONode [OInt 2, OInt (number_key v)]"
  using assms by (rule number_cases) (simp_all add: vkey_integer vkey_double number_key_def)

lemma CompareNumbers_key:
  assumes "GetTypeOrder l = kNumber" "GetTypeOrder r = kNumber"
  shows "CompareNumbers l r = Some (DefaultCompare (number_key l) (number_key r))"
proof -
  have rev: "ReverseOrder (DefaultCompare a b) = DefaultCompare b a" for a b :: int
    using default_int.cmp_swap [of b a] by simp
  show ?thesis
    using assms(1)
  proof (rule number_cases)
    fix i assume l: "l = integer_value i"
    show ?thesis using assms(2) by (rule number_cases)
        (simp_all add: l number_key_def CompareMixedNumber_exact exact_mixed_order_key CompareInt64_scaled rev)
  next
    fix d assume l: "l = double_value d"
    show ?thesis using assms(2) by (rule number_cases)
        (simp_all add: l number_key_def CompareMixedNumber_exact exact_mixed_order_key CompareDouble_nan_key)
  qed
qed

definition vpayload :: "Value \<Rightarrow> okey list" where
  "vpayload v = (case vkey v of ONode (_ # ks) \<Rightarrow> ks | _ \<Rightarrow> [])"

lemma vkey_vpayload: "vkey v = ONode (OInt (type_rank (GetTypeOrder v)) # vpayload v)"
  unfolding vpayload_def by (subst (1 2) vkey.simps) simp

lemma vpayload_simps:
  "vpayload null_value = []"
  "vpayload (boolean_value b) = [OInt (of_bool b)]"
  "vpayload (timestamp_value t) = ts_key t"
  "vpayload (string_value s) = [string_key s]"
  "vpayload (bytes_value s) = [string_key s]"
  "vpayload (reference_value s) = map string_key (SkipEmpty (StrSplit (CHR ''/'') s))"
  "vpayload (geo_point_value x y) = [OInt (nan_key x), OInt (nan_key y)]"
  "vpayload (array_value vs) = map vkey vs"
  unfolding vpayload_def by (subst vkey.simps, simp)+

lemma vpayload_map:
  "GetTypeOrder v = kServerTimestamp \<Longrightarrow>
     vpayload v = (case GetLocalWriteTime v of Some t \<Rightarrow> ts_key t | None \<Rightarrow> [])"
  "GetTypeOrder v = kVector \<Longrightarrow>
     vpayload v = OInt (int (length (vector_elements v))) # map vkey (vector_elements v)"
  "GetTypeOrder v = kMap \<Longrightarrow> vpayload v = map fkey (map_fields (SortFields v))"
  "GetTypeOrder v = kMaxValue \<Longrightarrow> vpayload v = []"
  "GetTypeOrder v = kNull \<Longrightarrow> vpayload v = []"
  unfolding vpayload_def fkey_def by (subst vkey.simps, simp)+

lemma vpayload_number: "GetTypeOrder v = kNumber \<Longrightarrow> vpayload v = [OInt (number_key v)]"
  using vkey_number [of v] by (simp add: vpayload_def)

lemma type_rank_inj: "type_rank s = type_rank t \<Longrightarrow> s = t"
  by (cases s; cases t) auto

lemma vkey_compare_types:
  "GetTypeOrder l \<noteq> GetTypeOrder r \<Longrightarrow>
   okey_compare (vkey l) (vkey r) = DefaultCompare (type_rank (GetTypeOrder l)) (type_rank (GetTypeOrder r))"
  using type_rank_inj by (auto simp: vkey_vpayload)

lemma vkey_compare_payload:
  "GetTypeOrder l = GetTypeOrder r \<Longrightarrow>
   okey_compare (vkey l) (vkey r) = okeys_compare (vpayload l) (vpayload r)"
  by (simp add: vkey_vpayload)

lemma GetTypeOrder_inversions:
  "GetTypeOrder v = kBoolean \<Longrightarrow> \<exists>b. v = boolean_value b"
  "GetTypeOrder v = kTimestamp \<Longrightarrow> \<exists>b. v = timestamp_value b"
  "GetTypeOrder v = kString \<Longrightarrow> \<exists>b. v = string_value b"
  "GetTypeOrder v = kBlob \<Longrightarrow> \<exists>b. v = bytes_value b"
  "GetTypeOrder v = kReference \<Longrightarrow> \<exists>b. v = reference_value b"
  "GetTypeOrder v = kGeoPoint \<Longrightarrow> \<exists>a b. v = geo_point_value a b"
  "GetTypeOrder v = kArray \<Longrightarrow> \<exists>b. v = array_value b"
  by (cases v; simp split: if_splits)+

lemma server_timestamp_ok:
  "GetTypeOrder v = kServerTimestamp \<Longrightarrow> value_ok v \<Longrightarrow> \<exists>t. GetLocalWriteTime v = Some t"
  by (cases v) (simp_all split: if_splits)

lemma okeys_compare_lengths:
  "length xs \<noteq> length ys \<Longrightarrow> okeys_compare (OInt (int (length xs)) # xs) (OInt (int (length ys)) # ys) =
     DefaultCompare (length xs) (length ys)"
  by (auto simp: DefaultCompare_def)

declare ValueCompare.simps [simp del]

lemma ValueCompare_key_step:
  assumes ok: "value_ok l" "value_ok r"
    and arr: "\<And>a b. l = array_value a \<Longrightarrow> r = array_value b \<Longrightarrow>
      CompareArrays a b = Some (okeys_compare (map vkey a) (map vkey b))"
    and maps: "GetTypeOrder l = kMap \<Longrightarrow> GetTypeOrder r = kMap \<Longrightarrow>
      CompareMaps_sorted (map_fields (SortFields l)) (map_fields (SortFields r)) =
        Some (okeys_compare (map fkey (map_fields (SortFields l))) (map fkey (map_fields (SortFields r))))"
    and vec: "GetTypeOrder l = kVector \<Longrightarrow> GetTypeOrder r = kVector \<Longrightarrow>
      \<not> (vector_elements l = [] \<and> vector_elements r = []) \<Longrightarrow>
      length (vector_elements l) = length (vector_elements r) \<Longrightarrow>
      CompareArrays (vector_elements l) (vector_elements r) =
        Some (okeys_compare (map vkey (vector_elements l)) (map vkey (vector_elements r)))"
  shows "ValueCompare l r = Some (okey_compare (vkey l) (vkey r))"
proof (cases "GetTypeOrder l = GetTypeOrder r")
  case False
  then show ?thesis by (simp add: ValueCompare.simps vkey_compare_types)
next
  case True
  show ?thesis unfolding vkey_compare_payload [OF True]
  proof (cases "GetTypeOrder l")
    case kNull
    then show "ValueCompare l r = Some (okeys_compare (vpayload l) (vpayload r))"
      using True by (simp add: ValueCompare.simps vpayload_map)
  next
    case kBoolean
    then obtain a b where "l = boolean_value a" "r = boolean_value b"
      using True GetTypeOrder_inversions(1) by metis
    then show "ValueCompare l r = Some (okeys_compare (vpayload l) (vpayload r))"
      by (simp add: ValueCompare.simps vpayload_simps DefaultCompare_def)
  next
    case kNumber
    then show "ValueCompare l r = Some (okeys_compare (vpayload l) (vpayload r))"
      using True CompareNumbers_key [of l r] by (simp add: ValueCompare.simps vpayload_number)
  next
    case kTimestamp
    then obtain a b where "l = timestamp_value a" "r = timestamp_value b"
      using True GetTypeOrder_inversions(2) by metis
    then show "ValueCompare l r = Some (okeys_compare (vpayload l) (vpayload r))"
      by (simp add: ValueCompare.simps vpayload_simps CompareTimestamps_key)
  next
    case kServerTimestamp
    then obtain a b where "GetLocalWriteTime l = Some a" "GetLocalWriteTime r = Some b"
      using True ok server_timestamp_ok by metis
    then show "ValueCompare l r = Some (okeys_compare (vpayload l) (vpayload r))"
      using kServerTimestamp True by (simp add: ValueCompare.simps vpayload_map CompareTimestamps_key)
  next
    case kString
    then obtain a b where "l = string_value a" "r = string_value b"
      using True GetTypeOrder_inversions(3) by metis
    then show "ValueCompare l r = Some (okeys_compare (vpayload l) (vpayload r))"
      by (simp add: ValueCompare.simps vpayload_simps CompareStrings_def string_key_compare)
  next
    case kBlob
    then obtain a b where "l = bytes_value a" "r = bytes_value b"
      using True GetTypeOrder_inversions(4) by metis
    then show "ValueCompare l r = Some (okeys_compare (vpayload l) (vpayload r))"
      by (simp add: ValueCompare.simps vpayload_simps memcmp_prefix string_key_compare)
  next
    case kReference
    then obtain a b where "l = reference_value a" "r = reference_value b"
      using True GetTypeOrder_inversions(5) by metis
    then show "ValueCompare l r = Some (okeys_compare (vpayload l) (vpayload r))"
      by (simp add: ValueCompare.simps vpayload_simps CompareReferences_key)
  next
    case kGeoPoint
    then obtain a b c d where "l = geo_point_value a b" "r = geo_point_value c d"
      using True GetTypeOrder_inversions(6) by metis
    then show "ValueCompare l r = Some (okeys_compare (vpayload l) (vpayload r))"
      by (simp add: ValueCompare.simps vpayload_simps CompareGeoPoints_key)
  next
    case kArray
    then obtain a b where "l = array_value a" "r = array_value b"
      using True GetTypeOrder_inversions(7) by metis
    then show "ValueCompare l r = Some (okeys_compare (vpayload l) (vpayload r))"
      using arr by (simp add: ValueCompare.simps vpayload_simps)
  next
    case kVector
    then show "ValueCompare l r = Some (okeys_compare (vpayload l) (vpayload r))"
      using True vec okeys_compare_lengths [of "map vkey (vector_elements l)" "map vkey (vector_elements r)"]
      by (simp add: ValueCompare.simps vpayload_map)
  next
    case kMap
    then show "ValueCompare l r = Some (okeys_compare (vpayload l) (vpayload r))"
      using True maps by (simp add: ValueCompare.simps vpayload_map)
  next
    case kMaxValue
    then show "ValueCompare l r = Some (okeys_compare (vpayload l) (vpayload r))"
      using True by (simp add: ValueCompare.simps vpayload_map)
  qed
qed

lemma ValueCompare_key:
  "value_ok l \<Longrightarrow> value_ok r \<Longrightarrow> ValueCompare l r = Some (okey_compare (vkey l) (vkey r))"
  and CompareArrays_key:
  "(\<forall>v \<in> set ls. value_ok v) \<Longrightarrow> (\<forall>v \<in> set rs. value_ok v) \<Longrightarrow>
   CompareArrays ls rs = Some (okeys_compare (map vkey ls) (map vkey rs))"
  and CompareMaps_key:
  "(\<forall>f \<in> set lf. value_ok (snd f)) \<Longrightarrow> (\<forall>f \<in> set rf. value_ok (snd f)) \<Longrightarrow>
   CompareMaps_sorted lf rf = Some (okeys_compare (map fkey lf) (map fkey rf))"
proof (induction l r and ls rs and lf rf rule: ValueCompare_CompareArrays_CompareMaps_sorted.induct)
  case (1 l r)
  show ?case
  proof (rule ValueCompare_key_step [OF 1(4,5)])
    fix a b assume ab: "l = array_value a" "r = array_value b"
    show "CompareArrays a b = Some (okeys_compare (map vkey a) (map vkey b))"
      using 1(1) 1(4,5) ab by simp
  next
    assume m: "GetTypeOrder l = kMap" "GetTypeOrder r = kMap"
    show "CompareMaps_sorted (map_fields (SortFields l)) (map_fields (SortFields r)) =
        Some (okeys_compare (map fkey (map_fields (SortFields l))) (map fkey (map_fields (SortFields r))))"
      using 1(3) 1(4,5) m value_ok_sorted_field by simp
  next
    assume m: "GetTypeOrder l = kVector" "GetTypeOrder r = kVector"
      "\<not> (vector_elements l = [] \<and> vector_elements r = [])"
      "length (vector_elements l) = length (vector_elements r)"
    show "CompareArrays (vector_elements l) (vector_elements r) =
        Some (okeys_compare (map vkey (vector_elements l)) (map vkey (vector_elements r)))"
      using 1(2) 1(4,5) m value_ok_vector_element by simp
  qed
next
  case (2 rs)
  then show ?case by (cases rs) (auto simp: DefaultCompare_def)
next
  case (4 l ls r rs)
  then show ?case by (auto simp: okey_compare_Same)
next
  case (5 rs)
  then show ?case by (cases rs) (auto simp: DefaultCompare_def)
next
  case (7 l ls r rs)
  then show ?case by (auto simp: fkey_def CompareStrings_def string_key_compare okey_compare_Same)
qed (auto simp: DefaultCompare_def)

section \<open>Valid values as a linear preorder\<close>

typedef valid_value = "{v. value_ok v}"
  by (rule exI [of _ null_value]) simp

setup_lifting type_definition_valid_value

lift_definition valid_compare :: "valid_value \<Rightarrow> valid_value \<Rightarrow> ComparisonResult" is
  "\<lambda>l r. the (ValueCompare l r)" .

lift_definition valid_key :: "valid_value \<Rightarrow> okey" is vkey .

lemma valid_compare_key: "valid_compare l r = okey_compare (valid_key l) (valid_key r)"
  by transfer (simp add: ValueCompare_key)

interpretation value_order: comparator valid_compare
  by (rule comparator_by_key) (rule valid_compare_key)

section \<open>Sorting the fields does not change the key\<close>

lemma IndexOfKey_map_of:
  "map_of fs k = (case IndexOfKey fs k of None \<Rightarrow> None | Some i \<Rightarrow> Some (snd (fs ! i)))"
  by (induction fs) (auto split: option.splits)

lemma IsVectorValue_map_of:
  "IsVectorValue (map_value fs) \<longleftrightarrow>
     2 \<le> length fs \<and> map_of fs kTypeKey = Some (string_value kRawVectorTypeFieldValue) \<and>
     (\<exists>vs. map_of fs kRawVectorValueFieldKey = Some (array_value vs))"
proof -
  have "IsArray v \<longleftrightarrow> (\<exists>vs. v = array_value vs)" for v by (cases v) auto
  then show ?thesis by (auto simp: IsVectorValue_def IndexOfKey_map_of split: option.splits)
qed

lemma vector_elements_map_of:
  "vector_elements (map_value fs) =
     (case map_of fs kRawVectorValueFieldKey of Some v \<Rightarrow> array_values v | None \<Rightarrow> [])"
  by (auto simp: vector_elements_def IndexOfKey_map_of split: option.splits)

lemma SortFields_array [simp]: "SortFields v = array_value vs \<longleftrightarrow> (\<exists>us. v = array_value us \<and> vs = map SortFields us)"
  by (cases v) auto

lemma length_sorted_fields [simp]: "length (map_fields (SortFields (map_value fs))) = length fs"
  by simp

lemma array_values_SortFields [simp]: "array_values (SortFields v) = map SortFields (array_values v)"
  by (cases v) auto

lemma SortFields_idem: "SortFields (SortFields v) = SortFields v"
proof (induction v rule: SortFields.induct)
  case (1 fs)
  let ?s = "map (\<lambda>(k, v). (k, SortFields v)) (sort_key fst fs)"
  have "map fst ?s = map fst (sort_key fst fs)" by (simp add: comp_def case_prod_unfold)
  then have "sorted (map fst ?s)" by (simp only: sorted_sort_key)
  then have "sort_key fst ?s = ?s" by (rule sort_key_id_if_sorted)
  moreover have "map (\<lambda>(k, v). (k, SortFields v)) ?s = ?s"
    using 1 by (auto simp: comp_def case_prod_unfold)
  ultimately show ?case by (simp only: SortFields.simps)
qed auto

lemma map_value_fields: "map_value (map_fields (SortFields (map_value fs))) = SortFields (map_value fs)"
  by simp

lemma IsMaxValue_iff:
  "IsMaxValue (map_value fs) \<longleftrightarrow> fs = [(kTypeKey, string_value kRawMaxValueFieldValue)]"
  by (cases "map_value fs" rule: IsMaxValue.cases) auto

lemma IsMaxValue_sorted: "IsMaxValue (SortFields (map_value fs)) \<longleftrightarrow> IsMaxValue (map_value fs)"
proof (cases "\<exists>k v. fs = [(k, v)]")
  case True
  then obtain k v where "fs = [(k, v)]" by blast
  then show ?thesis by (simp only: SortFields.simps sort_key_simps IsMaxValue_iff) simp
next
  case False
  have "length fs = 1 \<Longrightarrow> \<exists>k v. fs = [(k, v)]" by (cases fs) auto
  with False have "length fs \<noteq> 1" by blast
  then show ?thesis unfolding SortFields.simps IsMaxValue_iff by (auto dest: arg_cong [where f = length])
qed

lemma GetTypeOrder_SortFields:
  assumes "value_ok v" shows "GetTypeOrder (SortFields v) = GetTypeOrder v"
proof (cases v)
  case (map_value fs)
  then have d: "distinct (map fst fs)" using assms by simp
  let ?s = "map_fields (SortFields (map_value fs))"
  have "IsVectorValue (map_value ?s) \<longleftrightarrow> IsVectorValue (map_value fs)"
    unfolding IsVectorValue_map_of map_of_sorted [OF d] by auto
  moreover have "IsServerTimestamp (map_value ?s) \<longleftrightarrow> IsServerTimestamp (map_value fs)"
    using IsServerTimestamp_sorted [OF d] by simp
  moreover have "IsMaxValue (map_value ?s) \<longleftrightarrow> IsMaxValue (map_value fs)"
    using IsMaxValue_sorted [of fs] by simp
  ultimately show ?thesis
    unfolding map_value by (subst map_value_fields [symmetric]) (simp only: GetTypeOrder.simps)
qed auto

lemma vector_elements_SortFields:
  assumes "value_ok v" shows "vector_elements (SortFields v) = map SortFields (vector_elements v)"
proof (cases v)
  case (map_value fs)
  then have d: "distinct (map fst fs)" using assms by simp
  have "vector_elements (map_value (map_fields (SortFields (map_value fs)))) =
      map SortFields (vector_elements (map_value fs))"
    unfolding vector_elements_map_of map_of_sorted [OF d]
    by (cases "map_of fs kRawVectorValueFieldKey") auto
  then show ?thesis unfolding map_value map_value_fields .
qed (auto simp: vector_elements_def)

lemma map_type_cases:
  obtains "GetTypeOrder (map_value fs) = kServerTimestamp" | "GetTypeOrder (map_value fs) = kMaxValue"
  | "GetTypeOrder (map_value fs) = kVector" | "GetTypeOrder (map_value fs) = kMap"
  using GetTypeOrder.simps(11) [of fs] by presburger

lemma vkey_eqI:
  "GetTypeOrder l = GetTypeOrder r \<Longrightarrow> vpayload l = vpayload r \<Longrightarrow> vkey l = vkey r"
  by (simp add: vkey_vpayload)

lemma vkey_SortFields: "value_ok v \<Longrightarrow> vkey (SortFields v) = vkey v"
proof (induction v rule: measure_induct_rule [where f = vsize])
  case (less v)
  show ?case
  proof (rule vkey_eqI)
    show t: "GetTypeOrder (SortFields v) = GetTypeOrder v" using less.prems by (rule GetTypeOrder_SortFields)
    show "vpayload (SortFields v) = vpayload v"
    proof (cases v)
      case (array_value vs)
      then have "vkey (SortFields u) = vkey u" if "u \<in> set vs" for u
        using less.IH [of u] less.prems that vsize_in_list [OF that] by simp
      then show ?thesis by (simp add: array_value vpayload_simps)
    next
      case (map_value fs)
      then have d: "distinct (map fst fs)" using less.prems by simp
      show ?thesis
      proof (rule map_type_cases [of fs, folded map_value], goal_cases)
        case 1
        then show ?thesis using t GetLocalWriteTime_sorted [OF d distinct_sorted_fields [OF d]] map_value
          by (simp add: vpayload_map)
      next
        case 2
        then show ?thesis using t by (simp add: vpayload_map)
      next
        case 3
        have "vkey (SortFields u) = vkey u" if "u \<in> set (vector_elements v)" for u
          using less.IH [of u] vsize_in_vector [OF that] value_ok_vector_element [OF less.prems that] by simp
        then show ?thesis using 3 t vector_elements_SortFields [OF less.prems] by (simp add: vpayload_map)
      next
        case 4
        then show ?thesis using t by (simp add: vpayload_map SortFields_idem)
      qed
    qed auto
  qed
qed

section \<open>Equal values compare the same\<close>

lemma string_key_inj: "string_key s = string_key t \<longleftrightarrow> s = t"
  using string_key_compare [of s t] by (simp add: okey_compare_Same flip: okey_compare_Same)

lemma fkey_map_of:
  "map fkey a = map fkey b \<Longrightarrow> map_option vkey (map_of a k) = map_option vkey (map_of b k)"
proof (induction a arbitrary: b)
  case (Cons f a)
  then obtain g b' where b: "b = g # b'" by (cases b) auto
  with Cons.prems have "fkey f = fkey g" "map fkey a = map fkey b'" by simp_all
  moreover from this have "fst f = fst g" "vkey (snd f) = vkey (snd g)"
    by (simp_all add: fkey_def string_key_inj)
  ultimately show ?case using Cons.IH [of b'] b by (cases f; cases g) auto
qed simp

lemma MapValueEquals_key:
  assumes "MapValueEquals fs gs = Some True" "value_ok (map_value fs)" "value_ok (map_value gs)"
  shows "map fkey (map_fields (SortFields (map_value fs))) = map fkey (map_fields (SortFields (map_value gs)))"
proof -
  have "CompareMaps fs gs = Some (okeys_compare (map fkey (map_fields (SortFields (map_value fs))))
      (map fkey (map_fields (SortFields (map_value gs)))))"
    unfolding CompareMaps_def using value_ok_sorted_field assms(2,3) by (intro CompareMaps_key) blast+
  with assms(1) show ?thesis
    by (auto simp: MapValueEquals_def okeys_compare_Same split: if_splits)
qed

lemma vector_key_from_fields:
  assumes eq: "map fkey (map_fields (SortFields (map_value fs))) = map fkey (map_fields (SortFields (map_value gs)))"
    and ok: "value_ok (map_value fs)" "value_ok (map_value gs)"
    and vec: "IsVectorValue (map_value fs)" "IsVectorValue (map_value gs)"
  shows "map vkey (vector_elements (map_value fs)) = map vkey (vector_elements (map_value gs))"
proof -
  obtain xs ys where x: "map_of fs kRawVectorValueFieldKey = Some (array_value xs)"
    and y: "map_of gs kRawVectorValueFieldKey = Some (array_value ys)"
    using vec by (auto simp: IsVectorValue_map_of)
  have d: "distinct (map fst fs)" "distinct (map fst gs)" using ok by simp_all
  have "vkey (SortFields (array_value xs)) = vkey (SortFields (array_value ys))"
    using fkey_map_of [OF eq, of kRawVectorValueFieldKey] x y
    unfolding map_of_sorted [OF d(1)] map_of_sorted [OF d(2)] by simp
  moreover have "value_ok (array_value xs)" "value_ok (array_value ys)"
    using ok map_of_SomeD [OF x] map_of_SomeD [OF y] by fastforce+
  ultimately have "vkey (array_value xs) = vkey (array_value ys)" by (simp only: vkey_SortFields)
  then have "map vkey xs = map vkey ys" by (simp add: vkey_vpayload vpayload_simps)
  then show ?thesis by (simp add: vector_elements_map_of x y)
qed

lemma DoubleBitwiseEquals_key: "DoubleBitwiseEquals a b \<Longrightarrow> nan_key a = nan_key b"
proof -
  have nan: "isnan dbl_NAN"
    by (simp add: isnan_def dbl_NAN_def dbl_mag_def inf_mag_def)
  assume "DoubleBitwiseEquals a b"
  with nan show "nan_key a = nan_key b"
    by (auto simp: DoubleBitwiseEquals_def DoubleBits_def nan_key_def split: if_splits)
qed

lemma NumberEquals_key:
  "GetTypeOrder l = kNumber \<Longrightarrow> GetTypeOrder r = kNumber \<Longrightarrow> NumberEquals l r \<Longrightarrow> number_key l = number_key r"
  by (erule number_cases; erule number_cases) (auto simp: number_key_def DoubleBitwiseEquals_key)

lemma ValueEquals_key_step:
  assumes eq: "ValueEquals l r = Some True" and ok: "value_ok l" "value_ok r"
    and arr: "\<And>a b. l = array_value a \<Longrightarrow> r = array_value b \<Longrightarrow> length a = length b \<Longrightarrow>
      ArrayEquals_from a b = Some True \<Longrightarrow> map vkey a = map vkey b"
  shows "vkey l = vkey r"
proof -
  have t: "GetTypeOrder l = GetTypeOrder r"
    using eq by (auto simp: ValueEquals.simps split: if_splits)
  show ?thesis
  proof (rule vkey_eqI [OF t])
    note u = ValueEquals.simps t
    show "vpayload l = vpayload r"
    proof (cases "GetTypeOrder l")
      case kNull
      then show ?thesis using t by (simp add: vpayload_map)
    next
      case kBoolean
      then obtain a b where "l = boolean_value a" "r = boolean_value b"
        using t GetTypeOrder_inversions(1) by metis
      then show ?thesis using eq by (simp add: u vpayload_simps)
    next
      case kNumber
      then show ?thesis using eq t NumberEquals_key [of l r] by (simp add: u vpayload_number)
    next
      case kTimestamp
      then obtain a b where "l = timestamp_value a" "r = timestamp_value b"
        using t GetTypeOrder_inversions(2) by metis
      then show ?thesis using eq by (simp add: u vpayload_simps ts_key_def)
    next
      case kServerTimestamp
      then obtain a b where "GetLocalWriteTime l = Some a" "GetLocalWriteTime r = Some b"
        using t ok server_timestamp_ok by metis
      then show ?thesis using eq kServerTimestamp t by (simp add: u vpayload_map ts_key_def)
    next
      case kString
      then obtain a b where "l = string_value a" "r = string_value b"
        using t GetTypeOrder_inversions(3) by metis
      then show ?thesis using eq by (simp add: u vpayload_simps)
    next
      case kBlob
      then obtain a b where "l = bytes_value a" "r = bytes_value b"
        using t GetTypeOrder_inversions(4) by metis
      then show ?thesis using eq by (simp add: u vpayload_simps memcmp_prefix)
    next
      case kReference
      then obtain a b where "l = reference_value a" "r = reference_value b"
        using t GetTypeOrder_inversions(5) by metis
      then show ?thesis using eq by (simp add: u vpayload_simps)
    next
      case kGeoPoint
      then obtain a b c d where "l = geo_point_value a b" "r = geo_point_value c d"
        using t GetTypeOrder_inversions(6) by metis
      then show ?thesis using eq by (simp add: u vpayload_simps dbl_eq_def nan_key_def)
    next
      case kArray
      then obtain a b where "l = array_value a" "r = array_value b"
        using t GetTypeOrder_inversions(7) by metis
      then show ?thesis using eq arr by (simp add: u vpayload_simps split: if_splits)
    next
      case kVector
      then obtain fs gs where m: "l = map_value fs" "r = map_value gs"
        using t by (cases l; cases r) auto
      moreover have "IsVectorValue l" "IsVectorValue r"
        using kVector t m by (auto simp only: GetTypeOrder.simps split: if_splits)
      moreover have "MapValueEquals fs gs = Some True" using eq kVector t m by (simp add: u del: GetTypeOrder.simps)
      ultimately have "map vkey (vector_elements l) = map vkey (vector_elements r)"
        using vector_key_from_fields [OF MapValueEquals_key, of fs gs] ok by simp
      moreover from this have "length (vector_elements l) = length (vector_elements r)" by (rule map_eq_imp_length_eq)
      ultimately show ?thesis using kVector t by (simp add: vpayload_map)
    next
      case kMap
      then obtain fs gs where m: "l = map_value fs" "r = map_value gs"
        using t by (cases l; cases r) auto
      moreover have "MapValueEquals fs gs = Some True" using eq kMap t m by (simp add: u del: GetTypeOrder.simps)
      ultimately show ?thesis using kMap t MapValueEquals_key [of fs gs] ok by (simp add: vpayload_map del: SortFields.simps)
    next
      case kMaxValue
      then show ?thesis using t by (simp add: vpayload_map)
    qed
  qed
qed

lemma ValueEquals_key:
  "ValueEquals l r = Some True \<Longrightarrow> value_ok l \<Longrightarrow> value_ok r \<Longrightarrow> vkey l = vkey r"
  and ArrayEquals_key:
  "ArrayEquals_from ls rs = Some True \<Longrightarrow> length ls = length rs \<Longrightarrow>
   (\<forall>v \<in> set ls. value_ok v) \<Longrightarrow> (\<forall>v \<in> set rs. value_ok v) \<Longrightarrow> map vkey ls = map vkey rs"
proof (induction l r and ls rs rule: ValueEquals_ArrayEquals_from.induct)
  case (1 l r)
  show ?case
  proof (rule ValueEquals_key_step [OF 1(2,3,4)])
    fix a b assume "l = array_value a" "r = array_value b" "length a = length b" "ArrayEquals_from a b = Some True"
    then show "map vkey a = map vkey b" using 1(1) 1(3,4) by simp
  qed
next
  case (2 l ls r rs)
  then show ?case by (cases "ValueEquals l r") (auto split: if_splits)
qed auto

section \<open>Bounds of the value types\<close>

lemma vkey_less_rank:
  "type_rank (GetTypeOrder l) < type_rank (GetTypeOrder r) \<Longrightarrow> okey_compare (vkey l) (vkey r) = Ascending"
  by (simp add: vkey_vpayload DefaultCompare_def)

lemma bound_types:
  "GetTypeOrder MinBoolean = kBoolean" "GetTypeOrder MinNumber = kNumber" "GetTypeOrder MinTimestamp = kTimestamp"
  "GetTypeOrder MinString = kString" "GetTypeOrder MinBytes = kBlob" "GetTypeOrder MinReference = kReference"
  "GetTypeOrder MinGeoPoint = kGeoPoint" "GetTypeOrder MinArray = kArray" "GetTypeOrder MinVector = kVector"
  "GetTypeOrder MinMap = kMap" "GetTypeOrder MaxValue = kMaxValue"
  by (simp_all add: MinBoolean_def MinNumber_def MinTimestamp_def MinString_def MinBytes_def MinReference_def
      MinGeoPoint_def MinArray_def MinVector_def MinMap_def MaxValue_def IsVectorValue_def kTypeKey_def
      kRawVectorTypeFieldValue_def kRawVectorValueFieldKey_def kRawMaxValueFieldValue_def kServerTimestampSentinel_def)

lemma bound_ok:
  "value_ok MinBoolean" "value_ok MinNumber" "value_ok MinTimestamp" "value_ok MinString" "value_ok MinBytes"
  "value_ok MinReference" "value_ok MinGeoPoint" "value_ok MinArray" "value_ok MinVector" "value_ok MinMap"
  "value_ok MaxValue"
  by (simp_all add: MinBoolean_def MinNumber_def MinTimestamp_def MinString_def MinBytes_def MinReference_def
      MinGeoPoint_def MinArray_def MinVector_def MinMap_def MaxValue_def kTypeKey_def
      kRawVectorTypeFieldValue_def kRawVectorValueFieldKey_def kRawMaxValueFieldValue_def kServerTimestampSentinel_def)

lemma vector_type:
  assumes "IsVectorValue (map_value fs)" shows "GetTypeOrder (map_value fs) = kVector"
proof -
  have "\<not> IsServerTimestamp (map_value fs)"
    using assms unfolding IsVectorValue_map_of IsServerTimestamp_map_of
    by (auto simp: kRawVectorTypeFieldValue_def kServerTimestampSentinel_def)
  moreover have "\<not> IsMaxValue (map_value fs)"
    using assms unfolding IsVectorValue_map_of IsMaxValue_iff by auto
  ultimately show ?thesis using assms by (simp only: GetTypeOrder.simps if_False if_True)
qed

lemma upper_bound_rank:
  assumes "\<not> IsMaxValue v"
  shows "type_rank (GetTypeOrder v) < type_rank (GetTypeOrder (GetUpperBound v)) \<and> value_ok (GetUpperBound v)"
proof (cases v)
  case (map_value fs)
  show ?thesis
  proof (cases "IsVectorValue (map_value fs)")
    case True
    then show ?thesis using vector_type [OF True] map_value by (simp add: bound_types bound_ok del: GetTypeOrder.simps)
  next
    case False
    then have "GetTypeOrder v = kServerTimestamp \<or> GetTypeOrder v = kMap"
      using map_value assms GetTypeOrder.simps(11) [of fs] by presburger
    then show ?thesis using map_value False by (auto simp: bound_types bound_ok simp del: GetTypeOrder.simps)
  qed
qed (simp_all add: bound_types bound_ok)

fun within_type_range :: "Value \<Rightarrow> bool" where
  "within_type_range (timestamp_value t) = (0 \<le> sint (nanos t))"
| "within_type_range (geo_point_value lat lng) =
     (CompareDouble (dbl_of_int (- 90)) lat \<noteq> Descending \<and> CompareDouble (dbl_of_int (- 180)) lng \<noteq> Descending)"
| "within_type_range (reference_value s) = False"
| "within_type_range (map_value fs) = (\<not> IsServerTimestamp (map_value fs))"
| "within_type_range _ = True"

lemma nan_key_NAN: "nan_key dbl_NAN = - (2 ^ 3000)"
proof -
  have "isnan dbl_NAN" by (simp add: isnan_def dbl_NAN_def dbl_mag_def inf_mag_def)
  then show ?thesis by (simp only: nan_key_def if_True)
qed

lemma number_key_lower: "GetTypeOrder v = kNumber \<Longrightarrow> - (2 ^ 3000) \<le> number_key v"
proof (erule number_cases)
  fix i assume v: "v = integer_value i"
  have S: "0 < dbl_scale" "- (2 ^ 3000) < - (2 ^ 63) * dbl_scale" unfolding dbl_scale_def by simp_all
  have "- (2 ^ 63) * dbl_scale \<le> sint i * dbl_scale"
    using sint_int64_range [of i] S(1) by (simp only: mult_le_cancel_right_pos)
  with S(2) have "- (2 ^ 3000) \<le> sint i * dbl_scale" by linarith
  then show ?thesis unfolding v number_key_def Value.case .
next
  fix d assume v: "v = double_value d"
  have "- (2 ^ 3000) \<le> nan_key d"
  proof (cases "isnan d")
    case True
    then show ?thesis by (simp only: nan_key_def if_True order.refl)
  next
    case False
    then show ?thesis using abs_ge_minus_self [of "dbl_key d"] dbl_key_bound [OF False]
      unfolding nan_key_def if_not_P [OF False] by linarith
  qed
  then show ?thesis unfolding v number_key_def Value.case .
qed

lemma MinNumber_lower:
  assumes "GetTypeOrder v = kNumber" shows "okey_compare (vkey MinNumber) (vkey v) \<noteq> Descending"
proof -
  have "vpayload MinNumber = [OInt (- (2 ^ 3000))]"
    unfolding MinNumber_def by (subst vpayload_number) (simp_all only: GetTypeOrder.simps number_key_def Value.case nan_key_NAN)
  moreover have "DefaultCompare a b \<noteq> Descending" if "a \<le> b" for a b :: int using that by (simp add: DefaultCompare_def)
  ultimately show ?thesis using number_key_lower [OF assms] vkey_compare_payload [of MinNumber v] assms
    by (simp only: bound_types vpayload_number okeys_compare.simps okey_compare.simps split: if_splits) auto
qed

lemma okeys_compare_Nil: "okeys_compare [] ks \<noteq> Descending"
  by (cases ks) auto

lemma string_key_Nil: "okeys_compare [string_key []] [string_key s] \<noteq> Descending"
proof -
  have "okey_compare (string_key []) (string_key s) \<noteq> Descending"
    unfolding string_key_compare by (cases s) (auto simp: DefaultCompare_def)
  then show ?thesis by simp
qed

lemma lower_bound_payload:
  assumes "within_type_range v"
  shows "GetTypeOrder (GetLowerBound v) = GetTypeOrder v \<and> okey_compare (vkey (GetLowerBound v)) (vkey v) \<noteq> Descending \<or>
    type_rank (GetTypeOrder (GetLowerBound v)) < type_rank (GetTypeOrder v)"
proof (cases v)
  case null_value
  then show ?thesis by (simp add: okey_order.cmp_refl)
next
  case (boolean_value b)
  then show ?thesis
    by (cases b) (simp_all add: MinBoolean_def vkey_compare_payload vpayload_simps DefaultCompare_def)
next
  case (integer_value i)
  then show ?thesis using MinNumber_lower [of v] by (simp add: bound_types)
next
  case (double_value d)
  then show ?thesis using MinNumber_lower [of v] by (simp add: bound_types)
next
  case (timestamp_value t)
  have "sint (word_of_int (- (2 ^ 63)) :: int64) = - (2 ^ 63)" by (rule sint_int64) simp_all
  then show ?thesis using assms timestamp_value sint_int64_range [of "seconds t"]
    by (auto simp: MinTimestamp_def vkey_compare_payload vpayload_simps ts_key_def DefaultCompare_def)
next
  case (string_value s)
  then show ?thesis using string_key_Nil [of s] by (simp add: MinString_def vkey_compare_payload vpayload_simps)
next
  case (bytes_value s)
  then show ?thesis using string_key_Nil [of s] by (simp add: MinBytes_def vkey_compare_payload vpayload_simps)
next
  case (reference_value s)
  then show ?thesis using assms by simp
next
  case (geo_point_value lat lng)
  then show ?thesis using assms
    by (simp add: MinGeoPoint_def vkey_compare_payload vpayload_simps CompareDouble_nan_key)
next
  case (array_value vs)
  then show ?thesis by (simp add: MinArray_def vkey_compare_payload vpayload_simps okeys_compare_Nil)
next
  case (map_value fs)
  show ?thesis
  proof (cases "IsVectorValue (map_value fs)")
    case True
    have "vector_elements MinVector = []"
      by (simp add: MinVector_def vector_elements_map_of kTypeKey_def kRawVectorValueFieldKey_def)
    then have "vpayload MinVector = [OInt 0]" by (simp add: vpayload_map bound_types)
    moreover obtain n ks where "vpayload v = OInt (int n) # ks"
      using True vector_type map_value by (simp add: vpayload_map del: GetTypeOrder.simps)
    ultimately have "okey_compare (vkey MinVector) (vkey v) \<noteq> Descending"
      using True vector_type map_value okeys_compare_Nil [of ks]
      by (simp add: vkey_compare_payload bound_types DefaultCompare_def del: GetTypeOrder.simps)
    then show ?thesis using True vector_type map_value by (simp add: bound_types del: GetTypeOrder.simps)
  next
    case False
    then have g: "GetLowerBound v = MinMap" using map_value by simp
    have "GetTypeOrder v = kMap \<or> GetTypeOrder v = kMaxValue"
      using assms map_value False GetTypeOrder.simps(11) [of fs] by simp
    moreover have "vpayload MinMap = []" by (simp add: vpayload_map bound_types, simp add: MinMap_def)
    ultimately show ?thesis unfolding g
      by (auto simp: bound_types vkey_compare_payload okeys_compare_Nil)
  qed
qed

lemma lower_bound_ok: "value_ok (GetLowerBound v)"
  by (cases v) (simp_all add: bound_ok)

section \<open>Properties\<close>

text \<open>C16: On valid values (distinct field names, server timestamps with a write time) the
  comparison of values never fails, and is a total preorder: reflexive, reversed by swapping
  the arguments, and transitive, across all thirteen type classes, mixed numbers, nested
  arrays, vectors and maps.\<close>

theorem value_comparison_total_preorder:
  assumes "value_ok x" "value_ok y" "value_ok z"
  shows "ValueCompare x x = Some Same \<and>
    (\<exists>c. ValueCompare x y = Some c \<and> ValueCompare y x = Some (ReverseOrder c)) \<and>
    (ValueCompare x y \<noteq> Some Descending \<longrightarrow> ValueCompare y z \<noteq> Some Descending \<longrightarrow>
     ValueCompare x z \<noteq> Some Descending)"
  using okey_order.cmp_refl [of "vkey x"] okey_order.cmp_swap [of "vkey y" "vkey x"]
    okey_order.cmp_trans [of "vkey x" "vkey y" "vkey z"]
  by (simp add: ValueCompare_key assms)

theorem value_comparison_total_preorder_witness:
  "ValueCompare (map_value [(''a'', integer_value 1)]) (map_value [(''a'', integer_value 1)]) = Some Same"
  using value_comparison_total_preorder [of "map_value [(''a'', integer_value 1)]" null_value null_value]
  by (simp add: kTypeKey_def)

text \<open>Values that are equal compare as Same; so the finer equality of the code (bitwise
  doubles, integers apart from doubles) never contradicts the order.\<close>

theorem value_equality_refines_order:
  assumes "value_ok l" "value_ok r" "ValueEquals l r = Some True"
  shows "ValueCompare l r = Some Same"
  using ValueEquals_key [OF assms(3,1,2)] by (simp add: ValueCompare_key assms okey_order.cmp_refl)

theorem value_equality_refines_order_witness:
  "ValueCompare (array_value [string_value ''x'']) (array_value [string_value ''x'']) = Some Same"
  using value_equality_refines_order [of "array_value [string_value ''x'']" "array_value [string_value ''x'']"]
  by (simp add: ValueEquals.simps)

text \<open>Every valid value other than the maximum value lies strictly below the upper bound
  of its type, and a value within the range of its type is not below the lower bound.
  References are excluded from the second part, see the next property.\<close>

theorem type_bounds_enclose:
  assumes "value_ok v" "\<not> IsMaxValue v" "within_type_range v"
  shows "ValueCompare v (GetUpperBound v) = Some Ascending \<and>
    ValueCompare (GetLowerBound v) v \<in> {Some Ascending, Some Same}"
proof -
  have "ValueCompare v (GetUpperBound v) = Some Ascending"
    using upper_bound_rank [OF assms(2)] assms(1) by (simp add: ValueCompare_key vkey_less_rank)
  moreover have "okey_compare (vkey (GetLowerBound v)) (vkey v) \<noteq> Descending"
    using lower_bound_payload [OF assms(3)] vkey_less_rank [of "GetLowerBound v" v] by auto
  ultimately show ?thesis
    by (cases "okey_compare (vkey (GetLowerBound v)) (vkey v)")
      (simp_all add: ValueCompare_key lower_bound_ok assms(1))
qed

theorem type_bounds_enclose_witness:
  "ValueCompare (string_value ''abc'') MinBytes = Some Ascending"
  using type_bounds_enclose [of "string_value ''abc''"] by simp

text \<open>The smallest reference of the code is not a lower bound of the references: its
  empty project and database segments are skipped, so every reference into a project whose id
  sorts before the word databases is below it.\<close>

theorem minimum_reference_not_minimal:
  assumes "p \<noteq> []" "CHR ''/'' \<notin> set p" "p < ''databases''"
  shows "ValueCompare (GetLowerBound (reference_value (''projects/'' @ p @ ''/'' @ rest)))
    (reference_value (''projects/'' @ p @ ''/'' @ rest)) = Some Descending"
proof -
  have spl: "StrSplit (CHR ''/'') (q @ ''/'' @ rest) = q # StrSplit (CHR ''/'') rest"
    if "CHR ''/'' \<notin> set q" for q rest using that by (induction q) auto
  have "StrSplit (CHR ''/'') (''projects'' @ ''/'' @ p @ ''/'' @ rest) = ''projects'' # p # StrSplit (CHR ''/'') rest"
    using assms(2) by (subst spl) (simp_all add: spl [simplified])
  then have r: "SkipEmpty (StrSplit (CHR ''/'') (''projects/'' @ p @ ''/'' @ rest)) =
      ''projects'' # p # SkipEmpty (StrSplit (CHR ''/'') rest)"
    using assms(1) by (simp add: SkipEmpty_def)
  have m: "SkipEmpty (StrSplit (CHR ''/'') kMinimumReferenceValue) = [''projects'', ''databases'', ''documents'']"
    by (simp add: SkipEmpty_def kMinimumReferenceValue_def)
  have "CompareStrings ''databases'' p = Descending"
    using assms(3) by (simp add: CompareStrings_def DefaultCompare_simps)
  moreover have "CompareStrings ''projects'' ''projects'' = Same" by (simp add: CompareStrings_def)
  ultimately show ?thesis
    by (simp only: GetLowerBound.simps MinReference_def ValueCompare.simps GetTypeOrder.simps CompareReferences_def r m)
      (simp add: CompareReferences_def m r [simplified])
qed

theorem minimum_reference_not_minimal_witness:
  "ValueCompare MinReference (reference_value ''projects/abc/databases'') = Some Descending"
  using minimum_reference_not_minimal [of "''abc''" "''databases''"] by simp

lemma map_equality_number_types:
  assumes "\<not> isnan d" "dbl_key d = sint i * 2 ^ 1074"
  shows "ValueEquals (map_value [(k, integer_value i)]) (map_value [(k, double_value d)]) = Some True \<and>
    ValueEquals (array_value [integer_value i]) (array_value [double_value d]) = Some False"
proof -
  have t: "GetTypeOrder (map_value [(k, integer_value i)]) = kMap" "GetTypeOrder (map_value [(k, double_value d)]) = kMap"
    by (simp_all add: IsVectorValue_def)
  have "CompareNumbers (integer_value i) (double_value d) = Some Same"
    using assms by (simp only: CompareNumbers.simps CompareMixedNumber_exact exact_mixed_order_def if_False) simp
  then have "CompareMaps [(k, integer_value i)] [(k, double_value d)] = Some Same"
    by (simp add: CompareMaps_def ValueCompare.simps CompareStrings_def DefaultCompare_def)
  then have "ValueEquals (map_value [(k, integer_value i)]) (map_value [(k, double_value d)]) = Some True"
    by (simp only: ValueEquals.simps t) (simp add: MapValueEquals_def)
  moreover have "ValueEquals (array_value [integer_value i]) (array_value [double_value d]) = Some False"
    by (simp add: ValueEquals.simps)
  ultimately show ?thesis ..
qed

text \<open>Equality treats a number inside a map differently from one inside an array: an
  integer and the double of the same value are equal as the value of a map field, because maps
  are compared by order, but not as elements of an array.\<close>

theorem map_equality_ignores_number_type:
  assumes "\<not> isnan d" "dbl_key d = sint i * 2 ^ 1074"
  shows "ValueEquals (map_value [(k, integer_value i)]) (map_value [(k, double_value d)]) = Some True \<and>
    ValueEquals (array_value [integer_value i]) (array_value [double_value d]) = Some False"
  by (rule map_equality_number_types [OF assms])

theorem map_equality_ignores_number_type_witness:
  "ValueEquals (array_value [integer_value 0]) (array_value [double_value 0]) = Some False \<and>
   ValueEquals (map_value [(''a'', integer_value 0)]) (map_value [(''a'', double_value 0)]) = Some True"
  using map_equality_ignores_number_type [of 0 0 "''a''"]
  by (simp add: isnan_def dbl_key_def dbl_mag_def dbl_negative_def mag_value_def)

end
