(* ===== verification/ObjectValues.thy ===== *)
theory ObjectValues
  imports Paths ValueOrder
begin

text \<open>
  Object values (\<^verbatim>\<open>model/object_value.cc\<close>) and field masks (\<^verbatim>\<open>field_mask.cc\<close>).  An
  \<^verbatim>\<open>ObjectValue\<close> wraps a map value, so its state is the list of fields; the pointers into
  nested maps that \<^verbatim>\<open>ParentMap\<close> and \<^verbatim>\<open>Delete\<close> follow are updates along a path.  A
  \<^verbatim>\<open>std::map\<close> or \<^verbatim>\<open>std::set\<close> is the list of its elements in iteration order.
  \<^verbatim>\<open>ApplyChanges\<close> merges in a single pass over three ordered sequences; reading past the
  end of the upserts is None.
\<close>

section \<open>Applying changes to a map\<close>

definition CalculateSizeOfUnion :: "fields \<Rightarrow> fields \<Rightarrow> string list \<Rightarrow> nat" where
  "CalculateSizeOfUnion fs upserts deletes =
     length upserts +
     length (filter (\<lambda>entry. fst entry \<notin> set deletes \<and> fst entry \<notin> set (map fst upserts)) fs)"

function ApplyChanges_loop :: "nat \<Rightarrow> fields \<Rightarrow> string list \<Rightarrow> fields \<Rightarrow> fields option" where
  "ApplyChanges_loop 0 source deletes upserts = Some []"
| "ApplyChanges_loop (Suc n) [] deletes [] = None"
| "ApplyChanges_loop (Suc n) [] deletes (u # us) =
     map_option (Cons (fst u, SortFields (snd u))) (ApplyChanges_loop n [] deletes us)"
| "ApplyChanges_loop (Suc n) (e # source) deletes upserts =
     (if deletes \<noteq> [] \<and> hd deletes = fst e then ApplyChanges_loop (Suc n) source (tl deletes) upserts
      else if upserts \<noteq> [] \<and> fst (hd upserts) = fst e then
        map_option (Cons (fst e, SortFields (snd (hd upserts)))) (ApplyChanges_loop n source deletes (tl upserts))
      else if upserts = [] \<or> fst (hd upserts) > fst e then
        map_option (Cons e) (ApplyChanges_loop n source deletes upserts)
      else
        map_option (Cons (fst (hd upserts), SortFields (snd (hd upserts))))
          (ApplyChanges_loop n (e # source) deletes (tl upserts)))"
  by pat_completeness auto
termination
  by (relation "measure (\<lambda>(n, source, deletes, upserts). n + length source)") auto

definition ApplyChanges :: "fields \<Rightarrow> fields \<Rightarrow> string list \<Rightarrow> fields option" where
  "ApplyChanges parent upserts deletes =
     ApplyChanges_loop (CalculateSizeOfUnion parent upserts deletes) parent deletes upserts"

section \<open>Following paths\<close>

fun Get_in :: "Value \<Rightarrow> path \<Rightarrow> Value option" where
  "Get_in v [] = Some v"
| "Get_in v (segment # path) =
     (case FindEntry v segment of None \<Rightarrow> None | Some entry \<Rightarrow> Get_in entry path)"

definition ObjectValue_Get :: "fields \<Rightarrow> path \<Rightarrow> Value option" where
  "ObjectValue_Get obj path = Get_in (map_value obj) path"

fun replace_entry :: "string \<Rightarrow> Value \<Rightarrow> fields \<Rightarrow> fields" where
  "replace_entry k v [] = []"
| "replace_entry k v (f # fs) = (if fst f = k then (k, v) # fs else f # replace_entry k v fs)"

fun update_ParentMap :: "path \<Rightarrow> (fields \<Rightarrow> fields option) \<Rightarrow> fields \<Rightarrow> fields option" where
  "update_ParentMap [] change fs = change fs"
| "update_ParentMap (segment # path) change fs =
     (case map_of fs segment of
        Some entry \<Rightarrow> do {
          sub \<leftarrow> update_ParentMap path change (if IsMap entry then map_fields entry else []);
          Some (replace_entry segment (map_value sub) fs)
        }
      | None \<Rightarrow> do {
          fs' \<leftarrow> ApplyChanges fs [(segment, map_value [])] [];
          sub \<leftarrow> update_ParentMap path change [];
          Some (replace_entry segment (map_value sub) fs')
        })"

definition ObjectValue_Set :: "path \<Rightarrow> Value \<Rightarrow> fields \<Rightarrow> fields option" where
  "ObjectValue_Set path value obj =
     (if path = [] then None
      else update_ParentMap (butlast path) (\<lambda>fs. ApplyChanges fs [(last path, value)] []) obj)"

fun delete_at :: "path \<Rightarrow> string \<Rightarrow> fields \<Rightarrow> fields option" where
  "delete_at [] k fs = ApplyChanges fs [] [k]"
| "delete_at (segment # path) k fs =
     (case map_of fs segment of
        None \<Rightarrow> Some fs
      | Some entry \<Rightarrow>
          (if IsMap entry
           then map_option (\<lambda>sub. replace_entry segment (map_value sub) fs) (delete_at path k (map_fields entry))
           else Some fs))"

definition ObjectValue_Delete :: "path \<Rightarrow> fields \<Rightarrow> fields option" where
  "ObjectValue_Delete path obj = (if path = [] then None else delete_at (butlast path) (last path) obj)"

section \<open>Setting many fields\<close>

text \<open>A \<^verbatim>\<open>TransformMap\<close> in iteration order: a value to set, or None for a deletion.\<close>

type_synonym TransformMap = "(path \<times> Value option) list"

fun insert_upsert :: "string \<Rightarrow> Value \<Rightarrow> fields \<Rightarrow> fields" where
  "insert_upsert k v [] = [(k, v)]"
| "insert_upsert k v (u # us) =
     (if k < fst u then (k, v) # u # us
      else if k = fst u then (k, v) # us
      else u # insert_upsert k v us)"

fun insert_delete :: "string \<Rightarrow> string list \<Rightarrow> string list" where
  "insert_delete k [] = [k]"
| "insert_delete k (d # ds) =
     (if k < d then k # d # ds else if k = d then d # ds else d # insert_delete k ds)"

fun SetAll_loop :: "TransformMap \<Rightarrow> path \<Rightarrow> fields \<Rightarrow> string list \<Rightarrow> fields \<Rightarrow> fields option" where
  "SetAll_loop [] parent upserts deletes obj =
     update_ParentMap parent (\<lambda>fs. ApplyChanges fs upserts deletes) obj"
| "SetAll_loop ((path, value) # data) parent upserts deletes obj =
     (if path = [] then None
      else do {
        (parent, upserts, deletes, obj) \<leftarrow>
          (if \<not> IsImmediateParentOf parent path
           then do {
             obj' \<leftarrow> update_ParentMap parent (\<lambda>fs. ApplyChanges fs upserts deletes) obj;
             Some (butlast path, [], [], obj')
           }
           else Some (parent, upserts, deletes, obj));
        case value of
          Some v \<Rightarrow> SetAll_loop data parent (insert_upsert (last path) v upserts) deletes obj
        | None \<Rightarrow> SetAll_loop data parent upserts (insert_delete (last path) deletes) obj
      })"

definition ObjectValue_SetAll :: "TransformMap \<Rightarrow> fields \<Rightarrow> fields option" where
  "ObjectValue_SetAll data obj = SetAll_loop data [] [] [] obj"

section \<open>Field masks\<close>

definition path_less :: "path \<Rightarrow> path \<Rightarrow> bool" where
  "path_less p q \<longleftrightarrow> path_CompareTo p q = Some Ascending"

type_synonym FieldMask = "path list"

fun mask_insert :: "path \<Rightarrow> FieldMask \<Rightarrow> FieldMask" where
  "mask_insert p [] = [p]"
| "mask_insert p (q # qs) =
     (if path_less p q then p # q # qs else if path_less q p then q # mask_insert p qs else q # qs)"

fun tm_insert :: "path \<Rightarrow> Value option \<Rightarrow> TransformMap \<Rightarrow> TransformMap" where
  "tm_insert p v [] = [(p, v)]"
| "tm_insert p v (q # qs) =
     (if path_less p (fst q) then (p, v) # q # qs
      else if path_less (fst q) p then q # tm_insert p v qs
      else (fst q, v) # qs)"

definition covers :: "FieldMask \<Rightarrow> path \<Rightarrow> bool" where
  "covers field_mask field_path \<longleftrightarrow>
     list_ex (\<lambda>field_mask_path. IsPrefixOf field_mask_path field_path) field_mask"

fun ExtractFieldMask_from :: "fields \<Rightarrow> FieldMask \<Rightarrow> FieldMask"
  and ExtractFieldMask_value :: "string \<Rightarrow> Value \<Rightarrow> FieldMask" where
  "ExtractFieldMask_from [] acc = acc"
| "ExtractFieldMask_from ((k, v) # fs) acc =
     ExtractFieldMask_from fs (fold mask_insert (ExtractFieldMask_value k v) acc)"
| "ExtractFieldMask_value k (map_value fs) =
     (let nested = ExtractFieldMask_from fs []
      in if nested = [] then [[k]] else map (\<lambda>p. k # p) nested)"
| "ExtractFieldMask_value k v = [[k]]"

definition ToFieldMask :: "fields \<Rightarrow> FieldMask" where
  "ToFieldMask obj = ExtractFieldMask_from obj []"

section \<open>The merge computes the union of the maps\<close>

definition strict_keys :: "fields \<Rightarrow> bool" where
  "strict_keys fs \<longleftrightarrow> sorted_wrt (<) (map fst fs)"

lemma strict_keys_simps [simp]:
  "strict_keys []"
  "strict_keys (f # fs) \<longleftrightarrow> (\<forall>g \<in> set fs. fst f < fst g) \<and> strict_keys fs"
  by (simp_all add: strict_keys_def)

lemma strict_keys_distinct: "strict_keys fs \<Longrightarrow> distinct (map fst fs)"
  by (induction fs) (auto simp: order.strict_iff_not)

lemma map_of_above: "\<forall>g \<in> set fs. (k :: string) < fst g \<Longrightarrow> map_of fs k = None"
  by (induction fs) auto

text \<open>Strictly ordered field lists are determined by their lookups.\<close>

lemma strict_keys_unique:
  "strict_keys xs \<Longrightarrow> strict_keys ys \<Longrightarrow> map_of xs = map_of ys \<Longrightarrow> xs = ys"
proof (induction xs arbitrary: ys)
  case Nil
  show ?case
  proof (cases ys)
    case (Cons g ys')
    have "map_of ys (fst g) = Some (snd g)" using Cons by simp
    then show ?thesis unfolding Nil(3) [symmetric] by simp
  qed simp
next
  case (Cons f xs)
  have eq: "map_of (f # xs) k = map_of ys k" for k using fun_cong [OF Cons.prems(3), of k] .
  show ?case
  proof (cases ys)
    case Nil
    then show ?thesis using eq [of "fst f"] by simp
  next
    case (Cons g ys')
    have fx: "\<forall>e \<in> set xs. fst f < fst e" and gy: "\<forall>e \<in> set ys'. fst g < fst e"
      using Cons.prems(1,2) Cons by auto
    have "fst f = fst g"
    proof (rule ccontr)
      assume "fst f \<noteq> fst g"
      then consider "fst f < fst g" | "fst g < fst f" by (meson linorder_neqE)
      then show False
      proof cases
        case 1
        then have "map_of ys (fst f) = None" using gy Cons by (intro map_of_above) auto
        then show False using eq [of "fst f"] by simp
      next
        case 2
        then have "map_of (f # xs) (fst g) = None" using fx by (intro map_of_above) auto
        then show False using eq [of "fst g"] Cons by simp
      qed
    qed
    moreover from this have "snd f = snd g" using eq [of "fst f"] Cons by simp
    moreover have "map_of xs = map_of ys'"
    proof
      fix k
      show "map_of xs k = map_of ys' k"
      proof (cases "k = fst f")
        case True
        then show ?thesis using map_of_above [OF fx] map_of_above [OF gy] \<open>fst f = fst g\<close> by simp
      next
        case False
        then show ?thesis using eq [of k] Cons \<open>fst f = fst g\<close> by simp
      qed
    qed
    ultimately show ?thesis using Cons.IH [of ys'] Cons.prems Cons by (simp add: prod_eq_iff)
  qed
qed

definition merged :: "fields \<Rightarrow> fields \<Rightarrow> string list \<Rightarrow> string \<Rightarrow> Value option" where
  "merged fs upserts deletes k =
     (case map_of upserts k of
        Some v \<Rightarrow> Some (SortFields v)
      | None \<Rightarrow> if k \<in> set deletes then None else map_of fs k)"

definition kept :: "fields \<Rightarrow> fields \<Rightarrow> string list \<Rightarrow> fields" where
  "kept fs upserts deletes =
     filter (\<lambda>entry. fst entry \<notin> set deletes \<and> fst entry \<notin> set (map fst upserts)) fs"

lemma kept_simps [simp]:
  "kept [] upserts deletes = []"
  "kept (e # fs) upserts deletes =
     (if fst e \<notin> set deletes \<and> fst e \<notin> set (map fst upserts) then e # kept fs upserts deletes
      else kept fs upserts deletes)"
  by (simp_all add: kept_def)

lemma kept_cong:
  "\<forall>e \<in> set fs. (fst e \<in> set d \<longleftrightarrow> fst e \<in> set d') \<and> (fst e \<in> set (map fst u) \<longleftrightarrow> fst e \<in> set (map fst u')) \<Longrightarrow>
   kept fs u d = kept fs u' d'"
  unfolding kept_def by (rule filter_cong) auto

text \<open>The iterator over the keys to delete only moves past a key that is present, so a missing
  key blocks the ones behind it.  \<open>no_gap\<close> says that no present key stands behind a
  missing one; then the merge is the union, and the length of the result bounds the loop
  exactly.\<close>

definition no_gap :: "string list \<Rightarrow> fields \<Rightarrow> bool" where
  "no_gap deletes source \<longleftrightarrow>
     (\<forall>d \<in> set deletes. \<forall>d' \<in> set deletes.
        d < d' \<longrightarrow> d' \<in> set (map fst source) \<longrightarrow> d \<in> set (map fst source))"

lemma no_gapD:
  "no_gap deletes source \<Longrightarrow> d \<in> set deletes \<Longrightarrow> d' \<in> set deletes \<Longrightarrow> d < d' \<Longrightarrow>
   d' \<in> set (map fst source) \<Longrightarrow> d \<in> set (map fst source)"
  unfolding no_gap_def by blast

lemma ApplyChanges_loop_ok:
  assumes "n = length upserts + length (kept source upserts deletes)"
    and "strict_keys source" "strict_keys upserts" "sorted_wrt (<) deletes"
    and "no_gap deletes source" "set deletes \<inter> set (map fst upserts) = {}"
  shows "\<exists>result. ApplyChanges_loop n source deletes upserts = Some result \<and>
    strict_keys result \<and> map_of result = merged source upserts deletes \<and>
    set (map fst result) \<subseteq> set (map fst source) \<union> set (map fst upserts)"
  using assms
proof (induction n source deletes upserts rule: ApplyChanges_loop.induct)
  case (1 source deletes upserts)
  then have u: "upserts = []" and k: "kept source [] deletes = []" by auto
  have "map_of source x = None" if "x \<notin> set deletes" for x
    using k that by (auto simp: kept_def filter_empty_conv map_of_eq_None_iff)
  then show ?case by (auto simp: u merged_def fun_eq_iff)
next
  case (2 n deletes)
  then show ?case by simp
next
  case (3 n deletes u us)
  have "no_gap deletes []" by (simp add: no_gap_def)
  moreover have "set deletes \<inter> set (map fst us) = {}" "fst u \<notin> set deletes" using 3(7) by auto
  moreover have us: "\<forall>g \<in> set us. fst u < fst g" "strict_keys us" using 3(4) by auto
  ultimately obtain r where r: "ApplyChanges_loop n [] deletes us = Some r" "strict_keys r"
    "map_of r = merged [] us deletes" "set (map fst r) \<subseteq> set (map fst us)"
    using 3(1) 3(2,5) by auto
  have "\<forall>g \<in> set r. fst u < fst g" using r(4) us(1) by fastforce
  then show ?case using r by (auto simp: merged_def fun_eq_iff)
next
  case (4 n e source deletes upserts)
  have src: "\<forall>g \<in> set source. fst e < fst g" "strict_keys source" using 4 by auto
  have notin: "fst e \<notin> set (map fst source)" using src(1) by auto
  show ?case
  proof (cases "deletes \<noteq> [] \<and> hd deletes = fst e")
    case True
    then obtain ds where ds: "deletes = fst e # ds" by (cases deletes) auto
    have e: "fst e \<notin> set (map fst upserts)" using "4.prems"(6) ds by auto
    have dsrc: "no_gap ds source"
      unfolding no_gap_def
    proof (intro ballI impI)
      fix d d' assume d: "d \<in> set ds" "d' \<in> set ds" "d < d'" "d' \<in> set (map fst source)"
      have "d \<in> set (map fst (e # source))"
        by (rule no_gapD [OF "4.prems"(5)]) (use d ds in auto)
      moreover have "fst e < d" using "4.prems"(4) ds d(1) by simp
      ultimately show "d \<in> set (map fst source)" by auto
    qed
    have "kept source upserts deletes = kept source upserts ds"
      using src(1) ds by (intro kept_cong) auto
    then have n: "Suc n = length upserts + length (kept source upserts ds)"
      using "4.prems"(1) ds by simp
    obtain r where r: "ApplyChanges_loop (Suc n) source ds upserts = Some r" "strict_keys r"
      "map_of r = merged source upserts ds" "set (map fst r) \<subseteq> set (map fst source) \<union> set (map fst upserts)"
      using "4.IH"(1) True n src(2) "4.prems"(3,4,6) dsrc ds by auto
    have none: "map_of source (fst e) = None" "map_of upserts (fst e) = None"
      using notin e by (simp_all add: map_of_eq_None_iff)
    have "merged source upserts ds = merged (e # source) upserts deletes"
    proof
      fix k
      show "merged source upserts ds k = merged (e # source) upserts deletes k"
        using none ds by (cases "k = fst e") (auto simp: merged_def split: option.splits)
    qed
    then show ?thesis using r True ds by auto
  next
    case nodel: False
    have del: "fst e \<notin> set deletes" 
    proof
      assume "fst e \<in> set deletes"
      then obtain d ds where d: "deletes = d # ds" "d \<noteq> fst e" "fst e \<in> set ds"
        using nodel by (cases deletes) auto
      then have "d < fst e" using "4.prems"(4) by simp
      moreover have "d \<in> set (map fst (e # source))"
        by (rule no_gapD [OF "4.prems"(5) _ _ \<open>d < fst e\<close>]) (use d in auto)
      ultimately show False using src(1) d(2) by auto
    qed
    have dsrc: "no_gap deletes source"
      unfolding no_gap_def
    proof (intro ballI impI)
      fix d d' assume d: "d \<in> set deletes" "d' \<in> set deletes" "d < d'" "d' \<in> set (map fst source)"
      have "d \<in> set (map fst (e # source))"
        by (rule no_gapD [OF "4.prems"(5) d(1,2,3)]) (use d in auto)
      then show "d \<in> set (map fst source)" using del d(1) by auto
    qed
    consider (replace) u us where "upserts = u # us" "fst u = fst e"
      | (keep) "\<forall>u \<in> set upserts. fst e < fst u"
      | (insert) u us where "upserts = u # us" "fst u < fst e"
      using "4.prems"(3) by (cases upserts) (auto dest: order.strict_trans, metis linorder_neqE order.strict_trans)
    then show ?thesis
    proof cases
      case replace
      have above: "\<forall>g \<in> set us. fst e < fst g" "strict_keys us" using "4.prems"(3) replace by auto
      have "kept source upserts deletes = kept source us deletes"
        using src(1) replace by (intro kept_cong) auto
      then have kept_eq: "kept (e # source) upserts deletes = kept source us deletes"
        using replace by simp
      have m: "n = length us + length (kept source us deletes)"
        using "4.prems"(1) replace kept_eq by simp
      have "set deletes \<inter> set (map fst us) = {}" using "4.prems"(6) replace by auto
      then obtain r where r: "ApplyChanges_loop n source deletes us = Some r" "strict_keys r"
        "map_of r = merged source us deletes" "set (map fst r) \<subseteq> set (map fst source) \<union> set (map fst us)"
        using "4.IH"(2) nodel replace m src(2) above(2) "4.prems"(4) dsrc by auto
      have "\<forall>g \<in> set r. fst e < fst g" using r(4) src(1) above(1) by fastforce
      then show ?thesis using r nodel replace
        by (auto simp: merged_def fun_eq_iff split: option.splits)
    next
      case keep
      then have notup: "fst e \<notin> set (map fst upserts)" by auto
      have m: "n = length upserts + length (kept source upserts deletes)"
        using "4.prems"(1) notup del by simp
      have c: "upserts = [] \<or> fst (hd upserts) > fst e" "\<not> (upserts \<noteq> [] \<and> fst (hd upserts) = fst e)"
        using keep by (cases upserts; auto)+
      obtain r where r: "ApplyChanges_loop n source deletes upserts = Some r" "strict_keys r"
        "map_of r = merged source upserts deletes" "set (map fst r) \<subseteq> set (map fst source) \<union> set (map fst upserts)"
        using "4.IH"(3) nodel c m src(2) "4.prems"(3,4,6) dsrc by auto
      have "\<forall>g \<in> set r. fst e < fst g" using r(4) src(1) keep by fastforce
      moreover have "map_of upserts (fst e) = None" using notup by (simp add: map_of_eq_None_iff)
      ultimately show ?thesis using r nodel c del
        by (auto simp: merged_def fun_eq_iff split: option.splits)
    next
      case insert
      have above: "\<forall>g \<in> set us. fst u < fst g" "strict_keys us" using "4.prems"(3) insert by auto
      have fu: "fst u \<notin> set (map fst (e # source))" using insert src(1) by auto
      have kept_eq: "kept (e # source) upserts deletes = kept (e # source) us deletes"
        using insert src(1) by (intro kept_cong) auto
      have m: "n = length us + length (kept (e # source) us deletes)"
        using "4.prems"(1) insert kept_eq by simp
      have "set deletes \<inter> set (map fst us) = {}" using "4.prems"(6) insert by auto
      moreover have "fst u \<noteq> fst e" "\<not> fst e < fst u" using insert(2) by auto
      ultimately obtain r where r: "ApplyChanges_loop n (e # source) deletes us = Some r" "strict_keys r"
        "map_of r = merged (e # source) us deletes"
        "set (map fst r) \<subseteq> set (map fst (e # source)) \<union> set (map fst us)"
        using "4.IH"(4) nodel insert(1) m "4.prems"(2) above(2) "4.prems"(4,5) by auto
      have "\<forall>g \<in> set r. fst u < fst g" using r(4) src(1) above(1) insert by fastforce
      moreover have "map_of (e # source) (fst u) = None" unfolding map_of_eq_None_iff using fu by simp
      ultimately show ?thesis using r nodel insert
        by (auto simp: merged_def fun_eq_iff split: option.splits)
    qed
  qed
qed

lemma ApplyChanges_ok:
  assumes "strict_keys fs" "strict_keys upserts" "sorted_wrt (<) deletes" "no_gap deletes fs"
    and "set deletes \<inter> set (map fst upserts) = {}"
  shows "\<exists>result. ApplyChanges fs upserts deletes = Some result \<and> strict_keys result \<and>
    map_of result = merged fs upserts deletes"
proof -
  have "CalculateSizeOfUnion fs upserts deletes = length upserts + length (kept fs upserts deletes)"
    by (simp add: CalculateSizeOfUnion_def kept_def)
  from ApplyChanges_loop_ok [OF this assms] show ?thesis unfolding ApplyChanges_def by blast
qed

lemma no_gap_simps [simp]: "no_gap [] fs" "no_gap [d] fs"
  by (auto simp: no_gap_def)

section \<open>Well-formed objects\<close>

fun value_sorted :: "Value \<Rightarrow> bool" where
  "value_sorted (array_value vs) = (\<forall>v \<in> set vs. value_sorted v)"
| "value_sorted (map_value fs) = (strict_keys fs \<and> (\<forall>f \<in> set fs. value_sorted (snd f)))"
| "value_sorted _ = True"

fun value_distinct :: "Value \<Rightarrow> bool" where
  "value_distinct (array_value vs) = (\<forall>v \<in> set vs. value_distinct v)"
| "value_distinct (map_value fs) = (distinct (map fst fs) \<and> (\<forall>f \<in> set fs. value_distinct (snd f)))"
| "value_distinct _ = True"

definition object_ok :: "fields \<Rightarrow> bool" where
  "object_ok fs \<longleftrightarrow> value_sorted (map_value fs)"

lemma object_ok_strict: "object_ok fs \<Longrightarrow> strict_keys fs"
  by (simp add: object_ok_def)

lemma strict_keys_iff: "strict_keys fs \<longleftrightarrow> sorted (map fst fs) \<and> distinct (map fst fs)"
  by (simp add: strict_keys_def strict_sorted_iff)

lemma value_sorted_SortFields: "value_distinct v \<Longrightarrow> value_sorted (SortFields v)"
proof (induction v rule: SortFields.induct)
  case (1 fs)
  have "map fst (map (\<lambda>(k, v). (k, SortFields v)) (sort_key fst fs)) = map fst (sort_key fst fs)"
    by (simp add: comp_def case_prod_unfold)
  moreover have "distinct (map fst (sort_key fst fs))"
    using 1(2) by (metis distinct_map distinct_sort set_sort value_distinct.simps(2))
  ultimately have "strict_keys (map (\<lambda>(k, v). (k, SortFields v)) (sort_key fst fs))"
    by (simp only: strict_keys_iff sorted_sort_key simp_thms)
  then show ?case using 1 by fastforce
qed auto

lemma SortFields_sorted: "value_sorted v \<Longrightarrow> SortFields v = v"
proof (induction v rule: SortFields.induct)
  case (1 fs)
  then have "sort_key fst fs = fs" by (simp add: strict_keys_iff sort_key_id_if_sorted)
  moreover have "map (\<lambda>(k, v). (k, SortFields v)) fs = fs"
    using 1 \<open>sort_key fst fs = fs\<close> by (intro map_idI) fastforce
  ultimately show ?case by simp
next
  case (2 vs)
  then show ?case by (simp add: map_idI)
qed auto

lemma value_sorted_distinct: "value_sorted v \<Longrightarrow> value_distinct v"
  by (induction v rule: value_sorted.induct) (auto simp: strict_keys_iff)

lemma object_ok_lookup: "object_ok fs \<Longrightarrow> map_of fs k = Some v \<Longrightarrow> value_sorted v"
  by (drule map_of_SomeD) (fastforce simp: object_ok_def)

lemma object_okI:
  "strict_keys fs \<Longrightarrow> (\<And>k v. map_of fs k = Some v \<Longrightarrow> value_sorted v) \<Longrightarrow> object_ok fs"
  unfolding object_ok_def by (fastforce simp: strict_keys_iff intro: map_of_is_SomeI)

lemma object_ok_Nil [simp]: "object_ok []"
  by (simp add: object_ok_def)

section \<open>Single updates\<close>

lemma insert_upsert_map_of:
  "strict_keys fs \<Longrightarrow> strict_keys (insert_upsert k v fs) \<and> map_of (insert_upsert k v fs) = (map_of fs)(k \<mapsto> v) \<and>
     set (map fst (insert_upsert k v fs)) = insert k (set (map fst fs))"
proof (induction fs)
  case (Cons f fs)
  have above: "map_of fs k = None" if "k < fst f"
    using Cons.prems that by (intro map_of_above) auto
  have IH: "strict_keys (insert_upsert k v fs)" "map_of (insert_upsert k v fs) = (map_of fs)(k \<mapsto> v)"
    "fst ` set (insert_upsert k v fs) = insert k (fst ` set fs)"
    using Cons by auto
  have "\<forall>g \<in> set (insert_upsert k v fs). fst f < fst g" if "\<not> k < fst f" "k \<noteq> fst f"
  proof
    fix g assume "g \<in> set (insert_upsert k v fs)"
    then have "fst g \<in> insert k (fst ` set fs)" using IH(3) by blast
    then show "fst f < fst g" using that Cons.prems by auto
  qed
  with above IH Cons.prems show ?case by (auto simp: fun_eq_iff)
qed simp

lemma insert_upsert_strict: "strict_keys fs \<Longrightarrow> strict_keys (insert_upsert k v fs)"
  and map_of_insert_upsert: "strict_keys fs \<Longrightarrow> map_of (insert_upsert k v fs) = (map_of fs)(k \<mapsto> v)"
  using insert_upsert_map_of by blast+

lemma insert_upsert_again:
  "strict_keys fs \<Longrightarrow> insert_upsert k v (insert_upsert k w fs) = insert_upsert k v fs"
  by (rule strict_keys_unique) (simp_all add: insert_upsert_strict map_of_insert_upsert)

lemma object_ok_insert: "object_ok fs \<Longrightarrow> value_sorted v \<Longrightarrow> object_ok (insert_upsert k v fs)"
  by (rule object_okI)
    (auto simp: insert_upsert_strict map_of_insert_upsert object_ok_strict split: if_splits dest: object_ok_lookup)

lemma replace_entry_keys: "map fst (replace_entry k v fs) = map fst fs"
  by (induction fs) auto

lemma map_of_replace_entry:
  "map_of (replace_entry k v fs) = (if k \<in> set (map fst fs) then (map_of fs)(k \<mapsto> v) else map_of fs)"
  by (induction fs) (auto simp: fun_eq_iff)

lemma replace_entry_insert:
  "strict_keys fs \<Longrightarrow> k \<in> set (map fst fs) \<Longrightarrow> replace_entry k v fs = insert_upsert k v fs"
  by (rule strict_keys_unique)
    (auto simp: insert_upsert_strict map_of_insert_upsert map_of_replace_entry,
     simp add: strict_keys_def replace_entry_keys)

lemma replace_entry_after_insert:
  "strict_keys fs \<Longrightarrow> replace_entry k v (insert_upsert k w fs) = insert_upsert k v fs"
  using replace_entry_insert [of "insert_upsert k w fs" k v] insert_upsert_map_of [of fs k w]
  by (simp add: insert_upsert_again)

definition remove_field :: "string \<Rightarrow> fields \<Rightarrow> fields" where
  "remove_field k fs = filter (\<lambda>f. fst f \<noteq> k) fs"

lemma map_of_remove_field: "map_of (remove_field k fs) = (map_of fs)(k := None)"
  by (induction fs) (auto simp: remove_field_def fun_eq_iff)

lemma remove_field_strict: "strict_keys fs \<Longrightarrow> strict_keys (remove_field k fs)"
  by (induction fs) (auto simp: remove_field_def)

lemma object_ok_remove: "object_ok fs \<Longrightarrow> object_ok (remove_field k fs)"
  by (rule object_okI)
    (auto simp: remove_field_strict map_of_remove_field object_ok_strict split: if_splits dest: object_ok_lookup)

lemma ApplyChanges_upsert:
  assumes "strict_keys fs"
  shows "ApplyChanges fs [(k, v)] [] = Some (insert_upsert k (SortFields v) fs)"
proof -
  obtain r where r: "ApplyChanges fs [(k, v)] [] = Some r" "strict_keys r" "map_of r = merged fs [(k, v)] []"
    using ApplyChanges_ok [OF assms, of "[(k, v)]" "[]"] by auto
  have "r = insert_upsert k (SortFields v) fs"
    by (rule strict_keys_unique)
      (auto simp: r insert_upsert_strict map_of_insert_upsert assms merged_def fun_eq_iff)
  with r(1) show ?thesis by simp
qed

lemma ApplyChanges_delete:
  assumes "strict_keys fs" shows "ApplyChanges fs [] [k] = Some (remove_field k fs)"
proof -
  obtain r where r: "ApplyChanges fs [] [k] = Some r" "strict_keys r" "map_of r = merged fs [] [k]"
    using ApplyChanges_ok [OF assms, of "[]" "[k]"] by auto
  have "r = remove_field k fs"
    by (rule strict_keys_unique) (auto simp: r remove_field_strict map_of_remove_field assms merged_def fun_eq_iff)
  with r(1) show ?thesis by simp
qed

section \<open>Updates along a path\<close>

definition submap :: "fields \<Rightarrow> string \<Rightarrow> fields" where
  "submap fs k = (case map_of fs k of Some v \<Rightarrow> map_fields v | None \<Rightarrow> [])"

fun update_at :: "path \<Rightarrow> (fields \<Rightarrow> fields) \<Rightarrow> fields \<Rightarrow> fields" where
  "update_at [] f fs = f fs"
| "update_at (k # p) f fs = insert_upsert k (map_value (update_at p f (submap fs k))) fs"

lemma object_ok_submap: "object_ok fs \<Longrightarrow> object_ok (submap fs k)"
proof (cases "map_of fs k")
  case (Some v)
  assume "object_ok fs"
  then have "value_sorted v" using Some by (rule object_ok_lookup)
  then show ?thesis using Some by (cases v) (auto simp: submap_def object_ok_def)
qed (simp add: submap_def)

lemma update_ParentMap_ok:
  assumes "object_ok fs"
    and "\<And>fs. object_ok fs \<Longrightarrow> change fs = Some (f fs) \<and> object_ok (f fs)"
  shows "update_ParentMap p change fs = Some (update_at p f fs) \<and> object_ok (update_at p f fs)"
  using assms(1)
proof (induction p arbitrary: fs)
  case Nil
  then show ?case using assms(2) by simp
next
  case (Cons k p)
  have strict: "strict_keys fs" using Cons.prems by (rule object_ok_strict)
  have sub: "update_ParentMap p change (submap fs k) = Some (update_at p f (submap fs k))"
    "object_ok (update_at p f (submap fs k))"
    using Cons.IH [OF object_ok_submap [OF Cons.prems, of k]] by auto
  have ok: "object_ok (update_at (k # p) f fs)"
    unfolding update_at.simps using sub(2)
    by (intro object_ok_insert [OF Cons.prems]) (simp only: object_ok_def)
  show ?case
  proof (cases "map_of fs k")
    case None
    then have "submap fs k = []" by (simp add: submap_def)
    then show ?thesis using None sub ok strict
      by (simp add: ApplyChanges_upsert replace_entry_after_insert)
  next
    case (Some v)
    then have "submap fs k = (if IsMap v then map_fields v else [])"
      by (cases v) (simp_all add: submap_def)
    moreover have "k \<in> set (map fst fs)" using Some map_of_eq_None_iff [of fs k] by auto
    ultimately show ?thesis using Some sub ok strict by (simp add: replace_entry_insert)
  qed
qed

lemma submap_update: "strict_keys fs \<Longrightarrow> submap (update_at (k # p) f fs) k = update_at p f (submap fs k)"
  by (simp add: submap_def map_of_insert_upsert)

lemma update_at_comp:
  "object_ok fs \<Longrightarrow> update_at p g (update_at p f fs) = update_at p (\<lambda>x. g (f x)) fs"
proof (induction p arbitrary: fs)
  case (Cons k p)
  have "strict_keys fs" using Cons.prems by (rule object_ok_strict)
  then show ?case
    using Cons.IH [OF object_ok_submap [OF Cons.prems, of k]]
    by (simp add: submap_def map_of_insert_upsert insert_upsert_again)
qed simp

lemma update_at_cong:
  "object_ok fs \<Longrightarrow> (\<And>x. object_ok x \<Longrightarrow> f x = g x) \<Longrightarrow> update_at p f fs = update_at p g fs"
proof (induction p arbitrary: fs)
  case (Cons k p)
  then show ?case using object_ok_submap [OF Cons.prems(1), of k] by simp
qed simp

section \<open>Lookups after an update\<close>

lemma Get_in_map_fields: "Get_in v (k # p) = Get_in (map_value (map_fields v)) (k # p)"
  by (simp add: FindEntry_def)

lemma Get_Cons:
  "ObjectValue_Get fs (k # p) = (case map_of fs k of None \<Rightarrow> None | Some v \<Rightarrow> Get_in v p)"
  by (simp add: ObjectValue_Get_def FindEntry_def)

lemma Get_submap: "p \<noteq> [] \<Longrightarrow> ObjectValue_Get fs (k # p) = ObjectValue_Get (submap fs k) p"
  by (cases p) (auto simp: Get_Cons submap_def ObjectValue_Get_def FindEntry_def split: option.splits)

definition sub_at :: "path \<Rightarrow> fields \<Rightarrow> fields" where
  "sub_at p fs = foldl submap fs p"

lemma sub_at_simps [simp]: "sub_at [] fs = fs" "sub_at (k # p) fs = sub_at p (submap fs k)"
  by (simp_all add: sub_at_def)

lemma Get_sub_at: "q \<noteq> [] \<Longrightarrow> ObjectValue_Get fs (p @ q) = ObjectValue_Get (sub_at p fs) q"
  by (induction p arbitrary: fs) (simp_all add: Get_submap)

lemma Get_update_below:
  "object_ok fs \<Longrightarrow> q \<noteq> [] \<Longrightarrow>
   ObjectValue_Get (update_at p f fs) (p @ q) = ObjectValue_Get (f (sub_at p fs)) q"
proof (induction p arbitrary: fs)
  case (Cons k p)
  have "ObjectValue_Get (update_at (k # p) f fs) (k # (p @ q)) =
      ObjectValue_Get (update_at p f (submap fs k)) (p @ q)"
    using Cons.prems object_ok_strict by (simp add: Get_submap submap_def map_of_insert_upsert)
  then show ?case using Cons.IH [OF object_ok_submap [OF Cons.prems(1), of k]] Cons.prems by simp
qed simp

lemma Get_update_apart:
  "object_ok fs \<Longrightarrow> take (length p) q \<noteq> p \<Longrightarrow> take (length q) p \<noteq> q \<Longrightarrow>
   ObjectValue_Get (update_at p f fs) q = ObjectValue_Get fs q"
proof (induction p arbitrary: fs q)
  case (Cons k p)
  have strict: "strict_keys fs" using Cons.prems(1) by (rule object_ok_strict)
  from Cons.prems(3) obtain j q' where q: "q = j # q'" by (cases q) auto
  show ?case
  proof (cases "j = k")
    case False
    then show ?thesis using strict q by (simp add: Get_Cons map_of_insert_upsert)
  next
    case True
    then have ne: "take (length p) q' \<noteq> p" "take (length q') p \<noteq> q'" using Cons.prems q by auto
    then have "q' \<noteq> []" by auto
    then have "ObjectValue_Get (update_at (k # p) f fs) q = ObjectValue_Get (update_at p f (submap fs k)) q'"
      using q True strict by (simp add: Get_submap submap_def map_of_insert_upsert)
    then show ?thesis using Cons.IH [OF object_ok_submap [OF Cons.prems(1), of k] ne] q True \<open>q' \<noteq> []\<close>
      by (simp add: Get_submap)
  qed
qed simp

section \<open>SetAll against setting the fields one by one\<close>

definition entry_change :: "string \<Rightarrow> Value option \<Rightarrow> fields \<Rightarrow> fields" where
  "entry_change k v fs = (case v of Some w \<Rightarrow> insert_upsert k (SortFields w) fs | None \<Rightarrow> remove_field k fs)"

definition set_entry :: "path \<times> Value option \<Rightarrow> fields \<Rightarrow> fields" where
  "set_entry e fs = update_at (butlast (fst e)) (entry_change (last (fst e)) (snd e)) fs"

definition entry_ok :: "path \<times> Value option \<Rightarrow> bool" where
  "entry_ok e \<longleftrightarrow> fst e \<noteq> [] \<and> (\<forall>w. snd e = Some w \<longrightarrow> value_distinct w)"

lemma object_ok_entry_change:
  "object_ok fs \<Longrightarrow> (\<forall>w. v = Some w \<longrightarrow> value_distinct w) \<Longrightarrow> object_ok (entry_change k v fs)"
  by (cases v) (auto simp: entry_change_def object_ok_insert object_ok_remove value_sorted_SortFields)

lemma object_ok_update_at:
  "object_ok fs \<Longrightarrow> (\<And>x. object_ok x \<Longrightarrow> object_ok (f x)) \<Longrightarrow> object_ok (update_at p f fs)"
  using update_ParentMap_ok [of fs "\<lambda>x. Some (f x)" f p] by simp

lemma object_ok_set_entry: "object_ok fs \<Longrightarrow> entry_ok e \<Longrightarrow> object_ok (set_entry e fs)"
  unfolding set_entry_def by (rule object_ok_update_at) (auto simp: entry_ok_def object_ok_entry_change)

lemma object_ok_set_entries:
  "object_ok fs \<Longrightarrow> \<forall>e \<in> set data. entry_ok e \<Longrightarrow> object_ok (fold set_entry data fs)"
  by (induction data arbitrary: fs) (auto simp: object_ok_set_entry)

text \<open>The group of changes collected for one parent, as a function.\<close>

definition group_change :: "fields \<Rightarrow> string list \<Rightarrow> fields \<Rightarrow> fields" where
  "group_change upserts deletes fs = the (ApplyChanges fs upserts deletes)"

definition group_ok :: "fields \<Rightarrow> string list \<Rightarrow> bool" where
  "group_ok upserts deletes \<longleftrightarrow> strict_keys upserts \<and> length deletes \<le> 1 \<and>
     set deletes \<inter> set (map fst upserts) = {} \<and> (\<forall>u \<in> set upserts. value_distinct (snd u))"

lemma group_change_ok:
  assumes "object_ok fs" "group_ok upserts deletes"
  shows "ApplyChanges fs upserts deletes = Some (group_change upserts deletes fs)"
    and "strict_keys (group_change upserts deletes fs)"
    and "map_of (group_change upserts deletes fs) = merged fs upserts deletes"
    and "object_ok (group_change upserts deletes fs)"
proof -
  have "no_gap deletes fs \<and> sorted_wrt (<) deletes"
    using assms(2) by (cases deletes) (auto simp: group_ok_def)
  then obtain r where r: "ApplyChanges fs upserts deletes = Some r" "strict_keys r" "map_of r = merged fs upserts deletes"
    using ApplyChanges_ok [OF object_ok_strict [OF assms(1)], of upserts deletes] assms(2)
    by (auto simp: group_ok_def)
  then show "ApplyChanges fs upserts deletes = Some (group_change upserts deletes fs)"
    "strict_keys (group_change upserts deletes fs)"
    "map_of (group_change upserts deletes fs) = merged fs upserts deletes"
    by (simp_all add: group_change_def)
  have "value_sorted v" if "map_of r k = Some v" for k v
  proof (cases "map_of upserts k")
    case None
    then show ?thesis using that r(3) object_ok_lookup [OF assms(1)]
      by (auto simp: merged_def split: if_splits)
  next
    case (Some w)
    then have "value_distinct w" using assms(2) by (fastforce simp: group_ok_def dest: map_of_SomeD)
    then show ?thesis using that r(3) Some value_sorted_SortFields [of w] by (auto simp: merged_def)
  qed
  then show "object_ok (group_change upserts deletes fs)"
    using r by (intro object_okI) (auto simp: group_change_def)
qed

lemma group_change_upsert:
  assumes "object_ok fs" "group_ok upserts deletes" "group_ok (insert_upsert k v upserts) deletes"
    "k \<notin> set (map fst upserts)"
  shows "group_change (insert_upsert k v upserts) deletes fs =
    entry_change k (Some v) (group_change upserts deletes fs)"
proof (rule strict_keys_unique)
  note g = group_change_ok [OF assms(1,2)] and g' = group_change_ok [OF assms(1,3)]
  show "strict_keys (group_change (insert_upsert k v upserts) deletes fs)" by (rule g'(2))
  show "strict_keys (entry_change k (Some v) (group_change upserts deletes fs))"
    using g(2) by (simp add: entry_change_def insert_upsert_strict)
  have "strict_keys upserts" using assms(2) by (simp add: group_ok_def)
  moreover have "map_of upserts k = None" using assms(4) by (simp add: map_of_eq_None_iff)
  ultimately show "map_of (group_change (insert_upsert k v upserts) deletes fs) =
      map_of (entry_change k (Some v) (group_change upserts deletes fs))"
    using g(2,3) g'(3) by (auto simp: entry_change_def map_of_insert_upsert merged_def fun_eq_iff)
qed

lemma group_change_delete:
  assumes "object_ok fs" "group_ok upserts []" "k \<notin> set (map fst upserts)"
  shows "group_ok upserts [k]" and "group_change upserts [k] fs = entry_change k None (group_change upserts [] fs)"
proof -
  show ok: "group_ok upserts [k]" using assms(2,3) by (auto simp: group_ok_def)
  note g = group_change_ok [OF assms(1,2)] and g' = group_change_ok [OF assms(1) ok]
  show "group_change upserts [k] fs = entry_change k None (group_change upserts [] fs)"
  proof (rule strict_keys_unique)
    show "strict_keys (group_change upserts [k] fs)" by (rule g'(2))
    show "strict_keys (entry_change k None (group_change upserts [] fs))"
      using g(2) by (simp add: entry_change_def remove_field_strict)
    have "map_of upserts k = None" using assms(3) by (simp add: map_of_eq_None_iff)
    then show "map_of (group_change upserts [k] fs) = map_of (entry_change k None (group_change upserts [] fs))"
      using g(3) g'(3) by (auto simp: entry_change_def map_of_remove_field merged_def fun_eq_iff)
  qed
qed

text \<open>Two deletions under the same parent are what \<open>no_gap\<close> can fail for.\<close>

definition deletes_apart :: "TransformMap \<Rightarrow> bool" where
  "deletes_apart data \<longleftrightarrow> distinct (map (\<lambda>e. butlast (fst e)) (filter (\<lambda>e. snd e = None) data))"

lemma IsImmediateParentOf_iff: "IsImmediateParentOf p q \<longleftrightarrow> q \<noteq> [] \<and> p = butlast q"
  by (cases q rule: rev_cases) (auto simp: IsImmediateParentOf_def)

lemma path_split: "p \<noteq> [] \<Longrightarrow> q \<noteq> [] \<Longrightarrow> p = q \<longleftrightarrow> butlast p = butlast q \<and> last p = last q"
  by (metis append_butlast_last_id)

lemma group_ok_insert:
  assumes "group_ok upserts deletes" "value_distinct v" "k \<notin> set deletes"
  shows "group_ok (insert_upsert k v upserts) deletes"
proof -
  have s: "strict_keys upserts" using assms(1) by (simp add: group_ok_def)
  have "value_distinct (snd u)" if "u \<in> set (insert_upsert k v upserts)" for u
  proof -
    have "map_of (insert_upsert k v upserts) (fst u) = Some (snd u)"
      using that insert_upsert_strict [OF s, of k v] by (simp add: strict_keys_iff)
    then have "u = (k, v) \<or> map_of upserts (fst u) = Some (snd u)"
      using s by (auto simp: map_of_insert_upsert prod_eq_iff split: if_splits)
    then show ?thesis using assms(1,2) by (fastforce simp: group_ok_def dest: map_of_SomeD)
  qed
  moreover have "set (map fst (insert_upsert k v upserts)) = insert k (set (map fst upserts))"
    using insert_upsert_map_of [OF s] by blast
  ultimately show ?thesis using assms s by (auto simp: group_ok_def insert_upsert_strict)
qed

lemma update_group:
  assumes "object_ok fs" "group_ok upserts deletes"
  shows "update_ParentMap p (\<lambda>fs. ApplyChanges fs upserts deletes) fs =
      Some (update_at p (group_change upserts deletes) fs)"
    and "object_ok (update_at p (group_change upserts deletes) fs)"
proof -
  have "ApplyChanges x upserts deletes = Some (group_change upserts deletes x) \<and>
      object_ok (group_change upserts deletes x)" if "object_ok x" for x
    using group_change_ok [OF that assms(2)] by simp
  then show "update_ParentMap p (\<lambda>fs. ApplyChanges fs upserts deletes) fs =
      Some (update_at p (group_change upserts deletes) fs)"
    "object_ok (update_at p (group_change upserts deletes) fs)"
    using update_ParentMap_ok [OF assms(1), of "\<lambda>fs. ApplyChanges fs upserts deletes" _ p] by blast+
qed

lemma group_change_Nil: "object_ok fs \<Longrightarrow> group_change [] [] fs = fs"
  using group_change_ok [of fs "[]" "[]"]
  by (intro strict_keys_unique) (auto simp: group_ok_def merged_def fun_eq_iff object_ok_strict)

definition later_keys :: "TransformMap \<Rightarrow> path \<Rightarrow> string set" where
  "later_keys data parent = {last (fst e) |e. e \<in> set data \<and> butlast (fst e) = parent}"

lemma SetAll_loop_ok:
  assumes "object_ok obj" "group_ok upserts deletes" "\<forall>e \<in> set data. entry_ok e"
    and "distinct (map fst data)" "deletes_apart data"
    and "later_keys data parent \<inter> (set (map fst upserts) \<union> set deletes) = {}"
    and "deletes \<noteq> [] \<longrightarrow> (\<forall>e \<in> set data. snd e = None \<longrightarrow> butlast (fst e) \<noteq> parent)"
  shows "SetAll_loop data parent upserts deletes obj =
    Some (fold set_entry data (update_at parent (group_change upserts deletes) obj))"
  using assms
proof (induction data arbitrary: parent upserts deletes obj)
  case Nil
  then show ?case by (simp add: update_group(1))
next
  case (Cons e data)
  obtain path v where e: "e = (path, v)" by (cases e)
  have path: "path \<noteq> []" and v: "\<forall>w. v = Some w \<longrightarrow> value_distinct w"
    using Cons.prems(3) e by (auto simp: entry_ok_def)
  let ?k = "last path"
  let ?obj' = "update_at parent (group_change upserts deletes) obj"
  have obj': "object_ok ?obj'" using Cons.prems(1,2) by (rule update_group(2))
  have ents: "\<forall>e \<in> set data. entry_ok e" and dist: "distinct (map fst data)" and apart: "deletes_apart data"
    using Cons.prems(3,4,5) by (auto simp: deletes_apart_def split: if_splits)
  have fresh: "?k \<notin> later_keys data (butlast path)"
  proof
    assume "?k \<in> later_keys data (butlast path)"
    then obtain f where f: "f \<in> set data" "last (fst f) = ?k" "butlast (fst f) = butlast path"
      by (auto simp: later_keys_def)
    moreover have "fst f \<noteq> []" using ents f(1) by (auto simp: entry_ok_def)
    ultimately have "fst f = path" using path by (simp add: path_split)
    then show False using f(1) Cons.prems(4) e by (auto simp: image_iff)
  qed
  have nodel: "\<forall>f \<in> set data. snd f = None \<longrightarrow> butlast (fst f) \<noteq> butlast path" if "v = None"
    using Cons.prems(5) e that by (auto simp: deletes_apart_def image_iff)
  show ?case
  proof (cases "IsImmediateParentOf parent path")
    case True
    then have parent: "parent = butlast path" by (simp add: IsImmediateParentOf_iff)
    have k: "?k \<notin> set (map fst upserts)" "?k \<notin> set deletes"
      using Cons.prems(6) e parent by (auto simp: later_keys_def)
    have later: "later_keys data parent \<inter> (set (map fst upserts) \<union> set deletes) = {}"
      using Cons.prems(6) by (auto simp: later_keys_def)
    show ?thesis
    proof (cases v)
      case (Some w)
      have g: "group_ok (insert_upsert ?k w upserts) deletes"
        using Cons.prems(2) v k(2) Some by (intro group_ok_insert) auto
      have "strict_keys upserts" using Cons.prems(2) by (simp add: group_ok_def)
      then have keys: "set (map fst (insert_upsert ?k w upserts)) = insert ?k (set (map fst upserts))"
        using insert_upsert_map_of by blast
      have "SetAll_loop data parent (insert_upsert ?k w upserts) deletes obj =
          Some (fold set_entry data (update_at parent (group_change (insert_upsert ?k w upserts) deletes) obj))"
        by (rule Cons.IH [OF Cons.prems(1) g ents dist apart])
          (use later fresh parent keys Cons.prems(7) in auto)
      moreover have "update_at parent (group_change (insert_upsert ?k w upserts) deletes) obj =
          update_at parent (\<lambda>x. entry_change ?k (Some w) (group_change upserts deletes x)) obj"
        by (rule update_at_cong [OF Cons.prems(1)]) (rule group_change_upsert [OF _ Cons.prems(2) g k(1)])
      moreover have "\<dots> = set_entry e ?obj'"
        using Cons.prems(1) e Some parent by (simp add: set_entry_def update_at_comp)
      ultimately show ?thesis using True e Some path by simp
    next
      case None
      have d: "deletes = []" using Cons.prems(7) e None parent by auto
      have g: "group_ok upserts [?k]" using group_change_delete(1) [of "[]" upserts ?k] Cons.prems(2) k(1) d by simp
      have "SetAll_loop data parent upserts [?k] obj =
          Some (fold set_entry data (update_at parent (group_change upserts [?k]) obj))"
        by (rule Cons.IH [OF Cons.prems(1) g ents dist apart])
          (use later fresh parent nodel None in auto)
      moreover have "update_at parent (group_change upserts [?k]) obj =
          update_at parent (\<lambda>x. entry_change ?k None (group_change upserts [] x)) obj"
        using Cons.prems(2) d k(1)
        by (intro update_at_cong [OF Cons.prems(1)] group_change_delete(2)) auto
      moreover have "\<dots> = set_entry e ?obj'"
        using Cons.prems(1) e None parent d by (simp add: set_entry_def update_at_comp)
      ultimately show ?thesis using True e None path d by simp
    qed
  next
    case False
    have upd: "update_ParentMap parent (\<lambda>fs. ApplyChanges fs upserts deletes) obj = Some ?obj'"
      using Cons.prems(1,2) by (rule update_group(1))
    show ?thesis
    proof (cases v)
      case (Some w)
      have g0: "group_ok [] []" by (simp add: group_ok_def)
      have g: "group_ok [(?k, w)] []" using v Some by (simp add: group_ok_def)
      have "SetAll_loop data (butlast path) [(?k, w)] [] ?obj' =
          Some (fold set_entry data (update_at (butlast path) (group_change [(?k, w)] []) ?obj'))"
        by (rule Cons.IH [OF obj' g ents dist apart]) (use fresh in auto)
      moreover have "update_at (butlast path) (group_change [(?k, w)] []) ?obj' = set_entry e ?obj'"
        unfolding set_entry_def e fst_conv snd_conv Some
        using group_change_upsert [OF _ g0, of _ ?k w] g
        by (intro update_at_cong [OF obj']) (simp add: group_change_Nil)
      ultimately show ?thesis using False e Some path upd by simp
    next
      case None
      have g0: "group_ok [] []" by (simp add: group_ok_def)
      have g: "group_ok [] [?k]" by (simp add: group_ok_def)
      have "SetAll_loop data (butlast path) [] [?k] ?obj' =
          Some (fold set_entry data (update_at (butlast path) (group_change [] [?k]) ?obj'))"
        by (rule Cons.IH [OF obj' g ents dist apart]) (use fresh nodel None in auto)
      moreover have "update_at (butlast path) (group_change [] [?k]) ?obj' = set_entry e ?obj'"
        unfolding set_entry_def e fst_conv snd_conv None
        using group_change_delete(2) [OF _ g0, of _ ?k]
        by (intro update_at_cong [OF obj']) (simp add: group_change_Nil)
      ultimately show ?thesis using False e None path upd by simp
    qed
  qed
qed

lemma SetAll_entries:
  assumes "object_ok obj" "\<forall>e \<in> set data. entry_ok e" "distinct (map fst data)" "deletes_apart data"
  shows "ObjectValue_SetAll data obj = Some (fold set_entry data obj)"
proof -
  have "group_ok [] []" by (simp add: group_ok_def)
  from SetAll_loop_ok [OF assms(1) this assms(2-4), of "[]"] show ?thesis
    using group_change_Nil [OF assms(1)] by (simp add: ObjectValue_SetAll_def)
qed

section \<open>SetAll always succeeds\<close>

text \<open>Even where the merge gives a wrong result (several deletions under one parent) it stays
  within the upserts and keeps the fields sorted.\<close>

definition rest_of :: "fields \<Rightarrow> fields \<Rightarrow> string list \<Rightarrow> fields" where
  "rest_of source upserts deletes = filter (\<lambda>e. fst e \<notin> set deletes \<and> fst e \<notin> fst ` set upserts) source"

lemma strict_rest_tl:
  assumes "strict_keys (e # source)"
  shows "ds \<noteq> [] \<Longrightarrow> hd ds = fst e \<Longrightarrow> rest_of source upserts (tl ds) = rest_of source upserts ds"
    and "us \<noteq> [] \<Longrightarrow> fst (hd us) = fst e \<Longrightarrow> rest_of source (tl us) ds = rest_of source us ds"
  using assms by (cases ds; cases us; fastforce simp: rest_of_def intro!: filter_cong)+

lemma emitted_above:
  assumes "\<forall>f \<in> set r. f \<in> set source \<or> f \<in> (\<lambda>(k, v). (k, SortFields v)) ` set ups"
    and "\<forall>g \<in> set source. (a :: string) < fst g" "\<forall>g \<in> set ups. a < fst g"
  shows "\<forall>f \<in> set r. a < fst f"
proof
  fix f assume "f \<in> set r"
  then consider "f \<in> set source" | g where "g \<in> set ups" "fst f = fst g"
    using assms(1) by (force simp: case_prod_unfold)
  then show "a < fst f" using assms(2,3) by cases simp_all
qed

lemma strict_keys_above: "strict_keys (u # us) \<Longrightarrow> (a :: string) < fst u \<Longrightarrow> \<forall>g \<in> set (u # us). a < fst g"
  by (auto intro: order.strict_trans)

lemma emitted:
  assumes "X = Some (g # r)" "strict_keys r" "\<forall>f \<in> set r. (fst g :: string) < fst f" "P g" "\<forall>f \<in> set r. P f"
  shows "\<exists>r'. X = Some r' \<and> strict_keys r' \<and> (\<forall>f \<in> set r'. P f)"
  using assms by simp

lemma ApplyChanges_loop_total:
  "strict_keys source \<Longrightarrow> strict_keys upserts \<Longrightarrow> n \<le> length upserts + length (rest_of source upserts deletes) \<Longrightarrow>
   \<exists>r. ApplyChanges_loop n source deletes upserts = Some r \<and> strict_keys r \<and>
     (\<forall>f \<in> set r. f \<in> set source \<or> f \<in> (\<lambda>(k, v). (k, SortFields v)) ` set upserts)"
proof (induction n source deletes upserts rule: ApplyChanges_loop.induct)
  case (2 n deletes)
  then show ?case by (simp add: rest_of_def)
next
  case (3 n deletes u us)
  then obtain r where "ApplyChanges_loop n [] deletes us = Some r" "strict_keys r"
    "\<forall>f \<in> set r. f \<in> (\<lambda>(k, v). (k, SortFields v)) ` set us" by (auto simp: rest_of_def)
  then show ?case using 3(3) by (fastforce simp: case_prod_unfold)
next
  case (4 n e source deletes upserts)
  note strict = "4.prems"(1,2) and n = "4.prems"(3)
  consider (del) "deletes \<noteq> [] \<and> hd deletes = fst e"
    | (both) "\<not> (deletes \<noteq> [] \<and> hd deletes = fst e)" "upserts \<noteq> [] \<and> fst (hd upserts) = fst e"
    | (keep) "\<not> (deletes \<noteq> [] \<and> hd deletes = fst e)" "upserts = [] \<or> fst (hd upserts) > fst e"
    | (put) "\<not> (deletes \<noteq> [] \<and> hd deletes = fst e)" "upserts \<noteq> []" "fst (hd upserts) < fst e"
    by fastforce
  then show ?case
  proof cases
    case del
    then have "fst e \<in> set deletes" by (cases deletes) auto
    then have "rest_of (e # source) upserts deletes = rest_of source upserts (tl deletes)"
      using strict_rest_tl(1) [OF strict(1)] del by (simp add: rest_of_def)
    then show ?thesis using "4.IH"(1) [OF del] del strict n by auto
  next
    case both
    obtain u us where u: "upserts = u # us" using both by (cases upserts) auto
    have "fst e \<in> fst ` set upserts" using both u by auto
    then have "rest_of (e # source) upserts deletes = rest_of source upserts deletes"
      by (simp add: rest_of_def)
    also have "\<dots> = rest_of source (tl upserts) deletes"
      using strict_rest_tl(2) [OF strict(1), of upserts deletes] both by simp
    finally obtain r where r: "ApplyChanges_loop n source deletes us = Some r" "strict_keys r"
      "\<forall>f \<in> set r. f \<in> set source \<or> f \<in> (\<lambda>(k, v). (k, SortFields v)) ` set us"
      using "4.IH"(2) [OF both] strict n u by auto
    have "fst u = fst e" using both(2) u by simp
    moreover have "\<forall>g \<in> set us. fst u < fst g" "\<forall>g \<in> set source. fst e < fst g"
      using strict [unfolded u strict_keys_simps] by blast+
    ultimately have "\<forall>g \<in> set us. fst e < fst g" "\<forall>g \<in> set source. fst e < fst g" by metis+
    then have "\<forall>f \<in> set r. fst e < fst f" using emitted_above [OF r(3)] by blast
    moreover have "ApplyChanges_loop (Suc n) (e # source) deletes upserts = Some ((fst u, SortFields (snd u)) # r)"
      using both r(1) u by auto
    moreover have "(fst u, SortFields (snd u)) \<in> (\<lambda>(k, v). (k, SortFields v)) ` set upserts"
      using u by (simp add: case_prod_unfold)
    moreover have "\<forall>f \<in> set r. fst (fst u, SortFields (snd u)) < fst f"
      using \<open>fst u = fst e\<close> \<open>\<forall>f \<in> set r. fst e < fst f\<close> by simp
    moreover have "\<forall>f \<in> set r. f \<in> set (e # source) \<or> f \<in> (\<lambda>(k, v). (k, SortFields v)) ` set upserts"
      using r(3) u by auto
    ultimately show ?thesis by (intro emitted [OF _ r(2)]) blast+
  next
    case keep
    have "length (rest_of (e # source) upserts deletes) \<le> Suc (length (rest_of source upserts deletes))"
      by (simp add: rest_of_def)
    then have "n \<le> length upserts + length (rest_of source upserts deletes)" using n by simp
    moreover have "strict_keys source" "\<not> (upserts \<noteq> [] \<and> fst (hd upserts) = fst e)" using strict keep(2) by auto
    ultimately obtain r where r: "ApplyChanges_loop n source deletes upserts = Some r" "strict_keys r"
      "\<forall>f \<in> set r. f \<in> set source \<or> f \<in> (\<lambda>(k, v). (k, SortFields v)) ` set upserts"
      using "4.IH"(3) [OF keep(1) _ keep(2)] strict(2) by blast
    have "\<forall>g \<in> set upserts. fst e < fst g"
      using keep(2) strict(2) strict_keys_above [of "hd upserts" "tl upserts" "fst e"] by (cases upserts) simp_all
    then have "\<forall>f \<in> set r. fst e < fst f" using emitted_above [OF r(3)] strict(1) by simp
    moreover have "ApplyChanges_loop (Suc n) (e # source) deletes upserts = Some (e # r)"
      using keep r(1) by auto
    ultimately show ?thesis by (intro emitted [OF _ r(2)]) (use r(3) in auto)
  next
    case put
    obtain u us where u: "upserts = u # us" using put by (cases upserts) auto
    have "fst u < fst e" using put(3) by (simp only: u list.sel)
    then have above: "\<forall>g \<in> set (e # source). fst u < fst g" by (rule strict_keys_above [OF strict(1)])
    have img: "fst ` set upserts = insert (fst u) (fst ` set us)" using u by simp
    have ne: "\<forall>g \<in> set (e # source). fst g \<noteq> fst u" using above by (metis less_irrefl)
    have "rest_of (e # source) upserts deletes = rest_of (e # source) us deletes"
      unfolding rest_of_def img using ne by (intro filter_cong refl) blast
    then have "n \<le> length us + length (rest_of (e # source) us deletes)" using n u by simp
    moreover have "strict_keys us" using strict(2) u by simp
    moreover have "\<not> (upserts \<noteq> [] \<and> fst (hd upserts) = fst e)" "\<not> (upserts = [] \<or> fst e < fst (hd upserts))"
      using put u by auto
    ultimately obtain r where r: "ApplyChanges_loop n (e # source) deletes us = Some r" "strict_keys r"
      "\<forall>f \<in> set r. f \<in> set (e # source) \<or> f \<in> (\<lambda>(k, v). (k, SortFields v)) ` set us"
      using "4.IH"(4) [OF put(1)] strict(1) u by fastforce
    have "\<forall>g \<in> set us. fst u < fst g" using strict(2) u by simp
    then have "\<forall>f \<in> set r. fst (fst u, SortFields (snd u)) < fst f"
      using emitted_above [OF r(3) above] by simp
    moreover have "ApplyChanges_loop (Suc n) (e # source) deletes upserts = Some ((fst u, SortFields (snd u)) # r)"
      using put r(1) u by auto
    moreover have "(fst u, SortFields (snd u)) \<in> (\<lambda>(k, v). (k, SortFields v)) ` set upserts"
      using u by (simp add: case_prod_unfold)
    moreover have "\<forall>f \<in> set r. f \<in> set (e # source) \<or> f \<in> (\<lambda>(k, v). (k, SortFields v)) ` set upserts"
      using r(3) u by auto
    ultimately show ?thesis by (intro emitted [OF _ r(2)]) blast+
  qed
qed simp

lemma ApplyChanges_total:
  assumes "object_ok fs" "strict_keys upserts" "\<forall>u \<in> set upserts. value_distinct (snd u)"
  shows "\<exists>r. ApplyChanges fs upserts deletes = Some r \<and> object_ok r"
proof -
  have "CalculateSizeOfUnion fs upserts deletes = length upserts + length (rest_of fs upserts deletes)"
    by (simp add: CalculateSizeOfUnion_def rest_of_def)
  then obtain r where r: "ApplyChanges fs upserts deletes = Some r" "strict_keys r"
    "\<forall>f \<in> set r. f \<in> set fs \<or> f \<in> (\<lambda>(k, v). (k, SortFields v)) ` set upserts"
    using ApplyChanges_loop_total [OF object_ok_strict [OF assms(1)] assms(2) order.refl, of deletes] that
    unfolding ApplyChanges_def by metis
  then have "object_ok r"
    using assms by (fastforce simp: object_ok_def value_sorted_SortFields case_prod_unfold)
  with r show ?thesis by blast
qed

lemma update_ParentMap_total:
  assumes "object_ok obj" "\<And>x. object_ok x \<Longrightarrow> \<exists>r. change x = Some r \<and> object_ok r"
  shows "\<exists>r. update_ParentMap p change obj = Some r \<and> object_ok r"
  using update_ParentMap_ok [OF assms(1), of change "\<lambda>x. the (change x)" p] assms(2) by fastforce

lemma insert_upsert_distinct:
  "\<forall>u \<in> set us. value_distinct (snd u) \<Longrightarrow> value_distinct v \<Longrightarrow> \<forall>u \<in> set (insert_upsert k v us). value_distinct (snd u)"
  by (induction us) auto

lemma SetAll_loop_total:
  "object_ok obj \<Longrightarrow> \<forall>e \<in> set data. entry_ok e \<Longrightarrow> strict_keys upserts \<Longrightarrow> \<forall>u \<in> set upserts. value_distinct (snd u) \<Longrightarrow>
   \<exists>r. SetAll_loop data parent upserts deletes obj = Some r \<and> object_ok r"
proof (induction data arbitrary: parent upserts deletes obj)
  case Nil
  show ?case unfolding SetAll_loop.simps
    by (rule update_ParentMap_total [OF Nil(1)]) (rule ApplyChanges_total [OF _ Nil(3,4)])
next
  case (Cons e data)
  obtain path v where e: "e = (path, v)" by (cases e)
  have ok: "path \<noteq> []" "\<forall>w. v = Some w \<longrightarrow> value_distinct w" "\<forall>e \<in> set data. entry_ok e"
    using Cons.prems(2) e by (auto simp: entry_ok_def)
  obtain r where r: "update_ParentMap parent (\<lambda>fs. ApplyChanges fs upserts deletes) obj = Some r" "object_ok r"
    using update_ParentMap_total [OF Cons.prems(1), of "\<lambda>fs. ApplyChanges fs upserts deletes" parent]
      ApplyChanges_total [OF _ Cons.prems(3,4)] by blast
  have step: "\<exists>r. SetAll_loop data p (case v of Some w \<Rightarrow> insert_upsert (last path) w us | None \<Rightarrow> us)
      (case v of Some w \<Rightarrow> ds | None \<Rightarrow> insert_delete (last path) ds) ob = Some r \<and> object_ok r"
    if "object_ok ob" "strict_keys us" "\<forall>u \<in> set us. value_distinct (snd u)" for p us ds ob
    by (rule Cons.IH; cases v)
      (use that ok insert_upsert_distinct [OF that(3)] in \<open>simp_all add: insert_upsert_strict\<close>)
  show ?case
    using step [OF r(2), of "[]" "butlast path" "[]"] step [OF Cons.prems(1,3,4), of parent deletes] r ok(1) e
    by (cases v) simp_all
qed

lemma SetAll_total:
  "object_ok obj \<Longrightarrow> \<forall>e \<in> set data. entry_ok e \<Longrightarrow> \<exists>r. ObjectValue_SetAll data obj = Some r \<and> object_ok r"
  unfolding ObjectValue_SetAll_def by (rule SetAll_loop_total) auto

section \<open>Lookups after setting and deleting\<close>

text \<open>Two paths are apart when neither is a prefix of the other.\<close>

definition paths_apart :: "path \<Rightarrow> path \<Rightarrow> bool" where
  "paths_apart p q \<longleftrightarrow> \<not> IsPrefixOf p q \<and> \<not> IsPrefixOf q p"

lemma IsPrefixOf_Cons [simp]: "IsPrefixOf (a # p) (b # q) \<longleftrightarrow> a = b \<and> IsPrefixOf p q"
  and IsPrefixOf_Nil [simp]: "IsPrefixOf [] q"
  and IsPrefixOf_Nil2 [simp]: "IsPrefixOf (a # p) [] = False"
  by (auto simp: IsPrefixOf_def)

lemma set_entry_Get:
  assumes ok: "object_ok fs" and e: "entry_ok e" and apart: "paths_apart (fst e) q"
  shows "ObjectValue_Get (set_entry e fs) q = ObjectValue_Get fs q"
proof -
  define p k where "p = butlast (fst e)" and "k = last (fst e)"
  have pk: "fst e = p @ [k]" using e by (simp add: p_def k_def entry_ok_def)
  have set: "set_entry e fs = update_at p (entry_change k (snd e)) fs"
    by (simp add: set_entry_def p_def k_def)
  show ?thesis
  proof (cases "take (length p) q = p")
    case True
    then obtain r where q: "q = p @ r" by (metis append_take_drop_id)
    then have "r \<noteq> []" using apart pk by (auto simp: paths_apart_def IsPrefixOf_def)
    then obtain j r' where r: "r = j # r'" by (cases r) auto
    have "j \<noteq> k" using apart pk q r by (auto simp: paths_apart_def IsPrefixOf_def)
    have "object_ok (sub_at p fs)"
      using ok by (induction p arbitrary: fs) (auto simp: object_ok_submap)
    then have "strict_keys (sub_at p fs)" by (rule object_ok_strict)
    then have "ObjectValue_Get (entry_change k (snd e) (sub_at p fs)) r = ObjectValue_Get (sub_at p fs) r"
      using \<open>j \<noteq> k\<close> r by (cases "snd e")
        (simp_all add: entry_change_def Get_Cons map_of_insert_upsert map_of_remove_field)
    then show ?thesis unfolding set q
      using Get_update_below [OF ok \<open>r \<noteq> []\<close>] Get_sub_at [OF \<open>r \<noteq> []\<close>] by simp
  next
    case False
    moreover have "take (length q) p \<noteq> q"
    proof
      assume "take (length q) p = q"
      then have "IsPrefixOf q (p @ [k])" by (metis IsPrefixOf_def append_take_drop_id append.assoc append_eq_conv_conj length_append trans_le_add1 nat_le_linear take_all)
      then show False using apart pk by (simp add: paths_apart_def)
    qed
    ultimately show ?thesis unfolding set by (rule Get_update_apart [OF ok])
  qed
qed

lemma set_entry_Get_same:
  assumes "object_ok fs" "entry_ok e"
  shows "ObjectValue_Get (set_entry e fs) (fst e) = map_option SortFields (snd e)"
proof -
  have pk: "fst e = butlast (fst e) @ [last (fst e)]" using assms(2) by (simp add: entry_ok_def)
  have "object_ok (sub_at p fs)" for p
    using assms(1) by (induction p arbitrary: fs) (auto simp: object_ok_submap)
  then have "strict_keys (sub_at (butlast (fst e)) fs)" by (rule object_ok_strict)
  then have "ObjectValue_Get (entry_change (last (fst e)) (snd e) (sub_at (butlast (fst e)) fs)) [last (fst e)] =
      map_option SortFields (snd e)"
    by (cases "snd e") (simp_all add: entry_change_def Get_Cons map_of_insert_upsert map_of_remove_field)
  then show ?thesis
    by (subst pk) (simp add: set_entry_def Get_update_below [OF assms(1)])
qed

lemma ObjectValue_Set_entry:
  assumes "object_ok obj" "path \<noteq> []" "value_distinct v"
  shows "ObjectValue_Set path v obj = Some (set_entry (path, Some v) obj)"
proof -
  have "ApplyChanges x [(last path, v)] [] = Some (entry_change (last path) (Some v) x) \<and>
      object_ok (entry_change (last path) (Some v) x)" if "object_ok x" for x
    using that assms(3) by (simp add: ApplyChanges_upsert object_ok_strict entry_change_def object_ok_insert
        value_sorted_SortFields)
  from update_ParentMap_ok [OF assms(1) this, where p = "butlast path"] assms(2)
  show ?thesis by (simp add: ObjectValue_Set_def set_entry_def)
qed

lemma delete_at_ok:
  "object_ok fs \<Longrightarrow>
   \<exists>r. delete_at p k fs = Some r \<and> object_ok r \<and> ObjectValue_Get r (p @ [k]) = None \<and>
     (\<forall>q. paths_apart (p @ [k]) q \<longrightarrow> ObjectValue_Get r q = ObjectValue_Get fs q)"
proof (induction p arbitrary: fs)
  case Nil
  have "ObjectValue_Get (remove_field k fs) q = ObjectValue_Get fs q" if "paths_apart [k] q" for q
    using that by (cases q) (auto simp: paths_apart_def Get_Cons map_of_remove_field)
  then show ?case using Nil
    by (simp add: ApplyChanges_delete object_ok_strict object_ok_remove Get_Cons map_of_remove_field)
next
  case (Cons j p)
  have strict: "strict_keys fs" using Cons.prems by (rule object_ok_strict)
  show ?case
  proof (cases "map_of fs j")
    case None
    then show ?thesis using Cons.prems by (simp add: Get_Cons)
  next
    case (Some v)
    show ?thesis
    proof (cases "IsMap v")
      case False
      then have "Get_in v (p @ [k]) = None"
        by (cases v; cases "p @ [k]") (auto simp: FindEntry_def)
      then show ?thesis using Some False Cons.prems by (simp add: Get_Cons)
    next
      case True
      then have v: "v = map_value (map_fields v)" and sub: "submap fs j = map_fields v"
        using Some by (cases v; simp add: submap_def)+
      obtain r where r: "delete_at p k (map_fields v) = Some r" "object_ok r"
        "ObjectValue_Get r (p @ [k]) = None"
        "\<forall>q. paths_apart (p @ [k]) q \<longrightarrow> ObjectValue_Get r q = ObjectValue_Get (map_fields v) q"
        using Cons.IH [of "map_fields v"] object_ok_submap [OF Cons.prems, of j] sub by auto
      let ?r = "insert_upsert j (map_value r) fs"
      have jin: "j \<in> set (map fst fs)" using Some map_of_eq_None_iff [of fs j] by auto
      have "object_ok ?r"
        using object_ok_insert [OF Cons.prems, of "map_value r" j] r(2) by (simp only: object_ok_def)
      moreover have del: "delete_at (j # p) k fs = Some ?r"
        using Some True r(1) strict jin by (simp add: replace_entry_insert)
      moreover have "ObjectValue_Get ?r (j # p @ [k]) = None"
        unfolding Get_Cons using r(3) strict by (simp add: map_of_insert_upsert ObjectValue_Get_def)
      moreover have "ObjectValue_Get ?r q = ObjectValue_Get fs q" if ap: "paths_apart (j # p @ [k]) q" for q
      proof (cases q)
        case Nil
        then show ?thesis using ap by (simp add: paths_apart_def)
      next
        case q: (Cons i q')
        show ?thesis
        proof (cases "i = j")
          case False
          then show ?thesis using q strict by (simp add: Get_Cons map_of_insert_upsert)
        next
          case True
          then have "paths_apart (p @ [k]) q'" using ap q by (simp add: paths_apart_def)
          then have "ObjectValue_Get r q' = ObjectValue_Get (map_fields v) q'" using r(4) by blast
          moreover have "Get_in v q' = ObjectValue_Get (map_fields v) q'" unfolding ObjectValue_Get_def using v by simp
          ultimately show ?thesis unfolding q Get_Cons using True strict Some
            by (simp add: map_of_insert_upsert ObjectValue_Get_def)
        qed
      qed
      ultimately show ?thesis by auto
    qed
  qed
qed

lemma Get_append:
  "ObjectValue_Get fs (p @ q) = (case ObjectValue_Get fs p of None \<Rightarrow> None | Some v \<Rightarrow> Get_in v q)"
proof -
  have "Get_in v (p @ q) = (case Get_in v p of None \<Rightarrow> None | Some w \<Rightarrow> Get_in w q)" for v
    by (induction v p rule: Get_in.induct) (auto split: option.split)
  then show ?thesis by (simp add: ObjectValue_Get_def)
qed

section \<open>One change after the other\<close>

text \<open>A deletion by \<^verbatim>\<open>SetAll\<close> goes through \<^verbatim>\<open>ParentMap\<close>, which creates the parent or
  replaces a parent that is not a map; \<^verbatim>\<open>Delete\<close> does neither.  Without a map as the parent the
  single change is therefore a \<^verbatim>\<open>Set\<close> of the field followed by its \<^verbatim>\<open>Delete\<close>.\<close>

definition parent_is_map :: "fields \<Rightarrow> path \<Rightarrow> bool" where
  "parent_is_map obj path = (case ObjectValue_Get obj (butlast path) of Some v \<Rightarrow> IsMap v | None \<Rightarrow> False)"

fun set_or_delete :: "path \<times> Value option \<Rightarrow> fields \<Rightarrow> fields option" where
  "set_or_delete (path, Some v) obj = ObjectValue_Set path v obj"
| "set_or_delete (path, None) obj =
     (if parent_is_map obj path then ObjectValue_Delete path obj
      else Option.bind (ObjectValue_Set path null_value obj) (ObjectValue_Delete path))"

fun one_by_one :: "TransformMap \<Rightarrow> fields \<Rightarrow> fields option" where
  "one_by_one [] obj = Some obj"
| "one_by_one (e # data) obj = Option.bind (set_or_delete e obj) (one_by_one data)"

lemma delete_at_update:
  "object_ok fs \<Longrightarrow> (case ObjectValue_Get fs p of Some v \<Rightarrow> IsMap v | None \<Rightarrow> False) \<Longrightarrow>
   delete_at p k fs = Some (update_at p (remove_field k) fs)"
proof (induction p arbitrary: fs)
  case Nil
  then show ?case by (simp add: ApplyChanges_delete object_ok_strict)
next
  case (Cons j p)
  then obtain v where v: "map_of fs j = Some v" "case Get_in v p of Some v \<Rightarrow> IsMap v | None \<Rightarrow> False"
    by (auto simp: Get_Cons split: option.splits)
  then have "IsMap v" by (cases v; cases p) (auto simp: FindEntry_def)
  then have vm: "v = map_value (map_fields v)" by (cases v) auto
  then have sub: "submap fs j = map_fields v" using v(1) by (simp add: submap_def)
  have "case ObjectValue_Get (map_fields v) p of Some v \<Rightarrow> IsMap v | None \<Rightarrow> False"
    using v(2) vm by (metis ObjectValue_Get_def)
  then have "delete_at p k (map_fields v) = Some (update_at p (remove_field k) (map_fields v))"
    using Cons.IH [of "map_fields v"] object_ok_submap [OF Cons.prems(1), of j] sub by simp
  moreover have "j \<in> set (map fst fs)" using v(1) map_of_eq_None_iff [of fs j] by auto
  ultimately show ?case using v(1) \<open>IsMap v\<close> sub object_ok_strict [OF Cons.prems(1)]
    by (simp add: replace_entry_insert)
qed

lemma parent_after_Set:
  assumes "object_ok obj" "path \<noteq> []" "value_distinct v" "ObjectValue_Set path v obj = Some obj'"
  shows "parent_is_map obj' path"
proof -
  have obj': "obj' = set_entry (path, Some v) obj"
    using assms ObjectValue_Set_entry [OF assms(1-3)] by simp
  have e: "entry_ok (path, Some v)" using assms(2,3) by (simp add: entry_ok_def)
  have "ObjectValue_Get obj' (butlast path @ [last path]) = Some (SortFields v)"
    using set_entry_Get_same [OF assms(1) e] assms(2) obj' by simp
  then obtain w where w: "ObjectValue_Get obj' (butlast path) = Some w" "Get_in w [last path] = Some (SortFields v)"
    by (auto simp: Get_append split: option.splits)
  then show ?thesis by (cases w) (auto simp: parent_is_map_def FindEntry_def)
qed

lemma set_or_delete_entry:
  assumes "object_ok obj" "entry_ok e"
  shows "set_or_delete e obj = Some (set_entry e obj)"
proof -
  obtain path v where e: "e = (path, v)" by (cases e)
  then have path: "path \<noteq> []" using assms(2) by (simp add: entry_ok_def)
  have delete: "ObjectValue_Delete path fs = Some (set_entry (path, None) fs)"
    if "object_ok fs" "parent_is_map fs path" for fs
    using delete_at_update [OF that(1), of "butlast path"] that(2) path
    by (simp add: ObjectValue_Delete_def set_entry_def parent_is_map_def entry_change_def [abs_def])
  show ?thesis
  proof (cases v)
    case (Some w)
    then show ?thesis using ObjectValue_Set_entry [OF assms(1) path, of w] assms(2) e by (simp add: entry_ok_def)
  next
    case None
    show ?thesis
    proof (cases "parent_is_map obj path")
      case True
      then show ?thesis using delete [OF assms(1)] None e by simp
    next
      case False
      let ?obj = "set_entry (path, Some null_value) obj"
      have set: "ObjectValue_Set path null_value obj = Some ?obj"
        using ObjectValue_Set_entry [OF assms(1) path] by simp
      have ok: "object_ok ?obj" using object_ok_set_entry [OF assms(1)] path by (simp add: entry_ok_def)
      have "ObjectValue_Delete path ?obj = Some (set_entry (path, None) ?obj)"
        using delete [OF ok parent_after_Set [OF assms(1) path _ set]] by simp
      also have "set_entry (path, None) ?obj = set_entry (path, None) obj"
        unfolding set_entry_def fst_conv snd_conv update_at_comp [OF assms(1)]
        by (rule update_at_cong [OF assms(1)], rule strict_keys_unique)
          (auto simp: entry_change_def remove_field_strict insert_upsert_strict object_ok_strict
            map_of_remove_field map_of_insert_upsert)
      finally show ?thesis using set False None e by simp
    qed
  qed
qed

lemma one_by_one_entries:
  "object_ok obj \<Longrightarrow> \<forall>e \<in> set data. entry_ok e \<Longrightarrow> one_by_one data obj = Some (fold set_entry data obj)"
  by (induction data arbitrary: obj) (simp_all add: set_or_delete_entry object_ok_set_entry)

lemma sub_at_no_map:
  "(case ObjectValue_Get fs p of Some v \<Rightarrow> IsMap v | None \<Rightarrow> False) = False \<Longrightarrow> sub_at p fs = []"
proof (induction p arbitrary: fs)
  case Nil
  then show ?case by (simp add: ObjectValue_Get_def)
next
  case (Cons k p)
  have nil: "sub_at p [] = []" by (induction p) (simp_all add: submap_def)
  show ?case
  proof (cases "map_of fs k")
    case None
    then show ?thesis using nil by (simp add: submap_def)
  next
    case (Some v)
    show ?thesis
    proof (cases v)
      case (map_value gs)
      have "sub_at p gs = []"
        using Cons.IH [of gs] Cons.prems Some map_value by (simp add: ObjectValue_Get_def FindEntry_def)
      then show ?thesis using Some map_value by (simp add: submap_def)
    qed (use Some nil in \<open>simp_all add: submap_def\<close>)
  qed
qed

lemma Get_update_here:
  "object_ok fs \<Longrightarrow> p \<noteq> [] \<Longrightarrow> ObjectValue_Get (update_at p f fs) p = Some (map_value (f (sub_at p fs)))"
proof (induction p arbitrary: fs)
  case (Cons k p)
  have "strict_keys fs" using Cons.prems(1) by (rule object_ok_strict)
  then show ?case
  proof (cases "p = []")
    case False
    then show ?thesis using Cons.IH [OF object_ok_submap [OF Cons.prems(1), of k]] \<open>strict_keys fs\<close>
      by (simp add: ObjectValue_Get_def FindEntry_def map_of_insert_upsert)
  qed (simp add: Get_Cons map_of_insert_upsert)
qed simp

lemma replace_entry_same: "map_of fs k = Some v \<Longrightarrow> replace_entry k v fs = fs"
  by (induction fs) (auto split: if_splits)

lemma delete_at_no_map:
  "(case ObjectValue_Get fs p of Some v \<Rightarrow> IsMap v | None \<Rightarrow> False) = False \<Longrightarrow> delete_at p k fs = Some fs"
proof (induction p arbitrary: fs)
  case Nil
  then show ?case by (simp add: ObjectValue_Get_def)
next
  case (Cons j p)
  show ?case
  proof (cases "map_of fs j")
    case (Some v)
    show ?thesis
    proof (cases v)
      case (map_value gs)
      have "delete_at p k gs = Some gs"
        using Cons.IH [of gs] Cons.prems Some map_value by (simp add: ObjectValue_Get_def FindEntry_def)
      then show ?thesis using Some map_value by (simp add: replace_entry_same)
    qed (use Some in simp_all)
  qed simp
qed

section \<open>Properties\<close>

text \<open>C18: Setting a field of a well-formed object succeeds (intermediate maps are created, values
  that are not maps are replaced), keeps the fields sorted at every level, makes the path read
  back the value with its fields sorted, and changes no path that is apart from it.\<close>

theorem object_value_set_get:
  assumes "object_ok obj" "path \<noteq> []" "value_distinct v"
  shows "\<exists>obj'. ObjectValue_Set path v obj = Some obj' \<and> object_ok obj' \<and>
    ObjectValue_Get obj' path = Some (SortFields v) \<and>
    (\<forall>q. paths_apart path q \<longrightarrow> ObjectValue_Get obj' q = ObjectValue_Get obj q)"
proof -
  have e: "entry_ok (path, Some v)" using assms(2,3) by (simp add: entry_ok_def)
  show ?thesis
    using ObjectValue_Set_entry [OF assms] object_ok_set_entry [OF assms(1) e]
      set_entry_Get_same [OF assms(1) e] set_entry_Get [OF assms(1) e]
    by simp
qed

theorem object_value_set_get_witness:
  "\<exists>obj'. ObjectValue_Set [''a'', ''b''] (integer_value 1) [(''a'', null_value), (''c'', null_value)] = Some obj' \<and>
     ObjectValue_Get obj' [''a'', ''b''] = Some (integer_value 1)"
  using object_value_set_get [of "[(''a'', null_value), (''c'', null_value)]" "[''a'', ''b'']" "integer_value 1"]
  by (auto simp: object_ok_def)

text \<open>Deleting a field of a well-formed object succeeds, the path reads back nothing, and no
  path apart from it changes; a path through a missing or non-map field leaves the object
  alone.\<close>

theorem object_value_delete_get:
  assumes "object_ok obj" "path \<noteq> []"
  shows "\<exists>obj'. ObjectValue_Delete path obj = Some obj' \<and> object_ok obj' \<and>
    ObjectValue_Get obj' path = None \<and>
    (\<forall>q. paths_apart path q \<longrightarrow> ObjectValue_Get obj' q = ObjectValue_Get obj q)"
  using delete_at_ok [OF assms(1), of "butlast path" "last path"] assms(2)
  by (simp add: ObjectValue_Delete_def)

theorem object_value_delete_get_witness:
  "\<exists>obj'. ObjectValue_Delete [''a''] [(''a'', null_value), (''c'', null_value)] = Some obj' \<and>
     ObjectValue_Get obj' [''a''] = None"
  using object_value_delete_get [of "[(''a'', null_value), (''c'', null_value)]" "[''a'']"]
  by (auto simp: object_ok_def)

text \<open>C19: Setting many fields at once groups the changes by parent and merges each group in one pass.
  As long as no parent loses two fields it succeeds and gives what the single operations give
  one after the other: \<^verbatim>\<open>Set\<close> for a value and \<^verbatim>\<open>Delete\<close> for a deletion under a map.  A deletion
  whose parent is missing or not a map is not a \<^verbatim>\<open>Delete\<close>, which would do nothing: it acts
  like a \<^verbatim>\<open>Set\<close> of the field, which makes the parent a map, followed by its \<^verbatim>\<open>Delete\<close>.\<close>

theorem set_all_one_by_one:
  assumes "object_ok obj" "\<forall>e \<in> set data. entry_ok e" "distinct (map fst data)" "deletes_apart data"
  shows "\<exists>obj'. ObjectValue_SetAll data obj = Some obj' \<and> one_by_one data obj = Some obj' \<and> object_ok obj'"
  using SetAll_entries [OF assms] one_by_one_entries [OF assms(1,2)] object_ok_set_entries [OF assms(1,2)] by simp

theorem set_all_one_by_one_witness:
  "\<exists>obj. ObjectValue_Set [''b'', ''c''] null_value [(''d'', null_value)] = Some obj \<and>
     ObjectValue_SetAll [([''a''], None), ([''b'', ''c''], Some null_value)] [(''a'', null_value), (''d'', null_value)] = Some obj"
proof -
  have "one_by_one [([''a''], None), ([''b'', ''c''], Some null_value)] [(''a'', null_value), (''d'', null_value)] =
      ObjectValue_Set [''b'', ''c''] null_value [(''d'', null_value)]"
    by code_simp
  then show ?thesis
    using set_all_one_by_one [of "[(''a'', null_value), (''d'', null_value)]" "[([''a''], None), ([''b'', ''c''], Some null_value)]"]
    by (auto simp: object_ok_def entry_ok_def deletes_apart_def)
qed

text \<open>Deleting a field whose parent is missing or not a map leaves the object alone through
  \<^verbatim>\<open>Delete\<close>, but through \<^verbatim>\<open>SetAll\<close> it makes the parent an empty map, also where the parent
  held another value.\<close>

theorem set_all_deletion_creates_parents:
  assumes "object_ok obj" "path \<noteq> []" "\<not> parent_is_map obj path"
  shows "ObjectValue_Delete path obj = Some obj \<and>
    (\<exists>obj'. ObjectValue_SetAll [(path, None)] obj = Some obj' \<and>
      ObjectValue_Get obj' (butlast path) = Some (map_value []))"
proof -
  have no_map: "(case ObjectValue_Get obj (butlast path) of Some v \<Rightarrow> IsMap v | None \<Rightarrow> False) = False"
    using assms(3) by (simp add: parent_is_map_def)
  then have "butlast path \<noteq> []" by (auto simp: ObjectValue_Get_def)
  then have "ObjectValue_Get (set_entry (path, None) obj) (butlast path) = Some (map_value [])"
    using sub_at_no_map [OF no_map] Get_update_here [OF assms(1)]
    by (simp add: set_entry_def entry_change_def remove_field_def)
  moreover have "ObjectValue_SetAll [(path, None)] obj = Some (set_entry (path, None) obj)"
    using SetAll_entries [OF assms(1), of "[(path, None)]"] assms(2) by (simp add: entry_ok_def deletes_apart_def)
  ultimately show ?thesis using delete_at_no_map [OF no_map] assms(2) by (simp add: ObjectValue_Delete_def)
qed

theorem set_all_deletion_creates_parents_witness:
  "ObjectValue_Delete [''a'', ''b''] [(''a'', integer_value 5)] = Some [(''a'', integer_value 5)] \<and>
   (\<exists>obj'. ObjectValue_SetAll [([''a'', ''b''], None)] [(''a'', integer_value 5)] = Some obj' \<and>
      ObjectValue_Get obj' [''a''] = Some (map_value []))"
  using set_all_deletion_creates_parents [of "[(''a'', integer_value 5)]" "[''a'', ''b'']"]
  by (simp add: parent_is_map_def object_ok_def Get_Cons)

text \<open>C20: With two deletions under one parent the merge is wrong when the first key is missing:
  the field that should go stays and the field behind it is lost, because the iterator over
  the deletions never moves past the missing key.\<close>

theorem missing_delete_blocks_the_next:
  assumes "a < b" "b < c"
  shows "ApplyChanges [(b, v), (c, w)] [] [a, b] = Some [(b, v)] \<and>
    merged [(b, v), (c, w)] [] [a, b] b = None \<and> merged [(b, v), (c, w)] [] [a, b] c = Some w"
  using assms by (auto simp: ApplyChanges_def CalculateSizeOfUnion_def merged_def)

theorem missing_delete_blocks_the_next_witness:
  "ApplyChanges [(''b'', null_value), (''c'', null_value)] [] [''a'', ''b''] = Some [(''b'', null_value)]"
  using missing_delete_blocks_the_next [of "''a''" "''b''" "''c''" null_value null_value] by simp

end
