(* ===== verification/Documents.thy ===== *)
theory Documents
  imports ObjectValues "HOL-Library.Sublist"
begin

text \<open>
  Documents, preconditions and field transforms (\<^verbatim>\<open>model/mutable_document.cc\<close>,
  \<^verbatim>\<open>precondition.cc\<close>, \<^verbatim>\<open>transform_operation.cc\<close>).  A \<^verbatim>\<open>MutableDocument\<close> is a
  record; each of its mutators is a function on records.  The shared pointer to the value is the
  value itself: the operations modelled here replace it or work on the only reference to it.
\<close>

section \<open>Versions and documents\<close>

type_synonym SnapshotVersion = Timestamp

definition SnapshotVersion_None :: SnapshotVersion where
  "SnapshotVersion_None = \<lparr>seconds = 0, nanos = 0\<rparr>"

datatype DocumentType = kInvalid | kFoundDocument | kNoDocument | kUnknownDocument

datatype DocumentState = kHasLocalMutations | kHasCommittedMutations | kSynced

record MutableDocument =
  doc_key :: path
  document_type :: DocumentType
  doc_version :: SnapshotVersion
  doc_read_time :: SnapshotVersion
  doc_value :: fields
  document_state :: DocumentState

definition InvalidDocument :: "path \<Rightarrow> MutableDocument" where
  "InvalidDocument document_key =
     \<lparr>doc_key = document_key, document_type = kInvalid, doc_version = SnapshotVersion_None,
      doc_read_time = SnapshotVersion_None, doc_value = [], document_state = kSynced\<rparr>"

definition ConvertToFoundDocument :: "SnapshotVersion \<Rightarrow> fields \<Rightarrow> MutableDocument \<Rightarrow> MutableDocument" where
  "ConvertToFoundDocument version value document =
     document\<lparr>doc_version := version, document_type := kFoundDocument, doc_value := value,
       document_state := kSynced\<rparr>"

text \<open>The overload that keeps the value.\<close>

definition ConvertToFoundDocument_version :: "SnapshotVersion \<Rightarrow> MutableDocument \<Rightarrow> MutableDocument" where
  "ConvertToFoundDocument_version version document =
     document\<lparr>doc_version := version, document_type := kFoundDocument, document_state := kSynced\<rparr>"

definition ConvertToNoDocument :: "SnapshotVersion \<Rightarrow> MutableDocument \<Rightarrow> MutableDocument" where
  "ConvertToNoDocument version document =
     document\<lparr>doc_version := version, document_type := kNoDocument, doc_value := [],
       document_state := kSynced\<rparr>"

definition ConvertToUnknownDocument :: "SnapshotVersion \<Rightarrow> MutableDocument \<Rightarrow> MutableDocument" where
  "ConvertToUnknownDocument version document =
     document\<lparr>doc_version := version, document_type := kUnknownDocument, doc_value := [],
       document_state := kHasCommittedMutations\<rparr>"

definition SetHasCommittedMutations :: "MutableDocument \<Rightarrow> MutableDocument" where
  "SetHasCommittedMutations document = document\<lparr>document_state := kHasCommittedMutations\<rparr>"

definition SetHasLocalMutations :: "MutableDocument \<Rightarrow> MutableDocument" where
  "SetHasLocalMutations document =
     document\<lparr>document_state := kHasLocalMutations, doc_version := SnapshotVersion_None\<rparr>"

definition WithReadTime :: "SnapshotVersion \<Rightarrow> MutableDocument \<Rightarrow> MutableDocument" where
  "WithReadTime read_time document = document\<lparr>doc_read_time := read_time\<rparr>"

definition FoundDocument :: "path \<Rightarrow> SnapshotVersion \<Rightarrow> fields \<Rightarrow> MutableDocument" where
  "FoundDocument document_key version value = ConvertToFoundDocument version value (InvalidDocument document_key)"

definition NoDocument :: "path \<Rightarrow> SnapshotVersion \<Rightarrow> MutableDocument" where
  "NoDocument document_key version = ConvertToNoDocument version (InvalidDocument document_key)"

definition UnknownDocument :: "path \<Rightarrow> SnapshotVersion \<Rightarrow> MutableDocument" where
  "UnknownDocument document_key version = ConvertToUnknownDocument version (InvalidDocument document_key)"

definition has_local_mutations :: "MutableDocument \<Rightarrow> bool" where
  "has_local_mutations document \<longleftrightarrow> document_state document = kHasLocalMutations"

definition has_committed_mutations :: "MutableDocument \<Rightarrow> bool" where
  "has_committed_mutations document \<longleftrightarrow> document_state document = kHasCommittedMutations"

definition has_pending_writes :: "MutableDocument \<Rightarrow> bool" where
  "has_pending_writes document \<longleftrightarrow> has_local_mutations document \<or> has_committed_mutations document"

definition is_valid_document :: "MutableDocument \<Rightarrow> bool" where
  "is_valid_document document \<longleftrightarrow> document_type document \<noteq> kInvalid"

definition is_found_document :: "MutableDocument \<Rightarrow> bool" where
  "is_found_document document \<longleftrightarrow> document_type document = kFoundDocument"

definition is_no_document :: "MutableDocument \<Rightarrow> bool" where
  "is_no_document document \<longleftrightarrow> document_type document = kNoDocument"

definition is_unknown_document :: "MutableDocument \<Rightarrow> bool" where
  "is_unknown_document document \<longleftrightarrow> document_type document = kUnknownDocument"

named_theorems document_defs

lemmas [document_defs] =
  ConvertToFoundDocument_def ConvertToFoundDocument_version_def ConvertToNoDocument_def
  ConvertToUnknownDocument_def SetHasCommittedMutations_def SetHasLocalMutations_def
  has_local_mutations_def has_committed_mutations_def is_valid_document_def is_found_document_def
  is_no_document_def is_unknown_document_def

text \<open>
  What holds of every document: its fields are sorted, only a found document has fields, and a
  document with local mutations is found or deleted and has no version.
\<close>

definition document_ok :: "MutableDocument \<Rightarrow> bool" where
  "document_ok document \<longleftrightarrow>
     object_ok (doc_value document) \<and>
     (document_type document \<noteq> kFoundDocument \<longrightarrow> doc_value document = []) \<and>
     (document_state document = kHasLocalMutations \<longrightarrow>
        doc_version document = SnapshotVersion_None \<and> document_type document \<in> {kFoundDocument, kNoDocument}) \<and>
     (document_type document = kUnknownDocument \<longrightarrow> document_state document = kHasCommittedMutations)"

section \<open>Preconditions\<close>

datatype Precondition = Precondition_None | Precondition_Exists bool | Precondition_UpdateTime SnapshotVersion

fun IsValidFor :: "Precondition \<Rightarrow> MutableDocument \<Rightarrow> bool" where
  "IsValidFor (Precondition_UpdateTime update_time) document =
     (is_found_document document \<and> doc_version document = update_time)"
| "IsValidFor (Precondition_Exists exists) document = (exists = is_found_document document)"
| "IsValidFor Precondition_None document = True"

section \<open>Transform operations\<close>

datatype TransformOperation =
    ServerTimestampTransform
  | ArrayUnion "Value list"
  | ArrayRemove "Value list"
  | NumericIncrementTransform Value
  | NumericMinimumTransform Value
  | NumericMaximumTransform Value

fun IsInteger :: "Value \<Rightarrow> bool" where
  "IsInteger (integer_value i) = True"
| "IsInteger _ = False"

fun IsDouble :: "Value \<Rightarrow> bool" where
  "IsDouble (double_value d) = True"
| "IsDouble _ = False"

fun IsNumber :: "Value option \<Rightarrow> bool" where
  "IsNumber (Some v) = (IsInteger v \<or> IsDouble v)"
| "IsNumber None = False"

fun CoercedFieldValueArray :: "Value option \<Rightarrow> Value list" where
  "CoercedFieldValueArray (Some (array_value vs)) = vs"
| "CoercedFieldValueArray _ = []"

fun array_union_loop :: "Value list \<Rightarrow> Value list \<Rightarrow> Value list \<Rightarrow> Value list option" where
  "array_union_loop [] existing new_elements = Some (existing @ new_elements)"
| "array_union_loop (new_element # elements) existing new_elements =
     do {
       in_array \<leftarrow> ArrayContains existing new_element;
       present \<leftarrow> (if in_array then Some True else ArrayContains new_elements new_element);
       array_union_loop elements existing (if present then new_elements else new_elements @ [new_element])
     }"

fun array_remove_loop :: "Value list \<Rightarrow> Value list \<Rightarrow> Value list option" where
  "array_remove_loop elements [] = Some []"
| "array_remove_loop elements (v # old) =
     do {
       c \<leftarrow> ArrayContains elements v;
       rest \<leftarrow> array_remove_loop elements old;
       Some (if c then rest else v # rest)
     }"

definition ArrayUnion_Apply :: "Value list \<Rightarrow> Value option \<Rightarrow> Value option" where
  "ArrayUnion_Apply elements previous_value =
     map_option array_value (array_union_loop elements (CoercedFieldValueArray previous_value) [])"

definition ArrayRemove_Apply :: "Value list \<Rightarrow> Value option \<Rightarrow> Value option" where
  "ArrayRemove_Apply elements previous_value =
     map_option array_value (array_remove_loop elements (CoercedFieldValueArray previous_value))"

definition LONG_MAX :: int where "LONG_MAX = 2 ^ 63 - 1"

definition LONG_MIN :: int where "LONG_MIN = - (2 ^ 63)"

definition SafeIncrement :: "int64 \<Rightarrow> int64 \<Rightarrow> int64" where
  "SafeIncrement x y =
     (if sint x > 0 \<and> sint y > LONG_MAX - sint x then word_of_int LONG_MAX
      else if sint x < 0 \<and> sint y < LONG_MIN - sint x then word_of_int LONG_MIN
      else x + y)"

fun OperandAsDouble :: "Value \<Rightarrow> double option" where
  "OperandAsDouble (double_value d) = Some d"
| "OperandAsDouble (integer_value i) = Some (dbl_of_int (sint i))"
| "OperandAsDouble _ = None"

definition Increment_ComputeBaseValue :: "Value option \<Rightarrow> Value" where
  "Increment_ComputeBaseValue previous_value =
     (if IsNumber previous_value then the previous_value else integer_value 0)"

definition Increment_ApplyToLocalView :: "Value \<Rightarrow> Value option \<Rightarrow> Value option" where
  "Increment_ApplyToLocalView operand previous_value =
     (case (Increment_ComputeBaseValue previous_value, operand) of
        (integer_value b, integer_value i) \<Rightarrow> Some (integer_value (SafeIncrement b i))
      | (integer_value b, _) \<Rightarrow>
          do { d \<leftarrow> OperandAsDouble operand; Some (double_value (dbl_add (dbl_of_int (sint b)) d)) }
      | (double_value b, _) \<Rightarrow> do { d \<leftarrow> OperandAsDouble operand; Some (double_value (dbl_add b d)) }
      | _ \<Rightarrow> None)"

text \<open>The comparison that Minimum and Maximum share: \<open>better\<close> tells whether to keep the previous
  value when the doubles differ.\<close>

definition choose_number :: "(double \<Rightarrow> double \<Rightarrow> bool) \<Rightarrow> Value \<Rightarrow> Value \<Rightarrow> Value option" where
  "choose_number better operand base_value =
     do {
       prev_double \<leftarrow> OperandAsDouble base_value;
       oper_double \<leftarrow> OperandAsDouble operand;
       Some (if isnan prev_double then base_value
             else if isnan oper_double then operand
             else if dbl_eq prev_double oper_double then base_value
             else if better prev_double oper_double then base_value
             else operand)
     }"

definition Minimum_ApplyToLocalView :: "Value \<Rightarrow> Value option \<Rightarrow> Value option" where
  "Minimum_ApplyToLocalView operand previous_value =
     (if \<not> IsNumber previous_value then Some operand
      else case (the previous_value, operand) of
        (integer_value b, integer_value i) \<Rightarrow>
          Some (integer_value (if sint i < sint b then i else b))
      | (base_value, _) \<Rightarrow> choose_number dbl_less operand base_value)"

definition Maximum_ApplyToLocalView :: "Value \<Rightarrow> Value option \<Rightarrow> Value option" where
  "Maximum_ApplyToLocalView operand previous_value =
     (if \<not> IsNumber previous_value then Some operand
      else case (the previous_value, operand) of
        (integer_value b, integer_value i) \<Rightarrow>
          Some (integer_value (if sint b < sint i then i else b))
      | (base_value, _) \<Rightarrow> choose_number (\<lambda>p q. dbl_less q p) operand base_value)"

fun Transform_ApplyToLocalView :: "TransformOperation \<Rightarrow> Value option \<Rightarrow> Timestamp \<Rightarrow> Value option" where
  "Transform_ApplyToLocalView ServerTimestampTransform previous_value local_write_time =
     Some (EncodeServerTimestamp local_write_time previous_value)"
| "Transform_ApplyToLocalView (ArrayUnion elements) previous_value local_write_time =
     ArrayUnion_Apply elements previous_value"
| "Transform_ApplyToLocalView (ArrayRemove elements) previous_value local_write_time =
     ArrayRemove_Apply elements previous_value"
| "Transform_ApplyToLocalView (NumericIncrementTransform operand) previous_value local_write_time =
     Increment_ApplyToLocalView operand previous_value"
| "Transform_ApplyToLocalView (NumericMinimumTransform operand) previous_value local_write_time =
     Minimum_ApplyToLocalView operand previous_value"
| "Transform_ApplyToLocalView (NumericMaximumTransform operand) previous_value local_write_time =
     Maximum_ApplyToLocalView operand previous_value"

fun Transform_ApplyToRemoteDocument :: "TransformOperation \<Rightarrow> Value option \<Rightarrow> Value \<Rightarrow> Value option" where
  "Transform_ApplyToRemoteDocument (ArrayUnion elements) previous_value transform_result =
     ArrayUnion_Apply elements previous_value"
| "Transform_ApplyToRemoteDocument (ArrayRemove elements) previous_value transform_result =
     ArrayRemove_Apply elements previous_value"
| "Transform_ApplyToRemoteDocument _ previous_value transform_result = Some transform_result"

fun ComputeBaseValue :: "TransformOperation \<Rightarrow> Value option \<Rightarrow> Value option" where
  "ComputeBaseValue (NumericIncrementTransform operand) previous_value =
     Some (Increment_ComputeBaseValue previous_value)"
| "ComputeBaseValue _ previous_value = None"


section \<open>Saturating addition\<close>

lemma LONG_bounds: "LONG_MAX = 9223372036854775807" "LONG_MIN = - 9223372036854775808"
  by (simp_all add: LONG_MAX_def LONG_MIN_def)

lemma sint_int64_LONG: "LONG_MIN \<le> sint (i :: int64)" "sint (i :: int64) \<le> LONG_MAX"
  using sint_int64_range [of i] by (simp_all add: LONG_bounds)

text \<open>C27: Incrementing saturates: the sum is exact when it fits 64 bits and otherwise the nearest
  bound, for all operands, and the guards themselves never overflow.\<close>

theorem safe_increment_saturates:
  "sint (SafeIncrement x y) = max LONG_MIN (min LONG_MAX (sint x + sint y))"
proof -
  consider "sint x + sint y > LONG_MAX" | "sint x + sint y < LONG_MIN"
    | "LONG_MIN \<le> sint x + sint y" "sint x + sint y \<le> LONG_MAX" by linarith
  then show ?thesis
  proof cases
    case 1
    then have "SafeIncrement x y = word_of_int LONG_MAX"
      using sint_int64_LONG [of x] sint_int64_LONG [of y] by (simp add: SafeIncrement_def)
    moreover have "LONG_MIN \<le> LONG_MAX" by (simp add: LONG_bounds)
    ultimately show ?thesis using 1 sint_int64 [of LONG_MAX] by (simp add: LONG_bounds)
  next
    case 2
    then have "SafeIncrement x y = word_of_int LONG_MIN"
      using sint_int64_LONG [of x] sint_int64_LONG [of y] by (auto simp: SafeIncrement_def)
    then show ?thesis using 2 sint_int64 [of LONG_MIN] by (simp add: LONG_bounds)
  next
    case 3
    then have "SafeIncrement x y = x + y" by (auto simp: SafeIncrement_def)
    also have "\<dots> = word_of_int (sint x + sint y)"
      by simp
    finally show ?thesis using 3 sint_int64 [of "sint x + sint y"]
      by (simp add: LONG_bounds)
  qed
qed

section \<open>The results of transforms\<close>

text \<open>What holds of a transform the API builds: numeric operands.\<close>

fun transform_ok :: "TransformOperation \<Rightarrow> bool" where
  "transform_ok (NumericIncrementTransform operand) = IsNumber (Some operand)"
| "transform_ok (NumericMinimumTransform operand) = IsNumber (Some operand)"
| "transform_ok (NumericMaximumTransform operand) = IsNumber (Some operand)"
| "transform_ok (ArrayUnion elements) = (\<forall>v \<in> set elements. value_ok v)"
| "transform_ok (ArrayRemove elements) = (\<forall>v \<in> set elements. value_ok v)"
| "transform_ok ServerTimestampTransform = True"

text \<open>The type of value a transform computes.\<close>

fun transform_result_type :: "TransformOperation \<Rightarrow> Value \<Rightarrow> bool" where
  "transform_result_type ServerTimestampTransform v = IsServerTimestamp v"
| "transform_result_type (ArrayUnion elements) v = (\<exists>vs. v = array_value vs)"
| "transform_result_type (ArrayRemove elements) v = (\<exists>vs. v = array_value vs)"
| "transform_result_type _ v = IsNumber (Some v)"

lemma IsNumber_cases:
  assumes "IsNumber (Some v)"
  obtains i where "v = integer_value i" | d where "v = double_value d"
  using assms by (cases v) auto

lemma OperandAsDouble_number: "IsNumber (Some v) \<Longrightarrow> \<exists>d. OperandAsDouble v = Some d"
  by (erule IsNumber_cases) auto

lemma choose_number_number:
  "IsNumber (Some a) \<Longrightarrow> IsNumber (Some b) \<Longrightarrow> \<exists>v. choose_number better a b = Some v \<and> v \<in> {a, b}"
  using OperandAsDouble_number [of a] OperandAsDouble_number [of b] by (auto simp: choose_number_def)

lemma Increment_base_number: "IsNumber (Some (Increment_ComputeBaseValue prev))"
  by (cases prev) (auto simp: Increment_ComputeBaseValue_def)

lemma Increment_number:
  assumes "IsNumber (Some operand)"
  shows "\<exists>v. Increment_ApplyToLocalView operand prev = Some v \<and> IsNumber (Some v)"
  using Increment_base_number [of prev] assms
  by (elim IsNumber_cases) (auto simp: Increment_ApplyToLocalView_def)

lemma Minimum_number:
  assumes "IsNumber (Some operand)"
  shows "\<exists>v. Minimum_ApplyToLocalView operand prev = Some v \<and> IsNumber (Some v)"
proof (cases "IsNumber prev")
  case True
  then obtain p where p: "prev = Some p" "IsNumber (Some p)" by (cases prev) auto
  show ?thesis
    using choose_number_number [OF assms p(2), of dbl_less] assms p
    by (cases p; cases operand) (auto simp: Minimum_ApplyToLocalView_def)
qed (simp add: Minimum_ApplyToLocalView_def assms del: IsNumber.simps(1))

lemma Maximum_number:
  assumes "IsNumber (Some operand)"
  shows "\<exists>v. Maximum_ApplyToLocalView operand prev = Some v \<and> IsNumber (Some v)"
proof (cases "IsNumber prev")
  case True
  then obtain p where p: "prev = Some p" "IsNumber (Some p)" by (cases prev) auto
  show ?thesis
    using choose_number_number [OF assms p(2), of "\<lambda>p q. dbl_less q p"] assms p
    by (cases p; cases operand) (auto simp: Maximum_ApplyToLocalView_def)
qed (simp add: Maximum_ApplyToLocalView_def assms del: IsNumber.simps(1))

text \<open>The equality of values is defined on all values but malformed server timestamps.\<close>

lemma MapValueEquals_total:
  assumes "value_ok (map_value fs)" "value_ok (map_value gs)"
  shows "MapValueEquals fs gs \<noteq> None"
proof -
  have "CompareMaps fs gs = Some (okeys_compare (map fkey (map_fields (SortFields (map_value fs))))
      (map fkey (map_fields (SortFields (map_value gs)))))"
    unfolding CompareMaps_def using value_ok_sorted_field assms by (intro CompareMaps_key) blast+
  then show ?thesis unfolding MapValueEquals_def by simp metis
qed

lemma ValueEquals_total:
  "value_ok l \<Longrightarrow> value_ok r \<Longrightarrow> ValueEquals l r \<noteq> None"
  and ArrayEquals_total:
  "(\<forall>v \<in> set ls. value_ok v) \<Longrightarrow> (\<forall>v \<in> set rs. value_ok v) \<Longrightarrow> ArrayEquals_from ls rs \<noteq> None"
proof (induction l r and ls rs rule: ValueEquals_ArrayEquals_from.induct)
  case (1 l r)
  show ?case
  proof (cases "GetTypeOrder l = GetTypeOrder r")
    case False
    then show ?thesis by (subst ValueEquals.simps) simp
  next
    case t: True
    show ?thesis
    proof (cases "GetTypeOrder l = kServerTimestamp")
      case True
      then obtain a b where "GetLocalWriteTime l = Some a" "GetLocalWriteTime r = Some b"
        using t 1(2,3) server_timestamp_ok by metis
      then show ?thesis using True t by (subst ValueEquals.simps) simp
    next
      case False
      have m: "MapValueEquals fs gs \<noteq> None" if "l = map_value fs" "r = map_value gs" for fs gs
        using that 1(2,3) MapValueEquals_total by blast
      have a: "length a = length b \<Longrightarrow> ArrayEquals_from a b \<noteq> None" if "l = array_value a" "r = array_value b" for a b
        using that 1 t by simp
      show ?thesis using t False m a
        by (cases l; cases r; subst ValueEquals.simps) (auto split: if_splits simp del: value_ok.simps)
    qed
  qed
next
  case (2 l ls r rs)
  then show ?case by auto
qed auto

lemma ArrayContains_total:
  "\<forall>v \<in> set vs. value_ok v \<Longrightarrow> value_ok w \<Longrightarrow> \<exists>b. ArrayContains vs w = Some b"
  by (induction vs) (use ValueEquals_total in fastforce)+

definition values_ok :: "Value list \<Rightarrow> bool" where
  "values_ok vs \<longleftrightarrow> (\<forall>v \<in> set vs. value_ok v)"

lemma values_ok_simps [simp]:
  "values_ok []" "values_ok (v # vs) \<longleftrightarrow> value_ok v \<and> values_ok vs" "values_ok (vs @ ws) \<longleftrightarrow> values_ok vs \<and> values_ok ws"
  by (auto simp: values_ok_def)

lemma contains_total: "values_ok vs \<Longrightarrow> value_ok w \<Longrightarrow> \<exists>b. ArrayContains vs w = Some b"
  unfolding values_ok_def by (rule ArrayContains_total)

text \<open>The union keeps the array and appends, in order, the elements that equal no element before
  them.\<close>

definition occurs_in :: "Value \<Rightarrow> Value list \<Rightarrow> bool" where
  "occurs_in e vs \<longleftrightarrow> (\<exists>v \<in> set vs. v = e \<or> ValueEquals v e = Some True)"

lemma occurs_in_append [simp]: "occurs_in e (vs @ ws) \<longleftrightarrow> occurs_in e vs \<or> occurs_in e ws"
  by (auto simp: occurs_in_def)

lemma ArrayContains_occurs: "ArrayContains vs e = Some True \<Longrightarrow> occurs_in e vs"
  by (induction vs) (auto simp: occurs_in_def split: bind_splits if_splits)

text \<open>No element of the second list equals one of the first or one before it.\<close>

fun fresh_elements :: "Value list \<Rightarrow> Value list \<Rightarrow> bool" where
  "fresh_elements vs [] = True"
| "fresh_elements vs (e # es) = (ArrayContains vs e = Some False \<and> fresh_elements (vs @ [e]) es)"

lemma ArrayContains_append:
  "ArrayContains (vs @ ws) e =
     (case ArrayContains vs e of None \<Rightarrow> None | Some True \<Rightarrow> Some True | Some False \<Rightarrow> ArrayContains ws e)"
  by (induction vs) (auto split: option.splits bool.splits bind_splits)

lemma array_union_loop_ok:
  "values_ok elements \<Longrightarrow> values_ok existing \<Longrightarrow> values_ok new \<Longrightarrow>
   \<exists>added. array_union_loop elements existing new = Some (existing @ new @ added) \<and> subseq added elements \<and>
     fresh_elements (existing @ new) added \<and>
     (\<forall>e \<in> set elements. occurs_in e (existing @ new @ added))"
proof (induction elements arbitrary: new)
  case Nil
  then show ?case by (intro exI [of _ "[]"]) simp
next
  case (Cons e elements)
  obtain b where b: "ArrayContains existing e = Some b" using Cons.prems contains_total by auto
  obtain c where c: "ArrayContains new e = Some c" using Cons.prems contains_total by auto
  show ?case
  proof (cases "b \<or> c")
    case True
    obtain added where a: "array_union_loop elements existing new = Some (existing @ new @ added)"
      "subseq added elements" "fresh_elements (existing @ new) added" "\<forall>e \<in> set elements. occurs_in e (existing @ new @ added)"
      using Cons by auto
    have "occurs_in e (existing @ new)" using True b c ArrayContains_occurs by auto
    moreover have "array_union_loop (e # elements) existing new = Some (existing @ new @ added)"
      using a(1) b c True by auto
    ultimately show ?thesis using a by (intro exI [of _ added]) auto
  next
    case False
    obtain added where a: "array_union_loop elements existing (new @ [e]) = Some (existing @ (new @ [e]) @ added)"
      "subseq added elements" "fresh_elements (existing @ new @ [e]) added"
      "\<forall>x \<in> set elements. occurs_in x (existing @ (new @ [e]) @ added)"
      using Cons.IH [of "new @ [e]"] Cons.prems by auto
    have "fresh_elements (existing @ new) (e # added)"
      using a(3) b c False by (simp add: ArrayContains_append)
    moreover have "occurs_in e (e # added)" by (simp add: occurs_in_def)
    ultimately show ?thesis using a b c False by (intro exI [of _ "e # added"]) auto
  qed
qed

lemma array_remove_loop_ok:
  "values_ok elements \<Longrightarrow> values_ok old \<Longrightarrow>
   array_remove_loop elements old = Some (filter (\<lambda>v. ArrayContains elements v = Some False) old)"
proof (induction old)
  case (Cons v old)
  then obtain b where "ArrayContains elements v = Some b" using contains_total by auto
  then show ?case using Cons by (cases b) auto
qed simp

text \<open>Transforms of well-formed values give well-formed values.\<close>

lemma value_ok_distinct: "value_ok v \<Longrightarrow> value_distinct v"
  by (induction v rule: value_ok.induct) auto

lemma GetPreviousValue_distinct:
  "value_distinct v \<Longrightarrow> GetPreviousValue v = Some p \<Longrightarrow> value_distinct p"
  and "\<forall>f \<in> set fs. value_distinct (snd f) \<Longrightarrow> GetPreviousValue_in fs = Some p \<Longrightarrow> value_distinct p"
  by (induction v and fs rule: GetPreviousValue_GetPreviousValue_in.induct) (auto split: if_splits)

lemma EncodeServerTimestamp_ok:
  assumes "\<forall>p. prev = Some p \<longrightarrow> value_distinct p"
  shows "value_distinct (EncodeServerTimestamp t prev) \<and> IsServerTimestamp (EncodeServerTimestamp t prev)"
  using assms
  by (auto simp: EncodeServerTimestamp_def kTypeKey_def kLocalWriteTimeKey_def kPreviousValueKey_def
      split: option.splits if_splits dest: GetPreviousValue_distinct)

lemma union_values: "array_union_loop es old [] = Some vs \<Longrightarrow> values_ok es \<Longrightarrow> values_ok old \<Longrightarrow> set vs \<subseteq> set es \<union> set old"
  using array_union_loop_ok [of es old "[]"] by (auto dest: list_emb_set)

lemma local_transform_result:
  assumes "transform_ok op" "\<forall>p. prev = Some p \<longrightarrow> value_ok p"
  shows "\<exists>v. Transform_ApplyToLocalView op prev t = Some v \<and> transform_result_type op v \<and> value_distinct v"
proof -
  have coerced: "values_ok (CoercedFieldValueArray prev)"
    using assms(2) by (cases prev; cases "the prev") (auto simp: values_ok_def)
  have number: "value_distinct v" if "IsNumber (Some v)" for v using that by (cases v) auto
  show ?thesis
  proof (cases op)
    case ServerTimestampTransform
    then show ?thesis using EncodeServerTimestamp_ok [of prev t] assms(2) value_ok_distinct by auto
  next
    case (ArrayUnion es)
    then have "values_ok es" using assms(1) by (simp add: values_ok_def)
    then obtain added where a: "array_union_loop es (CoercedFieldValueArray prev) [] = Some (CoercedFieldValueArray prev @ added)"
      "subseq added es" using array_union_loop_ok [of es _ "[]"] coerced by fastforce
    then have "set added \<subseteq> set es" by (auto dest: list_emb_set)
    then have "value_distinct (array_value (CoercedFieldValueArray prev @ added))"
      using \<open>values_ok es\<close> coerced value_ok_distinct by (auto simp: values_ok_def)
    then show ?thesis using a(1) ArrayUnion by (simp add: ArrayUnion_Apply_def)
  next
    case (ArrayRemove es)
    then have "values_ok es" using assms(1) by (simp add: values_ok_def)
    then show ?thesis using array_remove_loop_ok [OF _ coerced, of es] coerced ArrayRemove value_ok_distinct
      by (auto simp: ArrayRemove_Apply_def values_ok_def)
  next
    case (NumericIncrementTransform x)
    then show ?thesis using Increment_number [of x prev] assms(1) number by auto
  next
    case (NumericMinimumTransform x)
    then show ?thesis using Minimum_number [of x prev] assms(1) number by auto
  next
    case (NumericMaximumTransform x)
    then show ?thesis using Maximum_number [of x prev] assms(1) number by auto
  qed
qed

text \<open>C26: The latency-compensated result of a transform is defined for every previous value
  (missing or of any type) and has the type of the transform: numbers for the numeric
  transforms, arrays for the array transforms, a server timestamp for the timestamp
  transform.\<close>

theorem local_transform_typed:
  assumes "transform_ok op" "\<forall>p. prev = Some p \<longrightarrow> value_ok p"
  shows "\<exists>v. Transform_ApplyToLocalView op prev t = Some v \<and> transform_result_type op v"
  using local_transform_result [OF assms, of t] by blast

theorem local_transform_typed_witness:
  "\<exists>v. Transform_ApplyToLocalView (NumericIncrementTransform (integer_value 3)) (Some (string_value ''x'')) SnapshotVersion_None =
     Some v \<and> IsNumber (Some v)"
  using local_transform_typed [of "NumericIncrementTransform (integer_value 3)" "Some (string_value ''x'')" SnapshotVersion_None]
  by simp

text \<open>An array union keeps the previous array and appends, in order, those of its elements
  that equal nothing before them; afterwards every element occurs.  An array remove keeps
  exactly the values equal to none of its elements, in order.\<close>

theorem array_transforms_contents:
  assumes "values_ok elements" "values_ok old"
  shows "(\<exists>added. ArrayUnion_Apply elements (Some (array_value old)) = Some (array_value (old @ added)) \<and>
      subseq added elements \<and> fresh_elements old added \<and> (\<forall>e \<in> set elements. occurs_in e (old @ added))) \<and>
    ArrayRemove_Apply elements (Some (array_value old)) =
      Some (array_value (filter (\<lambda>v. ArrayContains elements v = Some False) old))"
  using array_union_loop_ok [OF assms, of "[]"] array_remove_loop_ok [OF assms]
  by (auto simp: ArrayUnion_Apply_def ArrayRemove_Apply_def)

theorem array_transforms_contents_witness:
  "ArrayRemove_Apply [boolean_value True] (Some (array_value [boolean_value True, boolean_value False])) =
     Some (array_value [boolean_value False])"
  using array_transforms_contents [of "[boolean_value True]" "[boolean_value True, boolean_value False]"]
  by (simp add: ValueEquals.simps)

end
