(* ===== verification/Mutations.thy ===== *)
theory Mutations
  imports Documents
begin

text \<open>
  Mutations and mutation batches (\<^verbatim>\<open>model/mutation.cc\<close>, \<^verbatim>\<open>set_mutation.cc\<close>,
  \<^verbatim>\<open>patch_mutation.cc\<close>, \<^verbatim>\<open>delete_mutation.cc\<close>, \<^verbatim>\<open>verify_mutation.cc\<close>,
  \<^verbatim>\<open>mutation_batch.cc\<close>, \<^verbatim>\<open>mutation_batch_result.cc\<close>).  A mutation is applied to the
  document of its key, locally (before the backend answers) or remotely (with the result of the
  backend); the document passed by reference is returned.  None is a failed \<^verbatim>\<open>HARD_ASSERT\<close>.
\<close>

section \<open>Mutations\<close>

record FieldTransform =
  ft_path :: path
  transformation :: TransformOperation

record MutationResult =
  result_version :: SnapshotVersion
  transform_results :: "Value list"

datatype Mutation =
    SetMutation path fields Precondition "FieldTransform list"
  | PatchMutation path fields FieldMask Precondition "FieldTransform list"
  | DeleteMutation path Precondition
  | VerifyMutation path Precondition

fun mutation_key :: "Mutation \<Rightarrow> path" where
  "mutation_key (SetMutation key value precondition transforms) = key"
| "mutation_key (PatchMutation key value field_mask precondition transforms) = key"
| "mutation_key (DeleteMutation key precondition) = key"
| "mutation_key (VerifyMutation key precondition) = key"

fun mutation_precondition :: "Mutation \<Rightarrow> Precondition" where
  "mutation_precondition (SetMutation key value precondition transforms) = precondition"
| "mutation_precondition (PatchMutation key value field_mask precondition transforms) = precondition"
| "mutation_precondition (DeleteMutation key precondition) = precondition"
| "mutation_precondition (VerifyMutation key precondition) = precondition"

fun field_transforms :: "Mutation \<Rightarrow> FieldTransform list" where
  "field_transforms (SetMutation key value precondition transforms) = transforms"
| "field_transforms (PatchMutation key value field_mask precondition transforms) = transforms"
| "field_transforms _ = []"

definition VerifyKeyMatches :: "path \<Rightarrow> MutableDocument \<Rightarrow> unit option" where
  "VerifyKeyMatches key document = (if doc_key document = key then Some () else None)"

fun LocalTransformResults_loop ::
  "FieldTransform list \<Rightarrow> fields \<Rightarrow> Timestamp \<Rightarrow> TransformMap \<Rightarrow> TransformMap option" where
  "LocalTransformResults_loop [] previous_data local_write_time results = Some results"
| "LocalTransformResults_loop (field_transform # transforms) previous_data local_write_time results =
     do {
       transformed_value \<leftarrow> Transform_ApplyToLocalView (transformation field_transform)
         (ObjectValue_Get previous_data (ft_path field_transform)) local_write_time;
       LocalTransformResults_loop transforms previous_data local_write_time
         (tm_insert (ft_path field_transform) (Some transformed_value) results)
     }"

definition LocalTransformResults :: "FieldTransform list \<Rightarrow> fields \<Rightarrow> Timestamp \<Rightarrow> TransformMap option" where
  "LocalTransformResults transforms previous_data local_write_time =
     LocalTransformResults_loop transforms previous_data local_write_time []"

fun ServerTransformResults_loop ::
  "FieldTransform list \<Rightarrow> fields \<Rightarrow> Value list \<Rightarrow> TransformMap \<Rightarrow> TransformMap option" where
  "ServerTransformResults_loop (field_transform # transforms) previous_data (value # values) results =
     do {
       transformed_value \<leftarrow> Transform_ApplyToRemoteDocument (transformation field_transform)
         (ObjectValue_Get previous_data (ft_path field_transform)) value;
       ServerTransformResults_loop transforms previous_data values
         (tm_insert (ft_path field_transform) (Some transformed_value) results)
     }"
| "ServerTransformResults_loop _ previous_data _ results = Some results"

definition ServerTransformResults :: "FieldTransform list \<Rightarrow> fields \<Rightarrow> Value list \<Rightarrow> TransformMap option" where
  "ServerTransformResults transforms previous_data server_transform_results =
     (if length transforms \<noteq> length server_transform_results then None
      else ServerTransformResults_loop transforms previous_data server_transform_results [])"

fun GetPatch_loop :: "path list \<Rightarrow> fields \<Rightarrow> TransformMap \<Rightarrow> TransformMap" where
  "GetPatch_loop [] value result = result"
| "GetPatch_loop (path # paths) value result =
     GetPatch_loop paths value
       (if path \<noteq> [] then tm_insert path (ObjectValue_Get value path) result else result)"

definition GetPatch :: "FieldMask \<Rightarrow> fields \<Rightarrow> TransformMap" where
  "GetPatch field_mask value = GetPatch_loop field_mask value []"

definition merge_mask :: "FieldMask \<Rightarrow> FieldMask \<Rightarrow> FieldTransform list \<Rightarrow> FieldMask" where
  "merge_mask previous_mask field_mask transforms =
     fold mask_insert (map ft_path transforms) (fold mask_insert field_mask previous_mask)"

section \<open>Local application\<close>

definition SetMutation_ApplyToLocalView ::
  "path \<Rightarrow> fields \<Rightarrow> Precondition \<Rightarrow> FieldTransform list \<Rightarrow> MutableDocument \<Rightarrow> FieldMask option \<Rightarrow> Timestamp \<Rightarrow>
   (MutableDocument \<times> FieldMask option) option"
where
  "SetMutation_ApplyToLocalView key value precondition transforms document previous_mask local_write_time =
     do {
       _ \<leftarrow> VerifyKeyMatches key document;
       if \<not> IsValidFor precondition document then Some (document, previous_mask)
       else do {
         results \<leftarrow> LocalTransformResults transforms (doc_value document) local_write_time;
         new_data \<leftarrow> ObjectValue_SetAll results value;
         Some (SetHasLocalMutations (ConvertToFoundDocument (doc_version document) new_data document), None)
       }
     }"

definition PatchMutation_ApplyToLocalView ::
  "path \<Rightarrow> fields \<Rightarrow> FieldMask \<Rightarrow> Precondition \<Rightarrow> FieldTransform list \<Rightarrow> MutableDocument \<Rightarrow> FieldMask option \<Rightarrow> Timestamp \<Rightarrow>
   (MutableDocument \<times> FieldMask option) option"
where
  "PatchMutation_ApplyToLocalView key value field_mask precondition transforms document previous_mask local_write_time =
     do {
       _ \<leftarrow> VerifyKeyMatches key document;
       if \<not> IsValidFor precondition document then Some (document, previous_mask)
       else do {
         results \<leftarrow> LocalTransformResults transforms (doc_value document) local_write_time;
         data \<leftarrow> ObjectValue_SetAll (GetPatch field_mask value) (doc_value document);
         data \<leftarrow> ObjectValue_SetAll results data;
         let document = document\<lparr>doc_value := data\<rparr>;
             document = SetHasLocalMutations (ConvertToFoundDocument_version (doc_version document) document)
         in Some (document, map_option (\<lambda>m. merge_mask m field_mask transforms) previous_mask)
       }
     }"

definition DeleteMutation_ApplyToLocalView ::
  "path \<Rightarrow> Precondition \<Rightarrow> MutableDocument \<Rightarrow> FieldMask option \<Rightarrow> (MutableDocument \<times> FieldMask option) option"
where
  "DeleteMutation_ApplyToLocalView key precondition document previous_mask =
     do {
       _ \<leftarrow> VerifyKeyMatches key document;
       if IsValidFor precondition document
       then Some (SetHasLocalMutations (ConvertToNoDocument SnapshotVersion_None document), None)
       else Some (document, previous_mask)
     }"

text \<open>The virtual method; a verify mutation fails.\<close>

fun Mutation_ApplyToLocalView ::
  "Mutation \<Rightarrow> MutableDocument \<Rightarrow> FieldMask option \<Rightarrow> Timestamp \<Rightarrow> (MutableDocument \<times> FieldMask option) option"
where
  "Mutation_ApplyToLocalView (SetMutation key value precondition transforms) document previous_mask local_write_time =
     SetMutation_ApplyToLocalView key value precondition transforms document previous_mask local_write_time"
| "Mutation_ApplyToLocalView (PatchMutation key value field_mask precondition transforms) document previous_mask local_write_time =
     PatchMutation_ApplyToLocalView key value field_mask precondition transforms document previous_mask local_write_time"
| "Mutation_ApplyToLocalView (DeleteMutation key precondition) document previous_mask local_write_time =
     DeleteMutation_ApplyToLocalView key precondition document previous_mask"
| "Mutation_ApplyToLocalView (VerifyMutation key precondition) document previous_mask local_write_time = None"

section \<open>Remote application\<close>

definition SetMutation_ApplyToRemoteDocument ::
  "path \<Rightarrow> fields \<Rightarrow> FieldTransform list \<Rightarrow> MutableDocument \<Rightarrow> MutationResult \<Rightarrow> MutableDocument option"
where
  "SetMutation_ApplyToRemoteDocument key value transforms document mutation_result =
     do {
       _ \<leftarrow> VerifyKeyMatches key document;
       results \<leftarrow> ServerTransformResults transforms (doc_value document) (transform_results mutation_result);
       new_data \<leftarrow> ObjectValue_SetAll results value;
       Some (SetHasCommittedMutations (ConvertToFoundDocument (result_version mutation_result) new_data document))
     }"

definition PatchMutation_ApplyToRemoteDocument ::
  "path \<Rightarrow> fields \<Rightarrow> FieldMask \<Rightarrow> Precondition \<Rightarrow> FieldTransform list \<Rightarrow> MutableDocument \<Rightarrow> MutationResult \<Rightarrow>
   MutableDocument option"
where
  "PatchMutation_ApplyToRemoteDocument key value field_mask precondition transforms document mutation_result =
     do {
       _ \<leftarrow> VerifyKeyMatches key document;
       if \<not> IsValidFor precondition document
       then Some (ConvertToUnknownDocument (result_version mutation_result) document)
       else do {
         results \<leftarrow> ServerTransformResults transforms (doc_value document) (transform_results mutation_result);
         data \<leftarrow> ObjectValue_SetAll (GetPatch field_mask value) (doc_value document);
         data \<leftarrow> ObjectValue_SetAll results data;
         Some (SetHasCommittedMutations
           (ConvertToFoundDocument_version (result_version mutation_result) (document\<lparr>doc_value := data\<rparr>)))
       }
     }"

definition DeleteMutation_ApplyToRemoteDocument :: "path \<Rightarrow> MutableDocument \<Rightarrow> MutationResult \<Rightarrow> MutableDocument option" where
  "DeleteMutation_ApplyToRemoteDocument key document mutation_result =
     do {
       _ \<leftarrow> VerifyKeyMatches key document;
       if transform_results mutation_result \<noteq> [] then None
       else Some (SetHasCommittedMutations (ConvertToNoDocument (result_version mutation_result) document))
     }"

fun Mutation_ApplyToRemoteDocument :: "Mutation \<Rightarrow> MutableDocument \<Rightarrow> MutationResult \<Rightarrow> MutableDocument option" where
  "Mutation_ApplyToRemoteDocument (SetMutation key value precondition transforms) document mutation_result =
     SetMutation_ApplyToRemoteDocument key value transforms document mutation_result"
| "Mutation_ApplyToRemoteDocument (PatchMutation key value field_mask precondition transforms) document mutation_result =
     PatchMutation_ApplyToRemoteDocument key value field_mask precondition transforms document mutation_result"
| "Mutation_ApplyToRemoteDocument (DeleteMutation key precondition) document mutation_result =
     DeleteMutation_ApplyToRemoteDocument key document mutation_result"
| "Mutation_ApplyToRemoteDocument (VerifyMutation key precondition) document mutation_result = None"

named_theorems mutation_defs

lemmas [mutation_defs] =
  SetMutation_ApplyToLocalView_def PatchMutation_ApplyToLocalView_def DeleteMutation_ApplyToLocalView_def
  SetMutation_ApplyToRemoteDocument_def PatchMutation_ApplyToRemoteDocument_def
  DeleteMutation_ApplyToRemoteDocument_def VerifyKeyMatches_def

section \<open>Base values and overlays\<close>

fun ExtractTransformBaseValue_loop :: "FieldTransform list \<Rightarrow> fields \<Rightarrow> fields option \<Rightarrow> fields option option" where
  "ExtractTransformBaseValue_loop [] data base_object = Some base_object"
| "ExtractTransformBaseValue_loop (transform # transforms) data base_object =
     (case ComputeBaseValue (transformation transform) (ObjectValue_Get data (ft_path transform)) of
        None \<Rightarrow> ExtractTransformBaseValue_loop transforms data base_object
      | Some coerced_value \<Rightarrow> do {
          object \<leftarrow> ObjectValue_Set (ft_path transform) coerced_value (case base_object of None \<Rightarrow> [] | Some b \<Rightarrow> b);
          ExtractTransformBaseValue_loop transforms data (Some object)
        })"

definition ExtractTransformBaseValue :: "Mutation \<Rightarrow> MutableDocument \<Rightarrow> fields option option" where
  "ExtractTransformBaseValue mutation document =
     ExtractTransformBaseValue_loop (field_transforms mutation) (doc_value document) None"

definition mask_find :: "FieldMask \<Rightarrow> path \<Rightarrow> bool" where
  "mask_find field_mask path \<longleftrightarrow> list_ex (\<lambda>q. \<not> path_less path q \<and> \<not> path_less q path) field_mask"

fun overlay_loop :: "fields \<Rightarrow> path list \<Rightarrow> fields \<Rightarrow> FieldMask \<Rightarrow> (fields \<times> FieldMask) option" where
  "overlay_loop doc_data [] patch_value mask_set = Some (patch_value, mask_set)"
| "overlay_loop doc_data (path # paths) patch_value mask_set =
     (if mask_find mask_set path then overlay_loop doc_data paths patch_value mask_set
      else
        let path = (if ObjectValue_Get doc_data path = None \<and> length path > 1 then butlast path else path)
        in do {
          patch_value \<leftarrow> (case ObjectValue_Get doc_data path of
                            Some value \<Rightarrow> ObjectValue_Set path value patch_value
                          | None \<Rightarrow> ObjectValue_Delete path patch_value);
          overlay_loop doc_data paths patch_value (mask_insert path mask_set)
        })"

definition CalculateOverlayMutation :: "MutableDocument \<Rightarrow> FieldMask option \<Rightarrow> Mutation option option" where
  "CalculateOverlayMutation doc field_mask =
     (if \<not> has_local_mutations doc then Some None
      else case field_mask of
        None \<Rightarrow>
          Some (Some (if is_no_document doc then DeleteMutation (doc_key doc) Precondition_None
                      else SetMutation (doc_key doc) (doc_value doc) Precondition_None []))
      | Some m \<Rightarrow> do {
          (patch_value, mask_set) \<leftarrow> overlay_loop (doc_value doc) m [] [];
          Some (Some (PatchMutation (doc_key doc) patch_value mask_set Precondition_None []))
        })"

section \<open>Batches\<close>

record MutationBatch =
  batch_id :: int
  local_write_time :: Timestamp
  base_mutations :: "Mutation list"
  mutations :: "Mutation list"

definition make_MutationBatch :: "int \<Rightarrow> Timestamp \<Rightarrow> Mutation list \<Rightarrow> Mutation list \<Rightarrow> MutationBatch option" where
  "make_MutationBatch i write_time base_ms ms =
     (if ms = [] then None
      else Some \<lparr>batch_id = i, local_write_time = write_time, base_mutations = base_ms, mutations = ms\<rparr>)"

fun remote_loop :: "Mutation list \<Rightarrow> MutationResult list \<Rightarrow> MutableDocument \<Rightarrow> MutableDocument option" where
  "remote_loop (mutation # ms) (result # results) document =
     do {
       document \<leftarrow> (if mutation_key mutation = doc_key document
                    then Mutation_ApplyToRemoteDocument mutation document result else Some document);
       remote_loop ms results document
     }"
| "remote_loop _ _ document = Some document"

definition Batch_ApplyToRemoteDocument :: "MutationBatch \<Rightarrow> MutationResult list \<Rightarrow> MutableDocument \<Rightarrow> MutableDocument option" where
  "Batch_ApplyToRemoteDocument batch mutation_results document =
     (if length mutation_results \<noteq> length (mutations batch) then None
      else remote_loop (mutations batch) mutation_results document)"

fun local_loop ::
  "Timestamp \<Rightarrow> Mutation list \<Rightarrow> MutableDocument \<Rightarrow> FieldMask option \<Rightarrow> (MutableDocument \<times> FieldMask option) option"
where
  "local_loop write_time [] document mutated_fields = Some (document, mutated_fields)"
| "local_loop write_time (mutation # ms) document mutated_fields =
     do {
       (document, mutated_fields) \<leftarrow>
         (if mutation_key mutation = doc_key document
          then Mutation_ApplyToLocalView mutation document mutated_fields write_time
          else Some (document, mutated_fields));
       local_loop write_time ms document mutated_fields
     }"

definition ApplyToLocalDocument ::
  "MutationBatch \<Rightarrow> MutableDocument \<Rightarrow> FieldMask option \<Rightarrow> (MutableDocument \<times> FieldMask option) option"
where
  "ApplyToLocalDocument batch document previously_mutated_fields =
     do {
       (document, mutated_fields) \<leftarrow>
         local_loop (local_write_time batch) (base_mutations batch) document previously_mutated_fields;
       local_loop (local_write_time batch) (mutations batch) document mutated_fields
     }"

text \<open>The documents and the mutated fields of an \<^verbatim>\<open>OverlayedDocument\<close>.\<close>

type_synonym OverlayedDocumentMap = "path \<rightharpoonup> MutableDocument \<times> FieldMask option"

fun ApplyToLocalDocumentSet_loop ::
  "MutationBatch \<Rightarrow> Mutation list \<Rightarrow> OverlayedDocumentMap \<Rightarrow> (path \<rightharpoonup> Mutation) \<Rightarrow>
   (OverlayedDocumentMap \<times> (path \<rightharpoonup> Mutation)) option"
where
  "ApplyToLocalDocumentSet_loop batch [] document_map overlays = Some (document_map, overlays)"
| "ApplyToLocalDocumentSet_loop batch (mutation # ms) document_map overlays =
     do {
       let key = mutation_key mutation;
       (document, previous_fields) \<leftarrow> document_map key;
       (document, mutated_fields) \<leftarrow> ApplyToLocalDocument batch document previous_fields;
       overlay \<leftarrow> CalculateOverlayMutation document mutated_fields;
       let overlays = (case overlay of
                         Some m \<Rightarrow> (if overlays key = None then overlays(key \<mapsto> m) else overlays)
                       | None \<Rightarrow> overlays);
       let document = (if \<not> is_valid_document document
                       then ConvertToNoDocument SnapshotVersion_None document else document);
       ApplyToLocalDocumentSet_loop batch ms (document_map(key \<mapsto> (document, previous_fields))) overlays
     }"

definition ApplyToLocalDocumentSet ::
  "MutationBatch \<Rightarrow> OverlayedDocumentMap \<Rightarrow> (OverlayedDocumentMap \<times> (path \<rightharpoonup> Mutation)) option"
where
  "ApplyToLocalDocumentSet batch document_map =
     ApplyToLocalDocumentSet_loop batch (mutations batch) document_map Map.empty"

definition batch_keys :: "MutationBatch \<Rightarrow> path set" where
  "batch_keys batch = fold (\<lambda>mutation keys. insert (mutation_key mutation) keys) (mutations batch) {}"

fun doc_versions_loop :: "Mutation list \<Rightarrow> MutationResult list \<Rightarrow> (path \<rightharpoonup> SnapshotVersion) \<Rightarrow> (path \<rightharpoonup> SnapshotVersion)" where
  "doc_versions_loop (mutation # ms) (result # results) versions =
     doc_versions_loop ms results (versions(mutation_key mutation \<mapsto> result_version result))"
| "doc_versions_loop _ _ versions = versions"

definition MutationBatchResult_doc_versions ::
  "MutationBatch \<Rightarrow> MutationResult list \<Rightarrow> (path \<rightharpoonup> SnapshotVersion) option"
where
  "MutationBatchResult_doc_versions batch mutation_results =
     (if length (mutations batch) \<noteq> length mutation_results then None
      else Some (doc_versions_loop (mutations batch) mutation_results Map.empty))"

section \<open>Well-formed mutations\<close>

definition transforms_ok :: "FieldTransform list \<Rightarrow> bool" where
  "transforms_ok transforms \<longleftrightarrow> (\<forall>t \<in> set transforms. ft_path t \<noteq> [] \<and> transform_ok (transformation t))"

lemma transforms_ok_Cons [simp]:
  "transforms_ok (t # ts) \<longleftrightarrow> ft_path t \<noteq> [] \<and> transform_ok (transformation t) \<and> transforms_ok ts"
  by (auto simp: transforms_ok_def)

fun mutation_ok :: "Mutation \<Rightarrow> bool" where
  "mutation_ok (SetMutation key value precondition transforms) = (object_ok value \<and> transforms_ok transforms)"
| "mutation_ok (PatchMutation key value field_mask precondition transforms) = (object_ok value \<and> transforms_ok transforms)"
| "mutation_ok _ = True"

text \<open>Data whose comparisons are defined: server timestamps carry their write time.\<close>

definition data_ok :: "fields \<Rightarrow> bool" where
  "data_ok fs \<longleftrightarrow> object_ok fs \<and> (\<forall>f \<in> set fs. value_ok (snd f))"

lemma Get_in_closed:
  assumes "P v" "\<And>v fs k w. P v \<Longrightarrow> v = map_value fs \<Longrightarrow> (k, w) \<in> set fs \<Longrightarrow> P w"
  shows "Get_in v p = Some w \<Longrightarrow> P w"
  using assms(1)
proof (induction v p rule: Get_in.induct)
  case (2 v k p)
  then obtain u where u: "FindEntry v k = Some u" "Get_in u p = Some w" by (auto split: option.splits)
  then obtain fs where "v = map_value fs" "(k, u) \<in> set fs"
    by (cases v) (auto simp: FindEntry_def dest: map_of_SomeD)
  then show ?case using 2(1) [OF u(1,2)] assms(2) 2(3) by blast
qed simp

lemma Get_sorted: "object_ok fs \<Longrightarrow> ObjectValue_Get fs p = Some w \<Longrightarrow> value_sorted w"
  unfolding ObjectValue_Get_def object_ok_def
  by (rule Get_in_closed [where P = value_sorted]) auto

lemma Get_value_ok:
  assumes "data_ok fs" "p \<noteq> []" "ObjectValue_Get fs p = Some w"
  shows "value_ok w"
proof -
  obtain k q where p: "p = k # q" using assms(2) by (cases p) auto
  then obtain v where v: "map_of fs k = Some v" "Get_in v q = Some w"
    using assms(3) by (auto simp: Get_Cons split: option.splits)
  then have "value_ok v" using assms(1) by (auto simp: data_ok_def dest!: map_of_SomeD)
  moreover have "value_ok w" if "value_ok u" "u = map_value fs" "(k, w) \<in> set fs" for u fs k w
    using that by (force simp del: IsServerTimestamp.simps)
  ultimately show ?thesis using Get_in_closed [of value_ok v q w] v(2) by blast
qed

abbreviation entries_ok :: "TransformMap \<Rightarrow> bool" where
  "entries_ok tm \<equiv> \<forall>e \<in> set tm. entry_ok e"

lemma entry_ok_key: "entry_ok (p, v) \<Longrightarrow> entry_ok q \<Longrightarrow> entry_ok (fst q, v)"
  by (simp add: entry_ok_def)

lemma tm_insert_ok: "entries_ok tm \<Longrightarrow> entry_ok (p, v) \<Longrightarrow> entries_ok (tm_insert p v tm)"
  by (induction tm) (simp_all add: entry_ok_key)

lemma GetPatch_ok: "object_ok value \<Longrightarrow> entries_ok (GetPatch m value)"
proof -
  assume "object_ok value"
  have "entries_ok tm \<Longrightarrow> entries_ok (GetPatch_loop m value tm)" for tm
  proof (induction m arbitrary: tm)
    case (Cons p m)
    have "entry_ok (p, ObjectValue_Get value p)" if "p \<noteq> []"
      unfolding entry_ok_def fst_conv snd_conv
      using that Get_sorted [OF \<open>object_ok value\<close>] value_sorted_distinct by metis
    then have "entries_ok (if p \<noteq> [] then tm_insert p (ObjectValue_Get value p) tm else tm)"
      using tm_insert_ok [OF Cons.prems] Cons.prems by presburger
    then show ?case unfolding GetPatch_loop.simps by (rule Cons.IH)
  qed simp
  from this [of "[]"] show ?thesis by (simp add: GetPatch_def)
qed

lemma LocalTransformResults_ok:
  assumes "transforms_ok transforms" "data_ok data"
  shows "\<exists>r. LocalTransformResults transforms data t = Some r \<and> entries_ok r"
proof -
  have "entries_ok acc \<Longrightarrow> \<exists>r. LocalTransformResults_loop transforms data t acc = Some r \<and> entries_ok r" for acc
    using assms(1)
  proof (induction transforms arbitrary: acc)
    case (Cons ft transforms)
    have "\<forall>p. ObjectValue_Get data (ft_path ft) = Some p \<longrightarrow> value_ok p"
      using Get_value_ok [OF assms(2)] Cons.prems(2) by auto
    then obtain v where v: "Transform_ApplyToLocalView (transformation ft) (ObjectValue_Get data (ft_path ft)) t = Some v"
      "value_distinct v"
      using local_transform_result [of "transformation ft" "ObjectValue_Get data (ft_path ft)" t] Cons.prems(2) by auto
    then have "entries_ok (tm_insert (ft_path ft) (Some v) acc)"
      using Cons.prems by (intro tm_insert_ok) (auto simp: entry_ok_def)
    then show ?case using Cons v by simp
  qed simp
  from this [of "[]"] show ?thesis by (simp add: LocalTransformResults_def)
qed

section \<open>Local application\<close>

text \<open>What a document looks like after a mutation whose precondition held.\<close>

fun applied_type :: "Mutation \<Rightarrow> DocumentType" where
  "applied_type (DeleteMutation key precondition) = kNoDocument"
| "applied_type _ = kFoundDocument"

fun applied_mask :: "Mutation \<Rightarrow> FieldMask option \<Rightarrow> FieldMask option" where
  "applied_mask (PatchMutation key value field_mask precondition transforms) previous_mask =
     map_option (\<lambda>m. merge_mask m field_mask transforms) previous_mask"
| "applied_mask _ previous_mask = None"

definition locally_applied :: "Mutation \<Rightarrow> MutableDocument \<Rightarrow> MutableDocument \<Rightarrow> bool" where
  "locally_applied m document document' \<longleftrightarrow>
     doc_key document' = doc_key document \<and> document_type document' = applied_type m \<and>
     document_state document' = kHasLocalMutations \<and> doc_version document' = SnapshotVersion_None \<and>
     doc_read_time document' = doc_read_time document"

definition is_verify :: "Mutation \<Rightarrow> bool" where
  "is_verify m \<longleftrightarrow> (\<exists>k p. m = VerifyMutation k p)"

lemma local_application:
  assumes ok: "document_ok document" "data_ok (doc_value document)" "mutation_ok m"
    and key: "mutation_key m = doc_key document" and m: "\<not> is_verify m"
    and valid: "IsValidFor (mutation_precondition m) document"
  shows "\<exists>document'. Mutation_ApplyToLocalView m document previous t = Some (document', applied_mask m previous) \<and>
    document_ok document' \<and> locally_applied m document document'"
proof (cases m)
  case (SetMutation k data precondition transforms)
  obtain r where r: "LocalTransformResults transforms (doc_value document) t = Some r" "entries_ok r"
    using LocalTransformResults_ok [OF _ ok(2), of transforms t] ok(3) SetMutation by auto
  then obtain d where "ObjectValue_SetAll r data = Some d" "object_ok d"
    using SetAll_total [of data r] ok(3) SetMutation by auto
  then show ?thesis using SetMutation key valid r
    by (simp add: mutation_defs locally_applied_def document_ok_def document_defs)
next
  case (PatchMutation k data field_mask precondition transforms)
  obtain r where r: "LocalTransformResults transforms (doc_value document) t = Some r" "entries_ok r"
    using LocalTransformResults_ok [OF _ ok(2), of transforms t] ok(3) PatchMutation by auto
  obtain d where d: "ObjectValue_SetAll (GetPatch field_mask data) (doc_value document) = Some d" "object_ok d"
    using SetAll_total [OF _ GetPatch_ok [of data field_mask]] ok PatchMutation by (auto simp: data_ok_def)
  obtain d' where "ObjectValue_SetAll r d = Some d'" "object_ok d'"
    using SetAll_total [OF d(2) r(2)] by auto
  then show ?thesis using PatchMutation key valid r d
    by (simp add: mutation_defs locally_applied_def document_ok_def document_defs Let_def)
next
  case (DeleteMutation k precondition)
  then show ?thesis using key valid
    by (simp add: mutation_defs locally_applied_def document_ok_def document_defs)
next
  case (VerifyMutation k p)
  then show ?thesis using m by (simp add: is_verify_def)
qed

lemma local_application_invalid:
  assumes "mutation_key m = doc_key document" "\<not> is_verify m"
    "\<not> IsValidFor (mutation_precondition m) document"
  shows "Mutation_ApplyToLocalView m document previous t = Some (document, previous)"
  using assms by (cases m) (simp_all add: mutation_defs is_verify_def)

section \<open>Remote application\<close>

lemma remote_transform_result:
  assumes "transform_ok op" "\<forall>p. prev = Some p \<longrightarrow> value_ok p" "value_distinct result"
  shows "\<exists>v. Transform_ApplyToRemoteDocument op prev result = Some v \<and> value_distinct v"
  using local_transform_result [OF assms(1,2), of SnapshotVersion_None] assms(3) by (cases op) auto

lemma ServerTransformResults_ok:
  assumes "transforms_ok transforms" "data_ok data" "length transforms = length results" "\<forall>v \<in> set results. value_distinct v"
  shows "\<exists>r. ServerTransformResults transforms data results = Some r \<and> entries_ok r"
proof -
  have "entries_ok acc \<Longrightarrow> \<exists>r. ServerTransformResults_loop transforms data results acc = Some r \<and> entries_ok r" for acc
    using assms(3,1,4)
  proof (induction transforms results arbitrary: acc rule: list_induct2)
    case (Cons ft transforms w results)
    have "\<forall>p. ObjectValue_Get data (ft_path ft) = Some p \<longrightarrow> value_ok p"
      using Get_value_ok [OF assms(2)] Cons.prems(2) by auto
    then obtain v where v: "Transform_ApplyToRemoteDocument (transformation ft) (ObjectValue_Get data (ft_path ft)) w = Some v"
      "value_distinct v"
      using remote_transform_result [of "transformation ft" "ObjectValue_Get data (ft_path ft)" w] Cons.prems(2,3) by auto
    then have "entries_ok (tm_insert (ft_path ft) (Some v) acc)"
      using Cons.prems by (intro tm_insert_ok) (auto simp: entry_ok_def)
    then show ?case using Cons v by simp
  qed simp
  from this [of "[]"] show ?thesis using assms(3) by (simp add: ServerTransformResults_def)
qed

fun acknowledged_type :: "Mutation \<Rightarrow> MutableDocument \<Rightarrow> DocumentType" where
  "acknowledged_type (SetMutation key value precondition transforms) document = kFoundDocument"
| "acknowledged_type (PatchMutation key value field_mask precondition transforms) document =
     (if IsValidFor precondition document then kFoundDocument else kUnknownDocument)"
| "acknowledged_type _ document = kNoDocument"

section \<open>Properties of single mutations\<close>

text \<open>C24: Applying a set, patch or delete mutation to the local view succeeds on every well-formed
  document; a verify mutation always fails.  When the precondition holds the document has local
  mutations, the type of the mutation (found after a set or patch, none after a delete) and no
  version: the version is reset to \<^verbatim>\<open>SnapshotVersion::None\<close> also where the document had one,
  although the comment and the transition table of \<^verbatim>\<open>model/mutation.h\<close> let local sets and patches
  keep it.  The mask of changed fields is dropped by sets and deletes and extended by patches.
  When the precondition does not hold nothing changes.\<close>

theorem local_application_transition:
  assumes "document_ok document" "data_ok (doc_value document)" "mutation_ok m"
    and "mutation_key m = doc_key document"
  shows "if is_verify m then Mutation_ApplyToLocalView m document previous t = None
    else \<exists>document' mask'. Mutation_ApplyToLocalView m document previous t = Some (document', mask') \<and> document_ok document' \<and>
      (if IsValidFor (mutation_precondition m) document
       then locally_applied m document document' \<and> mask' = applied_mask m previous
       else document' = document \<and> mask' = previous)"
proof (cases "is_verify m")
  case True
  then show ?thesis by (auto simp: is_verify_def)
next
  case False
  then show ?thesis using local_application [OF assms False] local_application_invalid [OF assms(4) False] assms(1)
    by (cases "IsValidFor (mutation_precondition m) document") fastforce+
qed

theorem local_application_transition_witness:
  "\<exists>document' mask'. Mutation_ApplyToLocalView (PatchMutation [''c'', ''d''] [] [] Precondition_None [])
     (FoundDocument [''c'', ''d''] \<lparr>seconds = 3, nanos = 0\<rparr> []) (Some []) \<lparr>seconds = 9, nanos = 0\<rparr> = Some (document', mask') \<and>
     doc_version document' = SnapshotVersion_None"
  using local_application_transition [of "FoundDocument [''c'', ''d''] \<lparr>seconds = 3, nanos = 0\<rparr> []"
      "PatchMutation [''c'', ''d''] [] [] Precondition_None []" "Some []" "\<lparr>seconds = 9, nanos = 0\<rparr>"]
  by (auto simp: document_ok_def FoundDocument_def InvalidDocument_def document_defs data_ok_def transforms_ok_def
      is_verify_def locally_applied_def)

text \<open>C25: Applying an acknowledged mutation succeeds and leaves the document committed at the
  version of the backend: found after a set, deleted after a delete, and after a patch found
  when the precondition holds on the cached document and unknown otherwise.\<close>

theorem acknowledged_application_transition:
  assumes "document_ok document" "data_ok (doc_value document)" "mutation_ok m"
    and "mutation_key m = doc_key document" "\<not> is_verify m"
    and "length (transform_results result) = length (field_transforms m)"
    and "\<forall>v \<in> set (transform_results result). value_distinct v"
  shows "\<exists>document'. Mutation_ApplyToRemoteDocument m document result = Some document' \<and> document_ok document' \<and>
    doc_key document' = doc_key document \<and> doc_version document' = result_version result \<and>
    has_committed_mutations document' \<and> document_type document' = acknowledged_type m document"
proof (cases m)
  case (SetMutation k data precondition transforms)
  obtain r where r: "ServerTransformResults transforms (doc_value document) (transform_results result) = Some r" "entries_ok r"
    using ServerTransformResults_ok [OF _ assms(2) _ assms(7), of transforms] assms(3,6) SetMutation by auto
  then obtain d where "ObjectValue_SetAll r data = Some d" "object_ok d"
    using SetAll_total [of data r] assms(3) SetMutation by auto
  then show ?thesis using SetMutation assms(4) r
    by (simp add: mutation_defs document_ok_def document_defs)
next
  case (PatchMutation k data field_mask precondition transforms)
  obtain r where r: "ServerTransformResults transforms (doc_value document) (transform_results result) = Some r" "entries_ok r"
    using ServerTransformResults_ok [OF _ assms(2) _ assms(7), of transforms] assms(3,6) PatchMutation by auto
  obtain d where d: "ObjectValue_SetAll (GetPatch field_mask data) (doc_value document) = Some d" "object_ok d"
    using SetAll_total [OF _ GetPatch_ok [of data field_mask]] assms(2,3) PatchMutation by (auto simp: data_ok_def)
  obtain d' where "ObjectValue_SetAll r d = Some d'" "object_ok d'"
    using SetAll_total [OF d(2) r(2)] by auto
  then show ?thesis using PatchMutation assms(4) r d
    by (simp add: mutation_defs document_ok_def document_defs)
next
  case (DeleteMutation k precondition)
  then show ?thesis using assms(4,6)
    by (simp add: mutation_defs document_ok_def document_defs)
next
  case (VerifyMutation k p)
  then show ?thesis using assms(5) by (simp add: is_verify_def)
qed

theorem acknowledged_application_transition_witness:
  "\<exists>document'. Mutation_ApplyToRemoteDocument (PatchMutation [''c'', ''d''] [] [] (Precondition_Exists True) [])
     (InvalidDocument [''c'', ''d'']) \<lparr>result_version = \<lparr>seconds = 7, nanos = 0\<rparr>, transform_results = []\<rparr> = Some document' \<and>
     document_type document' = kUnknownDocument"
  using acknowledged_application_transition [of "InvalidDocument [''c'', ''d'']"
      "PatchMutation [''c'', ''d''] [] [] (Precondition_Exists True) []"
      "\<lparr>result_version = \<lparr>seconds = 7, nanos = 0\<rparr>, transform_results = []\<rparr>"]
  by (auto simp: document_ok_def InvalidDocument_def document_defs data_ok_def transforms_ok_def is_verify_def)

end
