(* ===== verification/Overlays.thy ===== *)
theory Overlays
  imports Mutations
begin

text \<open>
  Overlays (\<^verbatim>\<open>Mutation::CalculateOverlayMutation\<close> in \<^verbatim>\<open>model/mutation.cc\<close>): the mutation
  computed from a locally changed document and the mask of its changed fields stands for all
  the mutations that led to it.  The lemmas show that masks are strictly ordered lists, that a
  chain of patches changes nothing apart from the mask it collects, and that the overlay,
  applied to any base that agrees with the document apart from the mask, gives the document.
\<close>

section \<open>Ordered masks\<close>

definition plain_path :: "path \<Rightarrow> bool" where
  "plain_path p \<longleftrightarrow> p \<noteq> [] \<and> (\<forall>s \<in> set p. \<not> IsNumericId s)"

lemma string_key_eq: "string_key s = string_key t \<longleftrightarrow> s = t"
  using string_key_compare [of s t] okey_compare_Same [of "string_key s" "string_key t"] by simp

lemma segment_key_plain: "\<not> IsNumericId s \<Longrightarrow> \<not> IsNumericId t \<Longrightarrow> segment_key s = segment_key t \<longleftrightarrow> s = t"
  by (simp add: segment_key_def string_key_eq)

lemma path_key_inj: "plain_path p \<Longrightarrow> plain_path q \<Longrightarrow> path_key p = path_key q \<longleftrightarrow> p = q"
proof -
  have "\<forall>s \<in> set p. \<not> IsNumericId s \<Longrightarrow> \<forall>s \<in> set q. \<not> IsNumericId s \<Longrightarrow>
      map segment_key p = map segment_key q \<Longrightarrow> p = q"
  proof (induction p arbitrary: q)
    case (Cons s p)
    obtain t q' where q: "q = t # q'" using Cons.prems(3) by (cases q) auto
    have "segment_key s = segment_key t" "map segment_key p = map segment_key q'"
      using Cons.prems(3) by (simp_all only: q list.map list.inject)
    moreover have "\<not> IsNumericId s" "\<not> IsNumericId t" using Cons.prems(1,2) q by simp_all
    ultimately have "s = t" "p = q'" using segment_key_plain Cons.IH [of q'] Cons.prems(1,2) q by simp_all
    then show ?case using q by simp
  qed simp
  then show "plain_path p \<Longrightarrow> plain_path q \<Longrightarrow> path_key p = path_key q \<longleftrightarrow> p = q"
    by (auto simp: plain_path_def path_key_def)
qed

lemma path_less_key:
  assumes "plain_path p" "plain_path q"
  shows "path_less p q \<longleftrightarrow> path_key p < path_key q"
proof -
  have "list_all segment_ok p" "list_all segment_ok q"
    using assms by (auto simp: plain_path_def segment_ok_def list_all_iff)
  then show ?thesis by (simp add: path_less_def path_CompareTo_key less_okey_def)
qed

definition mask_ok :: "FieldMask \<Rightarrow> bool" where
  "mask_ok m \<longleftrightarrow> (\<forall>p \<in> set m. plain_path p) \<and> sorted_wrt (\<lambda>p q. path_key p < path_key q) m"

lemma mask_ok_Nil [simp]: "mask_ok []"
  by (simp add: mask_ok_def)

lemma mask_ok_Cons: "mask_ok (p # m) \<longleftrightarrow> plain_path p \<and> (\<forall>q \<in> set m. path_key p < path_key q) \<and> mask_ok m"
  by (auto simp: mask_ok_def)

lemma mask_ok_distinct: "mask_ok m \<Longrightarrow> distinct m"
  by (induction m) (auto simp: mask_ok_Cons)

lemma mask_insert_ok: "mask_ok m \<Longrightarrow> plain_path p \<Longrightarrow> mask_ok (mask_insert p m) \<and> set (mask_insert p m) = insert p (set m)"
proof (induction m)
  case (Cons q m)
  then have q: "plain_path q" by (simp add: mask_ok_Cons)
  note less = path_less_key [OF Cons.prems(2) q] path_less_key [OF q Cons.prems(2)] path_key_inj [OF Cons.prems(2) q]
  consider "path_key p < path_key q" | "path_key q < path_key p" | "p = q" using less(3) by fastforce
  then show ?case
  proof cases
    case 1
    then have "\<forall>r \<in> set m. path_key p < path_key r" using Cons.prems(1) by (auto simp: mask_ok_Cons intro: order.strict_trans)
    then show ?thesis using 1 Cons.prems less by (simp add: mask_ok_Cons)
  next
    case 2
    then have "\<not> path_key p < path_key q" by simp
    then show ?thesis using 2 Cons less by (auto simp: mask_ok_Cons)
  next
    case 3
    then show ?thesis using Cons.prems less by auto
  qed
qed (simp add: mask_ok_def)

lemma fold_mask_insert_ok:
  "mask_ok m \<Longrightarrow> \<forall>p \<in> set ps. plain_path p \<Longrightarrow>
   mask_ok (fold mask_insert ps m) \<and> set (fold mask_insert ps m) = set ps \<union> set m"
  by (induction ps arbitrary: m) (use mask_insert_ok in auto)

lemma mask_insert_last: "mask_ok (m @ [p]) \<Longrightarrow> mask_insert p m = m @ [p]"
proof (induction m)
  case (Cons q m)
  then have q: "plain_path q" "plain_path p" "path_key q < path_key p" and m: "mask_ok (m @ [p])"
    by (auto simp: mask_ok_Cons mask_ok_def)
  then have "path_less q p" "\<not> path_less p q" by (simp_all add: path_less_key)
  then show ?case using Cons.IH [OF m] by simp
qed simp

lemma mask_find_iff: "mask_ok m \<Longrightarrow> plain_path p \<Longrightarrow> mask_find m p \<longleftrightarrow> p \<in> set m"
proof (induction m)
  case (Cons q m)
  then have "plain_path q" by (simp add: mask_ok_Cons)
  then show ?case using Cons path_less_key [of p q] path_less_key [of q p] path_key_inj [of p q]
    by (auto simp: mask_find_def mask_ok_Cons)
qed (simp add: mask_find_def)

text \<open>Transform maps are ordered by their paths in the same way.\<close>

lemma tm_insert_paths: "map fst (tm_insert p v tm) = mask_insert p (map fst tm)"
  by (induction tm) auto

lemma tm_insert_last: "mask_ok (map fst tm @ [p]) \<Longrightarrow> tm_insert p v tm = tm @ [(p, v)]"
proof (induction tm)
  case (Cons e tm)
  then have q: "plain_path (fst e)" "plain_path p" "path_key (fst e) < path_key p" and m: "mask_ok (map fst tm @ [p])"
    by (auto simp: mask_ok_Cons mask_ok_def)
  then have "path_less (fst e) p" "\<not> path_less p (fst e)" by (simp_all add: path_less_key)
  then show ?case using Cons.IH [OF m] by simp
qed simp

lemma GetPatch_mask: "mask_ok m \<Longrightarrow> GetPatch m data = map (\<lambda>p. (p, ObjectValue_Get data p)) m"
proof -
  have "mask_ok (map fst tm @ m) \<Longrightarrow> GetPatch_loop m data tm = tm @ map (\<lambda>p. (p, ObjectValue_Get data p)) m" for tm
  proof (induction m arbitrary: tm)
    case (Cons p m)
    have "mask_ok (map fst tm @ [p])" using Cons.prems by (auto simp: mask_ok_def sorted_wrt_append)
    moreover have "p \<noteq> []" using Cons.prems by (auto simp: mask_ok_def plain_path_def)
    ultimately show ?case using Cons.IH [of "tm @ [(p, ObjectValue_Get data p)]"] Cons.prems by (simp add: tm_insert_last)
  qed simp
  from this [of "[]"] show "mask_ok m \<Longrightarrow> ?thesis" by (simp add: GetPatch_def)
qed

section \<open>Copying fields of a document\<close>

lemma insert_upsert_same: "strict_keys fs \<Longrightarrow> map_of fs k = Some v \<Longrightarrow> insert_upsert k v fs = fs"
  by (rule strict_keys_unique) (auto simp: insert_upsert_strict map_of_insert_upsert)

lemma Get_map_value: "Get_in v (k # p) = Some w \<Longrightarrow> \<exists>fs. v = map_value fs \<and> ObjectValue_Get fs (k # p) = Some w"
  by (cases v) (auto simp: ObjectValue_Get_def FindEntry_def)

lemma update_at_same:
  "object_ok fs \<Longrightarrow> ObjectValue_Get fs (p @ [k]) = Some v \<Longrightarrow> update_at p (entry_change k (Some v)) fs = fs"
proof (induction p arbitrary: fs)
  case Nil
  then have "map_of fs k = Some v" by (simp add: Get_Cons split: option.splits)
  then show ?case using Nil(1) object_ok_lookup [OF Nil(1)]
    by (simp add: entry_change_def SortFields_sorted insert_upsert_same object_ok_strict)
next
  case (Cons j p)
  then obtain u where u: "map_of fs j = Some u" "Get_in u (p @ [k]) = Some v"
    by (auto simp: Get_Cons split: option.splits)
  then obtain sub where sub: "u = map_value sub" "ObjectValue_Get sub (p @ [k]) = Some v"
    using Get_map_value [of u "hd (p @ [k])" "tl (p @ [k])" v] by (cases p) auto
  have "submap fs j = sub" using u sub by (simp add: submap_def)
  then have "update_at p (entry_change k (Some v)) (submap fs j) = sub"
    using Cons.IH [of sub] sub(2) object_ok_submap [OF Cons.prems(1), of j] by simp
  then show ?case using u sub insert_upsert_same [OF object_ok_strict [OF Cons.prems(1)] u(1)] by simp
qed

lemma set_entry_same:
  assumes "object_ok fs" "p \<noteq> []" "ObjectValue_Get fs p = Some v"
  shows "set_entry (p, Some v) fs = fs"
  using update_at_same [OF assms(1), of "butlast p" "last p" v] assms(2,3) by (simp add: set_entry_def)

text \<open>Objects that agree below a set of paths.\<close>

definition agree_below :: "path set \<Rightarrow> fields \<Rightarrow> fields \<Rightarrow> bool" where
  "agree_below D fs gs \<longleftrightarrow> (\<forall>p \<in> D. \<forall>r. ObjectValue_Get fs (p @ r) = ObjectValue_Get gs (p @ r))"

definition agree_apart :: "path set \<Rightarrow> fields \<Rightarrow> fields \<Rightarrow> bool" where
  "agree_apart D fs gs \<longleftrightarrow> (\<forall>q. (\<forall>p \<in> D. paths_apart p q) \<longrightarrow> ObjectValue_Get fs q = ObjectValue_Get gs q)"

lemma prefix_cases:
  obtains "paths_apart p q" | r where "q = p @ r" | r where "p = q @ r"
  by (metis IsPrefixOf_def append_take_drop_id paths_apart_def)

lemma IsPrefixOf_iff: "IsPrefixOf p q \<longleftrightarrow> (\<exists>r. q = p @ r)"
  unfolding IsPrefixOf_def by (metis append_eq_conv_conj append_take_drop_id length_append le_add1)

lemma entry_of_document: "object_ok data \<Longrightarrow> p \<noteq> [] \<Longrightarrow> entry_ok (p, ObjectValue_Get data p)"
  unfolding entry_ok_def fst_conv snd_conv using Get_sorted value_sorted_distinct by blast

lemma copy_entry:
  assumes ok: "object_ok fs" "object_ok gs" and agree: "agree_below D fs gs" "\<forall>p \<in> D. p \<noteq> []"
    and p: "p \<noteq> []" "ObjectValue_Get gs p \<noteq> None \<or> length p = 1"
  shows "agree_below (insert p D) (set_entry (p, ObjectValue_Get gs p) fs) gs"
proof (cases "\<exists>d \<in> D. IsPrefixOf d p \<and> ObjectValue_Get gs p \<noteq> None")
  case True
  then have "ObjectValue_Get fs p = ObjectValue_Get gs p" using agree(1) by (auto simp: agree_below_def IsPrefixOf_iff)
  then have "set_entry (p, ObjectValue_Get gs p) fs = fs" using True set_entry_same [OF ok(1) p(1)] by auto
  moreover have "agree_below {p} fs gs"
    using \<open>ObjectValue_Get fs p = ObjectValue_Get gs p\<close> by (simp add: agree_below_def Get_append)
  ultimately show ?thesis using agree(1) by (simp add: agree_below_def)
next
  case False
  have e: "entry_ok (p, ObjectValue_Get gs p)"
    using entry_of_document [OF ok(2) p(1)] .
  have "map_option SortFields (ObjectValue_Get gs p) = ObjectValue_Get gs p"
    using Get_sorted [OF ok(2), of p] SortFields_sorted by (cases "ObjectValue_Get gs p") auto
  then have same: "ObjectValue_Get (set_entry (p, ObjectValue_Get gs p) fs) p = ObjectValue_Get gs p"
    using set_entry_Get_same [OF ok(1) e] by simp
  have "ObjectValue_Get (set_entry (p, ObjectValue_Get gs p) fs) (d @ r) = ObjectValue_Get gs (d @ r)"
    if "d \<in> insert p D" for d r
  proof (cases "d = p")
    case True
    then show ?thesis using same by (simp add: Get_append)
  next
    case ne: False
    then have d: "d \<in> D" using that by simp
    show ?thesis
    proof (rule prefix_cases [of p "d @ r"])
      assume "paths_apart p (d @ r)"
      then show ?thesis using set_entry_Get [OF ok(1) e] agree(1) d by (simp add: agree_below_def)
    next
      fix s assume "d @ r = p @ s"
      then show ?thesis using same by (simp add: Get_append)
    next
      fix s assume s: "p = (d @ r) @ s"
      then have "IsPrefixOf d p" by (auto simp: IsPrefixOf_iff)
      then have none: "ObjectValue_Get gs p = None" "length p = 1" using False d p(2) by auto
      then have "d = p" using s agree(2) d by (cases d) auto
      then show ?thesis using ne by simp
    qed
  qed
  then show ?thesis by (simp add: agree_below_def)
qed

lemma copy_entries:
  assumes "object_ok fs" "object_ok gs" "agree_below D fs gs" "\<forall>p \<in> D \<union> set m. p \<noteq> []"
    and "\<forall>p \<in> set m. ObjectValue_Get gs p \<noteq> None \<or> length p = 1"
  shows "object_ok (fold set_entry (map (\<lambda>p. (p, ObjectValue_Get gs p)) m) fs) \<and>
    agree_below (D \<union> set m) (fold set_entry (map (\<lambda>p. (p, ObjectValue_Get gs p)) m) fs) gs"
  using assms
proof (induction m arbitrary: D fs)
  case (Cons p m)
  let ?fs = "set_entry (p, ObjectValue_Get gs p) fs"
  have e: "entry_ok (p, ObjectValue_Get gs p)"
    using Cons.prems(4) by (intro entry_of_document [OF Cons.prems(2)]) simp
  have "agree_below (insert p D) ?fs gs" using Cons.prems by (intro copy_entry) auto
  moreover have "object_ok ?fs" using Cons.prems(1) e by (rule object_ok_set_entry)
  ultimately show ?case using Cons.IH [of ?fs "insert p D"] Cons.prems by simp
qed simp

lemma entries_apart:
  "object_ok fs \<Longrightarrow> \<forall>e \<in> set data. entry_ok e \<Longrightarrow> \<forall>e \<in> set data. paths_apart (fst e) q \<Longrightarrow>
   ObjectValue_Get (fold set_entry data fs) q = ObjectValue_Get fs q"
proof (induction data arbitrary: fs)
  case (Cons e data)
  then show ?case using set_entry_Get [of fs e q] object_ok_set_entry [of fs e] by simp
qed simp

text \<open>Objects that agree below the paths of a mask and apart from it are equal: what lies above a
  path of the mask are maps with equal entries.\<close>

lemma map_of_Get: "map_of fs k = ObjectValue_Get fs [k]"
  by (simp add: Get_Cons split: option.splits)

lemma Get_below_map: "ObjectValue_Get fs (k # j # r) \<noteq> None \<Longrightarrow> \<exists>f. map_of fs k = Some (map_value f)"
  using Get_map_value [of _ j r] by (fastforce simp: Get_Cons split: option.splits)

lemma mask_extensional:
  "object_ok fs \<Longrightarrow> object_ok gs \<Longrightarrow> agree_below D fs gs \<Longrightarrow> agree_apart D fs gs \<Longrightarrow>
   \<forall>p \<in> D. p \<noteq> [] \<and> length p \<le> n \<and> (length p > 1 \<longrightarrow> ObjectValue_Get gs p \<noteq> None) \<Longrightarrow> fs = gs"
proof (induction n arbitrary: D fs gs)
  case 0
  then have "D = {}" by auto
  then have "ObjectValue_Get fs [k] = ObjectValue_Get gs [k]" for k
    using "0.prems"(4) by (simp add: agree_apart_def)
  then have "map_of fs = map_of gs" by (simp add: map_of_Get fun_eq_iff)
  then show ?case using "0.prems"(1,2) by (intro strict_keys_unique object_ok_strict)
next
  case (Suc n)
  have "map_of fs k = map_of gs k" for k
  proof -
    consider "[k] \<in> D" | "\<forall>p \<in> D. paths_apart p [k]" | j r where "[k] \<notin> D" "k # j # r \<in> D"
    proof (cases "\<forall>p \<in> D. paths_apart p [k]")
      case False
      then obtain p where p: "p \<in> D" "\<not> paths_apart p [k]" by auto
      then obtain r where "p = k # r" using Suc.prems(5) by (cases p) (auto simp: paths_apart_def)
      then show ?thesis using that p by (cases r) auto
    qed
    then show ?thesis
    proof cases
      case 1
      then have "ObjectValue_Get fs ([k] @ []) = ObjectValue_Get gs ([k] @ [])"
        using Suc.prems(3) unfolding agree_below_def by blast
      then show ?thesis by (simp add: map_of_Get)
    next
      case 2
      then show ?thesis using Suc.prems(4) by (simp add: map_of_Get agree_apart_def)
    next
      case 3
      have eq: "ObjectValue_Get fs (k # j # r) = ObjectValue_Get gs (k # j # r)"
        using Suc.prems(3) 3(2) unfolding agree_below_def by (metis append_Nil2)
      moreover have "ObjectValue_Get gs (k # j # r) \<noteq> None" using Suc.prems(5) 3(2) by force
      ultimately obtain f g where f: "map_of fs k = Some (map_value f)" and g: "map_of gs k = Some (map_value g)"
        using Get_below_map [of fs k j r] Get_below_map [of gs k j r] by auto
      have sub: "ObjectValue_Get fs (k # q) = ObjectValue_Get f q" "ObjectValue_Get gs (k # q) = ObjectValue_Get g q" for q
        unfolding Get_Cons using f g by (simp_all add: ObjectValue_Get_def)
      let ?D = "{q. k # q \<in> D}"
      have "object_ok f" "object_ok g"
        using object_ok_submap [OF Suc.prems(1), of k] object_ok_submap [OF Suc.prems(2), of k] f g
        by (simp_all add: submap_def)
      moreover have "agree_below ?D f g"
        using Suc.prems(3) unfolding agree_below_def by (metis append_Cons mem_Collect_eq sub)
      moreover have "agree_apart ?D f g"
      proof -
        have "\<forall>p \<in> D. paths_apart p (k # q)" if "\<forall>p \<in> ?D. paths_apart p q" for q
        proof
          fix p assume "p \<in> D"
          then show "paths_apart p (k # q)" using that Suc.prems(5) by (cases p) (auto simp: paths_apart_def)
        qed
        then show ?thesis using Suc.prems(4) by (auto simp: agree_apart_def sub [symmetric])
      qed
      moreover have "\<forall>q \<in> ?D. q \<noteq> [] \<and> length q \<le> n \<and> (length q > 1 \<longrightarrow> ObjectValue_Get g q \<noteq> None)"
        using Suc.prems(5) 3(1) sub by fastforce
      ultimately have "f = g" by (rule Suc.IH)
      then show ?thesis using f g by simp
    qed
  qed
  then show ?case using Suc.prems(1,2) by (intro strict_keys_unique object_ok_strict) auto
qed

section \<open>The overlay of a document\<close>

text \<open>The masks for which the overlay is exact: every path has a value in the document or is a
  top-level field, and at most one is missing.\<close>

definition mask_covered :: "FieldMask \<Rightarrow> fields \<Rightarrow> bool" where
  "mask_covered m data \<longleftrightarrow> mask_ok m \<and>
     (\<forall>p \<in> set m. ObjectValue_Get data p \<noteq> None \<or> length p = 1) \<and>
     length (filter (\<lambda>p. ObjectValue_Get data p = None) m) \<le> 1"

abbreviation mask_entries :: "FieldMask \<Rightarrow> fields \<Rightarrow> TransformMap" where
  "mask_entries m data \<equiv> map (\<lambda>p. (p, ObjectValue_Get data p)) m"

lemma delete_top: "object_ok fs \<Longrightarrow> ObjectValue_Delete [k] fs = Some (set_entry ([k], None) fs)"
  by (simp add: ObjectValue_Delete_def set_entry_def entry_change_def ApplyChanges_delete object_ok_strict)

lemma overlay_step:
  assumes "object_ok fs" "object_ok data" "p \<noteq> []" "ObjectValue_Get data p \<noteq> None \<or> length p = 1"
  shows "(case ObjectValue_Get data p of Some v \<Rightarrow> ObjectValue_Set p v fs | None \<Rightarrow> ObjectValue_Delete p fs) =
    Some (set_entry (p, ObjectValue_Get data p) fs)"
proof (cases "ObjectValue_Get data p")
  case None
  then obtain k where "p = [k]" using assms(3,4) by (cases p) auto
  then show ?thesis using None assms(1) by (simp add: delete_top)
next
  case (Some v)
  then show ?thesis using assms(1,3) ObjectValue_Set_entry [OF assms(1,3), of v] Get_sorted [OF assms(2) Some]
    value_sorted_distinct by simp
qed

lemma overlay_loop_ok:
  "object_ok data \<Longrightarrow> mask_ok (done @ m) \<Longrightarrow> object_ok patch \<Longrightarrow>
   \<forall>p \<in> set m. ObjectValue_Get data p \<noteq> None \<or> length p = 1 \<Longrightarrow>
   overlay_loop data m patch done = Some (fold set_entry (mask_entries m data) patch, done @ m)"
proof (induction m arbitrary: patch "done")
  case (Cons p m)
  have p: "plain_path p" "p \<noteq> []" and new: "p \<notin> set done" and d: "mask_ok done"
    using Cons.prems(2) by (auto simp: mask_ok_def plain_path_def sorted_wrt_append)
  have last: "mask_ok (done @ [p])" using Cons.prems(2) by (auto simp: mask_ok_def sorted_wrt_append)
  have "\<not> mask_find done p" using mask_find_iff [OF d p(1)] new by simp
  moreover have pres: "ObjectValue_Get data p \<noteq> None \<or> length p = 1" using Cons.prems(4) by simp
  then have pick: "(if ObjectValue_Get data p = None \<and> length p > 1 then butlast p else p) = p" by auto
  moreover note overlay_step [OF Cons.prems(3,1) p(2) pres]
  moreover have "object_ok (set_entry (p, ObjectValue_Get data p) patch)"
    using object_ok_set_entry [OF Cons.prems(3)] entry_of_document [OF Cons.prems(1) p(2)] by blast
  ultimately show ?case unfolding overlay_loop.simps Let_def pick
    using Cons.IH [of "done @ [p]" "set_entry (p, ObjectValue_Get data p) patch"] Cons.prems(1,2,4)
    by (simp add: mask_insert_last [OF last])
qed simp

lemma deletes_apart_single:
  "length (filter (\<lambda>p. ObjectValue_Get data p = None) m) \<le> 1 \<Longrightarrow> deletes_apart (mask_entries m data)"
proof -
  assume l: "length (filter (\<lambda>p. ObjectValue_Get data p = None) m) \<le> 1"
  have "filter (\<lambda>e. snd e = None) (mask_entries m data) =
      map (\<lambda>p. (p, ObjectValue_Get data p)) (filter (\<lambda>p. ObjectValue_Get data p = None) m)"
    by (simp add: filter_map comp_def)
  then have "length (map (\<lambda>e. butlast (fst e)) (filter (\<lambda>e. snd e = None) (mask_entries m data))) \<le> 1"
    using l by simp
  then show ?thesis unfolding deletes_apart_def
    by (cases "map (\<lambda>e. butlast (fst e)) (filter (\<lambda>e. snd e = None) (mask_entries m data))") auto
qed

lemma overlay_value:
  assumes ok: "object_ok data" "object_ok base" and cov: "mask_covered m data" and apart: "agree_apart (set m) base data"
  shows "\<exists>patch. overlay_loop data m [] [] = Some (patch, m) \<and> object_ok patch \<and>
    ObjectValue_SetAll (GetPatch m patch) base = Some data"
proof -
  have m: "mask_ok m" "\<forall>p \<in> set m. ObjectValue_Get data p \<noteq> None \<or> length p = 1"
    "length (filter (\<lambda>p. ObjectValue_Get data p = None) m) \<le> 1" using cov by (auto simp: mask_covered_def)
  have ne: "\<forall>p \<in> set m. p \<noteq> []" using m(1) by (auto simp: mask_ok_def plain_path_def)
  let ?es = "mask_entries m data"
  define patch where "patch = fold set_entry ?es []"
  have loop: "overlay_loop data m [] [] = Some (patch, m)"
    using overlay_loop_ok [of data "[]" m "[]"] ok(1) m by (simp add: patch_def)
  have patch: "object_ok patch" "agree_below (set m) patch data"
    using copy_entries [of "[]" data "{}" m] ok(1) m(2) ne by (auto simp: patch_def agree_below_def)
  then have "ObjectValue_Get patch p = ObjectValue_Get data p" if "p \<in> set m" for p
    using that unfolding agree_below_def by (metis append_Nil2)
  then have entries: "GetPatch m patch = ?es" by (simp add: GetPatch_mask [OF m(1)])
  have eok: "\<forall>e \<in> set ?es. entry_ok e" using entry_of_document [OF ok(1)] ne by auto
  have "distinct (map fst ?es)" using mask_ok_distinct [OF m(1)] by (simp add: comp_def)
  then have set: "ObjectValue_SetAll ?es base = Some (fold set_entry ?es base)"
    using SetAll_entries [OF ok(2) eok _ deletes_apart_single [OF m(3)]] by simp
  have below: "object_ok (fold set_entry ?es base)" "agree_below (set m) (fold set_entry ?es base) data"
    using copy_entries [of base data "{}" m] ok m(2) ne by (auto simp: agree_below_def)
  have "agree_apart (set m) (fold set_entry ?es base) data"
    using entries_apart [OF ok(2) eok] apart by (simp add: agree_apart_def)
  moreover have "\<forall>p \<in> set m. p \<noteq> [] \<and> length p \<le> Max (length ` set m) \<and> (length p > 1 \<longrightarrow> ObjectValue_Get data p \<noteq> None)"
    using m(2) ne by auto
  ultimately have "fold set_entry ?es base = data" using mask_extensional [OF below(1) ok(1) below(2)] by blast
  then show ?thesis using loop patch(1) set entries by simp
qed

section \<open>What a chain of local mutations changes\<close>

lemma array_union_subset: "array_union_loop es old new = Some vs \<Longrightarrow> set vs \<subseteq> set es \<union> set old \<union> set new"
  by (induction es arbitrary: new) (fastforce split: bind_splits if_splits)+

lemma array_remove_subset: "array_remove_loop es old = Some vs \<Longrightarrow> set vs \<subseteq> set old"
  by (induction old arbitrary: vs) (fastforce split: bind_splits if_splits)+

lemma local_transform_distinct:
  assumes "Transform_ApplyToLocalView op prev t = Some v" "transform_ok op" "\<forall>p. prev = Some p \<longrightarrow> value_distinct p"
  shows "value_distinct v"
proof -
  have coerced: "\<forall>v \<in> set (CoercedFieldValueArray prev). value_distinct v"
    using assms(3) by (cases prev; cases "the prev") auto
  have number: "value_distinct w" if "IsNumber (Some w)" for w using that by (cases w) auto
  show ?thesis
  proof (cases op)
    case ServerTimestampTransform
    then show ?thesis using EncodeServerTimestamp_ok [of prev t] assms by auto
  next
    case (ArrayUnion es)
    then show ?thesis using assms(1,2) coerced value_ok_distinct
      by (fastforce simp: ArrayUnion_Apply_def dest!: array_union_subset)
  next
    case (ArrayRemove es)
    then show ?thesis using assms(1,2) coerced by (fastforce simp: ArrayRemove_Apply_def dest!: array_remove_subset)
  next
    case (NumericIncrementTransform x)
    then show ?thesis using Increment_number [of x prev] assms(1,2) number by auto
  next
    case (NumericMinimumTransform x)
    then show ?thesis using Minimum_number [of x prev] assms(1,2) number by auto
  next
    case (NumericMaximumTransform x)
    then show ?thesis using Maximum_number [of x prev] assms(1,2) number by auto
  qed
qed

lemma LocalTransformResults_entries:
  assumes "LocalTransformResults transforms data t = Some r" "transforms_ok transforms" "object_ok data"
    and "\<forall>ft \<in> set transforms. plain_path (ft_path ft)"
  shows "entries_ok r \<and> mask_ok (map fst r) \<and> set (map fst r) = ft_path ` set transforms \<and> (\<forall>e \<in> set r. snd e \<noteq> None)"
proof -
  have "LocalTransformResults_loop transforms data t acc = Some r \<Longrightarrow> entries_ok acc \<Longrightarrow> mask_ok (map fst acc) \<Longrightarrow>
      (\<forall>e \<in> set acc. snd e \<noteq> None) \<Longrightarrow>
      entries_ok r \<and> mask_ok (map fst r) \<and> set (map fst r) = ft_path ` set transforms \<union> set (map fst acc) \<and>
      (\<forall>e \<in> set r. snd e \<noteq> None)" for acc
    using assms(2,4)
  proof (induction transforms arbitrary: acc)
    case (Cons ft transforms)
    obtain v where v: "Transform_ApplyToLocalView (transformation ft) (ObjectValue_Get data (ft_path ft)) t = Some v"
      "LocalTransformResults_loop transforms data t (tm_insert (ft_path ft) (Some v) acc) = Some r"
      using Cons.prems(1) by (auto split: bind_splits)
    have "\<forall>p. ObjectValue_Get data (ft_path ft) = Some p \<longrightarrow> value_distinct p"
      using Get_sorted [OF assms(3)] value_sorted_distinct by blast
    then have "value_distinct v" using local_transform_distinct [OF v(1)] Cons.prems(5) by auto
    then have "entries_ok (tm_insert (ft_path ft) (Some v) acc)"
      using Cons.prems(2,5) by (intro tm_insert_ok) (auto simp: entry_ok_def)
    moreover have "mask_ok (map fst (tm_insert (ft_path ft) (Some v) acc))"
      "set (map fst (tm_insert (ft_path ft) (Some v) acc)) = insert (ft_path ft) (set (map fst acc))"
      using mask_insert_ok [OF Cons.prems(3)] Cons.prems(6) unfolding tm_insert_paths by auto
    moreover have "\<forall>e \<in> set (tm_insert p (Some v) tm). snd e \<noteq> None" if "\<forall>e \<in> set tm. snd e \<noteq> None" for p tm
      using that by (induction tm) auto
    ultimately show ?case using Cons.IH [OF v(2)] Cons.prems(4,5,6) by auto
  qed auto
  from this [of "[]"] show ?thesis using assms(1) by (simp add: LocalTransformResults_def)
qed

text \<open>Patches whose deletions are under different parents.\<close>

fun patch_ok :: "Mutation \<Rightarrow> bool" where
  "patch_ok (PatchMutation key data field_mask precondition transforms) \<longleftrightarrow>
     object_ok data \<and> transforms_ok transforms \<and> (\<forall>ft \<in> set transforms. plain_path (ft_path ft)) \<and>
     mask_ok field_mask \<and> deletes_apart (mask_entries field_mask data)"
| "patch_ok _ = False"

lemma patch_changes:
  assumes ok: "patch_ok m" "object_ok (doc_value document)" "mask_ok msk"
    and step: "Mutation_ApplyToLocalView m document (Some msk) t = Some (document', msk')"
  obtains msk2 where "msk' = Some msk2" "mask_ok msk2" "set msk \<subseteq> set msk2" "object_ok (doc_value document')"
    "agree_apart (set msk2) (doc_value document') (doc_value document)" "doc_key document' = doc_key document"
proof (cases m)
  case (PatchMutation k data field_mask precondition transforms)
  have p: "object_ok data" "transforms_ok transforms" "\<forall>ft \<in> set transforms. plain_path (ft_path ft)"
    "mask_ok field_mask" "deletes_apart (mask_entries field_mask data)"
    using ok(1) PatchMutation by auto
  show ?thesis
  proof (cases "IsValidFor precondition document")
    case False
    then have "document' = document" "msk' = Some msk"
      using step PatchMutation by (auto simp: mutation_defs split: if_splits)
    then show ?thesis using that ok(2,3) by (simp add: agree_apart_def)
  next
    case True
    obtain r d d' where r: "LocalTransformResults transforms (doc_value document) t = Some r"
      and d: "ObjectValue_SetAll (GetPatch field_mask data) (doc_value document) = Some d"
      and d': "ObjectValue_SetAll r d = Some d'"
      and res: "doc_value document' = d'" "msk' = Some (merge_mask msk field_mask transforms)"
        "doc_key document' = doc_key document"
      using step PatchMutation True
      by (auto simp: mutation_defs document_defs Let_def split: bind_splits if_splits)
    note rs = LocalTransformResults_entries [OF r p(2) ok(2) p(3)]
    have ne: "\<forall>q \<in> set field_mask. q \<noteq> []" using p(4) by (auto simp: mask_ok_def plain_path_def)
    have eok: "\<forall>e \<in> set (mask_entries field_mask data). entry_ok e" using entry_of_document [OF p(1)] ne by auto
    have "distinct (map fst (mask_entries field_mask data))" using mask_ok_distinct [OF p(4)] by (simp add: comp_def)
    then have d_eq: "d = fold set_entry (mask_entries field_mask data) (doc_value document)"
      using SetAll_entries [OF ok(2) eok _ p(5)] d GetPatch_mask [OF p(4)] by simp
    then have dok: "object_ok d" using object_ok_set_entries [OF ok(2) eok] by simp
    have "deletes_apart r" using rs by (auto simp: deletes_apart_def filter_empty_conv cong: filter_cong)
    then have d'_eq: "d' = fold set_entry r d"
      using SetAll_entries [OF dok] rs mask_ok_distinct [of "map fst r"] d' by simp
    have merged: "mask_ok (merge_mask msk field_mask transforms)"
      "set (merge_mask msk field_mask transforms) = set msk \<union> set field_mask \<union> ft_path ` set transforms"
      using fold_mask_insert_ok [OF ok(3), of field_mask] p(3,4)
        fold_mask_insert_ok [of "fold mask_insert field_mask msk" "map ft_path transforms"]
      by (auto simp: merge_mask_def mask_ok_def)
    have "ObjectValue_Get d' q = ObjectValue_Get (doc_value document) q"
      if q: "\<forall>p \<in> set (merge_mask msk field_mask transforms). paths_apart p q" for q
    proof -
      have "fst e \<in> ft_path ` set transforms" if "e \<in> set r" for e using rs that by (metis imageI set_map)
      then have "\<forall>e \<in> set r. paths_apart (fst e) q" using q merged(2) by blast
      moreover have "\<forall>e \<in> set (mask_entries field_mask data). paths_apart (fst e) q" using q merged(2) by auto
      ultimately show ?thesis using entries_apart [OF dok, of r q] entries_apart [OF ok(2) eok, of q] rs
        by (simp add: d'_eq d_eq)
    qed
    moreover have "object_ok d'" using object_ok_set_entries [OF dok, of r] rs by (simp add: d'_eq)
    ultimately show ?thesis using that [OF res(2) merged(1)] merged(2) res(1,3) by (auto simp: agree_apart_def)
  qed
qed (use ok(1) in simp_all)

lemma agree_apart_trans:
  "agree_apart D fs gs \<Longrightarrow> agree_apart E gs hs \<Longrightarrow> E \<subseteq> D \<Longrightarrow> agree_apart D fs hs"
  by (simp add: agree_apart_def subset_iff)

lemma patches_change:
  assumes "\<forall>m \<in> set ms. patch_ok m" "object_ok (doc_value document)" "mask_ok msk"
    and "local_loop t ms document (Some msk) = Some (document', msk')"
  shows "\<exists>msk2. msk' = Some msk2 \<and> mask_ok msk2 \<and> set msk \<subseteq> set msk2 \<and> object_ok (doc_value document') \<and>
    agree_apart (set msk2) (doc_value document') (doc_value document) \<and> doc_key document' = doc_key document"
  using assms
proof (induction ms arbitrary: document msk)
  case Nil
  then show ?case by (auto simp: agree_apart_def)
next
  case (Cons m ms)
  show ?case
  proof (cases "mutation_key m = doc_key document")
    case False
    then show ?thesis using Cons by simp
  next
    case True
    then obtain document1 msk1 where one: "Mutation_ApplyToLocalView m document (Some msk) t = Some (document1, msk1)"
      "local_loop t ms document1 msk1 = Some (document', msk')"
      using Cons.prems(4) by (auto split: bind_splits)
    have "patch_ok m" using Cons.prems(1) by simp
    from patch_changes [OF this Cons.prems(2,3) one(1)] obtain msk2 where two: "msk1 = Some msk2" "mask_ok msk2"
      "set msk \<subseteq> set msk2" "object_ok (doc_value document1)"
      "agree_apart (set msk2) (doc_value document1) (doc_value document)" "doc_key document1 = doc_key document" .
    then obtain msk3 where "msk' = Some msk3" "mask_ok msk3" "set msk2 \<subseteq> set msk3" "object_ok (doc_value document')"
      "agree_apart (set msk3) (doc_value document') (doc_value document1)" "doc_key document' = doc_key document1"
      using Cons.IH [of document1 msk2] Cons.prems(1) one(2) by auto
    moreover have "agree_apart (set msk3) (doc_value document') (doc_value document)"
      using agree_apart_trans [OF calculation(5) two(5) calculation(3)] .
    ultimately show ?thesis using two by auto
  qed
qed

lemma agree_apart_sym: "agree_apart D fs gs \<Longrightarrow> agree_apart D gs fs"
  by (simp add: agree_apart_def)

lemma SetAll_Nil: "object_ok fs \<Longrightarrow> ObjectValue_SetAll [] fs = Some fs"
  using SetAll_entries [of fs "[]"] by (simp add: deletes_apart_def)

text \<open>Without a mask (after a set or a delete) the overlay replaces any base document of the key.\<close>

lemma overlay_without_mask:
  assumes "has_local_mutations document" "document_ok document" "doc_key base = doc_key document"
  shows "\<exists>overlay base'. CalculateOverlayMutation document None = Some (Some overlay) \<and>
    Mutation_ApplyToLocalView overlay base previous t = Some (base', None) \<and>
    doc_value base' = doc_value document \<and> document_type base' = document_type document \<and> has_local_mutations base'"
proof -
  have ok: "object_ok (doc_value document)" "document_type document \<in> {kFoundDocument, kNoDocument}"
    "document_type document \<noteq> kFoundDocument \<longrightarrow> doc_value document = []"
    using assms(1,2) by (simp_all add: document_ok_def document_defs)
  then show ?thesis using assms(1,3) SetAll_Nil [OF ok(1)]
    by (auto simp: CalculateOverlayMutation_def mutation_defs LocalTransformResults_def document_defs)
qed

lemma overlay_with_mask:
  assumes "has_local_mutations document" "object_ok (doc_value document)"
    and "object_ok (doc_value base)" "doc_key base = doc_key document"
    and "mask_covered msk (doc_value document)" "agree_apart (set msk) (doc_value base) (doc_value document)"
  shows "\<exists>overlay base' msk'. CalculateOverlayMutation document (Some msk) = Some (Some overlay) \<and>
    Mutation_ApplyToLocalView overlay base previous t = Some (base', msk') \<and>
    doc_value base' = doc_value document \<and> is_found_document base' \<and> has_local_mutations base'"
proof -
  obtain patch where "overlay_loop (doc_value document) msk [] [] = Some (patch, msk)"
    "ObjectValue_SetAll (GetPatch msk patch) (doc_value base) = Some (doc_value document)"
    using overlay_value [OF assms(2,3,5,6)] by blast
  then show ?thesis using assms(1,4) SetAll_Nil [OF assms(2)]
    by (simp add: CalculateOverlayMutation_def mutation_defs LocalTransformResults_def Let_def document_defs)
qed

section \<open>A replaced parent\<close>

text \<open>A patch of a nested field followed by a patch that replaces the top-level field by a value
  that is not a map: the mask holds both paths, and only the second has a value.\<close>

lemma plain_patch:
  assumes "doc_key document = k" "object_ok (doc_value document)" "object_ok data" "mask_ok m"
    and "deletes_apart (mask_entries m data)"
  shows "\<exists>document'. Mutation_ApplyToLocalView (PatchMutation k data m Precondition_None []) document prev t =
      Some (document', map_option (\<lambda>msk. fold mask_insert m msk) prev) \<and> doc_key document' = k \<and>
    doc_value document' = fold set_entry (mask_entries m data) (doc_value document) \<and>
    object_ok (doc_value document') \<and> has_local_mutations document'"
proof -
  have ne: "\<forall>q \<in> set m. q \<noteq> []" using assms(4) by (auto simp: mask_ok_def plain_path_def)
  have eok: "\<forall>e \<in> set (mask_entries m data). entry_ok e" using entry_of_document [OF assms(3)] ne by auto
  have "distinct (map fst (mask_entries m data))" using mask_ok_distinct [OF assms(4)] by (simp add: comp_def)
  then have "ObjectValue_SetAll (GetPatch m data) (doc_value document) =
      Some (fold set_entry (mask_entries m data) (doc_value document))"
    using SetAll_entries [OF assms(2) eok _ assms(5)] GetPatch_mask [OF assms(4)] by simp
  moreover have ok: "object_ok (fold set_entry (mask_entries m data) (doc_value document))"
    using object_ok_set_entries [OF assms(2) eok] .
  ultimately show ?thesis using assms(1) SetAll_Nil [OF ok]
    by (simp add: mutation_defs LocalTransformResults_def merge_mask_def document_defs Let_def)
qed

lemma path_key_prefix: "plain_path (p @ q) \<Longrightarrow> p \<noteq> [] \<Longrightarrow> q \<noteq> [] \<Longrightarrow> path_key p < path_key (p @ q)"
proof -
  assume "q \<noteq> []"
  then have "okeys_compare xs (xs @ map segment_key q) = Ascending" for xs
    by (induction xs) (auto simp: neq_Nil_conv okey_compare_Same)
  then show ?thesis by (simp add: path_key_def less_okey_def)
qed

lemma replaced_masks:
  assumes "plain_path [a, b, c]"
  shows "mask_ok [[a], [a, b, c]]" "mask_ok [[a], [a, b]]" "mask_ok [[a, b, c]]" "mask_ok [[a]]"
  using assms path_key_prefix [of "[a]" "[b, c]"] path_key_prefix [of "[a]" "[b]"]
  by (auto simp: mask_ok_def plain_path_def)

lemma overlay_of_scalar:
  assumes "plain_path [a, b, c]" "has_local_mutations document" "object_ok (doc_value document)"
    and "ObjectValue_Get (doc_value document) [a] = Some v" "\<not> IsMap v"
    and "object_ok (doc_value base)" "doc_key base = doc_key document"
  shows "\<exists>overlay base' m'. CalculateOverlayMutation document (Some [[a], [a, b, c]]) = Some (Some overlay) \<and>
    Mutation_ApplyToLocalView overlay base prev t = Some (base', m') \<and>
    ObjectValue_Get (doc_value base') [a] = Some (map_value [])"
proof -
  let ?d = "doc_value document"
  let ?overlay = "PatchMutation (doc_key document) [(a, v)] [[a], [a, b]] Precondition_None []"
  note masks = replaced_masks [OF assms(1)]
  have v: "value_sorted v" using Get_sorted [OF assms(3,4)] .
  have missing: "ObjectValue_Get ?d [a, b] = None" "ObjectValue_Get ?d [a, b, c] = None"
    "ObjectValue_Get [(a, v)] [a, b] = None"
    using assms(4,5) by (cases v; auto simp: Get_Cons FindEntry_def split: option.splits)+
  have patch: "object_ok [(a, v)]" "ObjectValue_Set [a] v [] = Some [(a, v)]"
    using v ObjectValue_Set_entry [of "[]" "[a]" v] value_sorted_distinct [OF v] SortFields_sorted [OF v]
    by (simp_all add: object_ok_def set_entry_def entry_change_def)
  have delete: "ObjectValue_Delete [a, b] [(a, v)] = Some [(a, v)]"
    using assms(5) by (simp add: ObjectValue_Delete_def)
  have find: "\<not> mask_find [[a]] [a, b, c]" "mask_insert (butlast [a, b, c]) [[a]] = [[a], [a, b]]"
    using mask_find_iff [OF masks(4) ] assms(1) mask_insert_last [of "[[a]]" "[a, b]"] masks(2) by auto
  have empty_insert: "mask_insert [a] [] = [[a]]" "\<not> mask_find [] [a]" by (simp_all add: mask_find_def)
  have "overlay_loop ?d [[a], [a, b, c]] [] [] = Some ([(a, v)], [[a], [a, b]])"
    using assms(4) missing patch(2) delete find unfolding overlay_loop.simps Let_def
    by (simp del: mask_insert.simps add: empty_insert)
  then have overlay: "CalculateOverlayMutation document (Some [[a], [a, b, c]]) = Some (Some ?overlay)"
    using assms(2) by (simp add: CalculateOverlayMutation_def)
  have entries: "mask_entries [[a], [a, b]] [(a, v)] = [([a], Some v), ([a, b], None)]"
    using missing(3) by (simp add: Get_Cons)
  have "deletes_apart (mask_entries [[a], [a, b]] [(a, v)])"
    unfolding entries by (simp add: deletes_apart_def)
  then obtain base' m' where base': "Mutation_ApplyToLocalView ?overlay base prev t = Some (base', m')"
    "doc_value base' = fold set_entry [([a], Some v), ([a, b], None)] (doc_value base)"
    using plain_patch [OF assms(7,6) patch(1) masks(2), of prev t] unfolding entries by blast
  have "strict_keys (doc_value base)" using assms(6) by (rule object_ok_strict)
  then have "ObjectValue_Get (doc_value base') [a] = Some (map_value [])"
    using assms(5) v unfolding base'(2)
    by (cases v) (simp_all add: set_entry_def entry_change_def submap_def map_of_insert_upsert Get_Cons insert_upsert_strict
        remove_field_def SortFields_sorted)
  then show ?thesis using overlay base'(1) by blast
qed

lemma replaced_parent_run:
  assumes "plain_path [a, b, c]" "object_ok (doc_value base)" "value_sorted v" "\<not> IsMap v" "value_sorted w"
    and "m1 = PatchMutation (doc_key base) [(a, map_value [(b, map_value [(c, w)])])] [[a, b, c]] Precondition_None []"
    and "m2 = PatchMutation (doc_key base) [(a, v)] [[a]] Precondition_None []"
  shows "\<exists>document. local_loop t [m1, m2] base (Some []) = Some (document, Some [[a], [a, b, c]]) \<and>
    doc_key document = doc_key base \<and> has_local_mutations document \<and> object_ok (doc_value document) \<and>
    ObjectValue_Get (doc_value document) [a] = Some v"
proof -
  note masks = replaced_masks [OF assms(1)]
  have ok: "object_ok [(a, map_value [(b, map_value [(c, w)])])]" "object_ok [(a, v)]"
    using assms(3,5) by (simp_all add: object_ok_def)
  have e1: "mask_entries [[a, b, c]] [(a, map_value [(b, map_value [(c, w)])])] = [([a, b, c], Some w)]"
    by (simp add: Get_Cons FindEntry_def)
  have e2: "mask_entries [[a]] [(a, v)] = [([a], Some v)]" by (simp add: Get_Cons)
  have apart: "deletes_apart [(p, Some u)]" for p u by (simp add: deletes_apart_def)
  obtain d1 where d1: "Mutation_ApplyToLocalView m1 base (Some []) t = Some (d1, Some [[a, b, c]])"
    "doc_key d1 = doc_key base" "object_ok (doc_value d1)"
    using plain_patch [OF refl assms(2) ok(1) masks(3), of "Some []" t] apart unfolding e1 assms(6) by auto
  have insert: "mask_insert [a] [[a, b, c]] = [[a], [a, b, c]]"
    using mask_insert_ok [OF masks(3), of "[a]"] masks(1) path_less_key [of "[a]" "[a, b, c]"]
    by (auto simp: mask_ok_Cons)
  obtain d2 where d2: "Mutation_ApplyToLocalView m2 d1 (Some [[a, b, c]]) t = Some (d2, Some [[a], [a, b, c]])"
    "doc_key d2 = doc_key base" "object_ok (doc_value d2)" "has_local_mutations d2"
    "doc_value d2 = set_entry ([a], Some v) (doc_value d1)"
    using plain_patch [OF d1(2,3) ok(2) masks(4), of "Some [[a, b, c]]" t] apart insert unfolding e2 assms(7) by auto
  have "ObjectValue_Get (doc_value d2) [a] = Some v"
    using object_ok_strict [OF d1(3)] SortFields_sorted [OF assms(3)] unfolding d2(5)
    by (simp add: set_entry_def entry_change_def Get_Cons map_of_insert_upsert)
  then show ?thesis using d1 d2 assms(6,7) by simp
qed

section \<open>Properties\<close>

text \<open>C7: Take a locally changed document and the mask of its changed fields, where every masked field
  has a value in the document or is a top-level field, and at most one masked field has none.
  The overlay computed from them, applied to any base document of the key that agrees with the
  document apart from the mask (such as a newer version from the backend), gives the document's
  value again.  Without a mask (the document was set or deleted) it does so for every base.  For
  other masks this fails, as shown below for a replaced parent.\<close>

theorem overlay_reproduces_document:
  assumes "has_local_mutations document" "document_ok document"
    and "object_ok (doc_value base)" "doc_key base = doc_key document"
    and "case field_mask of None \<Rightarrow> True | Some m \<Rightarrow>
      mask_covered m (doc_value document) \<and> agree_apart (set m) (doc_value base) (doc_value document)"
  shows "\<exists>overlay base' m'. CalculateOverlayMutation document field_mask = Some (Some overlay) \<and>
    Mutation_ApplyToLocalView overlay base previous t = Some (base', m') \<and>
    doc_value base' = doc_value document \<and> has_local_mutations base'"
proof (cases field_mask)
  case None
  then show ?thesis using overlay_without_mask [OF assms(1,2,4)] by blast
next
  case (Some m)
  have "object_ok (doc_value document)" using assms(2) by (simp add: document_ok_def)
  then show ?thesis using overlay_with_mask [OF assms(1) _ assms(3,4), of m] assms(5) Some by fastforce
qed

theorem overlay_reproduces_document_witness:
  "\<exists>overlay base' m'. CalculateOverlayMutation
      (SetHasLocalMutations (FoundDocument [''c'', ''d''] SnapshotVersion_None [(''a'', integer_value 1)])) (Some [[''a'']]) =
      Some (Some overlay) \<and>
    Mutation_ApplyToLocalView overlay (FoundDocument [''c'', ''d''] SnapshotVersion_None []) None SnapshotVersion_None = Some (base', m') \<and>
    doc_value base' = [(''a'', integer_value 1)]"
proof -
  have "agree_apart {[''a'']} [] [(''a'', integer_value 1)]"
    unfolding agree_apart_def
  proof (intro allI impI)
    fix q assume "\<forall>p \<in> {[''a'']}. paths_apart p q"
    then show "ObjectValue_Get [] q = ObjectValue_Get [(''a'', integer_value 1)] q"
      by (cases q) (auto simp: paths_apart_def Get_Cons)
  qed
  then show ?thesis
    using overlay_reproduces_document [of
        "SetHasLocalMutations (FoundDocument [''c'', ''d''] SnapshotVersion_None [(''a'', integer_value 1)])"
        "FoundDocument [''c'', ''d''] SnapshotVersion_None []" "Some [[''a'']]" None SnapshotVersion_None]
    by (auto simp: FoundDocument_def InvalidDocument_def document_defs document_ok_def object_ok_def mask_covered_def
        mask_ok_def plain_path_def IsNumericId_def kNumericIdTotalOverhead_def kNumericIdPrefixLength_def
        kNumericIdSuffixLength_def Get_Cons)
qed


lemma single_mask_ok: "plain_path p \<Longrightarrow> mask_ok [p]"
  by (simp add: mask_ok_def)


text \<open>C23: Outside that condition the overlay is wrong.  Patch any nested field a.b.c of any document and
  then replace a by any value that is not a map: the masked path a.b.c is missing, its parent a.b
  joins the mask as a deletion, and the overlay, applied to the original document, leaves an empty
  map at a instead of the value.\<close>

theorem overlay_of_replaced_parent_loses_value:
  assumes "plain_path [a, b, c]" "object_ok (doc_value base)" "value_sorted v" "\<not> IsMap v" "value_sorted w"
    and "m1 = PatchMutation (doc_key base) [(a, map_value [(b, map_value [(c, w)])])] [[a, b, c]] Precondition_None []"
    and "m2 = PatchMutation (doc_key base) [(a, v)] [[a]] Precondition_None []"
  shows "\<exists>document msk overlay base' m'. local_loop t [m1, m2] base (Some []) = Some (document, Some msk) \<and>
    ObjectValue_Get (doc_value document) [a] = Some v \<and>
    CalculateOverlayMutation document (Some msk) = Some (Some overlay) \<and>
    Mutation_ApplyToLocalView overlay base prev t = Some (base', m') \<and>
    ObjectValue_Get (doc_value base') [a] = Some (map_value [])"
proof -
  obtain document where d: "local_loop t [m1, m2] base (Some []) = Some (document, Some [[a], [a, b, c]])"
    "doc_key base = doc_key document" "has_local_mutations document" "object_ok (doc_value document)"
    "ObjectValue_Get (doc_value document) [a] = Some v"
    using replaced_parent_run [OF assms] by metis
  show ?thesis using overlay_of_scalar [OF assms(1) d(3-5) assms(4,2) d(2)] d(1,5) by blast
qed

theorem overlay_of_replaced_parent_loses_value_witness:
  "\<exists>document msk overlay base' m'.
    local_loop SnapshotVersion_None
      [PatchMutation [''c'', ''d''] [(''a'', map_value [(''b'', map_value [(''c'', integer_value 1)])])]
         [[''a'', ''b'', ''c'']] Precondition_None [],
       PatchMutation [''c'', ''d''] [(''a'', integer_value 5)] [[''a'']] Precondition_None []]
      (FoundDocument [''c'', ''d''] SnapshotVersion_None []) (Some []) = Some (document, Some msk) \<and>
    ObjectValue_Get (doc_value document) [''a''] = Some (integer_value 5) \<and>
    CalculateOverlayMutation document (Some msk) = Some (Some overlay) \<and>
    Mutation_ApplyToLocalView overlay (FoundDocument [''c'', ''d''] SnapshotVersion_None []) (Some []) SnapshotVersion_None =
      Some (base', m') \<and> ObjectValue_Get (doc_value base') [''a''] = Some (map_value [])"
proof (rule overlay_of_replaced_parent_loses_value)
  show "plain_path [''a'', ''b'', ''c'']"
    by (simp add: plain_path_def IsNumericId_def kNumericIdTotalOverhead_def kNumericIdPrefixLength_def kNumericIdSuffixLength_def)
qed (simp_all add: FoundDocument_def InvalidDocument_def document_defs)

end
