(* ===== verification/Filters.thy ===== *)
theory Filters
  imports Documents
begin

text \<open>
  Filters on documents (\<^verbatim>\<open>core/filter.h\<close>, \<^verbatim>\<open>field_filter.cc\<close>, \<^verbatim>\<open>composite_filter.cc\<close> and
  the filters of single operators).  The subclasses of \<^verbatim>\<open>FieldFilter::Rep\<close> are the constructors of a
  datatype, each with the members of its class; \<^verbatim>\<open>FieldFilter::Create\<close> chooses among them.  A
  match is None where a comparison or a hard assertion fails.
\<close>

section \<open>Field filters\<close>

datatype FieldOperator =
    LessThan | LessThanOrEqual | Equal | NotEqual | GreaterThanOrEqual | GreaterThan
  | ArrayContainsOp | In | ArrayContainsAny | NotIn

datatype FieldFilter =
    PlainFilter path FieldOperator Value
  | ArrayContainsFilter path Value
  | ArrayContainsAnyFilter path Value
  | InFilter path Value
  | NotInFilter path Value
  | KeyFieldFilter path FieldOperator Value path
  | KeyFieldInFilter path Value "path list"
  | KeyFieldNotInFilter path Value "path list"

fun filter_field :: "FieldFilter \<Rightarrow> path" where
  "filter_field (PlainFilter p op v) = p"
| "filter_field (ArrayContainsFilter p v) = p"
| "filter_field (ArrayContainsAnyFilter p v) = p"
| "filter_field (InFilter p v) = p"
| "filter_field (NotInFilter p v) = p"
| "filter_field (KeyFieldFilter p op v key) = p"
| "filter_field (KeyFieldInFilter p v keys) = p"
| "filter_field (KeyFieldNotInFilter p v keys) = p"

fun filter_op :: "FieldFilter \<Rightarrow> FieldOperator" where
  "filter_op (PlainFilter p op v) = op"
| "filter_op (ArrayContainsFilter p v) = ArrayContainsOp"
| "filter_op (ArrayContainsAnyFilter p v) = ArrayContainsAny"
| "filter_op (InFilter p v) = In"
| "filter_op (NotInFilter p v) = NotIn"
| "filter_op (KeyFieldFilter p op v key) = op"
| "filter_op (KeyFieldInFilter p v keys) = In"
| "filter_op (KeyFieldNotInFilter p v keys) = NotIn"

fun filter_value :: "FieldFilter \<Rightarrow> Value" where
  "filter_value (PlainFilter p op v) = v"
| "filter_value (ArrayContainsFilter p v) = v"
| "filter_value (ArrayContainsAnyFilter p v) = v"
| "filter_value (InFilter p v) = v"
| "filter_value (NotInFilter p v) = v"
| "filter_value (KeyFieldFilter p op v key) = v"
| "filter_value (KeyFieldInFilter p v keys) = v"
| "filter_value (KeyFieldNotInFilter p v keys) = v"

definition IsArrayOperator :: "FieldOperator \<Rightarrow> bool" where
  "IsArrayOperator op \<longleftrightarrow> op = ArrayContainsOp \<or> op = ArrayContainsAny"

definition IsInequality :: "FieldFilter \<Rightarrow> bool" where
  "IsInequality f \<longleftrightarrow>
     filter_op f \<in> {LessThan, LessThanOrEqual, GreaterThan, GreaterThanOrEqual, NotEqual, NotIn}"

fun reference_key :: "Value \<Rightarrow> path option" where
  "reference_key (reference_value name) = DocumentKey_FromName name"
| "reference_key _ = None"

fun reference_keys :: "Value list \<Rightarrow> path list option" where
  "reference_keys [] = Some []"
| "reference_keys (v # vs) = do { key \<leftarrow> reference_key v; keys \<leftarrow> reference_keys vs; Some (key # keys) }"

definition ExtractDocumentKeysFromValue :: "Value \<Rightarrow> path list option" where
  "ExtractDocumentKeysFromValue value = (if IsArray value then reference_keys (array_values value) else None)"

definition FieldFilter_Create :: "path \<Rightarrow> FieldOperator \<Rightarrow> Value \<Rightarrow> FieldFilter option" where
  "FieldFilter_Create path op value_rhs =
     (let value = SortFields value_rhs
      in if IsKeyFieldPath path then
           (if op = In then map_option (KeyFieldInFilter path value) (ExtractDocumentKeysFromValue value)
            else if op = NotIn then map_option (KeyFieldNotInFilter path value) (ExtractDocumentKeysFromValue value)
            else if IsArrayOperator op then None
            else map_option (KeyFieldFilter path op value) (reference_key value))
         else if op = ArrayContainsOp then Some (ArrayContainsFilter path value)
         else if op = In then (if IsArray value then Some (InFilter path value) else None)
         else if op = ArrayContainsAny then (if IsArray value then Some (ArrayContainsAnyFilter path value) else None)
         else if op = NotIn then (if IsArray value then Some (NotInFilter path value) else None)
         else Some (PlainFilter path op value))"

fun MatchesComparison :: "FieldOperator \<Rightarrow> ComparisonResult \<Rightarrow> bool option" where
  "MatchesComparison LessThan comparison = Some (comparison = Ascending)"
| "MatchesComparison LessThanOrEqual comparison = Some (comparison = Ascending \<or> comparison = Same)"
| "MatchesComparison Equal comparison = Some (comparison = Same)"
| "MatchesComparison GreaterThanOrEqual comparison = Some (comparison = Descending \<or> comparison = Same)"
| "MatchesComparison GreaterThan comparison = Some (comparison = Descending)"
| "MatchesComparison NotEqual comparison = Some (comparison \<noteq> Same)"
| "MatchesComparison _ comparison = None"

definition doc_field :: "MutableDocument \<Rightarrow> path \<Rightarrow> Value option" where
  "doc_field doc path = ObjectValue_Get (doc_value doc) path"

definition PlainFilter_Matches :: "path \<Rightarrow> FieldOperator \<Rightarrow> Value \<Rightarrow> MutableDocument \<Rightarrow> bool option" where
  "PlainFilter_Matches path op value_rhs doc =
     (case doc_field doc path of
        None \<Rightarrow> Some False
      | Some lhs \<Rightarrow>
          (if op = NotEqual then
             (if lhs = null_value then Some False
              else do { c \<leftarrow> ValueCompare lhs value_rhs; MatchesComparison op c })
           else if GetTypeOrder lhs \<noteq> GetTypeOrder value_rhs then Some False
           else do { c \<leftarrow> ValueCompare lhs value_rhs; MatchesComparison op c }))"

definition ArrayContainsFilter_Matches :: "path \<Rightarrow> Value \<Rightarrow> MutableDocument \<Rightarrow> bool option" where
  "ArrayContainsFilter_Matches path value doc =
     (case doc_field doc path of
        None \<Rightarrow> Some False
      | Some lhs \<Rightarrow> (if \<not> IsArray lhs then Some False else ArrayContains (array_values lhs) value))"

fun contains_any :: "Value list \<Rightarrow> Value list \<Rightarrow> bool option" where
  "contains_any haystack [] = Some False"
| "contains_any haystack (v # vs) =
     do { c \<leftarrow> ArrayContains haystack v; if c then Some True else contains_any haystack vs }"

definition ArrayContainsAnyFilter_Matches :: "path \<Rightarrow> Value \<Rightarrow> MutableDocument \<Rightarrow> bool option" where
  "ArrayContainsAnyFilter_Matches path value doc =
     (case doc_field doc path of
        None \<Rightarrow> Some False
      | Some lhs \<Rightarrow> (if \<not> IsArray lhs then Some False else contains_any (array_values value) (array_values lhs)))"

definition InFilter_Matches :: "path \<Rightarrow> Value \<Rightarrow> MutableDocument \<Rightarrow> bool option" where
  "InFilter_Matches path value doc =
     (case doc_field doc path of
        None \<Rightarrow> Some False
      | Some lhs \<Rightarrow> ArrayContains (array_values value) lhs)"

definition NotInFilter_Matches :: "path \<Rightarrow> Value \<Rightarrow> MutableDocument \<Rightarrow> bool option" where
  "NotInFilter_Matches path value doc =
     do {
       has_null \<leftarrow> ArrayContains (array_values value) null_value;
       if has_null then Some False
       else case doc_field doc path of
              None \<Rightarrow> Some False
            | Some lhs \<Rightarrow>
                (if lhs = null_value then Some False else map_option Not (ArrayContains (array_values value) lhs))
     }"

definition KeyFieldFilter_Matches :: "FieldOperator \<Rightarrow> path \<Rightarrow> MutableDocument \<Rightarrow> bool option" where
  "KeyFieldFilter_Matches op key doc = do { c \<leftarrow> path_CompareTo (doc_key doc) key; MatchesComparison op c }"

fun FieldFilter_Matches :: "FieldFilter \<Rightarrow> MutableDocument \<Rightarrow> bool option" where
  "FieldFilter_Matches (PlainFilter path op value) doc = PlainFilter_Matches path op value doc"
| "FieldFilter_Matches (ArrayContainsFilter path value) doc = ArrayContainsFilter_Matches path value doc"
| "FieldFilter_Matches (ArrayContainsAnyFilter path value) doc = ArrayContainsAnyFilter_Matches path value doc"
| "FieldFilter_Matches (InFilter path value) doc = InFilter_Matches path value doc"
| "FieldFilter_Matches (NotInFilter path value) doc = NotInFilter_Matches path value doc"
| "FieldFilter_Matches (KeyFieldFilter path op value key) doc = KeyFieldFilter_Matches op key doc"
| "FieldFilter_Matches (KeyFieldInFilter path value keys) doc = Some (doc_key doc \<in> set keys)"
| "FieldFilter_Matches (KeyFieldNotInFilter path value keys) doc = Some (doc_key doc \<notin> set keys)"

section \<open>Composite filters\<close>

datatype CompositeOperator = And | Or

datatype Filter = FieldFilter_of FieldFilter | CompositeFilter "Filter list" CompositeOperator

fun IsAFieldFilter :: "Filter \<Rightarrow> bool" where
  "IsAFieldFilter (FieldFilter_of f) = True"
| "IsAFieldFilter (CompositeFilter fs op) = False"

fun IsConjunction :: "Filter \<Rightarrow> bool" where
  "IsConjunction (CompositeFilter fs op) = (op = And)"
| "IsConjunction _ = False"

fun IsDisjunction :: "Filter \<Rightarrow> bool" where
  "IsDisjunction (CompositeFilter fs op) = (op = Or)"
| "IsDisjunction _ = False"

fun IsFlat :: "Filter \<Rightarrow> bool" where
  "IsFlat (CompositeFilter fs op) = (\<forall>f \<in> set fs. IsAFieldFilter f)"
| "IsFlat _ = False"

fun GetFilters :: "Filter \<Rightarrow> Filter list" where
  "GetFilters (CompositeFilter fs op) = fs"
| "GetFilters f = [f]"

fun GetFlattenedFilters :: "Filter \<Rightarrow> FieldFilter list" where
  "GetFlattenedFilters (FieldFilter_of f) = [f]"
| "GetFlattenedFilters (CompositeFilter fs op) = concat (map GetFlattenedFilters fs)"

fun WithAddedFilters :: "Filter \<Rightarrow> Filter list \<Rightarrow> Filter" where
  "WithAddedFilters (CompositeFilter fs op) other_filters = CompositeFilter (fs @ other_filters) op"
| "WithAddedFilters f other_filters = f"

fun Filter_Matches :: "Filter \<Rightarrow> MutableDocument \<Rightarrow> bool option"
  and all_match :: "Filter list \<Rightarrow> MutableDocument \<Rightarrow> bool option"
  and any_match :: "Filter list \<Rightarrow> MutableDocument \<Rightarrow> bool option"
where
  "Filter_Matches (FieldFilter_of f) doc = FieldFilter_Matches f doc"
| "Filter_Matches (CompositeFilter fs op) doc = (if op = And then all_match fs doc else any_match fs doc)"
| "all_match [] doc = Some True"
| "all_match (f # fs) doc = do { m \<leftarrow> Filter_Matches f doc; if m then all_match fs doc else Some False }"
| "any_match [] doc = Some False"
| "any_match (f # fs) doc = do { m \<leftarrow> Filter_Matches f doc; if m then Some True else any_match fs doc }"

section \<open>Filters as boolean formulas\<close>

fun filter_eval :: "(FieldFilter \<Rightarrow> bool) \<Rightarrow> Filter \<Rightarrow> bool" where
  "filter_eval v (FieldFilter_of f) = v f"
| "filter_eval v (CompositeFilter fs And) = (\<forall>f \<in> set fs. filter_eval v f)"
| "filter_eval v (CompositeFilter fs Or) = (\<exists>f \<in> set fs. filter_eval v f)"

definition field_match :: "MutableDocument \<Rightarrow> FieldFilter \<Rightarrow> bool" where
  "field_match doc f \<longleftrightarrow> FieldFilter_Matches f doc = Some True"

text \<open>A filter whose field filters are defined on the document matches as its formula says.\<close>

lemma Filter_Matches_eval:
  "\<forall>ff \<in> set (GetFlattenedFilters f). FieldFilter_Matches ff doc \<noteq> None \<Longrightarrow>
    Filter_Matches f doc = Some (filter_eval (field_match doc) f)"
  and all_match_eval:
  "\<forall>f \<in> set fs. \<forall>ff \<in> set (GetFlattenedFilters f). FieldFilter_Matches ff doc \<noteq> None \<Longrightarrow>
    all_match fs doc = Some (\<forall>f \<in> set fs. filter_eval (field_match doc) f)"
  and any_match_eval:
  "\<forall>f \<in> set fs. \<forall>ff \<in> set (GetFlattenedFilters f). FieldFilter_Matches ff doc \<noteq> None \<Longrightarrow>
    any_match fs doc = Some (\<exists>f \<in> set fs. filter_eval (field_match doc) f)"
proof (induction f doc and fs doc and fs doc rule: Filter_Matches_all_match_any_match.induct)
  case (1 f doc)
  then show ?case by (auto simp: field_match_def)
next
  case (2 fs op doc)
  then show ?case by (cases op) auto
qed auto

end
