(* ===== verification/LogicUtils.thy ===== *)
theory LogicUtils
  imports Filters
begin

text \<open>
  The disjunctive normal form of filters (\<^verbatim>\<open>util/logic_utils.cc\<close>): association flattens nested
  filters of one operator, distribution moves disjunctions out of conjunctions, and the
  expansion of \<^verbatim>\<open>in\<close> replaces a membership by a disjunction of equalities.  None is a failed
  hard assertion.  Filters are compared as formulas by \<^const>\<open>filter_eval\<close>.
\<close>

section \<open>Normal forms\<close>

definition IsSingleFieldFilter :: "Filter \<Rightarrow> bool" where
  "IsSingleFieldFilter f \<longleftrightarrow> IsAFieldFilter f"

definition IsFlatConjunction :: "Filter \<Rightarrow> bool" where
  "IsFlatConjunction f \<longleftrightarrow> \<not> IsAFieldFilter f \<and> IsFlat f \<and> IsConjunction f"

definition IsDisjunctionOfFieldFiltersAndFlatConjunctions :: "Filter \<Rightarrow> bool" where
  "IsDisjunctionOfFieldFiltersAndFlatConjunctions f \<longleftrightarrow>
     \<not> IsAFieldFilter f \<and> IsDisjunction f \<and>
     (\<forall>sub_filter \<in> set (GetFilters f). IsSingleFieldFilter sub_filter \<or> IsFlatConjunction sub_filter)"

definition IsDisjunctiveNormalForm :: "Filter \<Rightarrow> bool" where
  "IsDisjunctiveNormalForm f \<longleftrightarrow>
     IsSingleFieldFilter f \<or> IsFlatConjunction f \<or>
     IsDisjunctionOfFieldFiltersAndFlatConjunctions f"

section \<open>Association\<close>

fun merge_subfilter :: "CompositeOperator \<Rightarrow> Filter \<Rightarrow> Filter list" where
  "merge_subfilter op (FieldFilter_of f) = [FieldFilter_of f]"
| "merge_subfilter op (CompositeFilter gs op') = (if op' = op then gs else [CompositeFilter gs op'])"

definition single_or_composite :: "CompositeOperator \<Rightarrow> Filter list \<Rightarrow> Filter" where
  "single_or_composite op new_subfilters =
     (if length new_subfilters = 1 then new_subfilters ! 0 else CompositeFilter new_subfilters op)"

fun ApplyAssociation :: "Filter \<Rightarrow> Filter" where
  "ApplyAssociation (FieldFilter_of f) = FieldFilter_of f"
| "ApplyAssociation (CompositeFilter [f] op) = ApplyAssociation f"
| "ApplyAssociation (CompositeFilter fs op) =
     (if IsFlat (CompositeFilter fs op) then CompositeFilter fs op
      else
        let updated_filters = map ApplyAssociation fs;
            new_subfilters = concat (map (merge_subfilter op) updated_filters)
        in single_or_composite op new_subfilters)"

section \<open>Distribution\<close>

text \<open>The two loops of the distribution are \<open>distribute_over\<close> (a field filter over the subfilters
  of a disjunction) and \<open>distribute_each\<close> (the subfilters of the disjunctive side over the
  other side).\<close>

function (sequential)
  ApplyDistribution :: "Filter \<Rightarrow> Filter \<Rightarrow> Filter option" and
  distribute_over :: "FieldFilter \<Rightarrow> Filter list \<Rightarrow> Filter list option" and
  distribute_each :: "Filter list \<Rightarrow> Filter \<Rightarrow> Filter list option"
where
  "ApplyDistribution (FieldFilter_of l) (FieldFilter_of r) =
     Some (ApplyAssociation (CompositeFilter [FieldFilter_of l, FieldFilter_of r] And))"
| "ApplyDistribution (FieldFilter_of l) (CompositeFilter rs op) =
     (if op = And then Some (ApplyAssociation (WithAddedFilters (CompositeFilter rs op) [FieldFilter_of l]))
      else map_option (\<lambda>fs. ApplyAssociation (CompositeFilter fs Or)) (distribute_over l rs))"
| "ApplyDistribution (CompositeFilter ls op) (FieldFilter_of r) =
     (if op = And then Some (ApplyAssociation (WithAddedFilters (CompositeFilter ls op) [FieldFilter_of r]))
      else map_option (\<lambda>fs. ApplyAssociation (CompositeFilter fs Or)) (distribute_over r ls))"
| "ApplyDistribution (CompositeFilter ls lop) (CompositeFilter rs rop) =
     (if ls = [] \<or> rs = [] then None
      else if lop = And \<and> rop = And then
        Some (ApplyAssociation (WithAddedFilters (CompositeFilter ls lop) rs))
      else if lop = Or then
        map_option (\<lambda>fs. ApplyAssociation (CompositeFilter fs Or)) (distribute_each ls (CompositeFilter rs rop))
      else
        map_option (\<lambda>fs. ApplyAssociation (CompositeFilter fs Or)) (distribute_each rs (CompositeFilter ls lop)))"
| "distribute_over f [] = Some []"
| "distribute_over f (g # gs) =
     do { h \<leftarrow> ApplyDistribution (FieldFilter_of f) g; hs \<leftarrow> distribute_over f gs; Some (h # hs) }"
| "distribute_each [] other = Some []"
| "distribute_each (g # gs) other =
     do { h \<leftarrow> ApplyDistribution g other; hs \<leftarrow> distribute_each gs other; Some (h # hs) }"
  by pat_completeness auto
termination
  by (relation "measure (\<lambda>x. case x of
        Inl (l, r) \<Rightarrow> size l + size r
      | Inr (Inl (f, gs)) \<Rightarrow> size (FieldFilter_of f) + size_list size gs
      | Inr (Inr (gs, other)) \<Rightarrow> size_list size gs + size other)") auto

fun distribute_all :: "Filter \<Rightarrow> Filter list \<Rightarrow> Filter option" where
  "distribute_all running_result [] = Some running_result"
| "distribute_all running_result (f # fs) =
     do { r \<leftarrow> ApplyDistribution running_result f; distribute_all r fs }"

definition distribute_filter :: "Filter \<Rightarrow> Filter option" where
  "distribute_filter new_filter =
     (if IsDisjunctiveNormalForm new_filter then Some new_filter
      else if \<not> IsConjunction new_filter \<or> length (GetFilters new_filter) \<le> 1 then None
      else distribute_all (hd (GetFilters new_filter)) (tl (GetFilters new_filter)))"

fun ComputeDistributedNormalForm :: "Filter \<Rightarrow> Filter option"
  and normal_forms :: "Filter list \<Rightarrow> Filter list option"
where
  "ComputeDistributedNormalForm (FieldFilter_of f) = Some (FieldFilter_of f)"
| "ComputeDistributedNormalForm (CompositeFilter [f] op) = ComputeDistributedNormalForm f"
| "ComputeDistributedNormalForm (CompositeFilter fs op) =
     do {
       result \<leftarrow> normal_forms fs;
       distribute_filter (ApplyAssociation (CompositeFilter result op))
     }"
| "normal_forms [] = Some []"
| "normal_forms (f # fs) =
     do { g \<leftarrow> ComputeDistributedNormalForm f; gs \<leftarrow> normal_forms fs; Some (g # gs) }"

section \<open>The in operator\<close>

fun equality_filters :: "path \<Rightarrow> Value list \<Rightarrow> Filter list option" where
  "equality_filters path [] = Some []"
| "equality_filters path (v # vs) =
     do {
       f \<leftarrow> FieldFilter_Create path Equal v;
       fs \<leftarrow> equality_filters path vs;
       Some (FieldFilter_of f # fs)
     }"

fun ComputeInExpansion :: "Filter \<Rightarrow> Filter option"
  and in_expansions :: "Filter list \<Rightarrow> Filter list option"
where
  "ComputeInExpansion (FieldFilter_of (InFilter path value)) =
     map_option (\<lambda>fs. CompositeFilter fs Or) (equality_filters path (array_values value))"
| "ComputeInExpansion (FieldFilter_of f) = Some (FieldFilter_of f)"
| "ComputeInExpansion (CompositeFilter fs op) = map_option (\<lambda>gs. CompositeFilter gs op) (in_expansions fs)"
| "in_expansions [] = Some []"
| "in_expansions (f # fs) = do { g \<leftarrow> ComputeInExpansion f; gs \<leftarrow> in_expansions fs; Some (g # gs) }"

definition GetDnfTerms :: "Filter \<Rightarrow> Filter list option" where
  "GetDnfTerms f =
     (if GetFilters f = [] then Some []
      else do {
        expanded \<leftarrow> ComputeInExpansion f;
        result \<leftarrow> ComputeDistributedNormalForm expanded;
        if \<not> IsDisjunctiveNormalForm result then None
        else if IsSingleFieldFilter result \<or> IsFlatConjunction result then Some [result]
        else Some (GetFilters result)
      })"

section \<open>Association keeps the formula\<close>

lemmas normal_form_defs = IsSingleFieldFilter_def IsFlatConjunction_def
  IsDisjunctionOfFieldFiltersAndFlatConjunctions_def IsDisjunctiveNormalForm_def

definition ops :: "CompositeOperator \<Rightarrow> bool set \<Rightarrow> bool" where
  "ops op S \<longleftrightarrow> (case op of And \<Rightarrow> False \<notin> S | Or \<Rightarrow> True \<in> S)"

lemma eval_composite: "filter_eval v (CompositeFilter fs op) = ops op (filter_eval v ` set fs)"
  by (cases op) (auto simp: ops_def)

lemma eval_single [simp]: "filter_eval v (CompositeFilter [f] op) = filter_eval v f"
  by (cases op) auto

lemma eval_append:
  "filter_eval v (CompositeFilter (fs @ gs) op) =
   (case op of And \<Rightarrow> filter_eval v (CompositeFilter fs op) \<and> filter_eval v (CompositeFilter gs op)
    | Or \<Rightarrow> filter_eval v (CompositeFilter fs op) \<or> filter_eval v (CompositeFilter gs op))"
  by (cases op) auto

lemma eval_cong: "map (filter_eval v) fs = map (filter_eval v) gs \<Longrightarrow>
  filter_eval v (CompositeFilter fs op) = filter_eval v (CompositeFilter gs op)"
  unfolding eval_composite by (metis set_map)

lemma merge_subfilter_eval: "filter_eval v (CompositeFilter (merge_subfilter op f) op) = filter_eval v f"
  by (cases "(op, f)" rule: merge_subfilter.cases) auto

lemma merge_all_eval:
  "filter_eval v (CompositeFilter (concat (map (merge_subfilter op) fs)) op) = filter_eval v (CompositeFilter fs op)"
proof (induction fs)
  case (Cons f fs)
  then show ?case using merge_subfilter_eval [of v op f]
    by (cases op) (simp_all add: eval_append ball_Un bex_Un)
qed simp

lemma single_or_composite_eval:
  "filter_eval v (single_or_composite op fs) = filter_eval v (CompositeFilter fs op)"
proof (cases "length fs = 1")
  case True
  then obtain g where "fs = [g]" by (auto simp: length_Suc_conv)
  then show ?thesis by (simp only: single_or_composite_def eval_single) simp
qed (simp add: single_or_composite_def)

lemma association_eval: "filter_eval v (ApplyAssociation f) = filter_eval v f"
proof (induction f rule: ApplyAssociation.induct, goal_cases)
  case (4 f g fs op)
  let ?fs = "f # g # fs"
  show ?case
  proof (cases "IsFlat (CompositeFilter ?fs op)")
    case False
    then have "map (filter_eval v) (map ApplyAssociation ?fs) = map (filter_eval v) ?fs"
      using 4 by simp
    then have "filter_eval v (CompositeFilter (map ApplyAssociation ?fs) op) = filter_eval v (CompositeFilter ?fs op)"
      by (rule eval_cong)
    then show ?thesis using False
      unfolding ApplyAssociation.simps Let_def if_not_P [OF False] single_or_composite_eval merge_all_eval by simp
  qed (simp only: ApplyAssociation.simps if_True)
qed simp_all

section \<open>Association keeps normal forms\<close>

fun nonempty :: "Filter \<Rightarrow> bool" where
  "nonempty (FieldFilter_of f) = True"
| "nonempty (CompositeFilter fs op) = (fs \<noteq> [] \<and> (\<forall>f \<in> set fs. nonempty f))"

definition is_term :: "Filter \<Rightarrow> bool" where
  "is_term f \<longleftrightarrow> IsSingleFieldFilter f \<or> IsFlatConjunction f"

definition good_dnf :: "Filter \<Rightarrow> bool" where
  "good_dnf f \<longleftrightarrow> IsDisjunctiveNormalForm f \<and> nonempty f"

lemma is_term_simps [simp]:
  "is_term (FieldFilter_of f)" "is_term (CompositeFilter fs op) \<longleftrightarrow> op = And \<and> (\<forall>f \<in> set fs. IsAFieldFilter f)"
  by (auto simp: is_term_def normal_form_defs)

lemma dnf_simps [simp]:
  "IsDisjunctiveNormalForm (FieldFilter_of f)"
  "IsDisjunctiveNormalForm (CompositeFilter fs And) \<longleftrightarrow> (\<forall>f \<in> set fs. IsAFieldFilter f)"
  "IsDisjunctiveNormalForm (CompositeFilter fs Or) \<longleftrightarrow> (\<forall>f \<in> set fs. is_term f)"
  by (auto simp: normal_form_defs is_term_def)

lemma term_dnf: "is_term f \<Longrightarrow> IsDisjunctiveNormalForm f"
  by (auto simp: is_term_def IsDisjunctiveNormalForm_def)

lemma field_term: "IsAFieldFilter f \<Longrightarrow> is_term f" "IsAFieldFilter f \<Longrightarrow> nonempty f"
  by (cases f; simp)+

lemma association_cases:
  obtains (field) ff where "f = FieldFilter_of ff" "ApplyAssociation f = f"
  | (single) g op where "f = CompositeFilter [g] op" "ApplyAssociation f = ApplyAssociation g"
  | (flat) fs op where "f = CompositeFilter fs op" "length fs \<noteq> 1" "\<forall>g \<in> set fs. IsAFieldFilter g" "ApplyAssociation f = f"
  | (merge) fs op where "f = CompositeFilter fs op" "length fs > 1"
      "ApplyAssociation f =
        single_or_composite op (concat (map (merge_subfilter op) (map ApplyAssociation fs)))"
proof (cases f)
  case (FieldFilter_of ff)
  then show ?thesis using field by simp
next
  case f: (CompositeFilter fs op)
  show ?thesis
  proof (cases fs)
    case Nil
    then show ?thesis using flat f by simp
  next
    case (Cons g gs)
    show ?thesis
    proof (cases gs)
      case Nil
      then show ?thesis using single f Cons by simp
    next
      case gs: (Cons h hs)
      show ?thesis
      proof (cases "IsFlat (CompositeFilter fs op)")
        case True
        then show ?thesis using flat f Cons gs by simp
      next
        case False
        then have "ApplyAssociation f = single_or_composite op (concat (map (merge_subfilter op) (map ApplyAssociation fs)))"
          unfolding f Cons gs ApplyAssociation.simps Let_def by (simp only: if_False)
        then show ?thesis using merge f Cons gs by simp
      qed
    qed
  qed
qed

lemma single_or_composite_all:
  "fs \<noteq> [] \<Longrightarrow> \<forall>f \<in> set fs. nonempty f \<Longrightarrow> nonempty (single_or_composite op fs)"
  by (auto simp: single_or_composite_def)

lemma merge_nonempty: "nonempty f \<Longrightarrow> merge_subfilter op f \<noteq> [] \<and> (\<forall>g \<in> set (merge_subfilter op f). nonempty g)"
  by (cases "(op, f)" rule: merge_subfilter.cases) auto

lemma association_nonempty: "nonempty f \<Longrightarrow> nonempty (ApplyAssociation f)"
proof (induction f)
  case (CompositeFilter fs op)
  show ?case
  proof (cases "CompositeFilter fs op" rule: association_cases)
    case (merge gs op')
    have sub: "\<forall>g \<in> set (map ApplyAssociation fs). nonempty g" using CompositeFilter by simp
    then have "\<forall>g \<in> set (concat (map (merge_subfilter op) (map ApplyAssociation fs))). nonempty g"
      using merge_nonempty by auto
    moreover have "concat (map (merge_subfilter op) (map ApplyAssociation fs)) \<noteq> []"
      using CompositeFilter.prems sub merge_nonempty by (cases fs) auto
    ultimately show ?thesis using merge single_or_composite_all by simp
  qed (use CompositeFilter in auto)
qed simp

lemma association_term: "is_term f \<Longrightarrow> is_term (ApplyAssociation f)"
proof -
  assume "is_term f"
  then show ?thesis
  proof (cases f rule: association_cases)
    case (single g op)
    then show ?thesis using \<open>is_term f\<close> by (cases g) auto
  next
    case (merge fs op)
    then have "\<forall>g \<in> set fs. IsAFieldFilter g" "op = And" using \<open>is_term f\<close> by auto
    then have "map ApplyAssociation fs = fs" by (induction fs) (auto elim: IsAFieldFilter.elims)
    moreover have "concat (map (merge_subfilter op) fs) = fs"
      using \<open>\<forall>g \<in> set fs. IsAFieldFilter g\<close> by (induction fs) (auto elim!: IsAFieldFilter.elims)
    ultimately have "ApplyAssociation f = CompositeFilter fs op"
      using merge by (simp add: single_or_composite_def)
    then show ?thesis using merge \<open>is_term f\<close> by simp
  qed simp_all
qed

lemma single_or_composite_dnf:
  "\<forall>f \<in> set fs. is_term f \<Longrightarrow> IsDisjunctiveNormalForm (single_or_composite Or fs)"
  by (auto simp: single_or_composite_def intro!: term_dnf)

lemma merge_or_terms: "IsDisjunctiveNormalForm f \<Longrightarrow> \<forall>g \<in> set (merge_subfilter Or f). is_term g"
  by (cases "(Or, f)" rule: merge_subfilter.cases) (auto simp: normal_form_defs is_term_def)

lemma merge_and_dnf: "IsDisjunctiveNormalForm f \<Longrightarrow> \<forall>g \<in> set (merge_subfilter And f). IsDisjunctiveNormalForm g"
  by (cases "(And, f)" rule: merge_subfilter.cases) (auto intro: term_dnf field_term simp: normal_form_defs)

lemma association_dnf: "IsDisjunctiveNormalForm f \<Longrightarrow> IsDisjunctiveNormalForm (ApplyAssociation f)"
proof (cases "is_term f")
  case True
  then show ?thesis using association_term term_dnf by blast
next
  case False
  assume dnf: "IsDisjunctiveNormalForm f"
  then obtain ts where ts: "f = CompositeFilter ts Or" "\<forall>t \<in> set ts. is_term t"
    using False by (cases f; cases "case f of CompositeFilter ts op \<Rightarrow> op | _ \<Rightarrow> And") auto
  show ?thesis
  proof (cases f rule: association_cases)
    case (merge fs op)
    then have "\<forall>t \<in> set (map ApplyAssociation fs). IsDisjunctiveNormalForm t"
      using ts association_term term_dnf by auto
    then have "\<forall>t \<in> set (concat (map (merge_subfilter Or) (map ApplyAssociation fs))). is_term t"
      using merge_or_terms by fastforce
    then show ?thesis using merge ts single_or_composite_dnf by simp
  qed (use ts dnf association_term term_dnf in auto)
qed

lemma association_good: "good_dnf f \<Longrightarrow> good_dnf (ApplyAssociation f)"
  using association_dnf association_nonempty by (simp add: good_dnf_def)

text \<open>A disjunction of normal forms becomes a normal form; a conjunction of them at least a
  conjunction of at least two normal forms.\<close>

lemma association_or:
  assumes "\<forall>r \<in> set rs. good_dnf r" "rs \<noteq> []"
  shows "good_dnf (ApplyAssociation (CompositeFilter rs Or))"
proof -
  have ne: "nonempty (ApplyAssociation (CompositeFilter rs Or))"
    using association_nonempty assms by (simp add: good_dnf_def)
  show ?thesis
  proof (cases "CompositeFilter rs Or" rule: association_cases)
    case (single g op)
    then show ?thesis using assms association_good by auto
  next
    case (flat fs op)
    then show ?thesis using ne field_term by (simp add: good_dnf_def)
  next
    case (merge fs op)
    have "\<forall>t \<in> set (map ApplyAssociation rs). IsDisjunctiveNormalForm t"
      using assms association_dnf by (auto simp: good_dnf_def)
    then have "\<forall>t \<in> set (concat (map (merge_subfilter Or) (map ApplyAssociation rs))). is_term t"
      using merge_or_terms by fastforce
    then show ?thesis using ne merge single_or_composite_dnf by (simp add: good_dnf_def)
  qed simp
qed

lemma association_and:
  assumes "\<forall>r \<in> set rs. good_dnf r" "rs \<noteq> []"
  shows "good_dnf (ApplyAssociation (CompositeFilter rs And)) \<or>
    (\<exists>ns. ApplyAssociation (CompositeFilter rs And) = CompositeFilter ns And \<and> length ns > 1 \<and> (\<forall>n \<in> set ns. good_dnf n))"
proof -
  have ne: "nonempty (ApplyAssociation (CompositeFilter rs And))"
    using association_nonempty assms by (simp add: good_dnf_def)
  show ?thesis
  proof (cases "CompositeFilter rs And" rule: association_cases)
    case (single g op)
    then show ?thesis using assms association_good by auto
  next
    case (flat fs op)
    then show ?thesis using ne by (simp add: good_dnf_def)
  next
    case (merge fs op)
    let ?ns = "concat (map (merge_subfilter And) (map ApplyAssociation rs))"
    have good: "\<forall>t \<in> set (map ApplyAssociation rs). good_dnf t" using assms association_good by auto
    then have ns: "\<forall>n \<in> set ?ns. good_dnf n"
      using merge_and_dnf merge_nonempty unfolding good_dnf_def by fastforce
    have "?ns \<noteq> []" using good assms(2) merge_nonempty by (cases rs) (auto simp: good_dnf_def)
    then show ?thesis
    proof (cases "tl ?ns = []")
      case True
      then obtain n where "?ns = [n]" using \<open>?ns \<noteq> []\<close> by (metis list.collapse)
      then have "ApplyAssociation (CompositeFilter rs And) = n" using merge by (simp add: single_or_composite_def)
      moreover have "good_dnf n" using ns \<open>?ns = [n]\<close> by (metis list.set_intros(1))
      ultimately show ?thesis by simp
    next
      case False
      then obtain n m ms where n: "?ns = n # m # ms" using \<open>?ns \<noteq> []\<close> by (metis list.collapse)
      then have "length ?ns > 1" by simp
      moreover have "ApplyAssociation (CompositeFilter rs And) = CompositeFilter ?ns And"
        using merge n by (simp add: single_or_composite_def)
      ultimately show ?thesis using ns by blast
    qed
  qed simp
qed

section \<open>Distribution keeps normal forms and formulas\<close>

lemma good_dnf_term: "is_term f \<Longrightarrow> nonempty f \<Longrightarrow> good_dnf f"
  by (simp add: good_dnf_def term_dnf)

lemma good_dnf_or: "good_dnf (CompositeFilter fs Or) \<Longrightarrow> fs \<noteq> [] \<and> (\<forall>f \<in> set fs. good_dnf f)"
  by (auto simp: good_dnf_def term_dnf)

lemma good_dnf_and: "good_dnf (CompositeFilter fs And) \<Longrightarrow> fs \<noteq> [] \<and> (\<forall>f \<in> set fs. IsAFieldFilter f \<and> nonempty f)"
  by (auto simp: good_dnf_def)

lemma flat_conjunction_good:
  "fs \<noteq> [] \<Longrightarrow> \<forall>f \<in> set fs. IsAFieldFilter f \<Longrightarrow> good_dnf (ApplyAssociation (CompositeFilter fs And))"
  by (rule association_good) (auto simp: good_dnf_def field_term)

definition conjunctions :: "Filter list option \<Rightarrow> Filter \<Rightarrow> Filter list \<Rightarrow> bool" where
  "conjunctions r f gs \<longleftrightarrow>
     (\<exists>hs. r = Some hs \<and> (\<forall>h \<in> set hs. good_dnf h) \<and> length hs = length gs \<and>
        (\<forall>v. map (filter_eval v) hs = map (\<lambda>g. filter_eval v f \<and> filter_eval v g) gs))"

definition conjunction :: "Filter option \<Rightarrow> Filter \<Rightarrow> Filter \<Rightarrow> bool" where
  "conjunction r f g \<longleftrightarrow>
     (\<exists>h. r = Some h \<and> good_dnf h \<and> (\<forall>v. filter_eval v h \<longleftrightarrow> filter_eval v f \<and> filter_eval v g))"

lemma conjunctions_Cons:
  "conjunction r f g \<Longrightarrow> conjunctions rs f gs \<Longrightarrow>
   conjunctions (do { h \<leftarrow> r; hs \<leftarrow> rs; Some (h # hs) }) f (g # gs)"
  by (auto simp: conjunctions_def conjunction_def)

lemma conjunctions_or:
  assumes "conjunctions rs f gs" "gs \<noteq> []"
  shows "conjunction (map_option (\<lambda>fs. ApplyAssociation (CompositeFilter fs Or)) rs) f (CompositeFilter gs Or)"
proof -
  obtain hs where hs: "rs = Some hs" "\<forall>h \<in> set hs. good_dnf h" "length hs = length gs"
    "\<forall>v. map (filter_eval v) hs = map (\<lambda>g. filter_eval v f \<and> filter_eval v g) gs"
    using assms(1) by (auto simp: conjunctions_def)
  have "filter_eval v (CompositeFilter hs Or) \<longleftrightarrow> filter_eval v f \<and> filter_eval v (CompositeFilter gs Or)" for v
  proof -
    have "filter_eval v ` set hs = (\<lambda>g. filter_eval v f \<and> filter_eval v g) ` set gs"
      using hs(4) by (metis set_map)
    then show ?thesis by (auto simp: eval_composite ops_def)
  qed
  moreover have "good_dnf (ApplyAssociation (CompositeFilter hs Or))"
    by (rule association_or [OF hs(2)]) (use hs(3) assms(2) in auto)
  ultimately show ?thesis using hs(1) by (simp add: conjunction_def association_eval)
qed

lemma conjunction_swap: "conjunction r f g \<Longrightarrow> conjunction r g f"
  by (auto simp: conjunction_def)

lemma distribution_ok:
  "good_dnf l \<Longrightarrow> good_dnf r \<Longrightarrow> conjunction (ApplyDistribution l r) l r"
  and over_ok: "\<forall>g \<in> set gs. good_dnf g \<Longrightarrow> conjunctions (distribute_over f gs) (FieldFilter_of f) gs"
  and each_ok: "\<forall>g \<in> set gs'. good_dnf g \<Longrightarrow> good_dnf other \<Longrightarrow> conjunctions (distribute_each gs' other) other gs'"
proof (induction l r and f gs and gs' other rule: ApplyDistribution_distribute_over_distribute_each.induct)
  case (1 l r)
  have "good_dnf (ApplyAssociation (CompositeFilter [FieldFilter_of l, FieldFilter_of r] And))"
    by (rule flat_conjunction_good) auto
  then show ?case by (simp add: conjunction_def association_eval del: ApplyAssociation.simps)
next
  case (2 l rs op)
  show ?case
  proof (cases op)
    case And
    then have "good_dnf (ApplyAssociation (CompositeFilter (rs @ [FieldFilter_of l]) And))"
      using good_dnf_and 2(3) by (intro flat_conjunction_good) auto
    then show ?thesis using And by (auto simp: conjunction_def association_eval)
  next
    case Or
    then show ?thesis using 2 good_dnf_or [of rs] conjunctions_or [of _ "FieldFilter_of l" rs] by simp
  qed
next
  case (3 ls op r)
  show ?case
  proof (cases op)
    case And
    then have "good_dnf (ApplyAssociation (CompositeFilter (ls @ [FieldFilter_of r]) And))"
      using good_dnf_and 3(2) by (intro flat_conjunction_good) auto
    then show ?thesis using And by (auto simp: conjunction_def association_eval)
  next
    case Or
    then have "conjunction (ApplyDistribution (CompositeFilter ls op) (FieldFilter_of r)) (FieldFilter_of r) (CompositeFilter ls op)"
      using 3 good_dnf_or [of ls] conjunctions_or [of _ "FieldFilter_of r" ls] by simp
    then show ?thesis by (rule conjunction_swap)
  qed
next
  case (4 ls lop rs rop)
  have ne: "ls \<noteq> []" "rs \<noteq> []" using 4(3,4) by (auto simp: good_dnf_def)
  consider (both) "lop = And" "rop = And" | (left) "lop = Or" | (right) "lop = And" "rop = Or"
    by (cases lop; cases rop) auto
  then show ?case
  proof cases
    case both
    then have "good_dnf (ApplyAssociation (CompositeFilter (ls @ rs) And))"
      using good_dnf_and 4(3,4) ne by (intro flat_conjunction_good) auto
    then show ?thesis using both ne by (auto simp: conjunction_def association_eval)
  next
    case left
    then have "conjunctions (distribute_each ls (CompositeFilter rs rop)) (CompositeFilter rs rop) ls"
      using 4(1,3,4) ne good_dnf_or [of ls] by simp
    then have "conjunction (ApplyDistribution (CompositeFilter ls lop) (CompositeFilter rs rop))
        (CompositeFilter rs rop) (CompositeFilter ls lop)"
      using left ne conjunctions_or [OF _ ne(1)] by simp
    then show ?thesis by (rule conjunction_swap)
  next
    case right
    then have "conjunctions (distribute_each rs (CompositeFilter ls lop)) (CompositeFilter ls lop) rs"
      using 4(2,3,4) ne good_dnf_or [of rs] by simp
    then show ?thesis using right ne conjunctions_or [OF _ ne(2)] by simp
  qed
next
  case (5 f)
  then show ?case by (simp add: conjunctions_def)
next
  case (6 f g gs)
  have "good_dnf (FieldFilter_of f)" by (simp add: good_dnf_def)
  then have one: "conjunction (ApplyDistribution (FieldFilter_of f) g) (FieldFilter_of f) g" using 6 by simp
  then obtain h where "ApplyDistribution (FieldFilter_of f) g = Some h" by (auto simp: conjunction_def)
  then have "conjunctions (distribute_over f gs) (FieldFilter_of f) gs" using 6 by simp
  then show ?case using conjunctions_Cons [OF one] by simp
next
  case (7 other)
  then show ?case by (simp add: conjunctions_def)
next
  case (8 g gs other)
  then have "conjunction (ApplyDistribution g other) g other" by simp
  then have one: "conjunction (ApplyDistribution g other) other g" by (rule conjunction_swap)
  then obtain h where "ApplyDistribution g other = Some h" by (auto simp: conjunction_def)
  then have "conjunctions (distribute_each gs other) other gs" using 8 by simp
  then show ?case using conjunctions_Cons [OF one] by simp
qed

section \<open>The normal form\<close>

lemma distribute_all_ok:
  "good_dnf f \<Longrightarrow> \<forall>g \<in> set gs. good_dnf g \<Longrightarrow>
   \<exists>h. distribute_all f gs = Some h \<and> good_dnf h \<and> (\<forall>v. filter_eval v h \<longleftrightarrow> filter_eval v f \<and> (\<forall>g \<in> set gs. filter_eval v g))"
proof (induction gs arbitrary: f)
  case (Cons g gs)
  then obtain h where "ApplyDistribution f g = Some h" "good_dnf h" "\<forall>v. filter_eval v h \<longleftrightarrow> filter_eval v f \<and> filter_eval v g"
    using distribution_ok [of f g] by (auto simp: conjunction_def)
  then show ?case using Cons.IH [of h] Cons.prems by auto
qed simp

lemma distribute_filter_ok:
  assumes "\<forall>r \<in> set rs. good_dnf r" "rs \<noteq> []"
  shows "\<exists>h. distribute_filter (ApplyAssociation (CompositeFilter rs op)) = Some h \<and> good_dnf h \<and>
    (\<forall>v. filter_eval v h = filter_eval v (CompositeFilter rs op))"
proof (cases "good_dnf (ApplyAssociation (CompositeFilter rs op))")
  case True
  then show ?thesis by (auto simp: distribute_filter_def good_dnf_def association_eval)
next
  case False
  then have "op = And" using association_or [OF assms] by (cases op) auto
  then obtain ns where ns: "ApplyAssociation (CompositeFilter rs op) = CompositeFilter ns And" "length ns > 1"
    "\<forall>n \<in> set ns. good_dnf n" using association_and [OF assms] False by blast
  then have eval: "filter_eval v (CompositeFilter rs op) = (\<forall>n \<in> set ns. filter_eval v n)" for v
    using association_eval [of v "CompositeFilter rs op"] by simp
  obtain n ns' where n: "ns = n # ns'" using ns(2) by (cases ns) auto
  have "\<not> IsDisjunctiveNormalForm (CompositeFilter ns And)"
    using False ns by (auto simp: good_dnf_def n)
  moreover obtain h where "distribute_all n ns' = Some h" "good_dnf h"
    "\<forall>v. filter_eval v h \<longleftrightarrow> filter_eval v n \<and> (\<forall>g \<in> set ns'. filter_eval v g)"
    using distribute_all_ok [of n ns'] ns(3) n by auto
  ultimately show ?thesis using ns(1,2) eval n by (auto simp: distribute_filter_def)
qed

lemma normal_form_ok:
  "nonempty f \<Longrightarrow> \<exists>g. ComputeDistributedNormalForm f = Some g \<and> good_dnf g \<and> (\<forall>v. filter_eval v g = filter_eval v f)"
  and normal_forms_ok:
  "\<forall>f \<in> set fs. nonempty f \<Longrightarrow> \<exists>gs. normal_forms fs = Some gs \<and> (\<forall>g \<in> set gs. good_dnf g) \<and> length gs = length fs \<and>
     (\<forall>v. map (filter_eval v) gs = map (filter_eval v) fs)"
proof (induction f and fs rule: ComputeDistributedNormalForm_normal_forms.induct, goal_cases)
  case (1 f)
  then show ?case by (simp add: good_dnf_def)
next
  case (2 f op)
  then show ?case by simp
next
  case (3 op)
  then show ?case by simp
next
  case (4 f g fs op)
  let ?fs = "f # g # fs"
  obtain gs where gs: "normal_forms ?fs = Some gs" "\<forall>g \<in> set gs. good_dnf g" "length gs = length ?fs"
    "\<forall>v. map (filter_eval v) gs = map (filter_eval v) ?fs" using 4 by auto
  moreover have "gs \<noteq> []" using gs(3) by auto
  moreover have "filter_eval v (CompositeFilter gs op) = filter_eval v (CompositeFilter ?fs op)" for v
    using eval_cong gs(4) by blast
  ultimately show ?case using distribute_filter_ok [OF gs(2), of op]
    unfolding ComputeDistributedNormalForm.simps by auto
next
  case 5
  then show ?case by simp
next
  case (6 f fs)
  then obtain g where "ComputeDistributedNormalForm f = Some g" "good_dnf g" "\<forall>v. filter_eval v g = filter_eval v f" by auto
  then show ?case using 6 by auto
qed

section \<open>The expansion of in\<close>

text \<open>What the API guarantees of in filters: a list with elements on an ordinary field.\<close>

fun in_lists_ok :: "Filter \<Rightarrow> bool" where
  "in_lists_ok (FieldFilter_of (InFilter path value)) \<longleftrightarrow> \<not> IsKeyFieldPath path \<and> array_values value \<noteq> []"
| "in_lists_ok (FieldFilter_of f) = True"
| "in_lists_ok (CompositeFilter fs op) = (\<forall>f \<in> set fs. in_lists_ok f)"

text \<open>A valuation in which an in filter means the disjunction of its equalities.\<close>

fun in_as_equalities :: "(FieldFilter \<Rightarrow> bool) \<Rightarrow> FieldFilter \<Rightarrow> bool" where
  "in_as_equalities v (InFilter path value) =
     (\<exists>w \<in> set (array_values value). v (PlainFilter path Equal (SortFields w)))"
| "in_as_equalities v f = v f"

lemma equality_filters_ok:
  "\<not> IsKeyFieldPath path \<Longrightarrow>
   equality_filters path vs = Some (map (\<lambda>w. FieldFilter_of (PlainFilter path Equal (SortFields w))) vs)"
  by (induction vs) (simp_all add: FieldFilter_Create_def)

lemma in_expansion_ok:
  "in_lists_ok f \<Longrightarrow> nonempty f \<Longrightarrow>
    \<exists>g. ComputeInExpansion f = Some g \<and> nonempty g \<and> (\<forall>v. filter_eval v g = filter_eval (in_as_equalities v) f)"
  and in_expansions_ok:
  "\<forall>f \<in> set fs. in_lists_ok f \<and> nonempty f \<Longrightarrow>
    \<exists>gs. in_expansions fs = Some gs \<and> length gs = length fs \<and> (\<forall>g \<in> set gs. nonempty g) \<and>
      (\<forall>v. map (filter_eval v) gs = map (filter_eval (in_as_equalities v)) fs)"
proof (induction f and fs rule: ComputeInExpansion_in_expansions.induct, goal_cases)
  case (1 path v)
  then show ?case by (auto simp: equality_filters_ok)
next
  case (9 fs op)
  then obtain gs where gs: "in_expansions fs = Some gs" "length gs = length fs" "\<forall>g \<in> set gs. nonempty g"
    "\<forall>v. map (filter_eval v) gs = map (filter_eval (in_as_equalities v)) fs" by auto
  have "filter_eval v (CompositeFilter gs op) = filter_eval (in_as_equalities v) (CompositeFilter fs op)" for v
  proof -
    have "filter_eval v ` set gs = filter_eval (in_as_equalities v) ` set fs" using gs(4) by (metis set_map)
    then show ?thesis by (simp add: eval_composite)
  qed
  moreover have "gs \<noteq> []" using gs(2) 9(3) by auto
  ultimately show ?case using gs by simp
next
  case (11 f fs)
  then obtain g where "ComputeInExpansion f = Some g" "nonempty g"
    "\<forall>v. filter_eval v g = filter_eval (in_as_equalities v) f" by auto
  then show ?case using 11 by auto
qed simp_all

section \<open>Properties\<close>

text \<open>C28: The disjunctive normal form is computed for every composite filter without empty parts: the
  terms are single field filters or flat conjunctions of field filters, and their disjunction
  is equivalent to the filter with every in read as the disjunction of its equalities.\<close>

theorem dnf_terms_equivalent:
  assumes "in_lists_ok f" "nonempty f"
  shows "\<exists>ts. GetDnfTerms f = Some ts \<and> (\<forall>t \<in> set ts. IsSingleFieldFilter t \<or> IsFlatConjunction t) \<and>
    (\<forall>v. (\<exists>t \<in> set ts. filter_eval v t) \<longleftrightarrow> filter_eval (in_as_equalities v) f)"
proof -
  obtain g where g: "ComputeInExpansion f = Some g" "nonempty g"
    "\<forall>v. filter_eval v g = filter_eval (in_as_equalities v) f" using in_expansion_ok [OF assms] by auto
  obtain h where h: "ComputeDistributedNormalForm g = Some h" "good_dnf h" "\<forall>v. filter_eval v h = filter_eval v g"
    using normal_form_ok [OF g(2)] by auto
  have ne: "GetFilters f \<noteq> []" using assms(2) by (cases f) auto
  show ?thesis
  proof (cases "is_term h")
    case True
    then show ?thesis using g h ne by (auto simp: GetDnfTerms_def good_dnf_def is_term_def)
  next
    case False
    then obtain ts where "h = CompositeFilter ts Or" "\<forall>t \<in> set ts. is_term t"
      using h(2) by (auto simp: good_dnf_def normal_form_defs is_term_def elim!: IsDisjunction.elims)
    then show ?thesis using False g h ne by (auto simp: GetDnfTerms_def good_dnf_def is_term_def)
  qed
qed

theorem dnf_terms_equivalent_witness:
  "\<exists>ts. GetDnfTerms (CompositeFilter
      [FieldFilter_of (PlainFilter [''a''] Equal null_value),
       CompositeFilter [FieldFilter_of (PlainFilter [''b''] Equal null_value),
                        FieldFilter_of (PlainFilter [''c''] Equal null_value)] Or] And) = Some ts \<and>
     (\<forall>t \<in> set ts. IsSingleFieldFilter t \<or> IsFlatConjunction t)"
  using dnf_terms_equivalent [of "CompositeFilter
      [FieldFilter_of (PlainFilter [''a''] Equal null_value),
       CompositeFilter [FieldFilter_of (PlainFilter [''b''] Equal null_value),
                        FieldFilter_of (PlainFilter [''c''] Equal null_value)] Or] And"]
  by auto

text \<open>C29: The expansion of in is not an equivalence on documents: equalities compare numbers by
  value, the membership test compares them by type and bits, so a document whose field is the
  double of an integer matches the expansion of \<^verbatim>\<open>in [integer]\<close> and not the filter itself.\<close>

theorem in_expansion_matches_more:
  assumes "\<not> isnan d" "dbl_key d = sint i * 2 ^ 1074" "doc_field doc path = Some (double_value d)" "\<not> IsKeyFieldPath path"
  shows "FieldFilter_Matches (InFilter path (array_value [integer_value i])) doc = Some False \<and>
    (\<exists>g. ComputeInExpansion (FieldFilter_of (InFilter path (array_value [integer_value i]))) = Some g \<and>
      Filter_Matches g doc = Some True)"
proof -
  have "CompareNumbers (double_value d) (integer_value i) = Some Same"
    using assms by (simp only: CompareNumbers.simps CompareMixedNumber_exact exact_mixed_order_def if_False) simp
  then have "ValueCompare (double_value d) (integer_value i) = Some Same" by (simp add: ValueCompare.simps)
  then show ?thesis using assms(3,4)
    by (simp add: InFilter_Matches_def PlainFilter_Matches_def FieldFilter_Create_def ValueEquals.simps)
qed

theorem in_expansion_matches_more_witness:
  "FieldFilter_Matches (InFilter [''a''] (array_value [integer_value 0]))
     (FoundDocument [''c'', ''d''] SnapshotVersion_None [(''a'', double_value 0)]) = Some False"
proof -
  have "doc_field (FoundDocument [''c'', ''d''] SnapshotVersion_None [(''a'', double_value 0)]) [''a''] = Some (double_value 0)"
    by (simp add: doc_field_def FoundDocument_def document_defs Get_Cons)
  then show ?thesis
    using in_expansion_matches_more [of 0 0 "FoundDocument [''c'', ''d''] SnapshotVersion_None [(''a'', double_value 0)]" "[''a'']"]
    by (simp add: isnan_def dbl_key_def dbl_mag_def dbl_negative_def mag_value_def IsKeyFieldPath_def kDocumentKeyPath_def)
qed

end
