(* ===== verification/Queries.thy ===== *)
theory Queries
  imports Filters Overlays
begin

text \<open>
  Orderings, bounds, targets and queries (\<^verbatim>\<open>core/order_by.cc\<close>, \<^verbatim>\<open>bound.cc\<close>,
  \<^verbatim>\<open>direction.cc\<close>, \<^verbatim>\<open>target.cc\<close>, \<^verbatim>\<open>query.cc\<close>).  A collection group id is a string option.
  The lemmas show that the comparator of a query is a total order on the documents it matches
  and that the target of a limit-to-last query is the query read backwards.
\<close>

section \<open>Orderings\<close>

datatype Direction = AscendingDirection | DescendingDirection

fun ApplyTo :: "Direction \<Rightarrow> ComparisonResult \<Rightarrow> ComparisonResult" where
  "ApplyTo AscendingDirection result = result"
| "ApplyTo DescendingDirection result = ReverseOrder result"

record OrderBy =
  order_field :: path
  direction :: Direction

definition KeyFieldPath :: path where "KeyFieldPath = [kDocumentKeyPath]"

definition OrderBy_Compare :: "OrderBy \<Rightarrow> MutableDocument \<Rightarrow> MutableDocument \<Rightarrow> ComparisonResult option" where
  "OrderBy_Compare order_by lhs rhs =
     do {
       result \<leftarrow> (if IsKeyFieldPath (order_field order_by) then path_CompareTo (doc_key lhs) (doc_key rhs)
                 else do {
                   value1 \<leftarrow> doc_field lhs (order_field order_by);
                   value2 \<leftarrow> doc_field rhs (order_field order_by);
                   ValueCompare value1 value2
                 });
       Some (ApplyTo (direction order_by) result)
     }"

fun compare_by :: "OrderBy list \<Rightarrow> MutableDocument \<Rightarrow> MutableDocument \<Rightarrow> ComparisonResult option" where
  "compare_by [] doc1 doc2 = Some Same"
| "compare_by (order_by # order_bys) doc1 doc2 =
     do {
       comp \<leftarrow> OrderBy_Compare order_by doc1 doc2;
       if comp \<noteq> Same then Some comp else compare_by order_bys doc1 doc2
     }"

section \<open>Bounds\<close>

record Bound =
  position :: "Value list"
  inclusive :: bool

definition Bound_FromValue :: "Value list \<Rightarrow> bool \<Rightarrow> Bound" where
  "Bound_FromValue values inclusive_flag = \<lparr>position = map SortFields values, inclusive = inclusive_flag\<rparr>"

fun bound_loop :: "Value list \<Rightarrow> OrderBy list \<Rightarrow> MutableDocument \<Rightarrow> ComparisonResult option" where
  "bound_loop [] order_by document = Some Same"
| "bound_loop (field_value # values) [] document = None"
| "bound_loop (field_value # values) (component # order_by) document =
     do {
       comparison \<leftarrow> (if order_field component = KeyFieldPath
                     then (case field_value of
                             reference_value name \<Rightarrow> do { key \<leftarrow> DocumentKey_FromName name; path_CompareTo key (doc_key document) }
                           | _ \<Rightarrow> None)
                     else do { doc_value \<leftarrow> doc_field document (order_field component);
                               ValueCompare field_value doc_value });
       let comparison = ApplyTo (direction component) comparison
       in if comparison \<noteq> Same then Some comparison else bound_loop values order_by document
     }"

definition CompareToDocument :: "Bound \<Rightarrow> OrderBy list \<Rightarrow> MutableDocument \<Rightarrow> ComparisonResult option" where
  "CompareToDocument bound order_by document =
     (if length (position bound) \<le> length order_by then bound_loop (position bound) order_by document else None)"

definition SortsBeforeDocument :: "Bound \<Rightarrow> OrderBy list \<Rightarrow> MutableDocument \<Rightarrow> bool option" where
  "SortsBeforeDocument bound order_by document =
     map_option (\<lambda>comparison. comparison = Ascending \<or> inclusive bound \<and> comparison = Same)
       (CompareToDocument bound order_by document)"

definition SortsAfterDocument :: "Bound \<Rightarrow> OrderBy list \<Rightarrow> MutableDocument \<Rightarrow> bool option" where
  "SortsAfterDocument bound order_by document =
     map_option (\<lambda>comparison. comparison = Descending \<or> inclusive bound \<and> comparison = Same)
       (CompareToDocument bound order_by document)"

section \<open>Targets and queries\<close>

definition kNoLimit :: int where "kNoLimit = 2 ^ 31 - 1"

record Target =
  target_path :: path
  target_collection_group :: "string option"
  target_filters :: "Filter list"
  target_order_bys :: "OrderBy list"
  target_limit :: int
  target_start_at :: "Bound option"
  target_end_at :: "Bound option"

definition Target_IsDocumentQuery :: "Target \<Rightarrow> bool" where
  "Target_IsDocumentQuery target \<longleftrightarrow>
     IsDocumentKey (target_path target) \<and> target_collection_group target = None \<and> target_filters target = []"

datatype LimitType = NoLimit | First | Last

record Query =
  query_path :: path
  query_collection_group :: "string option"
  query_filters :: "Filter list"
  explicit_order_bys :: "OrderBy list"
  query_limit :: int
  limit_type :: LimitType
  query_start_at :: "Bound option"
  query_end_at :: "Bound option"

definition Query_IsDocumentQuery :: "Query \<Rightarrow> bool" where
  "Query_IsDocumentQuery query \<longleftrightarrow>
     IsDocumentKey (query_path query) \<and> query_collection_group query = None \<and> query_filters query = []"

definition MatchesAllDocuments :: "Query \<Rightarrow> bool" where
  "MatchesAllDocuments query \<longleftrightarrow>
     query_filters query = [] \<and> query_limit query = kNoLimit \<and> query_start_at query = None \<and>
     query_end_at query = None \<and>
     (explicit_order_bys query = [] \<or>
      length (explicit_order_bys query) = 1 \<and> IsKeyFieldPath (order_field (hd (explicit_order_bys query))))"

definition InequalityFilterFields :: "Query \<Rightarrow> FieldMask" where
  "InequalityFilterFields query =
     fold mask_insert (map filter_field (filter IsInequality (concat (map GetFlattenedFilters (query_filters query))))) []"

definition FindOpInsideFilters :: "Query \<Rightarrow> FieldOperator list \<Rightarrow> FieldOperator option" where
  "FindOpInsideFilters query ops =
     find (\<lambda>op. op \<in> set ops) (map filter_op (concat (map GetFlattenedFilters (query_filters query))))"

definition normalized_order_bys :: "Query \<Rightarrow> OrderBy list" where
  "normalized_order_bys query =
     (let explicit = explicit_order_bys query;
          fields_normalized = fold mask_insert (map order_field explicit) [];
          last_direction = (if explicit = [] then AscendingDirection else direction (last explicit));
          implicit = map (\<lambda>field. \<lparr>order_field = field, direction = last_direction\<rparr>)
            (filter (\<lambda>field. \<not> mask_find fields_normalized field \<and> \<not> IsKeyFieldPath field) (InequalityFilterFields query));
          key = (if \<not> mask_find fields_normalized KeyFieldPath
                 then [\<lparr>order_field = KeyFieldPath, direction = last_direction\<rparr>] else [])
      in explicit @ implicit @ key)"

definition AddingFilter :: "Query \<Rightarrow> Filter \<Rightarrow> Query option" where
  "AddingFilter query f =
     (if Query_IsDocumentQuery query then None else Some (query\<lparr>query_filters := query_filters query @ [f]\<rparr>))"

definition AddingOrderBy :: "Query \<Rightarrow> OrderBy \<Rightarrow> Query option" where
  "AddingOrderBy query order_by =
     (if Query_IsDocumentQuery query then None
      else Some (query\<lparr>explicit_order_bys := explicit_order_bys query @ [order_by]\<rparr>))"

definition WithLimitToFirst :: "Query \<Rightarrow> int \<Rightarrow> Query" where
  "WithLimitToFirst query limit = query\<lparr>query_limit := limit, limit_type := First\<rparr>"

definition WithLimitToLast :: "Query \<Rightarrow> int \<Rightarrow> Query" where
  "WithLimitToLast query limit = query\<lparr>query_limit := limit, limit_type := Last\<rparr>"

definition StartingAt :: "Query \<Rightarrow> Bound \<Rightarrow> Query" where
  "StartingAt query bound = query\<lparr>query_start_at := Some bound\<rparr>"

definition EndingAt :: "Query \<Rightarrow> Bound \<Rightarrow> Query" where
  "EndingAt query bound = query\<lparr>query_end_at := Some bound\<rparr>"

definition AsCollectionQueryAtPath :: "Query \<Rightarrow> path \<Rightarrow> Query" where
  "AsCollectionQueryAtPath query path = query\<lparr>query_path := path, query_collection_group := None\<rparr>"

section \<open>Matching\<close>

definition MatchesPathAndCollectionGroup :: "Query \<Rightarrow> MutableDocument \<Rightarrow> bool" where
  "MatchesPathAndCollectionGroup query doc =
     (case query_collection_group query of
        Some collection_group \<Rightarrow>
          HasCollectionGroup (doc_key doc) collection_group \<and> IsPrefixOf (query_path query) (doc_key doc)
      | None \<Rightarrow>
          (if IsDocumentKey (query_path query) then query_path query = doc_key doc
           else IsImmediateParentOf (query_path query) (doc_key doc)))"

definition MatchesFilters :: "Query \<Rightarrow> MutableDocument \<Rightarrow> bool option" where
  "MatchesFilters query doc = all_match (query_filters query) doc"

definition MatchesOrderBy :: "Query \<Rightarrow> MutableDocument \<Rightarrow> bool" where
  "MatchesOrderBy query doc \<longleftrightarrow>
     list_all (\<lambda>order_by. order_field order_by = KeyFieldPath \<or> doc_field doc (order_field order_by) \<noteq> None)
       (normalized_order_bys query)"

definition MatchesBounds :: "Query \<Rightarrow> MutableDocument \<Rightarrow> bool option" where
  "MatchesBounds query doc =
     do {
       starts \<leftarrow> (case query_start_at query of
                   Some bound \<Rightarrow> SortsBeforeDocument bound (normalized_order_bys query) doc | None \<Rightarrow> Some True);
       if \<not> starts then Some False
       else (case query_end_at query of
               Some bound \<Rightarrow> SortsAfterDocument bound (normalized_order_bys query) doc | None \<Rightarrow> Some True)
     }"

definition Query_Matches :: "Query \<Rightarrow> MutableDocument \<Rightarrow> bool option" where
  "Query_Matches query doc =
     (if \<not> (is_found_document doc \<and> MatchesPathAndCollectionGroup query doc \<and> MatchesOrderBy query doc) then Some False
      else do {
        filters \<leftarrow> MatchesFilters query doc;
        if \<not> filters then Some False else MatchesBounds query doc
      })"

definition Query_Comparator :: "Query \<Rightarrow> (MutableDocument \<Rightarrow> MutableDocument \<Rightarrow> ComparisonResult option) option" where
  "Query_Comparator query =
     (let order_bys = normalized_order_bys query
      in if list_ex (\<lambda>order_by. order_field order_by = KeyFieldPath) order_bys then Some (compare_by order_bys) else None)"

section \<open>The target of a query\<close>

definition flip_direction :: "Direction \<Rightarrow> Direction" where
  "flip_direction dir = (if dir = DescendingDirection then AscendingDirection else DescendingDirection)"

definition flip_order_bys :: "OrderBy list \<Rightarrow> OrderBy list" where
  "flip_order_bys order_bys =
     map (\<lambda>order_by. \<lparr>order_field = order_field order_by, direction = flip_direction (direction order_by)\<rparr>) order_bys"

definition ToTarget_with :: "Query \<Rightarrow> OrderBy list \<Rightarrow> Target" where
  "ToTarget_with query order_bys =
     (if limit_type query = Last then
        \<lparr>target_path = query_path query, target_collection_group = query_collection_group query,
         target_filters = query_filters query, target_order_bys = flip_order_bys order_bys,
         target_limit = query_limit query,
         target_start_at = map_option (\<lambda>b. Bound_FromValue (position b) (inclusive b)) (query_end_at query),
         target_end_at = map_option (\<lambda>b. Bound_FromValue (position b) (inclusive b)) (query_start_at query)\<rparr>
      else
        \<lparr>target_path = query_path query, target_collection_group = query_collection_group query,
         target_filters = query_filters query, target_order_bys = order_bys,
         target_limit = query_limit query, target_start_at = query_start_at query,
         target_end_at = query_end_at query\<rparr>)"

definition CalculateTarget :: "Query \<Rightarrow> Target" where
  "CalculateTarget query = ToTarget_with query (normalized_order_bys query)"

definition CalculateAggregateTarget :: "Query \<Rightarrow> Target" where
  "CalculateAggregateTarget query = ToTarget_with query (explicit_order_bys query)"

section \<open>The comparator of a query\<close>

lemma IsKeyFieldPath_iff: "IsKeyFieldPath p \<longleftrightarrow> p = KeyFieldPath"
  by (cases p) (auto simp: IsKeyFieldPath_def KeyFieldPath_def)

lemma KeyFieldPath_plain: "plain_path KeyFieldPath"
  unfolding plain_path_def KeyFieldPath_def by code_simp

definition order_key :: "OrderBy \<Rightarrow> MutableDocument \<Rightarrow> okey" where
  "order_key order_by doc =
     (if IsKeyFieldPath (order_field order_by) then path_key (doc_key doc)
      else vkey (the (doc_field doc (order_field order_by))))"

fun lex_compare :: "OrderBy list \<Rightarrow> MutableDocument \<Rightarrow> MutableDocument \<Rightarrow> ComparisonResult" where
  "lex_compare [] x y = Same"
| "lex_compare (ob # obs) x y =
     (if order_key ob x = order_key ob y then lex_compare obs x y
      else ApplyTo (direction ob) (okey_compare (order_key ob x) (order_key ob y)))"

definition sortable :: "OrderBy list \<Rightarrow> MutableDocument \<Rightarrow> bool" where
  "sortable obs doc \<longleftrightarrow> list_all segment_ok (doc_key doc) \<and>
     (\<forall>ob \<in> set obs. IsKeyFieldPath (order_field ob) \<or>
        (\<exists>v. doc_field doc (order_field ob) = Some v \<and> value_ok v))"

lemma ApplyTo_Same [simp]: "ApplyTo dir r = Same \<longleftrightarrow> r = Same"
  by (cases dir) auto

lemma OrderBy_Compare_key:
  assumes "sortable (ob # obs) x" "sortable (ob # obs) y"
  shows "OrderBy_Compare ob x y = Some (ApplyTo (direction ob) (okey_compare (order_key ob x) (order_key ob y)))"
  using assms by (auto simp: sortable_def OrderBy_Compare_def order_key_def path_CompareTo_key ValueCompare_key
      simp del: ValueCompare.simps value_ok.simps)

lemma sortable_Cons: "sortable (ob # obs) x \<Longrightarrow> sortable obs x"
  by (simp add: sortable_def)

lemma compare_by_lex: "sortable obs x \<Longrightarrow> sortable obs y \<Longrightarrow> compare_by obs x y = Some (lex_compare obs x y)"
  by (induction obs) (auto simp: OrderBy_Compare_key okey_compare_Same dest: sortable_Cons)

lemma lex_refl: "lex_compare obs x x = Same"
  by (induction obs) auto

lemma ApplyTo_swap: "ApplyTo dir (okey_compare k l) = ReverseOrder (ApplyTo dir (okey_compare l k))"
  using okey_compare_swap [of k l] by (cases dir) auto

lemma lex_swap: "lex_compare obs y x = ReverseOrder (lex_compare obs x y)"
  by (induction obs) (auto intro: ApplyTo_swap)

lemma ApplyTo_trans:
  assumes "ApplyTo dir (okey_compare k l) \<noteq> Descending" "ApplyTo dir (okey_compare l m) \<noteq> Descending"
  shows "ApplyTo dir (okey_compare k m) \<noteq> Descending"
proof (cases dir)
  case AscendingDirection
  then show ?thesis using assms okey_order.cmp_trans [of k l m] by simp
next
  case DescendingDirection
  then show ?thesis using assms okey_order.cmp_trans [of m l k] okey_compare_swap [of k l] okey_compare_swap [of l m]
      okey_compare_swap [of k m] by auto
qed

lemma lex_trans: "lex_compare obs x y \<noteq> Descending \<Longrightarrow> lex_compare obs y z \<noteq> Descending \<Longrightarrow> lex_compare obs x z \<noteq> Descending"
proof (induction obs)
  case (Cons ob obs)
  let ?c = "\<lambda>u v. ApplyTo (direction ob) (okey_compare (order_key ob u) (order_key ob v))"
  have le: "?c x y \<noteq> Descending" "?c y z \<noteq> Descending"
    using Cons.prems by (auto simp: okey_order.cmp_refl split: if_splits; cases "direction ob"; simp add: okey_order.cmp_refl)+
  show ?case
  proof (cases "order_key ob x = order_key ob z")
    case False
    then show ?thesis using ApplyTo_trans [OF le] by simp
  next
    case True
    then have "?c y x \<noteq> Descending" using le(2) by simp
    then have "?c x y = Same" using le(1) ApplyTo_swap [of "direction ob" "order_key ob y" "order_key ob x"]
      by (cases "?c x y") auto
    then have "order_key ob x = order_key ob y" by (simp add: okey_compare_Same)
    then show ?thesis using Cons True by simp
  qed
qed simp

lemma comparator_lex: "comparator (lex_compare obs)"
  by unfold_locales (auto simp: lex_refl lex_trans intro: lex_swap)

lemma lex_Same: "lex_compare obs x y = Same \<longleftrightarrow> (\<forall>ob \<in> set obs. order_key ob x = order_key ob y)"
  by (induction obs) (auto simp: okey_compare_Same)

section \<open>The orderings a query is run with\<close>

definition ordering_of :: "path \<Rightarrow> Direction \<Rightarrow> OrderBy" where
  "ordering_of field dir = \<lparr>order_field = field, direction = dir\<rparr>"

definition last_explicit :: "Query \<Rightarrow> Direction" where
  "last_explicit query =
     (if explicit_order_bys query = [] then AscendingDirection else direction (last (explicit_order_bys query)))"

definition inequality_fields :: "Query \<Rightarrow> path list" where
  "inequality_fields query = map filter_field (filter IsInequality (concat (map GetFlattenedFilters (query_filters query))))"

definition plain_query :: "Query \<Rightarrow> bool" where
  "plain_query query \<longleftrightarrow>
     list_all plain_path (map order_field (explicit_order_bys query)) \<and> list_all plain_path (inequality_fields query)"

lemma fields_of_explicit:
  assumes "plain_query query"
  shows "mask_ok (fold mask_insert (map order_field (explicit_order_bys query)) [])"
    and "set (fold mask_insert (map order_field (explicit_order_bys query)) []) = order_field ` set (explicit_order_bys query)"
  using assms fold_mask_insert_ok [of "[]" "map order_field (explicit_order_bys query)"]
  by (auto simp: plain_query_def list_all_iff)

lemma InequalityFilterFields_ok:
  assumes "plain_query query"
  shows "mask_ok (InequalityFilterFields query)" and "set (InequalityFilterFields query) = set (inequality_fields query)"
  using assms fold_mask_insert_ok [of "[]" "inequality_fields query"]
  by (auto simp: plain_query_def list_all_iff InequalityFilterFields_def inequality_fields_def)

definition implicit_fields :: "Query \<Rightarrow> path list" where
  "implicit_fields query =
     filter (\<lambda>f. f \<notin> order_field ` set (explicit_order_bys query) \<and> f \<noteq> KeyFieldPath) (InequalityFilterFields query) @
     (if KeyFieldPath \<in> order_field ` set (explicit_order_bys query) then [] else [KeyFieldPath])"

lemma normalized_split:
  assumes "plain_query query"
  shows "normalized_order_bys query =
    explicit_order_bys query @ map (\<lambda>f. ordering_of f (last_explicit query)) (implicit_fields query)"
proof -
  note e = fields_of_explicit [OF assms]
  have find: "mask_find (fold mask_insert (map order_field (explicit_order_bys query)) []) f \<longleftrightarrow>
      f \<in> order_field ` set (explicit_order_bys query)" if "plain_path f" for f
    using mask_find_iff [OF e(1) that] e(2) by simp
  have "filter (\<lambda>f. \<not> mask_find (fold mask_insert (map order_field (explicit_order_bys query)) []) f \<and> \<not> IsKeyFieldPath f)
      (InequalityFilterFields query) =
    filter (\<lambda>f. f \<notin> order_field ` set (explicit_order_bys query) \<and> f \<noteq> KeyFieldPath) (InequalityFilterFields query)"
    using find assms InequalityFilterFields_ok(2) [OF assms]
    by (intro filter_cong refl) (auto simp: IsKeyFieldPath_iff plain_query_def list_all_iff)
  then show ?thesis
    using find [OF KeyFieldPath_plain]
    by (simp add: normalized_order_bys_def Let_def implicit_fields_def ordering_of_def last_explicit_def)
qed

lemma normalized_fields:
  assumes "plain_query query"
  shows "order_field ` set (normalized_order_bys query) =
    order_field ` set (explicit_order_bys query) \<union> set (inequality_fields query) \<union> {KeyFieldPath}"
  using InequalityFilterFields_ok(2) [OF assms]
  by (auto simp: normalized_split [OF assms] implicit_fields_def image_Un image_image ordering_of_def)

text \<open>The orderings a query runs with start with the explicit ones, end with implicit ones in the
  direction of the last explicit one, order every field that an inequality filters and the
  document key, and name no field twice when the explicit ones do not.\<close>
theorem normalized_orderings:
  assumes "plain_query query"
  shows "\<exists>implicit. normalized_order_bys query = explicit_order_bys query @ implicit \<and>
    (\<forall>ob \<in> set implicit. direction ob = last_explicit query) \<and>
    set (map order_field (normalized_order_bys query)) =
      set (map order_field (explicit_order_bys query)) \<union> set (inequality_fields query) \<union> {KeyFieldPath} \<and>
    (distinct (map order_field (explicit_order_bys query)) \<longrightarrow>
       distinct (map order_field (normalized_order_bys query)))"
proof -
  note s = normalized_split [OF assms]
  have "distinct (implicit_fields query)"
    using mask_ok_distinct [OF InequalityFilterFields_ok(1) [OF assms]] by (auto simp: implicit_fields_def)
  then have "distinct (map order_field (normalized_order_bys query))"
    if "distinct (map order_field (explicit_order_bys query))"
    using that by (auto simp: s ordering_of_def comp_def implicit_fields_def)
  moreover have "\<forall>ob \<in> set (map (\<lambda>f. ordering_of f (last_explicit query)) (implicit_fields query)). direction ob = last_explicit query"
    by (auto simp: ordering_of_def)
  ultimately show ?thesis using normalized_fields [OF assms] s by (auto simp: image_Un)
qed

section \<open>Documents that match a query are ordered\<close>

lemma matched_sortable:
  assumes "Query_Matches query doc = Some True" "data_ok (doc_value doc)" "list_all segment_ok (doc_key doc)"
    and "list_all (\<lambda>ob. order_field ob \<noteq> []) (normalized_order_bys query)"
  shows "sortable (normalized_order_bys query) doc"
proof -
  have m: "MatchesOrderBy query doc" using assms(1) by (simp add: Query_Matches_def split: if_splits)
  have "value_ok v" if "ob \<in> set (normalized_order_bys query)" "doc_field doc (order_field ob) = Some v" for ob v
    using Get_value_ok [OF assms(2)] that assms(4) by (auto simp: doc_field_def list_all_iff)
  then show ?thesis using m assms(3) by (fastforce simp: sortable_def MatchesOrderBy_def IsKeyFieldPath_iff list_all_iff)
qed

lemma normalized_has_key: "plain_query query \<Longrightarrow> \<exists>ob \<in> set (normalized_order_bys query). order_field ob = KeyFieldPath"
  using normalized_fields [of query] by (metis UnI2 imageE singletonI)

lemma Query_Comparator_lex:
  assumes "plain_query query"
  shows "Query_Comparator query = Some (compare_by (normalized_order_bys query))"
  using normalized_has_key [OF assms] by (auto simp: Query_Comparator_def list_ex_iff Let_def)

lemma normalized_plain: "plain_query query \<Longrightarrow> list_all (\<lambda>ob. order_field ob \<noteq> []) (normalized_order_bys query)"
proof -
  assume q: "plain_query query"
  have "plain_path f" if "f \<in> order_field ` set (normalized_order_bys query)" for f
    using that q KeyFieldPath_plain unfolding normalized_fields [OF q] by (auto simp: plain_query_def list_all_iff)
  then show ?thesis by (auto simp: list_all_iff plain_path_def)
qed

lemma plain_segments: "plain_path p \<Longrightarrow> list_all segment_ok p"
  by (auto simp: plain_path_def segment_ok_def list_all_iff)

definition comparable_match :: "Query \<Rightarrow> MutableDocument \<Rightarrow> bool" where
  "comparable_match query doc \<longleftrightarrow>
     Query_Matches query doc = Some True \<and> data_ok (doc_value doc) \<and> plain_path (doc_key doc)"

text \<open>C30: On the documents that match a query and have only plain keys (no segment of the form
  \<^verbatim>\<open>__id...__\<close>), when the fields the query orders by or filters with an inequality are plain
  too, the comparator always answers, and the answer is a total
  order: swapping the documents reverses it, it is transitive, and it answers Same only for
  two documents with the same key, so a query result has no ties between different documents.
  The condition is needed: comparing the segments \<^verbatim>\<open>__idle__\<close> throws, and \<^verbatim>\<open>__id7__\<close> ties with
  \<^verbatim>\<open>__id07__\<close>.\<close>
theorem query_comparator_total_order:
  assumes "plain_query query" "comparable_match query a" "comparable_match query b" "comparable_match query c"
  shows "\<exists>cmp ab bc ac. Query_Comparator query = Some cmp \<and>
    cmp a b = Some ab \<and> cmp b a = Some (ReverseOrder ab) \<and> cmp b c = Some bc \<and> cmp a c = Some ac \<and>
    cmp a a = Some Same \<and> (ab = Same \<longrightarrow> doc_key a = doc_key b) \<and>
    (ab \<noteq> Descending \<longrightarrow> bc \<noteq> Descending \<longrightarrow> ac \<noteq> Descending)"
proof -
  let ?obs = "normalized_order_bys query"
  obtain ob where ob: "ob \<in> set ?obs" "order_field ob = KeyFieldPath"
    using normalized_has_key [OF assms(1)] by blast
  have s: "sortable ?obs d" if "comparable_match query d" for d
    using that matched_sortable [of query d] normalized_plain [OF assms(1)] plain_segments
    by (simp add: comparable_match_def)
  have k: "doc_key a = doc_key b" if "lex_compare ?obs a b = Same"
    using that ob assms(2,3) path_key_inj [of "doc_key a" "doc_key b"]
    by (auto simp: lex_Same order_key_def IsKeyFieldPath_iff comparable_match_def)
  show ?thesis
    using s [OF assms(2)] s [OF assms(3)] s [OF assms(4)] k lex_trans [of ?obs a b c] lex_swap [of ?obs b a]
    by (intro exI [of _ "compare_by ?obs"] exI [of _ "lex_compare ?obs a b"] exI [of _ "lex_compare ?obs b c"]
        exI [of _ "lex_compare ?obs a c"])
      (simp add: Query_Comparator_lex [OF assms(1)] compare_by_lex lex_refl)
qed

section \<open>Limit to last\<close>

lemma ApplyTo_flip: "ApplyTo (flip_direction dir) r = ReverseOrder (ApplyTo dir r)"
  by (cases dir) (auto simp: flip_direction_def)

lemma flip_order_bys_Cons:
  "flip_order_bys (ob # obs) = \<lparr>order_field = order_field ob, direction = flip_direction (direction ob)\<rparr> # flip_order_bys obs"
  by (simp add: flip_order_bys_def)

lemma compare_by_flip: "compare_by (flip_order_bys obs) x y = map_option ReverseOrder (compare_by obs x y)"
proof (induction obs)
  case (Cons ob obs)
  have "OrderBy_Compare \<lparr>order_field = order_field ob, direction = flip_direction (direction ob)\<rparr> x y =
      map_option ReverseOrder (OrderBy_Compare ob x y)"
    by (simp add: OrderBy_Compare_def ApplyTo_flip map_option_bind comp_def split del: if_split cong: if_cong)
  then show ?case using Cons by (cases "OrderBy_Compare ob x y") (simp_all add: flip_order_bys_def)
qed (simp add: flip_order_bys_def)

lemma bound_loop_flip: "bound_loop vs (flip_order_bys obs) d = map_option ReverseOrder (bound_loop vs obs d)"
proof (induction vs obs d rule: bound_loop.induct)
  case (3 v vs ob obs d)
  define c where "c = (if order_field ob = KeyFieldPath
      then (case v of reference_value name \<Rightarrow> do { key \<leftarrow> DocumentKey_FromName name; path_CompareTo key (doc_key d) } | _ \<Rightarrow> None)
      else do { doc_value \<leftarrow> doc_field d (order_field ob); ValueCompare v doc_value })"
  have "bound_loop (v # vs) (ob # obs) d =
      c \<bind> (\<lambda>r. if ApplyTo (direction ob) r \<noteq> Same then Some (ApplyTo (direction ob) r) else bound_loop vs obs d)"
    by (simp add: c_def Let_def del: ValueCompare.simps)
  moreover have "bound_loop (v # vs) (flip_order_bys (ob # obs)) d =
      c \<bind> (\<lambda>r. if ApplyTo (direction ob) r \<noteq> Same then Some (ReverseOrder (ApplyTo (direction ob) r))
        else bound_loop vs (flip_order_bys obs) d)"
    by (simp add: c_def Let_def flip_order_bys_Cons ApplyTo_flip del: ValueCompare.simps ApplyTo_Same)
  ultimately show ?case using "3.IH" by (cases c) (simp_all add: c_def [symmetric])
qed (simp_all add: flip_order_bys_def)

lemma CompareToDocument_flip:
  "CompareToDocument b (flip_order_bys obs) d = map_option ReverseOrder (CompareToDocument b obs d)"
  by (simp add: CompareToDocument_def bound_loop_flip) (simp add: flip_order_bys_def)

lemma Sorts_flip:
  "SortsBeforeDocument b (flip_order_bys obs) d = SortsAfterDocument b obs d"
  "SortsAfterDocument b (flip_order_bys obs) d = SortsBeforeDocument b obs d"
  by (simp_all add: SortsBeforeDocument_def SortsAfterDocument_def CompareToDocument_flip option.map_comp comp_def)

lemma Bound_FromValue_again: "Bound_FromValue (position (Bound_FromValue vs i)) (inclusive (Bound_FromValue vs i)) = Bound_FromValue vs i"
  by (simp add: Bound_FromValue_def SortFields_idem)

definition from_value :: "Bound option \<Rightarrow> bool" where
  "from_value bound \<longleftrightarrow> (case bound of None \<Rightarrow> True | Some b \<Rightarrow> map SortFields (position b) = position b)"

lemma from_value_again:
  "from_value bound \<Longrightarrow> map_option (\<lambda>b. Bound_FromValue (position b) (inclusive b)) bound = bound"
  by (cases bound) (auto simp: from_value_def Bound_FromValue_def)

text \<open>The target of a limit-to-last query is the query read backwards: its orderings give every pair of
  documents the reversed answer, a document is after its start exactly when it is before the
  end of the query, and before its end exactly when it is after the start of the query, while
  path, collection group, filters and limit are those of the query.\<close>
theorem limit_to_last_target:
  assumes "limit_type query = Last" "from_value (query_start_at query)" "from_value (query_end_at query)"
  shows "compare_by (target_order_bys (CalculateTarget query)) a b =
      map_option ReverseOrder (compare_by (normalized_order_bys query) a b) \<and>
    map_option (\<lambda>bound. SortsBeforeDocument bound (target_order_bys (CalculateTarget query)) a) (target_start_at (CalculateTarget query)) =
      map_option (\<lambda>bound. SortsAfterDocument bound (normalized_order_bys query) a) (query_end_at query) \<and>
    map_option (\<lambda>bound. SortsAfterDocument bound (target_order_bys (CalculateTarget query)) a) (target_end_at (CalculateTarget query)) =
      map_option (\<lambda>bound. SortsBeforeDocument bound (normalized_order_bys query) a) (query_start_at query) \<and>
    target_path (CalculateTarget query) = query_path query \<and>
    target_collection_group (CalculateTarget query) = query_collection_group query \<and>
    target_filters (CalculateTarget query) = query_filters query \<and>
    target_limit (CalculateTarget query) = query_limit query"
  using assms by (simp add: CalculateTarget_def ToTarget_with_def compare_by_flip Sorts_flip from_value_again)

definition scores_query :: Query where
  "scores_query =
     \<lparr>query_path = [''scores''], query_collection_group = None,
      query_filters = [FieldFilter_of (PlainFilter [''score''] GreaterThan (boolean_value False))],
      explicit_order_bys = [], query_limit = 2, limit_type = Last,
      query_start_at = None, query_end_at = Some (Bound_FromValue [boolean_value True] True)\<rparr>"

definition score_doc :: "string \<Rightarrow> MutableDocument" where
  "score_doc name = FoundDocument [''scores'', name] SnapshotVersion_None [(''score'', boolean_value True)]"

lemma scores_query_plain: "plain_query scores_query"
  unfolding plain_query_def plain_path_def by code_simp

lemma score_doc_matches: "comparable_match scores_query (score_doc ''a'')" "comparable_match scores_query (score_doc ''b'')"
  unfolding comparable_match_def plain_path_def by code_simp+

theorem normalized_orderings_witness:
  "map order_field (normalized_order_bys scores_query) = [[''score''], KeyFieldPath]"
proof -
  obtain implicit where "normalized_order_bys scores_query = explicit_order_bys scores_query @ implicit"
    "distinct (map order_field (normalized_order_bys scores_query))"
    using normalized_orderings [OF scores_query_plain] by (auto simp: scores_query_def)
  then show ?thesis by code_simp
qed

theorem query_comparator_total_order_witness:
  "\<exists>cmp ab. Query_Comparator scores_query = Some cmp \<and> cmp (score_doc ''a'') (score_doc ''b'') = Some ab \<and>
     cmp (score_doc ''b'') (score_doc ''a'') = Some (ReverseOrder ab) \<and> ab \<noteq> Same"
proof -
  have "doc_key (score_doc ''a'') \<noteq> doc_key (score_doc ''b'')" by code_simp
  then show ?thesis
    using query_comparator_total_order [OF scores_query_plain score_doc_matches(1) score_doc_matches(2) score_doc_matches(1)]
    by blast
qed

theorem limit_to_last_target_witness:
  "compare_by (target_order_bys (CalculateTarget scores_query)) (score_doc ''a'') (score_doc ''b'') = Some Descending"
proof -
  have "from_value (query_start_at scores_query)" "from_value (query_end_at scores_query)" "limit_type scores_query = Last"
    by code_simp+
  moreover have "compare_by (normalized_order_bys scores_query) (score_doc ''a'') (score_doc ''b'') = Some Ascending"
    by code_simp
  ultimately show ?thesis using limit_to_last_target [of scores_query "score_doc ''a''" "score_doc ''b''"] by simp
qed

end
