(* ===== verification/Bytes.thy ===== *)
theory Bytes
  imports Numbers "HOL-Library.List_Lexorder"
begin

text \<open>
  Byte strings as lists of 8-bit words: loads and stores of words as a little-endian machine
  does them, the value of a string in network byte order, and how that value decides the
  lexicographic order of strings, which is the order of the keys of the database.
\<close>

unbundle bit_operations_syntax

type_synonym byte = "8 word"

section \<open>Loads and stores\<close>

fun bytes_value :: "byte list \<Rightarrow> int" where
  "bytes_value [] = 0"
| "bytes_value (b # bs) = uint b + 256 * bytes_value bs"

definition load_le :: "byte list \<Rightarrow> 'a::len word" where
  "load_le bs = word_of_int (bytes_value bs)"

definition store_le :: "nat \<Rightarrow> 'a::len word \<Rightarrow> byte list" where
  "store_le n w = map (\<lambda>i. ucast (drop_bit (8 * i) w)) [0..<n]"

definition store_at :: "nat \<Rightarrow> byte list \<Rightarrow> byte list \<Rightarrow> byte list" where
  "store_at i bs dst = take i dst @ bs @ drop (i + length bs) dst"

lemma uint_byte: "0 \<le> uint (b :: byte)" "uint (b :: byte) < 256"
  using uint_lt2p [of b] by auto

lemma bytes_value_nonneg [simp]: "0 \<le> bytes_value bs"
  by (induction bs) (auto simp: uint_byte)

lemma bytes_value_less: "bytes_value bs < 256 ^ length bs"
proof (induction bs)
  case (Cons b bs)
  then show ?case using uint_byte [of b] by simp
qed simp

lemma bytes_value_append: "bytes_value (as @ bs) = bytes_value as + 256 ^ length as * bytes_value bs"
  by (induction as) (auto simp: algebra_simps)

lemma bit_bytes_value:
  "bit (bytes_value bs) k \<longleftrightarrow> k div 8 < length bs \<and> bit (bs ! (k div 8)) (k mod 8)"
proof (induction bs arbitrary: k)
  case (Cons b bs)
  have v: "take_bit 8 (bytes_value (b # bs)) = uint b" "drop_bit 8 (bytes_value (b # bs)) = bytes_value bs"
    using uint_byte [of b] by (simp_all add: take_bit_eq_mod drop_bit_eq_div)
  show ?case
  proof (cases "k < 8")
    case True
    then have "bit (bytes_value (b # bs)) k \<longleftrightarrow> bit (take_bit 8 (bytes_value (b # bs))) k"
      by (simp add: bit_take_bit_iff)
    then show ?thesis using True unfolding v by (simp add: bit_uint_iff)
  next
    case False
    then have "bit (bytes_value (b # bs)) k \<longleftrightarrow> bit (drop_bit 8 (bytes_value (b # bs))) (k - 8)"
      by (simp add: bit_drop_bit_eq)
    also have "\<dots> \<longleftrightarrow> (k - 8) div 8 < length bs \<and> bit (bs ! ((k - 8) div 8)) ((k - 8) mod 8)"
      unfolding v by (rule Cons.IH)
    finally show ?thesis using False by (simp add: le_div_geq le_mod_geq nth_Cons split: nat.split)
  qed
qed simp

lemma bit_load_le:
  "bit (load_le bs :: 'a::len word) k \<longleftrightarrow>
     k < LENGTH('a) \<and> k div 8 < length bs \<and> bit (bs ! (k div 8)) (k mod 8)"
  by (auto simp: load_le_def bit_word_of_int_iff bit_bytes_value)

lemma length_store_le [simp]: "length (store_le n w) = n"
  by (simp add: store_le_def)

lemma length_store_at [simp]: "i + length bs \<le> length dst \<Longrightarrow> length (store_at i bs dst) = length dst"
  by (simp add: store_at_def)

lemma nth_store_at:
  "i + length bs \<le> length dst \<Longrightarrow> j < length dst \<Longrightarrow>
   store_at i bs dst ! j = (if i \<le> j \<and> j < i + length bs then bs ! (j - i) else dst ! j)"
  by (auto simp: store_at_def nth_append)

lemma store_le_NOT_load:
  assumes "8 * length bs \<le> LENGTH('a)"
  shows "store_le (length bs) (NOT (load_le bs :: 'a::len word)) = map NOT bs"
proof (rule nth_equalityI)
  fix i
  assume "i < length (store_le (length bs) (NOT (load_le bs :: 'a word)))"
  then have i: "i < length bs" by simp
  have "ucast (drop_bit (8 * i) (NOT (load_le bs :: 'a word))) = NOT (bs ! i)"
  proof (rule bit_word_eqI)
    fix n
    assume n: "n < LENGTH(8)"
    have k: "8 * i + n < LENGTH('a)" "(8 * i + n) div 8 = i" "(8 * i + n) mod 8 = n"
      using assms i n by auto
    show "bit (ucast (drop_bit (8 * i) (NOT (load_le bs :: 'a word))) :: byte) n = bit (NOT (bs ! i)) n"
      using n i k by (simp add: bit_ucast_iff bit_drop_bit_eq bit_not_iff bit_load_le del: add_mult_distrib2)
  qed
  then show "store_le (length bs) (NOT (load_le bs :: 'a word)) ! i = map NOT bs ! i"
    using i by (simp add: store_le_def)
qed simp

lemma store_le_load:
  assumes "8 * length bs \<le> LENGTH('a)"
  shows "store_le (length bs) (load_le bs :: 'a::len word) = bs"
proof (rule nth_equalityI)
  fix i
  assume "i < length (store_le (length bs) (load_le bs :: 'a word))"
  then have i: "i < length bs" by simp
  have "ucast (drop_bit (8 * i) (load_le bs :: 'a word)) = bs ! i"
  proof (rule bit_word_eqI)
    fix n
    assume n: "n < LENGTH(8)"
    have k: "8 * i + n < LENGTH('a)" "(8 * i + n) div 8 = i" "(8 * i + n) mod 8 = n"
      using assms i n by auto
    show "bit (ucast (drop_bit (8 * i) (load_le bs :: 'a word)) :: byte) n = bit (bs ! i) n"
      using n i k by (simp add: bit_ucast_iff bit_drop_bit_eq bit_load_le)
  qed
  then show "store_le (length bs) (load_le bs :: 'a word) ! i = bs ! i"
    using i by (simp add: store_le_def)
qed simp

section \<open>Network byte order\<close>

definition store_be :: "nat \<Rightarrow> 'a::len word \<Rightarrow> byte list" where
  "store_be n w = rev (store_le n w)"

definition be_value :: "byte list \<Rightarrow> int" where
  "be_value bs = bytes_value (rev bs)"

lemma be_value_simps [simp]:
  "be_value [] = 0"
  "be_value (b # bs) = uint b * 256 ^ length bs + be_value bs"
  by (simp_all add: be_value_def bytes_value_append)

lemma be_value_append: "be_value (as @ bs) = be_value as * 256 ^ length bs + be_value bs"
  by (simp add: be_value_def bytes_value_append)

lemma be_value_bounds: "0 \<le> be_value bs" "be_value bs < 256 ^ length bs"
  using bytes_value_less [of "rev bs"] by (simp_all add: be_value_def)

lemma length_store_be [simp]: "length (store_be n w) = n"
  by (simp add: store_be_def)

lemma bytes_value_store_le: "bytes_value (store_le n w) = uint w mod 256 ^ n"
proof (induction n)
  case (Suc n)
  have b: "uint (ucast (drop_bit (8 * n) w) :: byte) = (uint w div 256 ^ n) mod 256"
    by (simp only: unsigned_ucast_eq unsigned_drop_bit_eq)
      (simp add: take_bit_eq_mod drop_bit_eq_div power_mult)
  have "uint w mod (256 ^ n * 256) = 256 ^ n * (uint w div 256 ^ n mod 256) + uint w mod 256 ^ n"
    by (rule zmod_zmult2_eq) simp
  moreover have "store_le (Suc n) w = store_le n w @ [ucast (drop_bit (8 * n) w)]"
    by (simp add: store_le_def)
  then have "bytes_value (store_le (Suc n) w) = uint w mod 256 ^ n + 256 ^ n * (uint w div 256 ^ n mod 256)"
    by (simp only: bytes_value_append bytes_value.simps b Suc length_store_le) simp
  ultimately show ?case by (simp add: mult.commute)
qed (simp add: store_le_def)

lemma be_value_store_be: "be_value (store_be n w) = uint w mod 256 ^ n"
  by (simp add: be_value_def store_be_def bytes_value_store_le)

lemma be_value_inj: "length as = length bs \<Longrightarrow> be_value as = be_value bs \<Longrightarrow> as = bs"
proof (induction as arbitrary: bs)
  case (Cons a as)
  then obtain b cs where bs: "bs = b # cs" "length as = length cs" by (cases bs) auto
  define M :: int where "M = 256 ^ length cs"
  have eq: "uint a * M + be_value as = uint b * M + be_value cs"
    using Cons.prems(2) bs by (simp add: M_def)
  have bounds: "0 \<le> be_value as" "be_value as < M" "0 \<le> be_value cs" "be_value cs < M"
    using be_value_bounds [of as] be_value_bounds [of cs] bs by (simp_all add: M_def)
  have "uint a = (uint a * M + be_value as) div M" "uint b = (uint b * M + be_value cs) div M"
    using bounds by simp_all
  then have ab: "uint a = uint b" using eq by simp
  then have "be_value as = be_value cs" using eq by simp
  then show ?case using Cons.IH bs ab by (simp add: word_uint_eq_iff)
qed simp

text \<open>Strings that differ at some position, where the first is smaller.\<close>

fun strictly_before :: "byte list \<Rightarrow> byte list \<Rightarrow> bool" where
  "strictly_before (x # p) (y # q) \<longleftrightarrow> x < y \<or> x = y \<and> strictly_before p q"
| "strictly_before p q \<longleftrightarrow> False"

lemma strictly_before_less: "strictly_before p q \<Longrightarrow> p @ r < q @ s"
  by (induction p q rule: strictly_before.induct) auto

lemma strictly_before_append: "strictly_before p q \<Longrightarrow> strictly_before (p @ r) (q @ s)"
  by (induction p q rule: strictly_before.induct) auto

lemma strictly_before_same [simp]: "strictly_before (c @ p) (c @ q) = strictly_before p q"
  by (induction c) auto

lemma strictly_before_trans: "strictly_before p q \<Longrightarrow> strictly_before q r \<Longrightarrow> strictly_before p r"
proof (induction p q arbitrary: r rule: strictly_before.induct)
  case (1 x p y q)
  then show ?case by (cases r) auto
qed auto

text \<open>
  The value decides the order: when the numbers that extend one string lie below those that
  extend the other, the one sorts before the other, whatever follows them.
\<close>

lemma lex_by_value:
  assumes "length p \<le> N" "length q \<le> N"
    and "(be_value p + 1) * 256 ^ (N - length p) \<le> be_value q * 256 ^ (N - length q)"
  shows "strictly_before p q"
  using assms
proof (induction p arbitrary: q N)
  case Nil
  have "be_value q * 256 ^ (N - length q) < 256 ^ length q * 256 ^ (N - length q)"
    using be_value_bounds [of q] by simp
  also have "\<dots> = 256 ^ N" using Nil.prems by (simp flip: power_add)
  finally show ?case using Nil.prems by simp
next
  case (Cons x p)
  show ?case
  proof (cases q)
    case Nil
    have "0 < (be_value (x # p) + 1) * 256 ^ (N - length (x # p))"
      using be_value_bounds(1) [of "x # p"] by (intro mult_pos_pos) auto
    then show ?thesis using Cons.prems Nil by simp
  next
    case q: (Cons y q')
    define K where "K = N - 1"
    have N: "N = Suc K" "length p \<le> K" "length q' \<le> K" using Cons.prems q by (auto simp: K_def)
    have px: "256 ^ length p * 256 ^ (K - length p) = (256 ^ K :: int)"
      "256 ^ length q' * 256 ^ (K - length q') = (256 ^ K :: int)"
      using N by (simp_all flip: power_add)
    have le: "uint x * 256 ^ K + (be_value p + 1) * 256 ^ (K - length p) \<le>
        uint y * 256 ^ K + be_value q' * 256 ^ (K - length q')"
    proof -
      have "(be_value (x # p) + 1) * 256 ^ (N - length (x # p)) =
          uint x * (256 ^ length p * 256 ^ (K - length p)) + (be_value p + 1) * 256 ^ (K - length p)"
        using N(1) by (simp add: algebra_simps)
      moreover have "be_value q * 256 ^ (N - length q) =
          uint y * (256 ^ length q' * 256 ^ (K - length q')) + be_value q' * 256 ^ (K - length q')"
        using N(1) q by (simp add: algebra_simps)
      ultimately show ?thesis using Cons.prems(3) unfolding px by simp
    qed
    have q'_less: "be_value q' * 256 ^ (K - length q') < 256 ^ K"
      using be_value_bounds(2) [of q'] unfolding px(2) [symmetric] by simp
    have p_pos: "0 < (be_value p + 1) * 256 ^ (K - length p)"
      using be_value_bounds(1) [of p] by (intro mult_pos_pos) auto
    have "\<not> uint y < uint x"
    proof
      assume "uint y < uint x"
      then have "(uint y + 1) * 256 ^ K \<le> uint x * 256 ^ K" by (intro mult_right_mono) auto
      then show False using le q'_less p_pos by (simp add: algebra_simps)
    qed
    then consider "x < y" | "x = y"
      by (metis less_linear word_less_def word_uint_eq_iff)
    then show ?thesis
    proof cases
      case 1
      then show ?thesis using q by simp
    next
      case 2
      then have "strictly_before p q'" using Cons.IH [of K q'] N le by simp
      then show ?thesis using 2 q by simp
    qed
  qed
qed

lemma uint_NOT_byte: "uint (NOT x :: byte) = 255 - uint x"
proof -
  have "uint (NOT x) = (- uint x - 1) mod 256"
    by (simp add: unsigned_not_eq take_bit_eq_mod not_int_def)
  also have "\<dots> = (- uint x - 1 + 256) mod 256"
    by (simp only: mod_add_self2)
  also have "\<dots> = (255 - uint x) mod 256" by simp
  also have "\<dots> = 255 - uint x"
    using uint_byte [of x] by (intro mod_pos_pos_trivial; linarith)
  finally show ?thesis .
qed

lemma strictly_before_NOT: "strictly_before p q \<Longrightarrow> strictly_before (map (\<lambda>b. NOT b) q) (map (\<lambda>b. NOT b) p)"
  by (induction p q rule: strictly_before.induct) (auto simp: word_less_def uint_NOT_byte)

end
