(* ===== verification/Md5.thy ===== *)
theory Md5
  imports Prelude Bytes
begin

text \<open>
  The message digest of the bloom filters (\<^verbatim>\<open>util/md5.cc\<close>).  Words are 32-bit words, a byte buffer
  is its list of bytes; the content of the context's buffer before it is written is a
  parameter.  The theorem states that the buffered implementation, fed with any sequence
  of chunks, computes the digest of RFC 1321 of their concatenation.
\<close>

unbundle bit_operations_syntax

section \<open>The implementation\<close>

datatype RoundFunction = F1 | F2 | F3 | F4

fun round_function :: "RoundFunction \<Rightarrow> 32 word \<Rightarrow> 32 word \<Rightarrow> 32 word \<Rightarrow> 32 word" where
  "round_function F1 x y z = z XOR (x AND (y XOR z))"
| "round_function F2 x y z = y XOR (z AND (x XOR y))"
| "round_function F3 x y z = x XOR y XOR z"
| "round_function F4 x y z = y XOR (x OR NOT z)"

definition MD5STEP :: "RoundFunction \<Rightarrow> 32 word \<Rightarrow> 32 word \<Rightarrow> 32 word \<Rightarrow> 32 word \<Rightarrow> 32 word \<Rightarrow> nat \<Rightarrow> 32 word" where
  "MD5STEP f w x y z data s =
     (let w = w + (round_function f x y z + data);
          w = push_bit s w OR drop_bit (32 - s) w
      in w + x)"

type_synonym md5_state = "32 word \<times> 32 word \<times> 32 word \<times> 32 word"

definition md5_steps :: "(RoundFunction \<times> nat \<times> 32 word \<times> nat) list" where
  "md5_steps = [
   (F1, 0, 0xd76aa478, 7), (F1, 1, 0xe8c7b756, 12),
   (F1, 2, 0x242070db, 17), (F1, 3, 0xc1bdceee, 22),
   (F1, 4, 0xf57c0faf, 7), (F1, 5, 0x4787c62a, 12),
   (F1, 6, 0xa8304613, 17), (F1, 7, 0xfd469501, 22),
   (F1, 8, 0x698098d8, 7), (F1, 9, 0x8b44f7af, 12),
   (F1, 10, 0xffff5bb1, 17), (F1, 11, 0x895cd7be, 22),
   (F1, 12, 0x6b901122, 7), (F1, 13, 0xfd987193, 12),
   (F1, 14, 0xa679438e, 17), (F1, 15, 0x49b40821, 22),
   (F2, 1, 0xf61e2562, 5), (F2, 6, 0xc040b340, 9),
   (F2, 11, 0x265e5a51, 14), (F2, 0, 0xe9b6c7aa, 20),
   (F2, 5, 0xd62f105d, 5), (F2, 10, 0x02441453, 9),
   (F2, 15, 0xd8a1e681, 14), (F2, 4, 0xe7d3fbc8, 20),
   (F2, 9, 0x21e1cde6, 5), (F2, 14, 0xc33707d6, 9),
   (F2, 3, 0xf4d50d87, 14), (F2, 8, 0x455a14ed, 20),
   (F2, 13, 0xa9e3e905, 5), (F2, 2, 0xfcefa3f8, 9),
   (F2, 7, 0x676f02d9, 14), (F2, 12, 0x8d2a4c8a, 20),
   (F3, 5, 0xfffa3942, 4), (F3, 8, 0x8771f681, 11),
   (F3, 11, 0x6d9d6122, 16), (F3, 14, 0xfde5380c, 23),
   (F3, 1, 0xa4beea44, 4), (F3, 4, 0x4bdecfa9, 11),
   (F3, 7, 0xf6bb4b60, 16), (F3, 10, 0xbebfbc70, 23),
   (F3, 13, 0x289b7ec6, 4), (F3, 0, 0xeaa127fa, 11),
   (F3, 3, 0xd4ef3085, 16), (F3, 6, 0x04881d05, 23),
   (F3, 9, 0xd9d4d039, 4), (F3, 12, 0xe6db99e5, 11),
   (F3, 15, 0x1fa27cf8, 16), (F3, 2, 0xc4ac5665, 23),
   (F4, 0, 0xf4292244, 6), (F4, 7, 0x432aff97, 10),
   (F4, 14, 0xab9423a7, 15), (F4, 5, 0xfc93a039, 21),
   (F4, 12, 0x655b59c3, 6), (F4, 3, 0x8f0ccc92, 10),
   (F4, 10, 0xffeff47d, 15), (F4, 1, 0x85845dd1, 21),
   (F4, 8, 0x6fa87e4f, 6), (F4, 15, 0xfe2ce6e0, 10),
   (F4, 6, 0xa3014314, 15), (F4, 13, 0x4e0811a1, 21),
   (F4, 4, 0xf7537e82, 6), (F4, 11, 0xbd3af235, 10),
   (F4, 2, 0x2ad7d2bb, 15), (F4, 9, 0xeb86d391, 21)]"

fun run_steps :: "(RoundFunction \<times> nat \<times> 32 word \<times> nat) list \<Rightarrow> 32 word list \<Rightarrow> md5_state \<Rightarrow> md5_state" where
  "run_steps [] ws s = s"
| "run_steps ((f, i, c, r) # steps) ws (w, x, y, z) =
     run_steps steps ws (z, MD5STEP f w x y z (ws ! i + c) r, x, y)"

definition MD5Transform :: "md5_state \<Rightarrow> 32 word list \<Rightarrow> md5_state" where
  "MD5Transform buf ws =
     (case buf of (buf0, buf1, buf2, buf3) \<Rightarrow>
       case run_steps md5_steps ws buf of (a, b, c, d) \<Rightarrow> (buf0 + a, buf1 + b, buf2 + c, buf3 + d))"

record Md5Context =
  md5_buf :: md5_state
  bits0 :: "32 word"
  bits1 :: "32 word"
  md5_in :: "byte list"

fun byteReverse :: "byte list \<Rightarrow> 32 word list" where
  "byteReverse (b0 # b1 # b2 # b3 # bs) =
     (push_bit 16 (push_bit 8 (ucast b3) OR ucast b2) OR (push_bit 8 (ucast b1) OR ucast b0)) # byteReverse bs"
| "byteReverse _ = []"

definition byteReverse_word :: "32 word \<Rightarrow> byte list" where
  "byteReverse_word w = [ucast w, ucast (drop_bit 8 w), ucast (drop_bit 16 w), ucast (drop_bit 24 w)]"

definition memcpy_at :: "nat \<Rightarrow> byte list \<Rightarrow> byte list \<Rightarrow> byte list" where
  "memcpy_at pos src dst = take pos dst @ src @ drop (pos + length src) dst"

definition MD5Init :: "byte list \<Rightarrow> Md5Context" where
  "MD5Init uninitialized =
     \<lparr>md5_buf = (0x67452301, 0xefcdab89, 0x98badcfe, 0x10325476), bits0 = 0, bits1 = 0, md5_in = uninitialized\<rparr>"

function process_chunks :: "Md5Context \<Rightarrow> byte list \<Rightarrow> Md5Context" where
  "process_chunks ctx data =
     (if length data \<ge> 64
      then let input = memcpy_at 0 (take 64 data) (md5_in ctx)
           in process_chunks (ctx\<lparr>md5_in := input, md5_buf := MD5Transform (md5_buf ctx) (byteReverse input)\<rparr>) (drop 64 data)
      else ctx\<lparr>md5_in := memcpy_at 0 data (md5_in ctx)\<rparr>)"
  by pat_completeness auto
termination by (relation "measure (\<lambda>(ctx, data). length data)") auto

definition MD5Update :: "Md5Context \<Rightarrow> byte list \<Rightarrow> Md5Context" where
  "MD5Update ctx data =
     (let len = length data;
          t = bits0 ctx;
          low = t + push_bit 3 (word_of_nat len);
          high = (if low < t then bits1 ctx + 1 else bits1 ctx) + word_of_nat (drop_bit 29 len);
          ctx = ctx\<lparr>bits0 := low, bits1 := high\<rparr>;
          t = unat (drop_bit 3 t AND 0x3f)
      in if t \<noteq> 0 then
           let room = 64 - t
           in if len < room then ctx\<lparr>md5_in := memcpy_at t data (md5_in ctx)\<rparr>
              else let input = memcpy_at t (take room data) (md5_in ctx)
                   in process_chunks (ctx\<lparr>md5_in := input, md5_buf := MD5Transform (md5_buf ctx) (byteReverse input)\<rparr>)
                        (drop room data)
         else process_chunks ctx data)"

definition MD5Final :: "Md5Context \<Rightarrow> byte list" where
  "MD5Final ctx =
     (let count = unat (drop_bit 3 (bits0 ctx) AND 0x3f);
          input = memcpy_at count [0x80] (md5_in ctx);
          p = count + 1;
          count = 64 - 1 - count;
          (buf, input) =
            (if count < 8
             then let input = memcpy_at p (replicate count 0) input
                  in (MD5Transform (md5_buf ctx) (byteReverse input), memcpy_at 0 (replicate 56 0) input)
             else (md5_buf ctx, memcpy_at p (replicate (count - 8) 0) input));
          (a, b, c, d) = MD5Transform buf (byteReverse (take 56 input) @ [bits0 ctx, bits1 ctx])
      in byteReverse_word a @ byteReverse_word b @ byteReverse_word c @ byteReverse_word d)"

definition CalculateMd5Digest :: "byte list \<Rightarrow> byte list \<Rightarrow> byte list" where
  "CalculateMd5Digest uninitialized s = MD5Final (MD5Update (MD5Init uninitialized) s)"

section \<open>RFC 1321\<close>

text \<open>The reference: the message is padded to a multiple of 64 bytes and its blocks are folded.\<close>

definition rfc_constants :: "32 word list" where
  "rfc_constants = [
   0xd76aa478, 0xe8c7b756, 0x242070db, 0xc1bdceee, 0xf57c0faf, 0x4787c62a, 0xa8304613, 0xfd469501,
   0x698098d8, 0x8b44f7af, 0xffff5bb1, 0x895cd7be, 0x6b901122, 0xfd987193, 0xa679438e, 0x49b40821,
   0xf61e2562, 0xc040b340, 0x265e5a51, 0xe9b6c7aa, 0xd62f105d, 0x02441453, 0xd8a1e681, 0xe7d3fbc8,
   0x21e1cde6, 0xc33707d6, 0xf4d50d87, 0x455a14ed, 0xa9e3e905, 0xfcefa3f8, 0x676f02d9, 0x8d2a4c8a,
   0xfffa3942, 0x8771f681, 0x6d9d6122, 0xfde5380c, 0xa4beea44, 0x4bdecfa9, 0xf6bb4b60, 0xbebfbc70,
   0x289b7ec6, 0xeaa127fa, 0xd4ef3085, 0x04881d05, 0xd9d4d039, 0xe6db99e5, 0x1fa27cf8, 0xc4ac5665,
   0xf4292244, 0x432aff97, 0xab9423a7, 0xfc93a039, 0x655b59c3, 0x8f0ccc92, 0xffeff47d, 0x85845dd1,
   0x6fa87e4f, 0xfe2ce6e0, 0xa3014314, 0x4e0811a1, 0xf7537e82, 0xbd3af235, 0x2ad7d2bb, 0xeb86d391]"

definition rfc_function :: "nat \<Rightarrow> 32 word \<Rightarrow> 32 word \<Rightarrow> 32 word \<Rightarrow> 32 word" where
  "rfc_function i x y z =
     (if i < 16 then (x AND y) OR (NOT x AND z)
      else if i < 32 then (x AND z) OR (y AND NOT z)
      else if i < 48 then x XOR y XOR z
      else y XOR (x OR NOT z))"

definition rfc_index :: "nat \<Rightarrow> nat" where
  "rfc_index i =
     (if i < 16 then i else if i < 32 then (5 * i + 1) mod 16 else if i < 48 then (3 * i + 5) mod 16 else (7 * i) mod 16)"

definition rfc_rotation :: "nat \<Rightarrow> nat" where
  "rfc_rotation i =
     (if i < 16 then [7, 12, 17, 22] ! (i mod 4) else if i < 32 then [5, 9, 14, 20] ! (i mod 4)
      else if i < 48 then [4, 11, 16, 23] ! (i mod 4) else [6, 10, 15, 21] ! (i mod 4))"

definition rfc_step :: "32 word list \<Rightarrow> nat \<Rightarrow> md5_state \<Rightarrow> md5_state" where
  "rfc_step ws i s =
     (case s of (a, b, c, d) \<Rightarrow>
       (d, b + word_rotl (rfc_rotation i) (a + rfc_function i b c d + ws ! rfc_index i + rfc_constants ! i), b, c))"

definition rfc_block :: "32 word list \<Rightarrow> md5_state \<Rightarrow> md5_state" where
  "rfc_block ws s =
     (case s of (a, b, c, d) \<Rightarrow>
       case fold (rfc_step ws) [0..<64] s of (a', b', c', d') \<Rightarrow> (a + a', b + b', c + c', d + d'))"

function blocks :: "byte list \<Rightarrow> byte list list" where
  "blocks bs = (if length bs < 64 then [] else take 64 bs # blocks (drop 64 bs))"
  by pat_completeness auto
termination by (relation "measure length") auto

definition rfc_hash :: "byte list \<Rightarrow> md5_state" where
  "rfc_hash message = fold (\<lambda>block. rfc_block (byteReverse block)) (blocks message)
     (0x67452301, 0xefcdab89, 0x98badcfe, 0x10325476)"

definition rfc_length_bytes :: "nat \<Rightarrow> byte list" where
  "rfc_length_bytes n = map (\<lambda>i. word_of_nat (n div 256 ^ i)) [0..<8]"

definition rfc_padding :: "byte list \<Rightarrow> byte list" where
  "rfc_padding message =
     message @ [0x80] @ replicate ((119 - length message mod 64) mod 64) 0 @ rfc_length_bytes (8 * length message)"

definition md5_reference :: "byte list \<Rightarrow> byte list" where
  "md5_reference message =
     (case rfc_hash (rfc_padding message) of
        (a, b, c, d) \<Rightarrow> byteReverse_word a @ byteReverse_word b @ byteReverse_word c @ byteReverse_word d)"

declare process_chunks.simps [simp del] blocks.simps [simp del]

section \<open>One block\<close>

lemma round_function_rfc:
  "round_function F1 x y z = (x AND y) OR (NOT x AND z)"
  "round_function F2 x y z = (x AND z) OR (y AND NOT z)"
  by (auto intro!: bit_eqI simp: bit_simps)

lemma rotate_shift:
  fixes w :: "32 word"
  assumes "s < 32"
  shows "push_bit s w OR drop_bit (32 - s) w = word_rotl s w"
proof (rule bit_word_eqI)
  fix n assume n: "n < LENGTH(32)"
  show "bit (push_bit s w OR drop_bit (32 - s) w) n \<longleftrightarrow> bit (word_rotl s w) n"
  proof (cases "s \<le> n")
    case True
    have "(n + 32 - s) mod 32 = n - s" using n True by (simp add: mod_if)
    moreover have "\<not> bit w (32 + n - s)" using True n bit_imp_le_length [of w "32 + n - s"] by auto
    ultimately show ?thesis using n True assms by (auto simp: bit_simps bit_word_rotl_iff)
  next
    case False
    have "32 + n - s = n + 32 - s" by simp
    then show ?thesis using False n assms by (simp add: bit_simps bit_word_rotl_iff del: diff_add_assoc2)
  qed
qed

definition rfc_row :: "nat \<Rightarrow> RoundFunction \<times> nat \<times> 32 word \<times> nat" where
  "rfc_row i = (if i < 16 then F1 else if i < 32 then F2 else if i < 48 then F3 else F4, rfc_index i, rfc_constants ! i, rfc_rotation i)"

lemma md5_steps_rfc: "md5_steps = map rfc_row [0..<64]"
  by code_simp

lemma rfc_rotation_small: "rfc_rotation i < 32"
proof -
  have "i mod 4 = 0 \<or> i mod 4 = 1 \<or> i mod 4 = 2 \<or> i mod 4 = 3" by arith
  then show ?thesis by (auto simp: rfc_rotation_def)
qed

lemma run_steps_rfc: "run_steps (map rfc_row is) ws s = fold (rfc_step ws) is s"
proof (induction "is" arbitrary: s)
  case (Cons i js)
  obtain a b c d where s: "s = (a, b, c, d)" by (cases s)
  have f: "round_function (if i < 16 then F1 else if i < 32 then F2 else if i < 48 then F3 else F4) b c d = rfc_function i b c d"
    by (simp add: rfc_function_def round_function_rfc del: round_function.simps(1,2))
  have "run_steps (map rfc_row (i # js)) ws s = run_steps (map rfc_row js) ws (rfc_step ws i s)"
    by (simp add: s rfc_row_def MD5STEP_def rfc_step_def f rotate_shift rfc_rotation_small ac_simps)
  then show ?case using Cons by simp
qed simp

lemma MD5Transform_rfc: "MD5Transform buf ws = rfc_block ws buf"
  by (simp add: MD5Transform_def rfc_block_def md5_steps_rfc run_steps_rfc split: prod.splits)

section \<open>Blocks\<close>

lemma blocks_short: "length bs < 64 \<Longrightarrow> blocks bs = []"
  by (subst blocks.simps) simp

lemma blocks_append: "length a mod 64 = 0 \<Longrightarrow> blocks (a @ b) = blocks a @ blocks b"
proof (induction a rule: blocks.induct)
  case (1 a)
  show ?case
  proof (cases "length a < 64")
    case True
    then have "a = []" using 1(2) by simp
    then show ?thesis by (simp add: blocks_short)
  next
    case False
    then have "length (drop 64 a) mod 64 = 0" using 1(2) by (simp add: mod_if)
    then show ?thesis using False 1(1) by (subst (1 2) blocks.simps) simp
  qed
qed

lemma blocks_one: "length b = 64 \<Longrightarrow> blocks b = [b]"
  by (subst blocks.simps) (simp add: blocks_short)

lemma rfc_hash_block:
  "length a mod 64 = 0 \<Longrightarrow> length b = 64 \<Longrightarrow> rfc_hash (a @ b) = rfc_block (byteReverse b) (rfc_hash a)"
  by (simp add: rfc_hash_def blocks_append blocks_one)

lemma rfc_hash_tail: "length a mod 64 = 0 \<Longrightarrow> length b < 64 \<Longrightarrow> rfc_hash (a @ b) = rfc_hash a"
  by (simp add: rfc_hash_def blocks_append blocks_short)

definition aligned :: "byte list \<Rightarrow> byte list" where
  "aligned m = take (64 * (length m div 64)) m"

definition tail :: "byte list \<Rightarrow> byte list" where
  "tail m = drop (64 * (length m div 64)) m"

lemma aligned_tail: "aligned m @ tail m = m" "length (aligned m) mod 64 = 0" "length (tail m) = length m mod 64"
proof -
  have "64 * (length m div 64) \<le> length m" by simp
  then have "length (aligned m) = 64 * (length m div 64)" unfolding aligned_def by (simp only: length_take min.absorb2)
  then show "length (aligned m) mod 64 = 0" by simp
  show "length (tail m) = length m mod 64" by (simp add: tail_def minus_mult_div_eq_mod)
qed (simp add: aligned_def tail_def)

lemma rfc_hash_aligned: "rfc_hash (aligned m) = rfc_hash m"
  using rfc_hash_tail [OF aligned_tail(2), of "tail m" m] aligned_tail(1,3) [of m] by simp

lemma tail_unique:
  assumes "length a mod 64 = 0" "length b < 64"
  shows "tail (a @ b) = b"
proof -
  have "(length a + length b) div 64 = length a div 64" using assms by (simp add: div_add1_eq)
  moreover have "64 * (length a div 64) = length a" using assms(1) by auto
  ultimately show ?thesis by (simp add: tail_def)
qed

section \<open>Updating\<close>

definition ctx_ok :: "Md5Context \<Rightarrow> byte list \<Rightarrow> bool" where
  "ctx_ok ctx m \<longleftrightarrow>
     md5_buf ctx = rfc_hash m \<and> length (md5_in ctx) = 64 \<and>
     take (length (tail m)) (md5_in ctx) = tail m \<and>
     bits0 ctx = word_of_nat (8 * length m) \<and> bits1 ctx = word_of_nat (8 * length m div 2 ^ 32)"

lemma length_memcpy_at [simp]: "pos + length src \<le> length dst \<Longrightarrow> length (memcpy_at pos src dst) = length dst"
  by (simp add: memcpy_at_def)

lemma process_chunks_ok:
  assumes "length (md5_in ctx) = 64" "length m mod 64 = 0" "md5_buf ctx = rfc_hash m"
  shows "md5_buf (process_chunks ctx data) = rfc_hash (m @ data) \<and> length (md5_in (process_chunks ctx data)) = 64 \<and>
    take (length (tail (m @ data))) (md5_in (process_chunks ctx data)) = tail (m @ data) \<and>
    bits0 (process_chunks ctx data) = bits0 ctx \<and> bits1 (process_chunks ctx data) = bits1 ctx"
  using assms
proof (induction ctx data arbitrary: m rule: process_chunks.induct)
  case (1 ctx data)
  show ?case
  proof (cases "length data \<ge> 64")
    case True
    let ?block = "take 64 data"
    let ?ctx = "ctx\<lparr>md5_in := ?block, md5_buf := MD5Transform (md5_buf ctx) (byteReverse ?block)\<rparr>"
    have b: "memcpy_at 0 ?block (md5_in ctx) = ?block" using True 1(2) by (simp add: memcpy_at_def)
    have step: "process_chunks ctx data = process_chunks ?ctx (drop 64 data)"
      using True by (subst process_chunks.simps) (simp add: b Let_def)
    have "md5_buf ?ctx = rfc_hash (m @ ?block)"
      using True 1(3,4) by (simp add: MD5Transform_rfc rfc_hash_block)
    moreover have "length (m @ ?block) mod 64 = 0" "length (md5_in ?ctx) = 64" using 1(3) True by auto
    ultimately show ?thesis
      using "1.IH" [OF True refl, of "m @ ?block"] unfolding b step by (simp add: append.assoc [symmetric])
  next
    case False
    then have t: "tail (m @ data) = data" using tail_unique 1(3) by simp
    have "process_chunks ctx data = ctx\<lparr>md5_in := memcpy_at 0 data (md5_in ctx)\<rparr>"
      using False by (subst process_chunks.simps) simp
    then show ?thesis using False 1(2-4) t rfc_hash_tail [OF 1(3), of data] by (simp add: memcpy_at_def)
  qed
qed

lemma word32_of_nat_eq: "word_of_nat a = (word_of_nat b :: 32 word) \<longleftrightarrow> a mod 2 ^ 32 = b mod 2 ^ 32"
  by (simp add: word_of_nat_eq_iff take_bit_eq_mod)

lemma div_carry:
  fixes x y M :: nat
  assumes "0 < M"
  shows "(x + y) div M = x div M + y div M + (if (x + y) mod M < x mod M then 1 else 0)"
proof -
  define r q where "r = x mod M" and "q = y mod M"
  have rq: "r < M" "q < M" using assms by (simp_all add: r_def q_def)
  have "(x + y) div M = x div M + y div M + (r + q) div M" unfolding r_def q_def by (rule div_add1_eq)
  moreover have "(x + y) mod M = (r + q) mod M" by (simp add: r_def q_def mod_add_eq)
  moreover have "(r + q) div M = (if (r + q) mod M < r then 1 else 0)"
  proof (cases "r + q < M")
    case False
    then have "(r + q) div M = Suc ((r + q - M) div M)" "(r + q) mod M = (r + q - M) mod M"
      using assms by (simp_all add: le_div_geq le_mod_geq)
    moreover have "r + q - M < M" "r + q - M < r" using rq False by simp_all
    ultimately show ?thesis by simp
  qed simp
  ultimately show ?thesis by (simp add: r_def)
qed

lemma bit_count_carry:
  "8 * (n + k) div 2 ^ 32 =
    8 * n div 2 ^ 32 + k div 2 ^ 29 + (if (8 * (n + k)) mod 2 ^ 32 < (8 * n) mod 2 ^ 32 then 1 else (0 :: nat))"
proof -
  have "8 * k div 2 ^ 32 = k div 2 ^ 29" by simp
  then show ?thesis using div_carry [of "2 ^ 32" "8 * n" "8 * k"] by (simp only: distrib_left zero_less_power zero_less_numeral)
qed

lemma drop_bit_count_word: "unat (drop_bit 3 (word_of_nat N :: 32 word) AND 0x3f) = N mod 2 ^ 32 div 8 mod 64"
proof -
  have "drop_bit 3 (word_of_nat N :: 32 word) AND 0x3f = take_bit 6 (drop_bit 3 (word_of_nat N))"
    by (simp add: take_bit_eq_mask mask_eq_exp_minus_1)
  then have "unat (drop_bit 3 (word_of_nat N :: 32 word) AND 0x3f) = take_bit 6 (drop_bit 3 (take_bit 32 N))"
    by (simp add: unsigned_take_bit_eq unsigned_drop_bit_eq unsigned_of_nat)
  then show ?thesis by (simp add: take_bit_eq_mod drop_bit_eq_div)
qed

lemma drop_bit_count: "unat (drop_bit 3 (word_of_nat (8 * n) :: 32 word) AND 0x3f) = n mod 64"
proof -
  have "(8 * n) mod (8 * 2 ^ 29) = 8 * (n mod 2 ^ 29)" by (simp only: mult_mod_right)
  then have "(8 * n) mod 2 ^ 32 div 8 = n mod 2 ^ 29" by simp
  moreover have "n mod 2 ^ 29 mod 64 = n mod 64" by (simp add: mod_mod_cancel)
  ultimately show ?thesis by (simp only: drop_bit_count_word)
qed

lemma unat_word32: "unat (word_of_nat N :: 32 word) = N mod 2 ^ 32"
  by (simp add: unsigned_of_nat take_bit_eq_mod)

lemma bits_update:
  fixes b0 b1 :: "32 word"
  assumes "b0 = word_of_nat (8 * n)" "b1 = word_of_nat (8 * n div 2 ^ 32)" "low = b0 + push_bit 3 (word_of_nat k :: 32 word)"
  shows "low = word_of_nat (8 * (n + k))"
    and "(if low < b0 then b1 + 1 else b1) + word_of_nat (drop_bit 29 k) = word_of_nat (8 * (n + k) div 2 ^ 32)"
proof -
  show low: "low = word_of_nat (8 * (n + k))" by (simp add: assms push_bit_eq_mult algebra_simps)
  have "unat low = 8 * (n + k) mod 2 ^ 32" unfolding low by (rule unat_word32)
  moreover have "unat b0 = 8 * n mod 2 ^ 32" unfolding assms(1) by (rule unat_word32)
  ultimately have less: "low < b0 \<longleftrightarrow> 8 * (n + k) mod 2 ^ 32 < 8 * n mod 2 ^ 32" by (simp only: word_less_nat_alt)
  have eq: "(word_of_nat (8 * (n + k) div 2 ^ 32) :: 32 word) =
      word_of_nat (8 * n div 2 ^ 32) + word_of_nat (k div 2 ^ 29) + (if low < b0 then 1 else 0)"
    unfolding bit_count_carry less by (simp only: of_nat_add) simp
  have "(if low < b0 then b1 + 1 else b1) + word_of_nat (drop_bit 29 k) =
      word_of_nat (8 * n div 2 ^ 32) + word_of_nat (k div 2 ^ 29) + (if low < b0 then 1 else 0)"
    unfolding assms(2) drop_bit_eq_div by (cases "low < b0") simp_all
  then show "(if low < b0 then b1 + 1 else b1) + word_of_nat (drop_bit 29 k) = word_of_nat (8 * (n + k) div 2 ^ 32)"
    by (rule trans [OF _ eq [symmetric]])
qed

lemma MD5Update_ok:
  assumes "ctx_ok ctx m"
  shows "ctx_ok (MD5Update ctx data) (m @ data)"
proof -
  let ?n = "length m" and ?k = "length data"
  define low where "low = bits0 ctx + push_bit 3 (word_of_nat ?k)"
  define high where "high = (if low < bits0 ctx then bits1 ctx + 1 else bits1 ctx) + word_of_nat (drop_bit 29 ?k)"
  define c1 where "c1 = ctx\<lparr>bits0 := low, bits1 := high\<rparr>"
  have b: "bits0 ctx = word_of_nat (8 * ?n)" "bits1 ctx = word_of_nat (8 * ?n div 2 ^ 32)"
    and ctx: "md5_buf ctx = rfc_hash m" "length (md5_in ctx) = 64" "take (length (tail m)) (md5_in ctx) = tail m"
    using assms by (simp_all add: ctx_ok_def)
  have lh: "low = word_of_nat (8 * length (m @ data))" "high = word_of_nat (8 * length (m @ data) div 2 ^ 32)"
    using bits_update [OF b low_def] by (simp_all add: high_def)
  define t where "t = unat (drop_bit 3 (bits0 ctx) AND 0x3f)"
  have t: "t = length (tail m)" unfolding t_def b(1) drop_bit_count by (simp add: aligned_tail)
  then have t64: "t < 64" by (simp add: aligned_tail)
  have m: "m = aligned m @ tail m" by (simp add: aligned_tail)
  have upd: "MD5Update ctx data =
     (if t \<noteq> 0 then
        if ?k < 64 - t then c1\<lparr>md5_in := memcpy_at t data (md5_in ctx)\<rparr>
        else let input = memcpy_at t (take (64 - t) data) (md5_in ctx)
             in process_chunks (c1\<lparr>md5_in := input, md5_buf := MD5Transform (md5_buf c1) (byteReverse input)\<rparr>) (drop (64 - t) data)
      else process_chunks c1 data)"
    by (simp add: MD5Update_def Let_def low_def [symmetric] high_def [symmetric] c1_def [symmetric] t_def [symmetric]) (simp add: c1_def)
  consider "t = 0" | "t \<noteq> 0" "?k < 64 - t" | "t \<noteq> 0" "64 - t \<le> ?k" by linarith
  then show ?thesis
  proof cases
    case 1
    then have "length m mod 64 = 0" using t by (simp add: aligned_tail)
    then show ?thesis
      using 1 upd lh process_chunks_ok [of c1 m data] ctx by (simp add: ctx_ok_def c1_def)
  next
    case 2
    let ?b = "tail m @ data"
    have e: "m @ data = aligned m @ ?b" using m by simp
    have l: "length ?b < 64" using 2 t by simp
    have "tail (m @ data) = ?b" "rfc_hash (m @ data) = rfc_hash m"
      unfolding e using tail_unique [OF aligned_tail(2) l] rfc_hash_tail [OF aligned_tail(2) l] by (simp_all add: rfc_hash_aligned)
    then show ?thesis using 2 upd lh ctx t by (simp add: ctx_ok_def c1_def memcpy_at_def)
  next
    case 3
    let ?r = "64 - t"
    let ?block = "tail m @ take ?r data"
    have l: "length ?block = 64" using 3 t t64 by simp
    have i: "memcpy_at t (take ?r data) (md5_in ctx) = ?block" using 3 ctx t t64 by (simp add: memcpy_at_def)
    let ?m = "aligned m @ ?block"
    have h: "rfc_hash ?m = MD5Transform (md5_buf ctx) (byteReverse ?block)"
      by (simp add: MD5Transform_rfc rfc_hash_block [OF aligned_tail(2) l] rfc_hash_aligned ctx(1))
    have e: "m @ data = ?m @ drop ?r data" using m by simp
    have "length ?m mod 64 = 0" using l aligned_tail(2) [of m] by (simp only: length_append) simp
    then show ?thesis
      using process_chunks_ok [of "c1\<lparr>md5_in := ?block, md5_buf := MD5Transform (md5_buf ctx) (byteReverse ?block)\<rparr>" ?m "drop ?r data"]
        3 upd lh l h unfolding i e by (simp add: ctx_ok_def c1_def Let_def)
  qed
qed

section \<open>The digest\<close>

lemma byteReverse_append: "length xs mod 4 = 0 \<Longrightarrow> byteReverse (xs @ ys) = byteReverse xs @ byteReverse ys"
proof (induction xs rule: byteReverse.induct)
  case (1 b0 b1 b2 b3 bs)
  then show ?case by simp
qed auto

lemma word32_bytes:
  fixes w :: "32 word"
  shows "push_bit 16 (push_bit 8 (ucast (ucast (drop_bit 24 w) :: byte)) OR ucast (ucast (drop_bit 16 w) :: byte)) OR
    (push_bit 8 (ucast (ucast (drop_bit 8 w) :: byte)) OR ucast (ucast w :: byte)) = w"
proof (rule bit_word_eqI, goal_cases)
  case (1 n)
  consider "n < 8" | "8 \<le> n" "n < 16" | "16 \<le> n" "n < 24" | "24 \<le> n" by linarith
  then show ?case using 1 by cases (auto simp: bit_simps)
qed

lemma byteReverse_word_inverse: "byteReverse (byteReverse_word w @ bs) = w # byteReverse bs"
  unfolding byteReverse_word_def append.simps byteReverse.simps word32_bytes ..

lemma byteReverse_word_of_nat:
  "byteReverse_word (word_of_nat N) = [word_of_nat N, word_of_nat (N div 256), word_of_nat (N div 256 ^ 2), word_of_nat (N div 256 ^ 3)]"
proof -
  have "ucast (drop_bit k (word_of_nat N :: 32 word)) = (word_of_nat (N div 2 ^ k) :: byte)" if "k + 8 \<le> 32" for k
    using that by (auto intro!: bit_word_eqI simp: bit_simps drop_bit_eq_div [symmetric])
  from this [of 0] this [of 8] this [of 16] this [of 24] show ?thesis by (simp add: byteReverse_word_def)
qed

lemma rfc_length_words:
  "rfc_length_bytes N = byteReverse_word (word_of_nat N) @ byteReverse_word (word_of_nat (N div 2 ^ 32))"
proof -
  have "[0..<8] = [0, 1, 2, 3, 4, 5, 6, 7 :: nat]" by (simp add: upt_rec)
  then show ?thesis by (simp add: rfc_length_bytes_def byteReverse_word_of_nat div_mult2_eq [symmetric])
qed

lemma byteReverse_length: "byteReverse (rfc_length_bytes N) = [word_of_nat N, word_of_nat (N div 2 ^ 32)]"
  using byteReverse_word_inverse [of "word_of_nat (N div 2 ^ 32)" "[]"]
  unfolding rfc_length_words byteReverse_word_inverse append_Nil2 by simp

lemma length_rfc_length_bytes [simp]: "length (rfc_length_bytes N) = 8"
  by (simp add: rfc_length_bytes_def)

lemma rfc_hash_two_blocks:
  assumes "length a mod 64 = 0" "length b = 64" "length c = 64"
  shows "rfc_hash (a @ b @ c) = rfc_block (byteReverse c) (rfc_block (byteReverse b) (rfc_hash a))"
  using rfc_hash_block [of "a @ b" c] rfc_hash_block [of a b] assms by simp

lemma MD5Final_ok:
  assumes "ctx_ok ctx m"
  shows "MD5Final ctx = md5_reference m"
proof -
  define c where "c = length (tail m)"
  have c: "c < 64" "c = length m mod 64" by (simp_all add: c_def aligned_tail)
  have b: "bits0 ctx = word_of_nat (8 * length m)" "bits1 ctx = word_of_nat (8 * length m div 2 ^ 32)"
    and ctx: "md5_buf ctx = rfc_hash m" "length (md5_in ctx) = 64" "take c (md5_in ctx) = tail m"
    using assms by (simp_all add: ctx_ok_def c_def)
  have count: "unat (drop_bit 3 (bits0 ctx) AND 0x3f) = c" unfolding b(1) drop_bit_count c(2) ..
  let ?len = "rfc_length_bytes (8 * length m)"
  let ?start = "tail m @ [0x80]"
  have input: "take (Suc c) (memcpy_at c [0x80] (md5_in ctx)) = ?start" "length (memcpy_at c [0x80] (md5_in ctx)) = 64"
    using ctx c by (simp_all add: memcpy_at_def c_def)
  define input where "input = memcpy_at c [0x80] (md5_in ctx)"
  have words: "byteReverse (take 56 xs) @ [bits0 ctx, bits1 ctx] = byteReverse (take 56 xs @ ?len)"
    if "length xs = 64" for xs
    using that by (simp add: byteReverse_append byteReverse_length b)
  have pad: "rfc_padding m = aligned m @ ?start @ replicate ((119 - c) mod 64) 0 @ ?len"
    by (simp add: rfc_padding_def c(2) aligned_tail(1) flip: append_assoc)
  have "rfc_hash (rfc_padding m) =
      (if 63 - c < 8
       then MD5Transform (MD5Transform (md5_buf ctx) (byteReverse (memcpy_at (c + 1) (replicate (63 - c) 0) input)))
              (byteReverse (take 56 (memcpy_at 0 (replicate 56 0) (memcpy_at (c + 1) (replicate (63 - c) 0) input))) @ [bits0 ctx, bits1 ctx])
       else MD5Transform (md5_buf ctx)
              (byteReverse (take 56 (memcpy_at (c + 1) (replicate (63 - c - 8) 0) input)) @ [bits0 ctx, bits1 ctx]))"
  proof (cases "63 - c < 8")
    case True
    have "119 - c < 64" "119 - c = (63 - c) + 56" using c(1) True by linarith+
    then have "(119 - c) mod 64 = (63 - c) + 56" using mod_less by metis
    then have "replicate ((119 - c) mod 64) (0 :: byte) = replicate (63 - c) 0 @ replicate 56 0"
      by (simp only: replicate_add)
    then have pm: "rfc_padding m = aligned m @ (?start @ replicate (63 - c) 0) @ (replicate 56 0 @ ?len)" using pad by simp
    define one where "one = ?start @ replicate (63 - c) (0 :: byte)"
    have one: "memcpy_at (c + 1) (replicate (63 - c) 0) input = one" "length one = 64"
      using input c by (simp_all add: memcpy_at_def input_def one_def c_def)
    define two where "two = memcpy_at 0 (replicate 56 0) one"
    have two: "length two = 64" "take 56 two = replicate 56 0" using one(2) by (simp_all add: two_def memcpy_at_def)
    have "rfc_hash (rfc_padding m) = rfc_block (byteReverse (replicate 56 0 @ ?len)) (rfc_block (byteReverse one) (rfc_hash m))"
      unfolding pm one_def [symmetric]
      using rfc_hash_two_blocks [OF aligned_tail(2) one(2), of "replicate 56 0 @ ?len" m] by (simp add: rfc_hash_aligned)
    then show ?thesis
      using True words [OF two(1)] unfolding one(1) two_def [symmetric] two(2) MD5Transform_rfc ctx(1) by simp
  next
    case False
    have "(119 - c) mod 64 = 63 - c - 8" using False by (simp add: mod_if)
    then have p: "rfc_padding m = aligned m @ (?start @ replicate (63 - c - 8) 0 @ ?len)" using pad by simp
    define one where "one = memcpy_at (c + 1) (replicate (63 - c - 8) 0) input"
    have l56: "length (?start @ replicate (63 - c - 8) (0 :: byte)) = 56" using c False by (simp add: c_def)
    have "one = (?start @ replicate (63 - c - 8) 0) @ drop (c + 1 + (63 - c - 8)) input"
      using input(1) by (simp add: one_def memcpy_at_def input_def)
    then have "take 56 one = ?start @ replicate (63 - c - 8) 0" using l56 append_eq_conv_conj by metis
    moreover have "length one = 64" using input(2) False c by (simp add: one_def input_def)
    ultimately have one: "take 56 one = ?start @ replicate (63 - c - 8) 0" "length one = 64" .
    have l: "length (?start @ replicate (63 - c - 8) 0 @ ?len) = 64" using c False by (simp add: c_def)
    have "rfc_hash (rfc_padding m) = rfc_block (byteReverse (take 56 one @ ?len)) (rfc_hash m)"
      unfolding p one(1) using rfc_hash_block [OF aligned_tail(2) l] by (simp add: rfc_hash_aligned)
    then show ?thesis
      using False words [OF one(2)] unfolding one_def [symmetric] MD5Transform_rfc ctx(1) by simp
  qed
  then show ?thesis
    unfolding MD5Final_def md5_reference_def count input_def by (simp add: Let_def split: prod.splits)
qed

text \<open>C35: The digest of a message that arrives in any chunks, whatever the buffer of the context holds at the
  start, is the digest of RFC 1321 of the whole message.\<close>
theorem md5_matches_reference:
  assumes "length uninitialized = 64"
  shows "MD5Final (fold (\<lambda>chunk ctx. MD5Update ctx chunk) chunks (MD5Init uninitialized)) = md5_reference (concat chunks) \<and>
    CalculateMd5Digest uninitialized (concat chunks) = md5_reference (concat chunks)"
proof -
  have start: "ctx_ok (MD5Init uninitialized) []"
    using assms by (simp add: ctx_ok_def MD5Init_def rfc_hash_def blocks_short tail_def)
  have chunks: "ctx_ok (fold (\<lambda>chunk ctx. MD5Update ctx chunk) cs ctx) (m @ concat cs)" if "ctx_ok ctx m" for cs ctx m
    using that
  proof (induction cs arbitrary: ctx m)
    case (Cons c cs)
    then show ?case using Cons.IH [OF MD5Update_ok [OF Cons.prems, of c]] by simp
  qed simp
  show ?thesis
    using MD5Final_ok [OF chunks [OF start]] MD5Final_ok [OF MD5Update_ok [OF start]] by (simp add: CalculateMd5Digest_def)
qed

theorem md5_matches_reference_witness:
  "CalculateMd5Digest (replicate 64 7) [0x61, 0x62, 0x63] = md5_reference [0x61, 0x62, 0x63]"
  using md5_matches_reference [of "replicate 64 7" "[[0x61], [0x62, 0x63]]"] by simp

end
