(* ===== verification/BloomFilter.thy ===== *)
theory BloomFilter
  imports Md5 "HOL-Library.Char_ord"
begin

text \<open>
  Bloom filters of existence filters (\<^verbatim>\<open>remote/bloom_filter.cc\<close>).  Counts are unbounded integers,
  hashes are 64-bit words, the digest is read on a little-endian machine.  None stands for a
  failed assertion or a read outside the bitmap; the lemmas show that a filter that
  \<^verbatim>\<open>Create\<close> accepts never gives it.
\<close>

section \<open>The filter\<close>

record BloomFilter =
  bit_count :: int
  hash_count :: int
  bitmap :: "byte list"

datatype BloomError = InvalidPadding int | InvalidHashCount int | PaddingOfEmptyBitmap int

definition BloomFilter_new :: "byte list \<Rightarrow> int \<Rightarrow> int \<Rightarrow> BloomFilter option" where
  "BloomFilter_new bytes padding hashes =
     (let bits = int (length bytes) * 8 - padding
      in if padding \<ge> 0 \<and> padding < 8 \<and> hashes \<ge> 0 \<and> (bytes = [] \<or> hashes \<noteq> 0) \<and>
            (bytes \<noteq> [] \<or> padding = 0) \<and> bits \<ge> 0
         then Some \<lparr>bit_count = bits, hash_count = hashes, bitmap = bytes\<rparr> else None)"

definition BloomFilter_Create :: "byte list \<Rightarrow> int \<Rightarrow> int \<Rightarrow> (BloomError + BloomFilter) option" where
  "BloomFilter_Create bytes padding hashes =
     (if padding < 0 \<or> padding \<ge> 8 then Some (Inl (InvalidPadding padding))
      else if hashes < 0 then Some (Inl (InvalidHashCount hashes))
      else if bytes \<noteq> [] \<and> hashes = 0 then Some (Inl (InvalidHashCount hashes))
      else if bytes = [] \<and> padding \<noteq> 0 then Some (Inl (PaddingOfEmptyBitmap padding))
      else map_option Inr (BloomFilter_new bytes padding hashes))"

section \<open>Membership\<close>

definition Md5Digest :: "string \<Rightarrow> byte list" where
  "Md5Digest s = CalculateMd5Digest (replicate 64 0) (map of_char s)"

fun little_endian :: "byte list \<Rightarrow> 64 word" where
  "little_endian [] = 0"
| "little_endian (b # bs) = ucast b OR push_bit 8 (little_endian bs)"

definition Md5HashDigest :: "string \<Rightarrow> 64 word \<times> 64 word" where
  "Md5HashDigest key =
     (let md5_digest = Md5Digest key
      in (little_endian (take 8 md5_digest), little_endian (drop 8 md5_digest)))"

definition GetBitIndex :: "BloomFilter \<Rightarrow> 64 word \<times> 64 word \<Rightarrow> int \<Rightarrow> int option" where
  "GetBitIndex bf hash hash_index =
     (if hash_index \<ge> 0
      then let combined_hash = fst hash + word_of_int hash_index * snd hash;
               bit_index = combined_hash mod word_of_int (bit_count bf)
           in if uint bit_index \<le> 2 ^ 31 - 1 then Some (uint bit_index) else None
      else None)"

definition IsBitSet :: "BloomFilter \<Rightarrow> int \<Rightarrow> bool option" where
  "IsBitSet bf index =
     (if 0 \<le> index \<and> nat (index div 8) < length (bitmap bf)
      then Some (bitmap bf ! nat (index div 8) AND push_bit (nat (index mod 8)) 1 \<noteq> 0)
      else None)"

fun might_contain_loop :: "BloomFilter \<Rightarrow> 64 word \<times> 64 word \<Rightarrow> int list \<Rightarrow> bool option" where
  "might_contain_loop bf hash [] = Some True"
| "might_contain_loop bf hash (i # is) =
     do {
       index \<leftarrow> GetBitIndex bf hash i;
       is_set \<leftarrow> IsBitSet bf index;
       if \<not> is_set then Some False else might_contain_loop bf hash is
     }"

definition MightContain :: "BloomFilter \<Rightarrow> string \<Rightarrow> bool option" where
  "MightContain bf key =
     (if bit_count bf = 0 then Some False
      else might_contain_loop bf (Md5HashDigest key) [0..hash_count bf - 1])"

section \<open>Equality\<close>

definition HasSameBits :: "BloomFilter \<Rightarrow> BloomFilter \<Rightarrow> bool option" where
  "HasSameBits lhs rhs =
     (if bit_count lhs \<noteq> bit_count rhs then Some False
      else if bit_count lhs = 0 then Some True
      else let byte_count = length (bitmap lhs);
               padding = nat (int byte_count * 8 - bit_count lhs)
           in if byte_count = 0 \<or> length (bitmap rhs) < byte_count then None
              else if \<exists>i \<in> set [0..<byte_count - 1]. bitmap lhs ! i \<noteq> bitmap rhs ! i then Some False
              else Some (push_bit padding (bitmap lhs ! (byte_count - 1)) = push_bit padding (bitmap rhs ! (byte_count - 1))))"

definition BloomFilter_equals :: "BloomFilter \<Rightarrow> BloomFilter \<Rightarrow> bool option" where
  "BloomFilter_equals lhs rhs = (if hash_count lhs = hash_count rhs then HasSameBits lhs rhs else Some False)"

section \<open>Filters that are created\<close>

definition bloom_ok :: "BloomFilter \<Rightarrow> bool" where
  "bloom_ok bf \<longleftrightarrow>
     0 \<le> hash_count bf \<and> 0 \<le> bit_count bf \<and>
     bit_count bf \<le> int (length (bitmap bf)) * 8 \<and> int (length (bitmap bf)) * 8 < bit_count bf + 8"

lemma Create_result:
  "\<exists>result. BloomFilter_Create bytes padding hashes = Some result \<and>
    ((\<exists>bf. result = Inr bf) \<longleftrightarrow>
      0 \<le> padding \<and> padding < 8 \<and> 0 \<le> hashes \<and> (if bytes = [] then padding = 0 else hashes \<noteq> 0)) \<and>
    (\<forall>bf. result = Inr bf \<longrightarrow> bloom_ok bf \<and> bitmap bf = bytes \<and> hash_count bf = hashes \<and>
      bit_count bf = int (length bytes) * 8 - padding)"
proof -
  have "bytes \<noteq> [] \<Longrightarrow> 8 \<le> int (length bytes) * 8" by (cases bytes) auto
  then show ?thesis
    by (cases "bytes = []") (auto simp: BloomFilter_Create_def BloomFilter_new_def bloom_ok_def Let_def)
qed

text \<open>Creating a filter never fails an assertion: it returns the filter exactly for parameters whose
  padding is between 0 and 7 bits, whose hash count is not negative, and where an empty
  bitmap has no padding and another has a hash function; otherwise it returns the error of
  the first test that fails.\<close>
theorem bloom_filter_create:
  "\<exists>result. BloomFilter_Create bytes padding hashes = Some result \<and>
    ((\<exists>bf. result = Inr bf) \<longleftrightarrow>
      0 \<le> padding \<and> padding < 8 \<and> 0 \<le> hashes \<and> (if bytes = [] then padding = 0 else hashes \<noteq> 0)) \<and>
    (\<forall>bf. result = Inr bf \<longrightarrow> bloom_ok bf \<and> bitmap bf = bytes \<and> hash_count bf = hashes \<and>
      bit_count bf = int (length bytes) * 8 - padding)"
  by (rule Create_result)

theorem bloom_filter_create_witness:
  "\<exists>bf. BloomFilter_Create [255] 3 2 = Some (Inr bf) \<and> bloom_ok bf \<and> bit_count bf = 5"
  using bloom_filter_create [of "[255]" 3 2] by auto

text \<open>The bit that decides a read of a filter: bit \<open>index mod 8\<close> of byte \<open>index div 8\<close>.\<close>

definition bloom_bit :: "BloomFilter \<Rightarrow> nat \<Rightarrow> bool" where
  "bloom_bit bf n \<longleftrightarrow> bit (bitmap bf ! (n div 8)) (n mod 8)"

lemma and_exp_nonzero: "n < 8 \<Longrightarrow> (w :: byte) AND push_bit n 1 \<noteq> 0 \<longleftrightarrow> bit w n"
  by (simp add: push_bit_eq_mult and_exp_eq_0_iff_not_bit)

lemma IsBitSet_bit:
  assumes "bloom_ok bf" "int n < bit_count bf"
  shows "IsBitSet bf (int n) = Some (bloom_bit bf n)"
proof -
  have "int n < int (length (bitmap bf)) * 8" using assms by (simp add: bloom_ok_def)
  then have "n < length (bitmap bf) * 8" by linarith
  then have "n div 8 < length (bitmap bf)" by (simp add: less_mult_imp_div_less)
  then show ?thesis
    using and_exp_nonzero [of "n mod 8"] by (simp add: IsBitSet_def bloom_bit_def nat_div_distrib nat_mod_distrib)
qed

definition bloom_index :: "BloomFilter \<Rightarrow> string \<Rightarrow> int \<Rightarrow> nat" where
  "bloom_index bf key i =
     unat ((fst (Md5HashDigest key) + word_of_int i * snd (Md5HashDigest key)) mod word_of_int (bit_count bf))"

lemma GetBitIndex_ok:
  assumes "bloom_ok bf" "0 < bit_count bf" "bit_count bf \<le> 2 ^ 31" "0 \<le> i"
  shows "GetBitIndex bf (Md5HashDigest key) i = Some (int (bloom_index bf key i)) \<and>
    int (bloom_index bf key i) < bit_count bf"
proof -
  let ?h = "fst (Md5HashDigest key) + word_of_int i * snd (Md5HashDigest key)"
  let ?b = "word_of_int (bit_count bf) :: 64 word"
  have b: "uint ?b = bit_count bf" using assms(2,3) by (simp add: uint_word_of_int take_bit_int_eq_self)
  have "uint (?h mod ?b) = uint ?h mod bit_count bf" by (simp add: uint_mod b)
  then have "uint (?h mod ?b) < bit_count bf" using assms(2) by simp
  then show ?thesis using assms by (simp add: GetBitIndex_def bloom_index_def Let_def)
qed

lemma MightContain_bits:
  assumes "bloom_ok bf" "bit_count bf \<le> 2 ^ 31"
  shows "MightContain bf key =
    Some (0 < bit_count bf \<and> (\<forall>i \<in> {0..<hash_count bf}. bloom_bit bf (bloom_index bf key i)))"
proof (cases "bit_count bf = 0")
  case False
  then have b: "0 < bit_count bf" using assms(1) by (simp add: bloom_ok_def)
  have loop: "might_contain_loop bf (Md5HashDigest key) is =
      Some (\<forall>i \<in> set is. bloom_bit bf (bloom_index bf key i))" if "\<forall>i \<in> set is. 0 \<le> i" for "is"
    using that
  proof (induction "is")
    case (Cons i js)
    then show ?case using GetBitIndex_ok [OF assms(1) b assms(2), of i key] IsBitSet_bit [OF assms(1)] by simp
  qed simp
  have "set [0..hash_count bf - 1] = {0..<hash_count bf}" by auto
  then show ?thesis using False b loop [of "[0..hash_count bf - 1]"] by (simp add: MightContain_def)
qed (simp add: MightContain_def)

text \<open>A created filter answers for every string without reading outside its bitmap, and the answer
  is that all bits of the hash functions of the string are set (and that there are bits).\<close>
theorem bloom_filter_might_contain:
  assumes "bloom_ok bf" "bit_count bf \<le> 2 ^ 31"
  shows "MightContain bf key =
    Some (0 < bit_count bf \<and> (\<forall>i \<in> {0..<hash_count bf}. bloom_bit bf (bloom_index bf key i)))"
  by (rule MightContain_bits [OF assms])

text \<open>Two created filters with the same number of bits have bitmaps of the same length.\<close>

lemma bloom_lengths: "bloom_ok f \<Longrightarrow> bloom_ok g \<Longrightarrow> bit_count f = bit_count g \<Longrightarrow> length (bitmap f) = length (bitmap g)"
  unfolding bloom_ok_def by linarith

lemma bit_position:
  fixes l p j i :: nat
  assumes "p < 8" "0 < l" "i < 8"
  shows "8 * j + i < 8 * l - p \<longleftrightarrow> j < l - 1 \<or> j = l - 1 \<and> i < 8 - p"
proof -
  consider "j < l - 1" | "j = l - 1" | "l \<le> j" by linarith
  then show ?thesis
  proof cases
    case 2
    then have "8 * j + 8 = 8 * l" using assms(2) by simp
    then show ?thesis using 2 assms by linarith
  qed (use assms in linarith)+
qed

lemma byte_eq_bits: "(a :: byte) = b \<longleftrightarrow> (\<forall>i < 8. bit a i = bit b i)"
  by (auto intro: bit_word_eqI)

lemma last_byte_bits:
  assumes "p < 8"
  shows "push_bit p (a :: byte) = push_bit p b \<longleftrightarrow> (\<forall>i < 8 - p. bit a i = bit b i)"
proof
  assume e: "push_bit p a = push_bit p b"
  show "\<forall>i < 8 - p. bit a i = bit b i"
  proof (intro allI impI)
    fix i assume "i < 8 - p"
    moreover have "bit (push_bit p a) (p + i) = bit (push_bit p b) (p + i)" using e by simp
    moreover have "p + i < 8" using \<open>i < 8 - p\<close> by simp
    ultimately show "bit a i = bit b i" by (simp add: bit_simps)
  qed
next
  assume "\<forall>i < 8 - p. bit a i = bit b i"
  then show "push_bit p a = push_bit p b" using assms by (auto intro!: bit_word_eqI simp: bit_simps)
qed

text \<open>Comparing created filters compares what they decide: they are equal exactly when they have the
  same number of hash functions, the same number of bits and the same bits, whatever the
  padding bits of their bitmaps are.\<close>
theorem bloom_filter_equality:
  assumes "bloom_ok f" "bloom_ok g"
  shows "BloomFilter_equals f g =
    Some (hash_count f = hash_count g \<and> bit_count f = bit_count g \<and>
      (\<forall>n. int n < bit_count f \<longrightarrow> bloom_bit f n = bloom_bit g n))"
proof (cases "bit_count f = bit_count g \<and> bit_count f \<noteq> 0")
  case True
  let ?l = "length (bitmap f)"
  define p where "p = nat (int ?l * 8 - bit_count f)"
  have len: "length (bitmap g) = ?l" using bloom_lengths assms True by metis
  have pl: "p < 8" "0 < ?l" "bit_count f = int (8 * ?l - p)" "p \<le> 8 * ?l"
    using assms(1) True by (auto simp: p_def bloom_ok_def)
  have split: "int n < bit_count f \<longleftrightarrow> n div 8 < ?l - 1 \<or> n div 8 = ?l - 1 \<and> n mod 8 < 8 - p" for n
    using bit_position [OF pl(1,2), of "n mod 8" "n div 8"] unfolding pl(3) of_nat_less_iff by simp
  have bits: "(\<forall>n. int n < bit_count f \<longrightarrow> bloom_bit f n = bloom_bit g n) \<longleftrightarrow>
      (\<forall>j < ?l - 1. \<forall>i < 8. bit (bitmap f ! j) i = bit (bitmap g ! j) i) \<and>
      (\<forall>i < 8 - p. bit (bitmap f ! (?l - 1)) i = bit (bitmap g ! (?l - 1)) i)" (is "?all \<longleftrightarrow> ?first \<and> ?last")
  proof
    assume ?all
    have at: "bit (bitmap f ! j) i = bit (bitmap g ! j) i" if "i < 8" "j < ?l - 1 \<or> j = ?l - 1 \<and> i < 8 - p" for i j
    proof -
      have "int (8 * j + i) < bit_count f" using split [of "8 * j + i"] that by simp
      then show ?thesis using \<open>?all\<close> [rule_format, of "8 * j + i"] that(1) by (simp add: bloom_bit_def)
    qed
    then show "?first \<and> ?last" by simp
  next
    assume "?first \<and> ?last"
    then show ?all unfolding split bloom_bit_def by (metis mod_less_divisor zero_less_numeral)
  qed
  have "nat (int ?l * 8 - bit_count g) = p" using True by (simp add: p_def)
  then show ?thesis
    using True pl(1,2) len unfolding bits
    by (auto simp: BloomFilter_equals_def HasSameBits_def Let_def byte_eq_bits [symmetric] last_byte_bits)
next
  case False
  then show ?thesis by (auto simp: BloomFilter_equals_def HasSameBits_def)
qed

section \<open>Witnesses\<close>

definition small_filter :: "byte \<Rightarrow> BloomFilter" where
  "small_filter b = \<lparr>bit_count = 3, hash_count = 2, bitmap = [b]\<rparr>"

lemma small_filter_ok: "bloom_ok (small_filter b)"
  by (simp add: bloom_ok_def small_filter_def)

theorem bloom_filter_might_contain_witness: "\<exists>answer. MightContain (small_filter 7) ''key'' = Some answer"
  using bloom_filter_might_contain [of "small_filter 7" "''key''", OF small_filter_ok] by (simp add: small_filter_def)

theorem bloom_filter_equality_witness: "BloomFilter_equals (small_filter 5) (small_filter 0xfd) = Some True"
proof -
  have "bloom_bit (small_filter 5) n = bloom_bit (small_filter 0xfd) n" if "int n < 3" for n
  proof -
    have "n = 0 \<or> n = 1 \<or> n = 2" using that by linarith
    then show ?thesis by (auto simp: bloom_bit_def small_filter_def)
  qed
  then show ?thesis
    using bloom_filter_equality [of "small_filter 5" "small_filter 0xfd", OF small_filter_ok small_filter_ok] by (simp add: small_filter_def)
qed

end
