(* ===== verification/WatchChanges.thy ===== *)
theory WatchChanges
  imports Queries BloomFilter "HOL-Library.AList"
begin

text \<open>
  The accumulation of watch changes into remote events (\<^verbatim>\<open>remote/remote_event.cc\<close>,
  \<^verbatim>\<open>remote/watch_change.h\<close>, \<^verbatim>\<open>local/target_data.cc\<close>).  Hash maps are association lists in their order of
  iteration, sets of document keys the lists of their elements in order; counts are
  unbounded integers.  The target metadata provider is a record of functions that every
  operation takes as an argument.  None stands for a failed assertion.
\<close>

section \<open>Target data\<close>

type_synonym TargetId = int

datatype Stage =
    CollectionSource path | CollectionGroupSource string | DatabaseSource
  | DocumentsSource "string list" | OtherStage

datatype PipelineSourceType = kCollection | kCollectionGroup | kDatabase | kDocuments | kUnknown

datatype TargetOrPipeline = TargetOf Target | PipelineOf "Stage list"

datatype QueryPurpose = Listen | ExistenceFilterMismatch | ExistenceFilterMismatchBloom | LimboResolution

record TargetData =
  td_target :: TargetOrPipeline
  td_target_id :: TargetId
  td_sequence_number :: int
  td_purpose :: QueryPurpose
  td_snapshot_version :: Timestamp
  td_last_limbo_free_snapshot_version :: Timestamp
  td_resume_token :: "byte list"
  td_expected_count :: "int option"

definition TargetData_new :: "TargetOrPipeline \<Rightarrow> TargetId \<Rightarrow> int \<Rightarrow> QueryPurpose \<Rightarrow> TargetData" where
  "TargetData_new target target_id sequence_number purpose =
     \<lparr>td_target = target, td_target_id = target_id, td_sequence_number = sequence_number, td_purpose = purpose,
      td_snapshot_version = SnapshotVersion_None, td_last_limbo_free_snapshot_version = SnapshotVersion_None,
      td_resume_token = [], td_expected_count = None\<rparr>"

definition WithSequenceNumber :: "int \<Rightarrow> TargetData \<Rightarrow> TargetData" where
  "WithSequenceNumber n td = td\<lparr>td_sequence_number := n\<rparr>"

definition WithResumeToken :: "byte list \<Rightarrow> Timestamp \<Rightarrow> TargetData \<Rightarrow> TargetData" where
  "WithResumeToken token version td =
     td\<lparr>td_resume_token := token, td_snapshot_version := version, td_expected_count := None\<rparr>"

definition WithExpectedCount :: "int option \<Rightarrow> TargetData \<Rightarrow> TargetData" where
  "WithExpectedCount expected td = td\<lparr>td_expected_count := expected\<rparr>"

definition WithLastLimboFreeSnapshotVersion :: "Timestamp \<Rightarrow> TargetData \<Rightarrow> TargetData" where
  "WithLastLimboFreeSnapshotVersion version td = td\<lparr>td_last_limbo_free_snapshot_version := version\<rparr>"

definition GetPipelineSourceType :: "Stage list \<Rightarrow> PipelineSourceType option" where
  "GetPipelineSourceType pipeline =
     (case pipeline of
        [] \<Rightarrow> None
      | CollectionSource _ # _ \<Rightarrow> Some kCollection
      | CollectionGroupSource _ # _ \<Rightarrow> Some kCollectionGroup
      | DatabaseSource # _ \<Rightarrow> Some kDatabase
      | DocumentsSource _ # _ \<Rightarrow> Some kDocuments
      | _ \<Rightarrow> Some kUnknown)"

definition GetPipelineDocuments :: "Stage list \<Rightarrow> string list option option" where
  "GetPipelineDocuments pipeline =
     do {
       source \<leftarrow> GetPipelineSourceType pipeline;
       Some (case pipeline of DocumentsSource documents # _ \<Rightarrow> Some documents | _ \<Rightarrow> None)
     }"

fun all_paths :: "string list \<Rightarrow> path list option" where
  "all_paths [] = Some []"
| "all_paths (document # documents) =
     do { path \<leftarrow> ResourcePath_FromString document; paths \<leftarrow> all_paths documents; Some (path # paths) }"

fun GetSingleDocumentPath :: "TargetOrPipeline \<Rightarrow> path option option" where
  "GetSingleDocumentPath (PipelineOf pipeline) =
     do {
       documents \<leftarrow> GetPipelineDocuments pipeline;
       case documents of
         Some [document] \<Rightarrow> map_option Some (ResourcePath_FromString document)
       | _ \<Rightarrow> Some None
     }"
| "GetSingleDocumentPath (TargetOf target) =
     Some (if Target_IsDocumentQuery target then Some (target_path target) else None)"

fun GetDocumentPaths :: "TargetOrPipeline \<Rightarrow> path list option option" where
  "GetDocumentPaths (PipelineOf pipeline) =
     do {
       documents \<leftarrow> GetPipelineDocuments pipeline;
       case documents of
         Some documents \<Rightarrow> map_option Some (all_paths documents)
       | None \<Rightarrow> Some None
     }"
| "GetDocumentPaths (TargetOf target) =
     Some (if Target_IsDocumentQuery target then Some [target_path target] else None)"

section \<open>The state of a target\<close>

datatype DocumentChangeType = Removed | Added | Modified | Metadata

record TargetChange =
  tc_resume_token :: "byte list"
  tc_current :: bool
  added_documents :: "path set"
  modified_documents :: "path set"
  removed_documents :: "path set"

record TargetState =
  outstanding_responses :: int
  document_changes :: "(path \<times> DocumentChangeType) list"
  ts_resume_token :: "byte list"
  ts_current :: bool
  has_pending_changes :: bool

definition TargetState_new :: TargetState where
  "TargetState_new =
     \<lparr>outstanding_responses = 0, document_changes = [], ts_resume_token = [], ts_current = False,
      has_pending_changes = True\<rparr>"

definition IsPending :: "TargetState \<Rightarrow> bool" where
  "IsPending state \<longleftrightarrow> outstanding_responses state \<noteq> 0"

definition UpdateResumeToken :: "byte list \<Rightarrow> TargetState \<Rightarrow> TargetState" where
  "UpdateResumeToken token state =
     (if token \<noteq> [] then state\<lparr>has_pending_changes := True, ts_resume_token := token\<rparr> else state)"

definition changes_of :: "DocumentChangeType \<Rightarrow> TargetState \<Rightarrow> path set" where
  "changes_of type state = set (map fst (filter (\<lambda>entry. snd entry = type) (document_changes state)))"

definition ToTargetChange :: "TargetState \<Rightarrow> TargetChange option" where
  "ToTargetChange state =
     (if list_ex (\<lambda>entry. snd entry = Metadata) (document_changes state) then None
      else Some \<lparr>tc_resume_token = ts_resume_token state, tc_current = ts_current state,
        added_documents = changes_of Added state, modified_documents = changes_of Modified state,
        removed_documents = changes_of Removed state\<rparr>)"

definition ClearPendingChanges :: "TargetState \<Rightarrow> TargetState" where
  "ClearPendingChanges state = state\<lparr>has_pending_changes := False, document_changes := []\<rparr>"

definition TargetState_RecordPendingTargetRequest :: "TargetState \<Rightarrow> TargetState" where
  "TargetState_RecordPendingTargetRequest state = state\<lparr>outstanding_responses := outstanding_responses state + 1\<rparr>"

definition RecordTargetResponse :: "TargetState \<Rightarrow> TargetState" where
  "RecordTargetResponse state = state\<lparr>outstanding_responses := outstanding_responses state - 1\<rparr>"

definition MarkCurrent :: "TargetState \<Rightarrow> TargetState" where
  "MarkCurrent state = state\<lparr>has_pending_changes := True, ts_current := True\<rparr>"

definition AddDocumentChange :: "path \<Rightarrow> DocumentChangeType \<Rightarrow> TargetState \<Rightarrow> TargetState" where
  "AddDocumentChange key type state =
     state\<lparr>has_pending_changes := True, document_changes := AList.update key type (document_changes state)\<rparr>"

definition RemoveDocumentChange :: "path \<Rightarrow> TargetState \<Rightarrow> TargetState" where
  "RemoveDocumentChange key state =
     state\<lparr>has_pending_changes := True, document_changes := AList.delete key (document_changes state)\<rparr>"

section \<open>Watch changes\<close>

record DocumentWatchChange =
  updated_target_ids :: "TargetId list"
  removed_target_ids :: "TargetId list"
  change_key :: path
  new_document :: "MutableDocument option"

datatype WatchTargetChangeState = NoChange | TargetAdded | TargetRemoved | TargetCurrent | TargetReset

record WatchTargetChange =
  change_state :: WatchTargetChangeState
  change_target_ids :: "TargetId list"
  change_resume_token :: "byte list"
  cause_ok :: bool

record BloomFilterParameters =
  bfp_bitmap :: "byte list"
  bfp_padding :: int
  bfp_hash_count :: int

record ExistenceFilterWatchChange =
  ef_count :: int
  bloom_filter_parameters :: "BloomFilterParameters option"
  ef_target_id :: TargetId

record RemoteEvent =
  event_version :: Timestamp
  target_changes :: "(TargetId \<times> TargetChange) list"
  target_mismatches :: "(TargetId \<times> QueryPurpose) list"
  document_updates :: "(path \<times> MutableDocument) list"
  limbo_document_changes :: "path set"

datatype BloomFilterApplicationStatus = kSuccess | kSkipped | kFalsePositive

section \<open>The aggregator\<close>

record TargetMetadataProvider =
  remote_keys :: "TargetId \<Rightarrow> path list"
  target_data_of :: "TargetId \<Rightarrow> TargetData option"
  project_id :: string
  database_id :: string

record WatchAggregator =
  target_states :: "(TargetId \<times> TargetState) list"
  pending_document_updates :: "(path \<times> MutableDocument) list"
  pending_document_target_mappings :: "(path \<times> TargetId list) list"
  pending_target_resets :: "(TargetId \<times> QueryPurpose) list"

definition WatchAggregator_new :: WatchAggregator where
  "WatchAggregator_new =
     \<lparr>target_states = [], pending_document_updates = [], pending_document_target_mappings = [],
      pending_target_resets = []\<rparr>"

definition state_of :: "WatchAggregator \<Rightarrow> TargetId \<Rightarrow> TargetState" where
  "state_of agg target_id =
     (case map_of (target_states agg) target_id of Some state \<Rightarrow> state | None \<Rightarrow> TargetState_new)"

definition EnsureTargetState :: "TargetId \<Rightarrow> WatchAggregator \<Rightarrow> WatchAggregator" where
  "EnsureTargetState target_id agg =
     agg\<lparr>target_states := AList.update target_id (state_of agg target_id) (target_states agg)\<rparr>"

definition update_state :: "TargetId \<Rightarrow> (TargetState \<Rightarrow> TargetState) \<Rightarrow> WatchAggregator \<Rightarrow> WatchAggregator" where
  "update_state target_id f agg =
     agg\<lparr>target_states := AList.update target_id (f (state_of agg target_id)) (target_states agg)\<rparr>"

definition TargetDataForActiveTarget :: "TargetMetadataProvider \<Rightarrow> WatchAggregator \<Rightarrow> TargetId \<Rightarrow> TargetData option" where
  "TargetDataForActiveTarget provider agg target_id =
     (case map_of (target_states agg) target_id of
        Some state \<Rightarrow> if IsPending state then None else target_data_of provider target_id
      | None \<Rightarrow> target_data_of provider target_id)"

definition IsActiveTarget :: "TargetMetadataProvider \<Rightarrow> WatchAggregator \<Rightarrow> TargetId \<Rightarrow> bool" where
  "IsActiveTarget provider agg target_id \<longleftrightarrow> TargetDataForActiveTarget provider agg target_id \<noteq> None"

definition TargetContainsDocument :: "TargetMetadataProvider \<Rightarrow> TargetId \<Rightarrow> path \<Rightarrow> bool" where
  "TargetContainsDocument provider target_id key \<longleftrightarrow> key \<in> set (remote_keys provider target_id)"

definition map_document :: "path \<Rightarrow> TargetId \<Rightarrow> WatchAggregator \<Rightarrow> WatchAggregator" where
  "map_document key target_id agg =
     (let mappings = pending_document_target_mappings agg;
          targets = (case map_of mappings key of Some ts \<Rightarrow> ts | None \<Rightarrow> [])
      in agg\<lparr>pending_document_target_mappings := AList.update key (List.insert target_id targets) mappings\<rparr>)"

definition AddDocumentToTarget ::
  "TargetMetadataProvider \<Rightarrow> TargetId \<Rightarrow> MutableDocument \<Rightarrow> WatchAggregator \<Rightarrow> WatchAggregator" where
  "AddDocumentToTarget provider target_id document agg =
     (if \<not> IsActiveTarget provider agg target_id then agg
      else let change_type = (if TargetContainsDocument provider target_id (doc_key document) then Modified else Added);
               agg = update_state target_id (AddDocumentChange (doc_key document) change_type) agg;
               agg = agg\<lparr>pending_document_updates :=
                           AList.update (doc_key document) document (pending_document_updates agg)\<rparr>
           in map_document (doc_key document) target_id agg)"

definition RemoveDocumentFromTarget ::
  "TargetMetadataProvider \<Rightarrow> TargetId \<Rightarrow> path \<Rightarrow> MutableDocument option \<Rightarrow> WatchAggregator \<Rightarrow> WatchAggregator" where
  "RemoveDocumentFromTarget provider target_id key updated_document agg =
     (if \<not> IsActiveTarget provider agg target_id then agg
      else let agg = update_state target_id
                 (if TargetContainsDocument provider target_id key then AddDocumentChange key Removed
                  else RemoveDocumentChange key) agg;
               agg = map_document key target_id agg
           in (case updated_document of
                 Some document \<Rightarrow>
                   agg\<lparr>pending_document_updates := AList.update key document (pending_document_updates agg)\<rparr>
               | None \<Rightarrow> agg))"

definition RemoveTarget :: "TargetId \<Rightarrow> WatchAggregator \<Rightarrow> WatchAggregator" where
  "RemoveTarget target_id agg = agg\<lparr>target_states := AList.delete target_id (target_states agg)\<rparr>"

definition RecordPendingTargetRequest :: "TargetId \<Rightarrow> WatchAggregator \<Rightarrow> WatchAggregator" where
  "RecordPendingTargetRequest target_id agg = update_state target_id TargetState_RecordPendingTargetRequest agg"

definition GetCurrentDocumentCountForTarget ::
  "TargetMetadataProvider \<Rightarrow> TargetId \<Rightarrow> WatchAggregator \<Rightarrow> (WatchAggregator \<times> int) option" where
  "GetCurrentDocumentCountForTarget provider target_id agg =
     do {
       target_change \<leftarrow> ToTargetChange (state_of agg target_id);
       Some (EnsureTargetState target_id agg,
         int (length (remote_keys provider target_id)) + int (card (added_documents target_change)) -
           int (card (removed_documents target_change)))
     }"

definition ResetTarget ::
  "TargetMetadataProvider \<Rightarrow> TargetId \<Rightarrow> WatchAggregator \<Rightarrow> WatchAggregator option" where
  "ResetTarget provider target_id agg =
     (case map_of (target_states agg) target_id of
        None \<Rightarrow> None
      | Some state \<Rightarrow>
          (if IsPending state then None
           else Some (fold (\<lambda>key. RemoveDocumentFromTarget provider target_id key None)
                  (remote_keys provider target_id)
                  (agg\<lparr>target_states := AList.update target_id TargetState_new (target_states agg)\<rparr>))))"

section \<open>Handling watch changes\<close>

definition updated_target ::
  "TargetMetadataProvider \<Rightarrow> DocumentWatchChange \<Rightarrow> TargetId \<Rightarrow> WatchAggregator \<Rightarrow> WatchAggregator" where
  "updated_target provider change target_id agg =
     (case new_document change of
        None \<Rightarrow> agg
      | Some new_doc \<Rightarrow>
          (if is_found_document new_doc then AddDocumentToTarget provider target_id new_doc agg
           else if is_no_document new_doc
           then RemoveDocumentFromTarget provider target_id (change_key change) (new_document change) agg
           else agg))"

definition HandleDocumentChange ::
  "TargetMetadataProvider \<Rightarrow> DocumentWatchChange \<Rightarrow> WatchAggregator \<Rightarrow> WatchAggregator" where
  "HandleDocumentChange provider change agg =
     fold (\<lambda>target_id. RemoveDocumentFromTarget provider target_id (change_key change) (new_document change))
       (removed_target_ids change)
       (fold (updated_target provider change) (updated_target_ids change) agg)"

definition GetTargetIds :: "TargetMetadataProvider \<Rightarrow> WatchAggregator \<Rightarrow> WatchTargetChange \<Rightarrow> TargetId list" where
  "GetTargetIds provider agg change =
     (if change_target_ids change \<noteq> [] then change_target_ids change
      else filter (IsActiveTarget provider agg) (map fst (target_states agg)))"

definition target_change_step ::
  "TargetMetadataProvider \<Rightarrow> WatchTargetChange \<Rightarrow> TargetId \<Rightarrow> WatchAggregator \<Rightarrow> WatchAggregator option" where
  "target_change_step provider change target_id agg =
     (let agg = EnsureTargetState target_id agg;
          token = change_resume_token change
      in case change_state change of
           NoChange \<Rightarrow>
             Some (if IsActiveTarget provider agg target_id then update_state target_id (UpdateResumeToken token) agg else agg)
         | TargetAdded \<Rightarrow>
             (let agg = update_state target_id RecordTargetResponse agg;
                  agg = (if \<not> IsPending (state_of agg target_id) then update_state target_id ClearPendingChanges agg else agg)
              in Some (update_state target_id (UpdateResumeToken token) agg))
         | TargetRemoved \<Rightarrow>
             (let agg = update_state target_id RecordTargetResponse agg;
                  agg = (if \<not> IsPending (state_of agg target_id) then RemoveTarget target_id agg else agg)
              in if cause_ok change then Some agg else None)
         | TargetCurrent \<Rightarrow>
             Some (if IsActiveTarget provider agg target_id
                   then update_state target_id (\<lambda>state. UpdateResumeToken token (MarkCurrent state)) agg else agg)
         | TargetReset \<Rightarrow>
             (if IsActiveTarget provider agg target_id
              then map_option (update_state target_id (UpdateResumeToken token)) (ResetTarget provider target_id agg)
              else Some agg))"

fun target_change_steps ::
  "TargetMetadataProvider \<Rightarrow> WatchTargetChange \<Rightarrow> TargetId list \<Rightarrow> WatchAggregator \<Rightarrow> WatchAggregator option" where
  "target_change_steps provider change [] agg = Some agg"
| "target_change_steps provider change (target_id # ids) agg =
     do { agg \<leftarrow> target_change_step provider change target_id agg; target_change_steps provider change ids agg }"

definition HandleTargetChange ::
  "TargetMetadataProvider \<Rightarrow> WatchTargetChange \<Rightarrow> WatchAggregator \<Rightarrow> WatchAggregator option" where
  "HandleTargetChange provider change agg = target_change_steps provider change (GetTargetIds provider agg change) agg"

section \<open>Existence filters\<close>

definition ParseBloomFilter :: "ExistenceFilterWatchChange \<Rightarrow> BloomFilter option option" where
  "ParseBloomFilter existence_filter =
     (case bloom_filter_parameters existence_filter of
        None \<Rightarrow> Some None
      | Some parameters \<Rightarrow>
          do {
            maybe \<leftarrow> BloomFilter_Create (bfp_bitmap parameters) (bfp_padding parameters) (bfp_hash_count parameters);
            Some (case maybe of Inl _ \<Rightarrow> None | Inr bf \<Rightarrow> if bit_count bf = 0 then None else Some bf)
          })"

definition document_name :: "TargetMetadataProvider \<Rightarrow> path \<Rightarrow> string" where
  "document_name provider key =
     ''projects/'' @ project_id provider @ ''/databases/'' @ database_id provider @ ''/documents/'' @
     ResourcePath_CanonicalString key"

fun filter_removed ::
  "TargetMetadataProvider \<Rightarrow> BloomFilter \<Rightarrow> TargetId \<Rightarrow> path list \<Rightarrow> WatchAggregator \<Rightarrow> (WatchAggregator \<times> int) option" where
  "filter_removed provider bf target_id [] agg = Some (agg, 0)"
| "filter_removed provider bf target_id (key # keys) agg =
     do {
       might_contain \<leftarrow> MightContain bf (document_name provider key);
       if \<not> might_contain
       then map_option (\<lambda>(agg, n). (agg, n + 1))
              (filter_removed provider bf target_id keys (RemoveDocumentFromTarget provider target_id key None agg))
       else filter_removed provider bf target_id keys agg
     }"

definition FilterRemovedDocuments ::
  "TargetMetadataProvider \<Rightarrow> BloomFilter \<Rightarrow> TargetId \<Rightarrow> WatchAggregator \<Rightarrow> (WatchAggregator \<times> int) option" where
  "FilterRemovedDocuments provider bf target_id agg =
     filter_removed provider bf target_id (remote_keys provider target_id) agg"

definition ApplyBloomFilter ::
  "TargetMetadataProvider \<Rightarrow> BloomFilter \<Rightarrow> ExistenceFilterWatchChange \<Rightarrow> int \<Rightarrow> WatchAggregator \<Rightarrow>
    (WatchAggregator \<times> BloomFilterApplicationStatus) option" where
  "ApplyBloomFilter provider bf existence_filter current_count agg =
     do {
       (agg, removed_document_count) \<leftarrow> FilterRemovedDocuments provider bf (ef_target_id existence_filter) agg;
       Some (agg, if ef_count existence_filter = current_count - removed_document_count then kSuccess else kFalsePositive)
     }"

definition HandleExistenceFilter ::
  "TargetMetadataProvider \<Rightarrow> ExistenceFilterWatchChange \<Rightarrow> WatchAggregator \<Rightarrow> WatchAggregator option" where
  "HandleExistenceFilter provider existence_filter agg =
     (let target_id = ef_target_id existence_filter;
          expected_count = ef_count existence_filter
      in case TargetDataForActiveTarget provider agg target_id of
           None \<Rightarrow> Some agg
         | Some target_data \<Rightarrow>
             do {
               single_doc_path \<leftarrow> GetSingleDocumentPath (td_target target_data);
               case single_doc_path of
                 None \<Rightarrow>
                   do {
                     (agg, current_size) \<leftarrow> GetCurrentDocumentCountForTarget provider target_id agg;
                     if current_size = expected_count then Some agg
                     else do {
                       bloom_filter \<leftarrow> ParseBloomFilter existence_filter;
                       (agg, status) \<leftarrow> (case bloom_filter of
                           Some bf \<Rightarrow> ApplyBloomFilter provider bf existence_filter current_size agg
                         | None \<Rightarrow> Some (agg, kSkipped));
                       if status = kSuccess then Some agg
                       else do {
                         agg \<leftarrow> ResetTarget provider target_id agg;
                         let purpose = (if status = kFalsePositive then ExistenceFilterMismatchBloom else ExistenceFilterMismatch);
                             resets = pending_target_resets agg
                         in Some (agg\<lparr>pending_target_resets :=
                              (if map_of resets target_id = None then resets @ [(target_id, purpose)] else resets)\<rparr>)
                       }
                     }
                   }
               | Some path \<Rightarrow>
                   (if expected_count = 0
                    then do {
                      key \<leftarrow> DocumentKey_of path;
                      Some (RemoveDocumentFromTarget provider target_id key (Some (NoDocument key SnapshotVersion_None)) agg)
                    }
                    else if expected_count = 1 then Some agg else None)
             })"

section \<open>Raising a remote event\<close>

fun synthesize_deletes ::
  "TargetMetadataProvider \<Rightarrow> Timestamp \<Rightarrow> TargetId \<Rightarrow> path list \<Rightarrow> WatchAggregator \<Rightarrow> WatchAggregator option" where
  "synthesize_deletes provider version target_id [] agg = Some agg"
| "synthesize_deletes provider version target_id (path # paths) agg =
     do {
       key \<leftarrow> DocumentKey_of path;
       synthesize_deletes provider version target_id paths
         (if map_of (pending_document_updates agg) key = None \<and> \<not> TargetContainsDocument provider target_id key
          then RemoveDocumentFromTarget provider target_id key (Some (NoDocument key version)) agg
          else agg)
     }"

definition raise_target ::
  "TargetMetadataProvider \<Rightarrow> Timestamp \<Rightarrow> TargetId \<Rightarrow> WatchAggregator \<Rightarrow>
    (WatchAggregator \<times> (TargetId \<times> TargetChange) list) option" where
  "raise_target provider version target_id agg =
     (case TargetDataForActiveTarget provider agg target_id of
        None \<Rightarrow> Some (agg, [])
      | Some target_data \<Rightarrow>
          do {
            doc_paths \<leftarrow> GetDocumentPaths (td_target target_data);
            agg \<leftarrow> (case doc_paths of
                      Some paths \<Rightarrow>
                        (if ts_current (state_of agg target_id) then synthesize_deletes provider version target_id paths agg
                         else Some agg)
                    | None \<Rightarrow> Some agg);
            if has_pending_changes (state_of agg target_id)
            then do {
              target_change \<leftarrow> ToTargetChange (state_of agg target_id);
              Some (update_state target_id ClearPendingChanges agg, [(target_id, target_change)])
            }
            else Some (agg, [])
          })"

fun raise_targets ::
  "TargetMetadataProvider \<Rightarrow> Timestamp \<Rightarrow> TargetId list \<Rightarrow> WatchAggregator \<Rightarrow>
    (WatchAggregator \<times> (TargetId \<times> TargetChange) list) option" where
  "raise_targets provider version [] agg = Some (agg, [])"
| "raise_targets provider version (target_id # ids) agg =
     do {
       (agg, change) \<leftarrow> raise_target provider version target_id agg;
       (agg, changes) \<leftarrow> raise_targets provider version ids agg;
       Some (agg, change @ changes)
     }"

definition only_limbo_target :: "TargetMetadataProvider \<Rightarrow> WatchAggregator \<Rightarrow> TargetId list \<Rightarrow> bool" where
  "only_limbo_target provider agg target_ids \<longleftrightarrow>
     list_all (\<lambda>target_id. case TargetDataForActiveTarget provider agg target_id of
         Some target_data \<Rightarrow> td_purpose target_data = LimboResolution
       | None \<Rightarrow> True) target_ids"

definition CreateRemoteEvent ::
  "TargetMetadataProvider \<Rightarrow> Timestamp \<Rightarrow> WatchAggregator \<Rightarrow> (WatchAggregator \<times> RemoteEvent) option" where
  "CreateRemoteEvent provider version agg =
     do {
       (agg, changes) \<leftarrow> raise_targets provider version (map fst (target_states agg)) agg;
       let resolved_limbo_documents =
             set (map fst (filter (\<lambda>entry. only_limbo_target provider agg (snd entry)) (pending_document_target_mappings agg)));
           remote_event =
             \<lparr>event_version = version, target_changes = changes, target_mismatches = pending_target_resets agg,
              document_updates = pending_document_updates agg, limbo_document_changes = resolved_limbo_documents\<rparr>
       in Some (agg\<lparr>pending_document_updates := [], pending_document_target_mappings := [], pending_target_resets := []\<rparr>,
                remote_event)
     }"

section \<open>States of targets\<close>

lemma state_of_update_state [simp]:
  "state_of (update_state t f agg) u = (if u = t then f (state_of agg t) else state_of agg u)"
  by (simp add: state_of_def update_state_def update_conv')

lemma state_of_EnsureTargetState [simp]: "state_of (EnsureTargetState t agg) u = state_of agg u"
  by (simp add: state_of_def EnsureTargetState_def update_conv' split: option.splits)

lemma state_of_map_document [simp]: "state_of (map_document key t agg) u = state_of agg u"
  by (simp add: state_of_def map_document_def Let_def)

lemma state_of_updates [simp]: "state_of (agg\<lparr>pending_document_updates := d\<rparr>) u = state_of agg u"
  by (simp add: state_of_def)

lemma state_of_RemoveTarget [simp]: "state_of (RemoveTarget t agg) u = (if u = t then TargetState_new else state_of agg u)"
  by (simp add: state_of_def RemoveTarget_def delete_conv')

lemma not_pending_new [simp]: "\<not> IsPending TargetState_new" "document_changes TargetState_new = []"
  by (simp_all add: IsPending_def TargetState_new_def)

lemma active_state:
  "TargetDataForActiveTarget p agg t = (if IsPending (state_of agg t) then None else target_data_of p t)"
  by (simp add: TargetDataForActiveTarget_def state_of_def split: option.splits)

lemma IsActiveTarget_state: "IsActiveTarget p agg t \<longleftrightarrow> \<not> IsPending (state_of agg t) \<and> target_data_of p t \<noteq> None"
  by (simp add: IsActiveTarget_def active_state)

lemma pending_simps [simp]:
  "IsPending (AddDocumentChange key type s) = IsPending s" "IsPending (RemoveDocumentChange key s) = IsPending s"
  "IsPending (UpdateResumeToken token s) = IsPending s" "IsPending (MarkCurrent s) = IsPending s"
  "IsPending (ClearPendingChanges s) = IsPending s"
  by (simp_all add: IsPending_def AddDocumentChange_def RemoveDocumentChange_def UpdateResumeToken_def MarkCurrent_def
      ClearPendingChanges_def)

lemma document_changes_simps [simp]:
  "document_changes (UpdateResumeToken token s) = document_changes s" "document_changes (MarkCurrent s) = document_changes s"
  "document_changes (ClearPendingChanges s) = []" "document_changes (RecordTargetResponse s) = document_changes s"
  "document_changes (TargetState_RecordPendingTargetRequest s) = document_changes s"
  "document_changes (AddDocumentChange key type s) = AList.update key type (document_changes s)"
  "document_changes (RemoveDocumentChange key s) = AList.delete key (document_changes s)"
  by (simp_all add: AddDocumentChange_def RemoveDocumentChange_def UpdateResumeToken_def MarkCurrent_def
      ClearPendingChanges_def RecordTargetResponse_def TargetState_RecordPendingTargetRequest_def)

section \<open>The documents of a target\<close>

text \<open>
  Abstractly a target is the set of its documents: the keys of the last snapshot, without
  those removed since, with those added since.  \<open>changes_ok\<close> says that the recorded changes are
  exactly differences to the last snapshot.
\<close>

definition changes_ok :: "path set \<Rightarrow> TargetState \<Rightarrow> bool" where
  "changes_ok keys state \<longleftrightarrow>
     distinct (map fst (document_changes state)) \<and>
     (\<forall>(k, c) \<in> set (document_changes state). if k \<in> keys then c \<in> {Modified, Removed} else c = Added)"

definition documents_of :: "path set \<Rightarrow> TargetState \<Rightarrow> path set" where
  "documents_of keys state = (keys - changes_of Removed state) \<union> changes_of Added state"

abbreviation snapshot_keys :: "TargetMetadataProvider \<Rightarrow> TargetId \<Rightarrow> path set" where
  "snapshot_keys provider target_id \<equiv> set (remote_keys provider target_id)"

definition target_documents :: "TargetMetadataProvider \<Rightarrow> WatchAggregator \<Rightarrow> TargetId \<Rightarrow> path set" where
  "target_documents provider agg target_id = documents_of (snapshot_keys provider target_id) (state_of agg target_id)"

lemma changes_of_iff:
  "distinct (map fst (document_changes s)) \<Longrightarrow> k \<in> changes_of c s \<longleftrightarrow> map_of (document_changes s) k = Some c"
  by (force simp: changes_of_def map_of_eq_Some_iff)

lemma changes_ok_lookup:
  "changes_ok K s \<Longrightarrow> map_of (document_changes s) k = Some c \<Longrightarrow> if k \<in> K then c \<in> {Modified, Removed} else c = Added"
  unfolding changes_ok_def by (auto dest!: map_of_SomeD)

lemma changes_okI:
  assumes "distinct (map fst (document_changes s))"
    and "\<And>k c. map_of (document_changes s) k = Some c \<Longrightarrow> if k \<in> K then c \<in> {Modified, Removed} else c = Added"
  shows "changes_ok K s"
  unfolding changes_ok_def
proof (intro conjI ballI assms(1))
  fix e assume "e \<in> set (document_changes s)"
  then have "map_of (document_changes s) (fst e) = Some (snd e)" using assms(1) by simp
  from assms(2) [OF this] show "case e of (k, c) \<Rightarrow> if k \<in> K then c \<in> {Modified, Removed} else c = Added"
    by (simp add: case_prod_beta)
qed

lemma documents_of_iff:
  assumes "changes_ok K s"
  shows "k \<in> documents_of K s \<longleftrightarrow>
    (case map_of (document_changes s) k of None \<Rightarrow> k \<in> K | Some c \<Rightarrow> c \<noteq> Removed)"
  using assms changes_ok_lookup [OF assms, of k]
  by (cases "map_of (document_changes s) k") (auto simp: documents_of_def changes_of_iff changes_ok_def split: if_splits)

lemma changes_ok_new [simp]: "changes_ok K TargetState_new" "documents_of K TargetState_new = K"
  by (auto simp: changes_ok_def documents_of_def changes_of_def)

lemma documents_cong: "document_changes s = document_changes t \<Longrightarrow> documents_of K s = documents_of K t"
  by (simp add: documents_of_def changes_of_def)

lemma changes_ok_cong: "document_changes s = document_changes t \<Longrightarrow> changes_ok K s = changes_ok K t"
  by (simp add: changes_ok_def)

lemma changes_ok_update:
  assumes "changes_ok K s" "if k \<in> K then c \<in> {Modified, Removed} else c = Added"
  shows "changes_ok K (AddDocumentChange k c s)"
proof (rule changes_okI)
  show "distinct (map fst (document_changes (AddDocumentChange k c s)))"
    using assms(1) by (simp add: changes_ok_def distinct_update)
  fix j d assume "map_of (document_changes (AddDocumentChange k c s)) j = Some d"
  then show "if j \<in> K then d \<in> {Modified, Removed} else d = Added"
    using assms(2) changes_ok_lookup [OF assms(1), of j d] by (auto simp: update_conv' split: if_splits)
qed

lemma changes_ok_delete:
  assumes "changes_ok K s"
  shows "changes_ok K (RemoveDocumentChange k s)"
proof (rule changes_okI)
  show "distinct (map fst (document_changes (RemoveDocumentChange k s)))"
    using assms by (simp add: changes_ok_def distinct_delete)
  fix j d assume "map_of (document_changes (RemoveDocumentChange k s)) j = Some d"
  then show "if j \<in> K then d \<in> {Modified, Removed} else d = Added"
    using changes_ok_lookup [OF assms, of j d] by (auto simp: delete_conv' split: if_splits)
qed

lemma add_document:
  fixes k :: path
  assumes "changes_ok K s"
  defines "t \<equiv> AddDocumentChange k (if k \<in> K then Modified else Added) s"
  shows "changes_ok K t" "documents_of K t = insert k (documents_of K s)"
proof -
  show ok: "changes_ok K t" unfolding t_def by (rule changes_ok_update [OF assms(1)]) simp
  show "documents_of K t = insert k (documents_of K s)"
    by (rule set_eqI) (simp add: documents_of_iff [OF ok] documents_of_iff [OF assms(1)], simp add: t_def update_conv')
qed

lemma remove_document:
  fixes k :: path
  assumes "changes_ok K s"
  defines "t \<equiv> (if k \<in> K then AddDocumentChange k Removed s else RemoveDocumentChange k s)"
  shows "changes_ok K t" "documents_of K t = documents_of K s - {k}"
proof -
  show ok: "changes_ok K t"
    unfolding t_def using changes_ok_update [OF assms(1), of k Removed] changes_ok_delete [OF assms(1)] by simp
  show "documents_of K t = documents_of K s - {k}"
    by (rule set_eqI) (simp add: documents_of_iff [OF ok] documents_of_iff [OF assms(1)], simp add: t_def update_conv' delete_conv')
qed

section \<open>The aggregator keeps exact differences\<close>

text \<open>The part of the invariant about one target.\<close>

definition target_ok :: "path set \<Rightarrow> (path \<Rightarrow> MutableDocument option) \<Rightarrow> TargetState \<Rightarrow> bool" where
  "target_ok keys updates s \<longleftrightarrow>
     changes_ok keys s \<and>
     (\<forall>k c. map_of (document_changes s) k = Some c \<longrightarrow> c \<noteq> Removed \<longrightarrow> updates k \<noteq> None) \<and>
     (document_changes s \<noteq> [] \<longrightarrow> has_pending_changes s)"

definition active_ok :: "TargetMetadataProvider \<Rightarrow> WatchAggregator \<Rightarrow> bool" where
  "active_ok p agg \<longleftrightarrow>
     (\<forall>t. IsActiveTarget p agg t \<longrightarrow>
        target_ok (snapshot_keys p t) (map_of (pending_document_updates agg)) (state_of agg t))"

lemma AddDocumentToTarget_state:
  "state_of (AddDocumentToTarget p t doc agg) u =
    (if u = t \<and> IsActiveTarget p agg t
     then AddDocumentChange (doc_key doc) (if doc_key doc \<in> snapshot_keys p t then Modified else Added) (state_of agg t)
     else state_of agg u)"
  by (simp add: AddDocumentToTarget_def Let_def TargetContainsDocument_def)

lemma RemoveDocumentFromTarget_state:
  "state_of (RemoveDocumentFromTarget p t key doc agg) u =
    (if u = t \<and> IsActiveTarget p agg t
     then (if key \<in> snapshot_keys p t then AddDocumentChange key Removed (state_of agg t)
           else RemoveDocumentChange key (state_of agg t))
     else state_of agg u)"
  by (simp add: RemoveDocumentFromTarget_def Let_def TargetContainsDocument_def split: option.splits)

lemma active_document_ops [simp]:
  "IsActiveTarget p (AddDocumentToTarget p t doc agg) u = IsActiveTarget p agg u"
  "IsActiveTarget p (RemoveDocumentFromTarget p t key doc' agg) u = IsActiveTarget p agg u"
  by (simp_all add: IsActiveTarget_state AddDocumentToTarget_state RemoveDocumentFromTarget_state)

lemma map_document_updates [simp]: "pending_document_updates (map_document key t agg) = pending_document_updates agg"
  by (simp add: map_document_def Let_def)

lemma update_state_updates [simp]: "pending_document_updates (update_state t f agg) = pending_document_updates agg"
  by (simp add: update_state_def)

lemma AddDocumentToTarget_updates:
  "map_of (pending_document_updates (AddDocumentToTarget p t doc agg)) =
    (if IsActiveTarget p agg t then (map_of (pending_document_updates agg))(doc_key doc \<mapsto> doc)
     else map_of (pending_document_updates agg))"
  by (simp add: AddDocumentToTarget_def Let_def update_conv')

lemma RemoveDocumentFromTarget_updates:
  "map_of (pending_document_updates (RemoveDocumentFromTarget p t key doc agg)) =
    (if IsActiveTarget p agg t \<and> doc \<noteq> None then (map_of (pending_document_updates agg))(key := doc)
     else map_of (pending_document_updates agg))"
  by (auto simp: RemoveDocumentFromTarget_def Let_def update_conv' split: option.splits)

lemma target_ok_mono: "target_ok K u s \<Longrightarrow> (\<And>k. u k \<noteq> None \<Longrightarrow> v k \<noteq> None) \<Longrightarrow> target_ok K v s"
  unfolding target_ok_def by blast

lemma target_ok_add:
  assumes "target_ok K u s"
  shows "target_ok K (u(k \<mapsto> d)) (AddDocumentChange k (if k \<in> K then Modified else Added) s)"
  using assms add_document(1) [of K s k]
  by (auto simp: target_ok_def update_conv' AddDocumentChange_def simp del: fun_upd_apply) (auto simp: update_conv')

lemma target_ok_remove:
  assumes "target_ok K u s" "\<And>k. u k \<noteq> None \<Longrightarrow> v k \<noteq> None"
  shows "target_ok K v (if k \<in> K then AddDocumentChange k Removed s else RemoveDocumentChange k s)"
proof -
  have "target_ok K u (if k \<in> K then AddDocumentChange k Removed s else RemoveDocumentChange k s)"
    using assms(1) remove_document(1) [of K s k]
    by (auto simp: target_ok_def update_conv' delete_conv' AddDocumentChange_def RemoveDocumentChange_def split: if_splits)
  then show ?thesis using assms(2) target_ok_mono by blast
qed

lemma AddDocumentToTarget_ok:
  assumes "active_ok p agg"
  shows "active_ok p (AddDocumentToTarget p t doc agg)"
  unfolding active_ok_def
proof (intro allI impI)
  fix u assume "IsActiveTarget p (AddDocumentToTarget p t doc agg) u"
  then have u: "target_ok (snapshot_keys p u) (map_of (pending_document_updates agg)) (state_of agg u)"
    using assms by (simp add: active_ok_def)
  show "target_ok (snapshot_keys p u) (map_of (pending_document_updates (AddDocumentToTarget p t doc agg)))
      (state_of (AddDocumentToTarget p t doc agg) u)"
    using u target_ok_add [OF u, of "doc_key doc" doc] target_ok_mono [OF u]
    by (auto simp: AddDocumentToTarget_state AddDocumentToTarget_updates)
qed

lemma RemoveDocumentFromTarget_ok:
  assumes "active_ok p agg"
  shows "active_ok p (RemoveDocumentFromTarget p t key doc agg)"
  unfolding active_ok_def
proof (intro allI impI)
  fix u assume "IsActiveTarget p (RemoveDocumentFromTarget p t key doc agg) u"
  then have u: "target_ok (snapshot_keys p u) (map_of (pending_document_updates agg)) (state_of agg u)"
    using assms by (simp add: active_ok_def)
  show "target_ok (snapshot_keys p u) (map_of (pending_document_updates (RemoveDocumentFromTarget p t key doc agg)))
      (state_of (RemoveDocumentFromTarget p t key doc agg) u)"
    using u target_ok_remove [OF u, of _ key] target_ok_mono [OF u]
    by (auto simp: RemoveDocumentFromTarget_state RemoveDocumentFromTarget_updates)
qed

text \<open>Abstractly the two operations insert a key into the set of an active target and delete it.\<close>

lemma AddDocumentToTarget_documents:
  assumes "active_ok p agg"
  shows "target_documents p (AddDocumentToTarget p t doc agg) u =
    (if u = t \<and> IsActiveTarget p agg t then insert (doc_key doc) (target_documents p agg u) else target_documents p agg u)"
  using assms add_document(2) [of "snapshot_keys p t" "state_of agg t" "doc_key doc"]
  by (auto simp: target_documents_def AddDocumentToTarget_state active_ok_def target_ok_def)

lemma RemoveDocumentFromTarget_documents:
  assumes "active_ok p agg"
  shows "target_documents p (RemoveDocumentFromTarget p t key doc agg) u =
    (if u = t \<and> IsActiveTarget p agg t then target_documents p agg u - {key} else target_documents p agg u)"
  using assms remove_document(2) [of "snapshot_keys p t" "state_of agg t" key]
  by (auto simp: target_documents_def RemoveDocumentFromTarget_state active_ok_def target_ok_def)

end
