(* ===== verification/WatchEvents.thy ===== *)
theory WatchEvents
  imports WatchChanges
begin

text \<open>
  The accumulated watch changes are exact: what the aggregator records for an active target is
  the difference between its documents and its last snapshot, in every state a watch
  stream can reach, and the events it raises are these differences.  The outcome of
  existence filters and the resolution of current document targets follow.
\<close>

section \<open>Document changes\<close>

lemma fold_remove_ids:
  fixes key :: path and doc :: "MutableDocument option"
  assumes "active_ok p agg"
  defines "f \<equiv> \<lambda>t. RemoveDocumentFromTarget p t key doc"
  shows "active_ok p (fold f ids agg) \<and> IsActiveTarget p (fold f ids agg) u = IsActiveTarget p agg u \<and>
    target_documents p (fold f ids agg) u =
      (if u \<in> set ids \<and> IsActiveTarget p agg u then target_documents p agg u - {key} else target_documents p agg u)"
  using assms(1)
proof (induction ids arbitrary: agg)
  case (Cons t ids)
  have "active_ok p (f t agg)" unfolding f_def by (rule RemoveDocumentFromTarget_ok [OF Cons.prems])
  from Cons.IH [OF this] show ?case
    by (auto simp: f_def RemoveDocumentFromTarget_documents [OF Cons.prems])
qed simp

definition updated_documents :: "DocumentWatchChange \<Rightarrow> path set \<Rightarrow> path set" where
  "updated_documents change docs =
     (case new_document change of
        Some doc \<Rightarrow>
          if is_found_document doc then insert (doc_key doc) docs
          else if is_no_document doc then docs - {change_key change} else docs
      | None \<Rightarrow> docs)"

lemma updated_target_ok:
  assumes "active_ok p agg"
  shows "active_ok p (updated_target p change t agg) \<and>
    IsActiveTarget p (updated_target p change t agg) u = IsActiveTarget p agg u \<and>
    target_documents p (updated_target p change t agg) u =
      (if u = t \<and> IsActiveTarget p agg u then updated_documents change (target_documents p agg u)
       else target_documents p agg u)"
  using assms AddDocumentToTarget_ok [OF assms] RemoveDocumentFromTarget_ok [OF assms]
  by (auto simp: updated_target_def updated_documents_def AddDocumentToTarget_documents [OF assms]
      RemoveDocumentFromTarget_documents [OF assms] split: option.splits)

lemma updated_documents_idem: "updated_documents change (updated_documents change docs) = updated_documents change docs"
  by (auto simp: updated_documents_def split: option.splits)

lemma fold_updated_ids:
  assumes "active_ok p agg"
  shows "active_ok p (fold (updated_target p change) ids agg) \<and>
    IsActiveTarget p (fold (updated_target p change) ids agg) u = IsActiveTarget p agg u \<and>
    target_documents p (fold (updated_target p change) ids agg) u =
      (if u \<in> set ids \<and> IsActiveTarget p agg u then updated_documents change (target_documents p agg u)
       else target_documents p agg u)"
  using assms
proof (induction ids arbitrary: agg)
  case (Cons t ids)
  note step = updated_target_ok [OF Cons.prems, of change t]
  have "active_ok p (updated_target p change t agg)" using step by blast
  from Cons.IH [OF this] show ?case using step by (auto simp: updated_documents_idem)
qed simp

text \<open>A document change acts on the set of documents of every active target it names: a found document
  enters the updated targets, a deleted one leaves them, and the document leaves the
  removed targets; all other targets, and inactive ones, keep their documents, and the
  recorded changes stay exact differences to the last snapshot.\<close>
theorem document_change_refines:
  assumes "active_ok p agg"
  shows "active_ok p (HandleDocumentChange p change agg) \<and>
    target_documents p (HandleDocumentChange p change agg) t =
      (if \<not> IsActiveTarget p agg t then target_documents p agg t
       else (if t \<in> set (updated_target_ids change) then updated_documents change (target_documents p agg t)
             else target_documents p agg t) -
            (if t \<in> set (removed_target_ids change) then {change_key change} else {}))"
proof -
  note up = fold_updated_ids [OF assms, of change "updated_target_ids change"]
  have "active_ok p (fold (updated_target p change) (updated_target_ids change) agg)" using up by blast
  from fold_remove_ids [OF this, of "change_key change" "new_document change" "removed_target_ids change"]
  show ?thesis using up by (auto simp: HandleDocumentChange_def)
qed

section \<open>Target changes\<close>

lemma update_state_documents:
  "target_documents p (update_state t f agg) u =
    (if u = t then documents_of (snapshot_keys p t) (f (state_of agg t)) else target_documents p agg u)"
  by (simp add: target_documents_def)

lemma active_update_state:
  "IsActiveTarget p (update_state t f agg) u =
    (if u = t then \<not> IsPending (f (state_of agg t)) \<and> target_data_of p t \<noteq> None else IsActiveTarget p agg u)"
  by (simp add: IsActiveTarget_state)

lemma update_state_ok:
  assumes "active_ok p agg"
    and "\<not> IsPending (f (state_of agg t)) \<Longrightarrow> target_data_of p t \<noteq> None \<Longrightarrow>
      target_ok (snapshot_keys p t) (map_of (pending_document_updates agg)) (f (state_of agg t))"
  shows "active_ok p (update_state t f agg)"
  using assms by (auto simp: active_ok_def active_update_state)

lemma target_ok_new [simp]: "target_ok K u TargetState_new"
  by (simp add: target_ok_def)

lemma target_ok_empty: "document_changes s = [] \<Longrightarrow> target_ok K u s"
  by (simp add: target_ok_def changes_ok_def)

lemma has_pending_simps:
  "has_pending_changes s \<Longrightarrow> has_pending_changes (UpdateResumeToken token s)"
  "has_pending_changes (MarkCurrent s)"
  by (simp_all add: UpdateResumeToken_def MarkCurrent_def)

lemma target_ok_token:
  "target_ok K u s \<Longrightarrow> target_ok K u (UpdateResumeToken token s)"
  "target_ok K u s \<Longrightarrow> target_ok K u (UpdateResumeToken token (MarkCurrent s))"
  by (auto simp: target_ok_def has_pending_simps changes_ok_def)

lemma fold_reset_keys:
  fixes t :: TargetId
  assumes "active_ok p agg" "IsActiveTarget p agg t"
  defines "f \<equiv> \<lambda>key. RemoveDocumentFromTarget p t key None"
  shows "active_ok p (fold f keys agg) \<and> (\<forall>u. IsActiveTarget p (fold f keys agg) u = IsActiveTarget p agg u) \<and>
    target_documents p (fold f keys agg) t = target_documents p agg t - set keys \<and>
    (\<forall>u. u \<noteq> t \<longrightarrow> state_of (fold f keys agg) u = state_of agg u) \<and>
    ts_current (state_of (fold f keys agg) t) = ts_current (state_of agg t) \<and>
    ts_resume_token (state_of (fold f keys agg) t) = ts_resume_token (state_of agg t) \<and>
    outstanding_responses (state_of (fold f keys agg) t) = outstanding_responses (state_of agg t) \<and>
    pending_target_resets (fold f keys agg) = pending_target_resets agg"
  using assms(1,2)
proof (induction keys arbitrary: agg)
  case (Cons key keys)
  have "active_ok p (f key agg)" "IsActiveTarget p (f key agg) t"
    unfolding f_def using Cons.prems RemoveDocumentFromTarget_ok by simp_all
  note ih = Cons.IH [OF this]
  have "pending_target_resets (f key agg) = pending_target_resets agg"
    by (simp add: f_def RemoveDocumentFromTarget_def Let_def map_document_def update_state_def)
  then show ?case
    using ih Cons.prems(2)
    by (simp add: f_def RemoveDocumentFromTarget_documents [OF Cons.prems(1)] RemoveDocumentFromTarget_state
        AddDocumentChange_def RemoveDocumentChange_def Diff_insert2 [symmetric] insert_commute)
qed simp

lemma ResetTarget_ok:
  assumes "active_ok p agg" "IsActiveTarget p agg t" "map_of (target_states agg) t \<noteq> None"
  shows "\<exists>agg'. ResetTarget p t agg = Some agg' \<and> active_ok p agg' \<and>
    (\<forall>u. IsActiveTarget p agg' u = IsActiveTarget p agg u) \<and>
    target_documents p agg' t = {} \<and> (\<forall>u. u \<noteq> t \<longrightarrow> state_of agg' u = state_of agg u) \<and>
    \<not> ts_current (state_of agg' t) \<and> ts_resume_token (state_of agg' t) = [] \<and>
    outstanding_responses (state_of agg' t) = 0 \<and> pending_target_resets agg' = pending_target_resets agg"
proof -
  let ?start = "update_state t (\<lambda>_. TargetState_new) agg"
  obtain s where s: "map_of (target_states agg) t = Some s" using assms(3) by blast
  then have pending: "\<not> IsPending s" using assms(2) by (simp add: IsActiveTarget_state state_of_def)
  have start: "active_ok p ?start" by (rule update_state_ok [OF assms(1)]) simp
  have same: "IsActiveTarget p ?start u = IsActiveTarget p agg u" for u
    using assms(2) by (auto simp: active_update_state IsActiveTarget_state)
  then have "IsActiveTarget p ?start t" using assms(2) by simp
  note fold = fold_reset_keys [OF start this, of "remote_keys p t"]
  have "ResetTarget p t agg = Some (fold (\<lambda>key. RemoveDocumentFromTarget p t key None) (remote_keys p t) ?start)"
    using s pending by (simp add: ResetTarget_def update_state_def)
  moreover have "pending_target_resets ?start = pending_target_resets agg" by (simp add: update_state_def)
  ultimately show ?thesis
    using fold same by (simp add: target_documents_def TargetState_new_def [THEN arg_cong [of _ _ ts_current]]
        TargetState_new_def [THEN arg_cong [of _ _ ts_resume_token]] TargetState_new_def [THEN arg_cong [of _ _ outstanding_responses]])
qed

lemma update_state_twice: "update_state t g (update_state t f agg) = update_state t (\<lambda>s. g (f s)) agg"
proof -
  have "update_state t g (update_state t f agg) =
      update_state t f agg\<lparr>target_states := AList.update t (g (f (state_of agg t))) (target_states (update_state t f agg))\<rparr>"
    unfolding update_state_def [of t g] by simp
  then show ?thesis by (simp add: update_state_def update_last)
qed

lemma update_state_cong: "f (state_of agg t) = g (state_of agg t) \<Longrightarrow> update_state t f agg = update_state t g agg"
  by (simp add: update_state_def)

lemma EnsureTargetState_same [simp]:
  "IsActiveTarget p (EnsureTargetState t agg) u = IsActiveTarget p agg u"
  "target_documents p (EnsureTargetState t agg) u = target_documents p agg u"
  by (simp_all add: IsActiveTarget_state target_documents_def)

lemma EnsureTargetState_table [simp]:
  "pending_document_updates (EnsureTargetState t agg) = pending_document_updates agg"
  "\<exists>s. map_of (target_states (EnsureTargetState t agg)) t = Some s"
  by (simp_all add: EnsureTargetState_def update_conv')

lemma documents_of_token [simp]:
  "documents_of K (UpdateResumeToken token s) = documents_of K s" "documents_of K (MarkCurrent s) = documents_of K s"
  "documents_of K (RecordTargetResponse s) = documents_of K s"
  by (rule documents_cong, simp)+

lemma EnsureTargetState_ok: "active_ok p (EnsureTargetState t agg) = active_ok p agg"
  by (simp add: active_ok_def)

text \<open>What a change of state does to its target.\<close>

definition target_change_documents ::
  "TargetMetadataProvider \<Rightarrow> WatchTargetChange \<Rightarrow> WatchAggregator \<Rightarrow> TargetId \<Rightarrow> path set" where
  "target_change_documents p change agg t =
     (case change_state change of
        TargetReset \<Rightarrow> if IsActiveTarget p agg t then {} else target_documents p agg t
      | TargetAdded \<Rightarrow>
          if outstanding_responses (state_of agg t) = 1 then snapshot_keys p t else target_documents p agg t
      | TargetRemoved \<Rightarrow>
          if outstanding_responses (state_of agg t) = 1 then snapshot_keys p t else target_documents p agg t
      | _ \<Rightarrow> target_documents p agg t)"

lemma documents_of_cleared: "document_changes s = [] \<Longrightarrow> documents_of K s = K"
  by (simp add: documents_of_def changes_of_def)

lemma target_change_step_ok:
  assumes "active_ok p agg" "change_state change = TargetRemoved \<longrightarrow> cause_ok change"
  shows "\<exists>agg'. target_change_step p change t agg = Some agg' \<and> active_ok p agg' \<and>
    target_documents p agg' t = target_change_documents p change agg t \<and>
    (\<forall>u. u \<noteq> t \<longrightarrow> state_of agg' u = state_of agg u)"
proof -
  let ?e = "EnsureTargetState t agg"
  have e: "active_ok p ?e" using assms(1) by (simp add: EnsureTargetState_ok)
  have active: "target_ok (snapshot_keys p t) (map_of (pending_document_updates agg)) (state_of agg t)"
    if "\<not> IsPending (state_of agg t)" "target_data_of p t \<noteq> None"
    using assms(1) that by (simp add: active_ok_def IsActiveTarget_state)
  have up: "active_ok p (update_state t f ?e)" if "f (state_of agg t) = UpdateResumeToken tk (state_of agg t) \<or>
      f (state_of agg t) = UpdateResumeToken tk (MarkCurrent (state_of agg t)) \<or> document_changes (f (state_of agg t)) = [] \<or>
      IsPending (f (state_of agg t))" for f tk
    using that by (intro update_state_ok [OF e]) (auto simp: target_ok_empty intro!: target_ok_token active)
  show ?thesis
  proof (cases "change_state change")
    case NoChange
    then show ?thesis
      using e up [of "UpdateResumeToken (change_resume_token change)"]
      by (auto simp: target_change_step_def Let_def target_change_documents_def update_state_documents)
        (simp_all add: target_documents_def)
  next
    case TargetCurrent
    then show ?thesis
      using e up [of "\<lambda>s. UpdateResumeToken (change_resume_token change) (MarkCurrent s)"]
      by (auto simp: target_change_step_def Let_def target_change_documents_def update_state_documents)
        (simp_all add: target_documents_def)
  next
    case TargetReset
    then show ?thesis
    proof (cases "IsActiveTarget p agg t")
      case True
      then obtain a where a: "ResetTarget p t ?e = Some a" "active_ok p a" "target_documents p a t = {}"
        "\<forall>u. u \<noteq> t \<longrightarrow> state_of a u = state_of agg u"
        using ResetTarget_ok [OF e, of t] by auto
      have "active_ok p (update_state t (UpdateResumeToken (change_resume_token change)) a)"
        using a(2) by (intro update_state_ok) (auto simp: active_ok_def IsActiveTarget_state intro: target_ok_token)
      moreover have "target_documents p (update_state t (UpdateResumeToken (change_resume_token change)) a) t = {}"
        using a(3) documents_cong [of "UpdateResumeToken (change_resume_token change) (state_of a t)" "state_of a t"]
        by (simp add: update_state_documents) (simp add: target_documents_def)
      ultimately show ?thesis
        using TargetReset True a by (simp add: target_change_step_def Let_def target_change_documents_def)
    next
      case False
      then show ?thesis using TargetReset e by (simp add: target_change_step_def Let_def target_change_documents_def)
    qed
  next
    case TargetAdded
    let ?f = "\<lambda>s. UpdateResumeToken (change_resume_token change)
        (if IsPending (RecordTargetResponse s) then RecordTargetResponse s else ClearPendingChanges (RecordTargetResponse s))"
    have same: "target_change_step p change t agg = Some (update_state t ?f ?e)"
      using TargetAdded
      by (auto simp: target_change_step_def Let_def update_state_twice intro!: update_state_cong)
    have pend: "IsPending (RecordTargetResponse s) \<longleftrightarrow> outstanding_responses s \<noteq> 1" for s
      by (auto simp: IsPending_def RecordTargetResponse_def)
    have "active_ok p (update_state t ?f ?e)"
      by (rule update_state_ok [OF e]) (auto intro!: target_ok_empty split: if_splits)
    moreover have "target_documents p (update_state t ?f ?e) t = target_change_documents p change agg t"
      using TargetAdded pend
      by (auto simp: update_state_documents target_change_documents_def documents_of_cleared)
        (auto simp: target_documents_def intro!: documents_cong)
    ultimately show ?thesis using same by simp
  next
    case TargetRemoved
    let ?a = "update_state t RecordTargetResponse ?e"
    have pend: "IsPending (state_of ?a t) \<longleftrightarrow> outstanding_responses (state_of agg t) \<noteq> 1"
      by (auto simp: IsPending_def RecordTargetResponse_def)
    have step: "target_change_step p change t agg = Some (if IsPending (state_of ?a t) then ?a else RemoveTarget t ?a)"
      using TargetRemoved assms(2) by (simp add: target_change_step_def Let_def)
    have "active_ok p ?a" if "IsPending (state_of ?a t)"
      using that by (intro update_state_ok [OF e]) simp
    moreover have "active_ok p (RemoveTarget t ?a)"
    proof -
      have "pending_document_updates (RemoveTarget t ?a) = pending_document_updates agg" by (simp add: RemoveTarget_def)
      then show ?thesis using assms(1) by (auto simp: active_ok_def IsActiveTarget_state)
    qed
    ultimately show ?thesis
      using step pend TargetRemoved
      by (auto simp: target_change_documents_def target_documents_def intro!: documents_cong)
  qed
qed

lemma target_change_documents_cong:
  "state_of agg t = state_of agg' t \<Longrightarrow> target_change_documents p change agg t = target_change_documents p change agg' t"
  by (simp add: target_change_documents_def target_documents_def IsActiveTarget_state cong: WatchTargetChangeState.case_cong)

lemma target_change_steps_ok:
  assumes "active_ok p agg" "change_state change = TargetRemoved \<longrightarrow> cause_ok change" "distinct ids"
  shows "\<exists>agg'. target_change_steps p change ids agg = Some agg' \<and> active_ok p agg' \<and>
    (\<forall>t. target_documents p agg' t =
      (if t \<in> set ids then target_change_documents p change agg t else target_documents p agg t)) \<and>
    (\<forall>t. t \<notin> set ids \<longrightarrow> state_of agg' t = state_of agg t)"
  using assms(1,3)
proof (induction ids arbitrary: agg)
  case (Cons i ids)
  obtain a where a: "target_change_step p change i agg = Some a" "active_ok p a"
    "target_documents p a i = target_change_documents p change agg i" "\<forall>u. u \<noteq> i \<longrightarrow> state_of a u = state_of agg u"
    using target_change_step_ok [OF Cons.prems(1) assms(2), of i] by blast
  obtain b where b: "target_change_steps p change ids a = Some b" "active_ok p b"
    "\<forall>t. target_documents p b t = (if t \<in> set ids then target_change_documents p change a t else target_documents p a t)"
    "\<forall>t. t \<notin> set ids \<longrightarrow> state_of b t = state_of a t"
    using Cons.IH [OF a(2)] Cons.prems(2) by auto
  have "target_documents p b t =
      (if t \<in> set (i # ids) then target_change_documents p change agg t else target_documents p agg t)" for t
  proof (cases "t = i")
    case True
    then show ?thesis using a(3) b(3) Cons.prems(2) by simp
  next
    case False
    then have "state_of a t = state_of agg t" using a(4) by simp
    then show ?thesis
      using False b(3) target_change_documents_cong [of a t agg p change] by (simp add: target_documents_def)
  qed
  then show ?case using a b by simp
qed simp

text \<open>C31: A target change without an error is always handled and keeps the recorded changes exact; a reset
  empties the documents of an active target, the response that ends the last outstanding
  request takes the target back to its last snapshot, and every other target and every
  other change of state leaves the documents alone.\<close>
theorem target_change_refines:
  assumes "active_ok p agg" "change_state change = TargetRemoved \<longrightarrow> cause_ok change"
    and "distinct (GetTargetIds p agg change)"
  shows "\<exists>agg'. HandleTargetChange p change agg = Some agg' \<and> active_ok p agg' \<and>
    (\<forall>t. target_documents p agg' t =
      (if t \<in> set (GetTargetIds p agg change) then target_change_documents p change agg t else target_documents p agg t))"
  using target_change_steps_ok [OF assms] unfolding HandleTargetChange_def by blast

section \<open>Counting the documents of a target\<close>

definition keys_ok :: "TargetMetadataProvider \<Rightarrow> bool" where
  "keys_ok p \<longleftrightarrow> (\<forall>t. distinct (remote_keys p t))"

lemma finite_changes: "finite (changes_of c s)"
  by (simp add: changes_of_def)

lemma ToTargetChange_ok:
  assumes "changes_ok K s"
  shows "ToTargetChange s = Some \<lparr>tc_resume_token = ts_resume_token s, tc_current = ts_current s,
    added_documents = changes_of Added s, modified_documents = changes_of Modified s, removed_documents = changes_of Removed s\<rparr>"
proof -
  have "\<not> list_ex (\<lambda>entry. snd entry = Metadata) (document_changes s)"
    using assms by (auto simp: list_ex_iff changes_ok_def split: if_splits)
  then show ?thesis by (simp add: ToTargetChange_def)
qed

lemma changes_sets:
  assumes "changes_ok K s"
  shows "changes_of Added s = documents_of K s - K" "changes_of Removed s = K - documents_of K s"
    "changes_of Modified s \<subseteq> K \<inter> documents_of K s"
proof -
  have d: "distinct (map fst (document_changes s))" using assms by (simp add: changes_ok_def)
  have "k \<in> changes_of Added s \<Longrightarrow> k \<notin> K" "k \<in> changes_of Removed s \<Longrightarrow> k \<in> K"
    "k \<in> changes_of Modified s \<Longrightarrow> k \<in> K \<and> k \<notin> changes_of Removed s" for k
    using changes_ok_lookup [OF assms, of k] by (auto simp: changes_of_iff [OF d] split: if_splits)
  then show "changes_of Added s = documents_of K s - K" "changes_of Removed s = K - documents_of K s"
    "changes_of Modified s \<subseteq> K \<inter> documents_of K s"
    by (auto simp: documents_of_def)
qed

lemma count_documents:
  assumes "changes_ok (snapshot_keys p t) (state_of agg t)" "distinct (remote_keys p t)"
  shows "GetCurrentDocumentCountForTarget p t agg = Some (EnsureTargetState t agg, int (card (target_documents p agg t)))"
proof -
  let ?s = "state_of agg t"
  let ?K = "snapshot_keys p t"
  let ?D = "documents_of ?K ?s"
  have fin: "finite ?D" by (simp add: documents_of_def finite_changes)
  have "card ?D = card (?D - ?K) + card (?D \<inter> ?K)" "card ?K = card (?K - ?D) + card (?D \<inter> ?K)"
    using fin by (metis card_Diff_subset_Int card_mono Int_lower1 Int_lower2 Int_commute List.finite_set finite_Int le_add_diff_inverse2 ordered_cancel_comm_monoid_diff_class.add_diff_inverse)+
  then show ?thesis
    using changes_sets [OF assms(1)] distinct_card [OF assms(2)]
    by (simp add: GetCurrentDocumentCountForTarget_def ToTargetChange_ok [OF assms(1)] target_documents_def)
qed

section \<open>The outcome of an existence filter\<close>

definition missing_keys :: "TargetMetadataProvider \<Rightarrow> BloomFilter \<Rightarrow> TargetId \<Rightarrow> path set" where
  "missing_keys p bf t = {k \<in> snapshot_keys p t. MightContain bf (document_name p k) = Some False}"

definition usable_filter :: "ExistenceFilterWatchChange \<Rightarrow> BloomFilter option" where
  "usable_filter ef =
     (case bloom_filter_parameters ef of
        None \<Rightarrow> None
      | Some ps \<Rightarrow>
          (case BloomFilter_Create (bfp_bitmap ps) (bfp_padding ps) (bfp_hash_count ps) of
             Some (Inr bf) \<Rightarrow> if bit_count bf = 0 then None else Some bf
           | _ \<Rightarrow> None))"

lemma ParseBloomFilter_usable: "ParseBloomFilter ef = Some (usable_filter ef)"
proof (cases "bloom_filter_parameters ef")
  case (Some ps)
  obtain r where "BloomFilter_Create (bfp_bitmap ps) (bfp_padding ps) (bfp_hash_count ps) = Some r"
    using Create_result by blast
  then show ?thesis using Some by (simp add: ParseBloomFilter_def usable_filter_def split: sum.splits)
qed (simp add: ParseBloomFilter_def usable_filter_def)

lemma usable_filter_ok: "usable_filter ef = Some bf \<Longrightarrow> bloom_ok bf"
  using Create_result unfolding usable_filter_def
  by (auto split: option.splits sum.splits if_splits) (metis option.inject)

lemma filter_removed_ok:
  fixes p :: TargetMetadataProvider
  assumes "bloom_ok bf" "bit_count bf \<le> 2 ^ 31"
  defines "gone \<equiv> filter (\<lambda>k. MightContain bf (document_name p k) = Some False)"
  shows "filter_removed p bf t keys agg =
    Some (fold (\<lambda>key. RemoveDocumentFromTarget p t key None) (gone keys) agg, int (length (gone keys)))"
proof (induction keys arbitrary: agg)
  case (Cons k keys)
  obtain b where "MightContain bf (document_name p k) = Some b"
    using MightContain_bits [OF assms(1,2)] by blast
  then show ?case using Cons by (cases b) (simp_all add: gone_def)
qed (simp add: gone_def)

lemma RemoveDocumentFromTarget_table:
  "map_of (target_states agg) u \<noteq> None \<Longrightarrow> map_of (target_states (RemoveDocumentFromTarget p t key doc agg)) u \<noteq> None"
  by (simp add: RemoveDocumentFromTarget_def Let_def map_document_def update_state_def update_conv' split: option.splits)

lemma fold_remove_table:
  "map_of (target_states agg) u \<noteq> None \<Longrightarrow>
    map_of (target_states (fold (\<lambda>key. RemoveDocumentFromTarget p t key None) keys agg)) u \<noteq> None"
proof (induction keys arbitrary: agg)
  case (Cons k keys)
  show ?case using Cons.IH [OF RemoveDocumentFromTarget_table [OF Cons.prems]] by simp
qed simp

lemma FilterRemovedDocuments_ok:
  assumes "active_ok p agg" "IsActiveTarget p agg t" "bloom_ok bf" "bit_count bf \<le> 2 ^ 31" "distinct (remote_keys p t)"
  shows "\<exists>agg'. FilterRemovedDocuments p bf t agg = Some (agg', int (card (missing_keys p bf t))) \<and> active_ok p agg' \<and>
    IsActiveTarget p agg' t \<and> target_documents p agg' t = target_documents p agg t - missing_keys p bf t \<and>
    pending_target_resets agg' = pending_target_resets agg \<and> (\<forall>u. u \<noteq> t \<longrightarrow> state_of agg' u = state_of agg u) \<and>
    (map_of (target_states agg) t \<noteq> None \<longrightarrow> map_of (target_states agg') t \<noteq> None)"
proof -
  let ?gone = "filter (\<lambda>k. MightContain bf (document_name p k) = Some False) (remote_keys p t)"
  have gone: "set ?gone = missing_keys p bf t" "length ?gone = card (missing_keys p bf t)"
    using distinct_card [of ?gone] assms(5) by (auto simp: missing_keys_def)
  show ?thesis
    using fold_reset_keys [OF assms(1,2), of ?gone] fold_remove_table [of agg t p t ?gone] assms(2)
    unfolding FilterRemovedDocuments_def filter_removed_ok [OF assms(3,4)] gone by simp
qed

text \<open>The purpose recorded for a target's reset is the first one.\<close>

definition purpose_recorded :: "TargetId \<Rightarrow> QueryPurpose \<Rightarrow> WatchAggregator \<Rightarrow> WatchAggregator \<Rightarrow> bool" where
  "purpose_recorded t purpose agg agg' \<longleftrightarrow>
     map_of (pending_target_resets agg') =
       (map_of (pending_target_resets agg))
         (t \<mapsto> (case map_of (pending_target_resets agg) t of None \<Rightarrow> purpose | Some first \<Rightarrow> first))"

lemma purpose_recorded_some: "purpose_recorded t purpose agg agg' \<Longrightarrow> map_of (pending_target_resets agg') t \<noteq> None"
  by (simp add: purpose_recorded_def)

lemma reset_for_mismatch:
  assumes "active_ok p agg" "IsActiveTarget p agg t" "map_of (target_states agg) t \<noteq> None"
  shows "\<exists>agg'. ResetTarget p t agg = Some agg' \<and>
    (let resets = pending_target_resets agg';
         new = agg'\<lparr>pending_target_resets := (if map_of resets t = None then resets @ [(t, purpose)] else resets)\<rparr>
     in active_ok p new \<and> target_documents p new t = {} \<and> purpose_recorded t purpose agg new)"
proof -
  obtain a where a: "ResetTarget p t agg = Some a" "active_ok p a" "target_documents p a t = {}"
    "pending_target_resets a = pending_target_resets agg"
    using ResetTarget_ok [OF assms] by blast
  have same: "state_of (a\<lparr>pending_target_resets := r\<rparr>) u = state_of a u" for r u by (simp add: state_of_def)
  have "active_ok p (a\<lparr>pending_target_resets := r\<rparr>)" for r
    using a(2) by (simp add: active_ok_def same IsActiveTarget_state)
  then show ?thesis using a
    by (auto simp: target_documents_def same Let_def map_add_def purpose_recorded_def fun_eq_iff split: option.splits)
qed

lemma existence_filter_result:
  assumes "active_ok p agg" "keys_ok p" "t = ef_target_id ef" "TargetDataForActiveTarget p agg t = Some td"
    and "GetSingleDocumentPath (td_target td) = Some None"
    and "\<forall>bf. usable_filter ef = Some bf \<longrightarrow> bit_count bf \<le> 2 ^ 31"
  shows "\<exists>agg'. HandleExistenceFilter p ef agg = Some agg' \<and> active_ok p agg' \<and>
    (if ef_count ef = int (card (target_documents p agg t))
     then target_documents p agg' t = target_documents p agg t \<and> pending_target_resets agg' = pending_target_resets agg
     else case usable_filter ef of
       Some bf \<Rightarrow>
         if ef_count ef = int (card (target_documents p agg t)) - int (card (missing_keys p bf t))
         then target_documents p agg' t = target_documents p agg t - missing_keys p bf t \<and>
              pending_target_resets agg' = pending_target_resets agg
         else target_documents p agg' t = {} \<and> purpose_recorded t ExistenceFilterMismatchBloom agg agg'
     | None \<Rightarrow> target_documents p agg' t = {} \<and> purpose_recorded t ExistenceFilterMismatch agg agg')"
proof -
  let ?e = "EnsureTargetState t agg"
  let ?n = "int (card (target_documents p agg t))"
  have active: "IsActiveTarget p agg t" using assms(4) by (simp add: IsActiveTarget_def)
  then have "changes_ok (snapshot_keys p t) (state_of agg t)" using assms(1) by (simp add: active_ok_def target_ok_def)
  then have count: "GetCurrentDocumentCountForTarget p t agg = Some (?e, ?n)"
    using count_documents assms(2) by (simp add: keys_ok_def)
  have e: "active_ok p ?e" "IsActiveTarget p ?e t" "pending_target_resets ?e = pending_target_resets agg"
    using assms(1) active by (simp_all add: EnsureTargetState_ok) (simp add: EnsureTargetState_def)
  note [simp] = HandleExistenceFilter_def count ParseBloomFilter_usable Let_def assms(3)[symmetric]
  show ?thesis
  proof (cases "ef_count ef = ?n")
    case True
    then show ?thesis using e assms(4,5) by simp
  next
    case mismatch: False
    show ?thesis
    proof (cases "usable_filter ef")
      case None
      then show ?thesis
        using mismatch assms(4,5) reset_for_mismatch [OF e(1,2), of ExistenceFilterMismatch] e(3)
        by (auto simp: Let_def purpose_recorded_def)
    next
      case (Some bf)
      obtain a where a: "FilterRemovedDocuments p bf t ?e = Some (a, int (card (missing_keys p bf t)))" "active_ok p a"
        "IsActiveTarget p a t" "target_documents p a t = target_documents p agg t - missing_keys p bf t"
        "pending_target_resets a = pending_target_resets agg" "map_of (target_states a) t \<noteq> None"
        using FilterRemovedDocuments_ok [OF e(1,2) usable_filter_ok [OF Some]] Some assms(2,6) e(3) by (auto simp: keys_ok_def)
      show ?thesis
        using mismatch assms(4,5) Some a reset_for_mismatch [OF a(2,3,6), of ExistenceFilterMismatchBloom]
        by (auto simp: Let_def ApplyBloomFilter_def purpose_recorded_def)
    qed
  qed
qed

lemma single_document_filter:
  assumes "active_ok p agg" "t = ef_target_id ef" "TargetDataForActiveTarget p agg t = Some td"
    and "GetSingleDocumentPath (td_target td) = Some (Some path)"
  shows "if ef_count ef = 0 then
      (if IsDocumentKey path
       then \<exists>agg'. HandleExistenceFilter p ef agg = Some agg' \<and> active_ok p agg' \<and>
         target_documents p agg' t = target_documents p agg t - {path} \<and>
         map_of (pending_document_updates agg') =
           (map_of (pending_document_updates agg))(path \<mapsto> NoDocument path SnapshotVersion_None) \<and>
         pending_target_resets agg' = pending_target_resets agg
       else HandleExistenceFilter p ef agg = None)
     else HandleExistenceFilter p ef agg = (if ef_count ef = 1 then Some agg else None)"
proof -
  have active: "IsActiveTarget p agg t" using assms(3) by (simp add: IsActiveTarget_def)
  have resets: "pending_target_resets (RemoveDocumentFromTarget p t path doc agg) = pending_target_resets agg" for doc
    by (simp add: RemoveDocumentFromTarget_def Let_def map_document_def update_state_def split: option.splits)
  show ?thesis
    using assms(3,4) RemoveDocumentFromTarget_ok [OF assms(1)] active
    by (simp add: HandleExistenceFilter_def Let_def assms(2)[symmetric] DocumentKey_of_def resets
        RemoveDocumentFromTarget_documents [OF assms(1)] RemoveDocumentFromTarget_updates)
qed

text \<open>C32: What an existence filter does to its target.  An inactive target is left alone.  For an active
  target of a single document, a count of 0 removes the document from the target and records it as
  deleted, a count of 1 changes nothing, and any other count fails the assertion (as does a
  document name that cannot be read).  For any other
  active target: when the count is the number of documents of the target, nothing changes; when
  there is a usable bloom filter and the count is that number less the number of documents of
  the last snapshot that the filter excludes, exactly those leave the target; otherwise the target is emptied
  and its reset is recorded, for the purpose of a bloom filter mismatch when there was a usable
  filter and of a plain mismatch when there was none, unless an earlier purpose is recorded.\<close>
theorem existence_filter_outcome:
  assumes "active_ok p agg" "keys_ok p" "t = ef_target_id ef"
    and "\<forall>bf. usable_filter ef = Some bf \<longrightarrow> bit_count bf \<le> 2 ^ 31"
  shows "case TargetDataForActiveTarget p agg t of
      None \<Rightarrow> HandleExistenceFilter p ef agg = Some agg
    | Some td \<Rightarrow>
       (case GetSingleDocumentPath (td_target td) of
          None \<Rightarrow> HandleExistenceFilter p ef agg = None
        | Some (Some path) \<Rightarrow>
           (if ef_count ef = 0 then
              (if IsDocumentKey path
               then \<exists>agg'. HandleExistenceFilter p ef agg = Some agg' \<and> active_ok p agg' \<and>
                 target_documents p agg' t = target_documents p agg t - {path} \<and>
                 map_of (pending_document_updates agg') =
                   (map_of (pending_document_updates agg))(path \<mapsto> NoDocument path SnapshotVersion_None) \<and>
                 pending_target_resets agg' = pending_target_resets agg
               else HandleExistenceFilter p ef agg = None)
            else HandleExistenceFilter p ef agg = (if ef_count ef = 1 then Some agg else None))
        | Some None \<Rightarrow>
           (\<exists>agg'. HandleExistenceFilter p ef agg = Some agg' \<and> active_ok p agg' \<and>
             (if ef_count ef = int (card (target_documents p agg t))
              then target_documents p agg' t = target_documents p agg t \<and> pending_target_resets agg' = pending_target_resets agg
              else case usable_filter ef of
                Some bf \<Rightarrow>
                  if ef_count ef = int (card (target_documents p agg t)) - int (card (missing_keys p bf t))
                  then target_documents p agg' t = target_documents p agg t - missing_keys p bf t \<and>
                       pending_target_resets agg' = pending_target_resets agg
                  else target_documents p agg' t = {} \<and> purpose_recorded t ExistenceFilterMismatchBloom agg agg'
              | None \<Rightarrow> target_documents p agg' t = {} \<and> purpose_recorded t ExistenceFilterMismatch agg agg')))"
proof (cases "TargetDataForActiveTarget p agg t")
  case None
  then show ?thesis by (simp add: HandleExistenceFilter_def Let_def assms(3))
next
  case (Some td)
  show ?thesis
  proof (cases "GetSingleDocumentPath (td_target td)")
    case None
    then show ?thesis using Some by (simp add: HandleExistenceFilter_def Let_def assms(3))
  next
    case single: (Some path)
    show ?thesis
    proof (cases path)
      case None
      then have "GetSingleDocumentPath (td_target td) = Some None" using single by simp
      from existence_filter_result [OF assms(1-3) Some this assms(4)] show ?thesis
        unfolding Some single None option.case .
    next
      case (Some path')
      then have "GetSingleDocumentPath (td_target td) = Some (Some path')" using single by simp
      from single_document_filter [OF assms(1,3) \<open>TargetDataForActiveTarget p agg t = Some td\<close> this] show ?thesis
        unfolding \<open>TargetDataForActiveTarget p agg t = Some td\<close> single Some option.case .
    qed
  qed
qed

text \<open>C33: When the bloom filter is accepted, the target is left with more documents than the filter counts:
  one for every excluded key of the last snapshot whose removal was already recorded, because
  those are subtracted twice.\<close>
theorem accepted_filter_counts_removals_twice:
  assumes "active_ok p agg" "keys_ok p" "t = ef_target_id ef" "TargetDataForActiveTarget p agg t = Some td"
    and "GetSingleDocumentPath (td_target td) = Some None" "usable_filter ef = Some bf" "bit_count bf \<le> 2 ^ 31"
    and "ef_count ef \<noteq> int (card (target_documents p agg t))"
    and "ef_count ef = int (card (target_documents p agg t)) - int (card (missing_keys p bf t))"
  shows "\<exists>agg'. HandleExistenceFilter p ef agg = Some agg' \<and> pending_target_resets agg' = pending_target_resets agg \<and>
    int (card (target_documents p agg' t)) =
      ef_count ef + int (card (missing_keys p bf t - target_documents p agg t))"
proof -
  let ?D = "target_documents p agg t"
  let ?M = "missing_keys p bf t"
  obtain agg' where a: "HandleExistenceFilter p ef agg = Some agg'" "pending_target_resets agg' = pending_target_resets agg"
    "target_documents p agg' t = ?D - ?M"
    using existence_filter_result [OF assms(1-5)] assms(6-9) by auto
  have fin: "finite ?D" "finite ?M" by (simp_all add: target_documents_def documents_of_def finite_changes missing_keys_def)
  have "card ?D = card (?D - ?M) + card (?D \<inter> ?M)"
    using fin by (metis Int_commute card_Int_Diff add.commute Int_Diff)
  moreover have "card ?M = card (?M - ?D) + card (?D \<inter> ?M)"
    using fin by (metis Int_commute card_Int_Diff add.commute)
  ultimately show ?thesis using a assms(9) by auto
qed

section \<open>Remote events\<close>

text \<open>The documents of the targets can be named: pipelines over documents list document paths.\<close>

definition paths_ok :: "TargetMetadataProvider \<Rightarrow> bool" where
  "paths_ok p \<longleftrightarrow>
     (\<forall>t td. target_data_of p t = Some td \<longrightarrow>
        (\<exists>ps. GetDocumentPaths (td_target td) = Some ps \<and> (\<forall>l. ps = Some l \<longrightarrow> list_all IsDocumentKey l)))"

text \<open>Raising an event keeps the updates it finds and adds only deletions at its version.\<close>

definition updates_extend ::
  "Timestamp \<Rightarrow> WatchAggregator \<Rightarrow> WatchAggregator \<Rightarrow> bool" where
  "updates_extend v agg agg' \<longleftrightarrow>
     (\<forall>k. map_of (pending_document_updates agg) k \<noteq> None \<longrightarrow>
        map_of (pending_document_updates agg') k = map_of (pending_document_updates agg) k) \<and>
     (\<forall>k d. map_of (pending_document_updates agg') k = Some d \<longrightarrow>
        map_of (pending_document_updates agg) k = Some d \<or> d = NoDocument k v)"

lemma updates_extend_refl: "updates_extend v agg agg"
  by (simp add: updates_extend_def)

lemma updates_extend_trans: "updates_extend v a b \<Longrightarrow> updates_extend v b c \<Longrightarrow> updates_extend v a c"
  unfolding updates_extend_def by metis

lemma updates_extend_keeps:
  "updates_extend v a b \<Longrightarrow> map_of (pending_document_updates a) k \<noteq> None \<Longrightarrow> map_of (pending_document_updates b) k \<noteq> None"
  unfolding updates_extend_def by metis

lemma synthesize_deletes_ok:
  assumes "active_ok p agg" "IsActiveTarget p agg t" "list_all IsDocumentKey paths"
  shows "\<exists>agg'. synthesize_deletes p v t paths agg = Some agg' \<and> active_ok p agg' \<and>
    (\<forall>u. IsActiveTarget p agg' u = IsActiveTarget p agg u) \<and>
    (\<forall>u. target_documents p agg' u = target_documents p agg u) \<and>
    (\<forall>u. u \<noteq> t \<longrightarrow> state_of agg' u = state_of agg u) \<and>
    updates_extend v agg agg' \<and>
    (\<forall>k \<in> set paths. k \<notin> snapshot_keys p t \<longrightarrow> map_of (pending_document_updates agg') k \<noteq> None) \<and>
    ts_current (state_of agg' t) = ts_current (state_of agg t) \<and>
    ts_resume_token (state_of agg' t) = ts_resume_token (state_of agg t)"
  using assms
proof (induction paths arbitrary: agg)
  case (Cons k paths)
  define fresh where "fresh \<longleftrightarrow> map_of (pending_document_updates agg) k = None \<and> \<not> TargetContainsDocument p t k"
  define a where "a = (if fresh then RemoveDocumentFromTarget p t k (Some (NoDocument k v)) agg else agg)"
  have step: "synthesize_deletes p v t (k # paths) agg = synthesize_deletes p v t paths a"
    using Cons.prems(3) by (simp add: DocumentKey_of_def a_def fresh_def)
  have ok: "active_ok p a" "IsActiveTarget p a t"
    using Cons.prems(1,2) RemoveDocumentFromTarget_ok [OF Cons.prems(1)] by (simp_all add: a_def)
  have target: "target_ok (snapshot_keys p t) (map_of (pending_document_updates agg)) (state_of agg t)"
    using Cons.prems(1,2) by (simp add: active_ok_def)
  have "k \<notin> target_documents p agg t" if fresh
  proof -
    have "k \<notin> snapshot_keys p t" "map_of (pending_document_updates agg) k = None"
      using that by (simp_all add: fresh_def TargetContainsDocument_def)
    then show ?thesis
      using target documents_of_iff [of "snapshot_keys p t" "state_of agg t" k]
      by (fastforce simp: target_ok_def target_documents_def split: option.splits)
  qed
  then have docs: "target_documents p a u = target_documents p agg u" for u
    by (simp add: a_def RemoveDocumentFromTarget_documents [OF Cons.prems(1)])
  have state: "ts_current (state_of a t) = ts_current (state_of agg t)" "ts_resume_token (state_of a t) = ts_resume_token (state_of agg t)"
    "\<forall>u. u \<noteq> t \<longrightarrow> state_of a u = state_of agg u" "\<forall>u. IsActiveTarget p a u = IsActiveTarget p agg u"
    by (simp_all add: a_def RemoveDocumentFromTarget_state AddDocumentChange_def RemoveDocumentChange_def)
  have upd: "updates_extend v agg a"
    by (auto simp: updates_extend_def a_def RemoveDocumentFromTarget_updates fresh_def)
  have here: "k \<notin> snapshot_keys p t \<Longrightarrow> map_of (pending_document_updates a) k \<noteq> None"
    using Cons.prems(2) by (auto simp: a_def RemoveDocumentFromTarget_updates fresh_def TargetContainsDocument_def)
  obtain b where b: "synthesize_deletes p v t paths a = Some b" "active_ok p b"
    "\<forall>u. IsActiveTarget p b u = IsActiveTarget p a u" "\<forall>u. target_documents p b u = target_documents p a u"
    "\<forall>u. u \<noteq> t \<longrightarrow> state_of b u = state_of a u"
    "updates_extend v a b"
    "\<forall>k \<in> set paths. k \<notin> snapshot_keys p t \<longrightarrow> map_of (pending_document_updates b) k \<noteq> None"
    "ts_current (state_of b t) = ts_current (state_of a t)" "ts_resume_token (state_of b t) = ts_resume_token (state_of a t)"
    using Cons.IH [OF ok] Cons.prems(3) by auto
  show ?case
  proof (intro exI [of _ b] conjI)
    show "updates_extend v agg b" by (rule updates_extend_trans [OF upd b(6)])
    show "\<forall>j \<in> set (k # paths). j \<notin> snapshot_keys p t \<longrightarrow> map_of (pending_document_updates b) j \<noteq> None"
      using here updates_extend_keeps [OF b(6)] b(7) by (metis set_ConsD)
  qed (use step b docs state in simp_all)
qed (simp add: updates_extend_refl)

text \<open>What a remote event must say of an active target: exactly the difference to the last snapshot.\<close>

definition exact_change :: "path set \<Rightarrow> path set \<Rightarrow> TargetChange option \<Rightarrow> bool" where
  "exact_change keys docs change \<longleftrightarrow>
     (case change of
        Some tc \<Rightarrow> added_documents tc = docs - keys \<and> removed_documents tc = keys - docs \<and> modified_documents tc \<subseteq> keys \<inter> docs
      | None \<Rightarrow> docs = keys)"

lemma raise_target_ok:
  assumes "active_ok p agg" "paths_ok p"
  shows "\<exists>agg' cs. raise_target p v t agg = Some (agg', cs) \<and> active_ok p agg' \<and>
    (\<forall>u. IsActiveTarget p agg' u = IsActiveTarget p agg u) \<and> (\<forall>u. u \<noteq> t \<longrightarrow> state_of agg' u = state_of agg u) \<and>
    updates_extend v agg agg' \<and>
    (IsActiveTarget p agg t \<longrightarrow>
       document_changes (state_of agg' t) = [] \<and>
       (\<exists>change. cs = (case change of None \<Rightarrow> [] | Some tc \<Rightarrow> [(t, tc)]) \<and>
          exact_change (snapshot_keys p t) (target_documents p agg t) change) \<and>
       (ts_current (state_of agg t) \<longrightarrow>
          (\<forall>td ps. target_data_of p t = Some td \<longrightarrow> GetDocumentPaths (td_target td) = Some (Some ps) \<longrightarrow>
             (\<forall>k \<in> set ps. k \<notin> snapshot_keys p t \<longrightarrow> map_of (pending_document_updates agg') k \<noteq> None)))) \<and>
    (\<not> IsActiveTarget p agg t \<longrightarrow> cs = [] \<and> agg' = agg)"
proof (cases "IsActiveTarget p agg t")
  case False
  then have "raise_target p v t agg = Some (agg, [])" by (simp add: raise_target_def IsActiveTarget_def)
  then show ?thesis using False assms(1) updates_extend_refl by blast
next
  case True
  then obtain td where td: "TargetDataForActiveTarget p agg t = Some td" "target_data_of p t = Some td"
    by (auto simp: IsActiveTarget_def active_state split: if_splits)
  then obtain ps where ps: "GetDocumentPaths (td_target td) = Some ps" "\<forall>l. ps = Some l \<longrightarrow> list_all IsDocumentKey l"
    using assms(2) unfolding paths_ok_def by blast
  define synth where "synth = (case ps of
      Some paths \<Rightarrow> (if ts_current (state_of agg t) then synthesize_deletes p v t paths agg else Some agg) | None \<Rightarrow> Some agg)"
  obtain a where a: "synth = Some a" "active_ok p a" "\<forall>u. IsActiveTarget p a u = IsActiveTarget p agg u"
    "\<forall>u. target_documents p a u = target_documents p agg u" "\<forall>u. u \<noteq> t \<longrightarrow> state_of a u = state_of agg u"
    "updates_extend v agg a"
    "ts_current (state_of agg t) \<longrightarrow> (\<forall>l. ps = Some l \<longrightarrow> (\<forall>k \<in> set l. k \<notin> snapshot_keys p t \<longrightarrow> map_of (pending_document_updates a) k \<noteq> None))"
  proof (cases "ts_current (state_of agg t) \<and> ps \<noteq> None")
    case c: True
    then obtain l where l: "ps = Some l" by blast
    then show ?thesis
      using that synthesize_deletes_ok [OF assms(1) True, of l v] ps(2) c by (auto simp: synth_def)
  next
    case False
    then show ?thesis using that [of agg] assms(1) updates_extend_refl by (auto simp: synth_def split: option.splits)
  qed
  have target: "target_ok (snapshot_keys p t) (map_of (pending_document_updates a)) (state_of a t)"
    using a(2,3) True by (simp add: active_ok_def)
  then have ok: "changes_ok (snapshot_keys p t) (state_of a t)" by (simp add: target_ok_def)
  note sets = changes_sets [OF ok] ToTargetChange_ok [OF ok]
  have docs: "documents_of (snapshot_keys p t) (state_of a t) = target_documents p agg t"
    using a(4) by (simp add: target_documents_def)
  have raise: "raise_target p v t agg =
      (if has_pending_changes (state_of a t)
       then do { tc \<leftarrow> ToTargetChange (state_of a t); Some (update_state t ClearPendingChanges a, [(t, tc)]) }
       else Some (a, []))"
    using td(1) ps(1) a(1) by (simp add: raise_target_def synth_def [symmetric] cong: option.case_cong)
  show ?thesis
  proof (cases "has_pending_changes (state_of a t)")
    case pending: True
    let ?b = "update_state t ClearPendingChanges a"
    let ?tc = "\<lparr>tc_resume_token = ts_resume_token (state_of a t), tc_current = ts_current (state_of a t),
        added_documents = changes_of Added (state_of a t), modified_documents = changes_of Modified (state_of a t),
        removed_documents = changes_of Removed (state_of a t)\<rparr>"
    have "raise_target p v t agg = Some (?b, [(t, ?tc)])" using raise pending sets(4) by simp
    moreover have "active_ok p ?b" by (rule update_state_ok [OF a(2)]) (simp add: target_ok_empty)
    moreover have "exact_change (snapshot_keys p t) (target_documents p agg t) (Some ?tc)"
      using sets(1-3) docs by (simp add: exact_change_def)
    moreover have "IsActiveTarget p ?b u = IsActiveTarget p agg u" for u
      using a(3) True by (simp add: active_update_state) (auto simp: IsActiveTarget_state)
    moreover have "updates_extend v agg ?b" using a(6) by (simp add: updates_extend_def)
    ultimately show ?thesis
      using True a(5-7) td(2) ps(1)
      by (intro exI [of _ ?b] exI [of _ "[(t, ?tc)]"]) (auto intro!: exI [of _ "Some ?tc"])
  next
    case False
    then have "document_changes (state_of a t) = []" using target by (auto simp: target_ok_def)
    moreover from this have "exact_change (snapshot_keys p t) (target_documents p agg t) None"
      using docs by (simp add: exact_change_def documents_of_cleared)
    ultimately show ?thesis
      using True False raise a td(2) ps(1)
      by (intro exI [of _ a] exI [of _ "[]"]) (auto intro!: exI [of _ None])
  qed
qed

definition names_missing ::
  "TargetMetadataProvider \<Rightarrow> TargetId \<Rightarrow> (path \<Rightarrow> MutableDocument option) \<Rightarrow> bool" where
  "names_missing p t updates \<longleftrightarrow>
     (\<forall>td ps. target_data_of p t = Some td \<longrightarrow> GetDocumentPaths (td_target td) = Some (Some ps) \<longrightarrow>
        (\<forall>k \<in> set ps. k \<notin> snapshot_keys p t \<longrightarrow> updates k \<noteq> None))"

lemma names_missing_mono:
  "names_missing p t u \<Longrightarrow> (\<And>k. u k \<noteq> None \<Longrightarrow> w k \<noteq> None) \<Longrightarrow> names_missing p t w"
  unfolding names_missing_def by blast

lemma raise_targets_ok:
  assumes "active_ok p agg" "paths_ok p" "distinct ids"
  shows "\<exists>agg' cs. raise_targets p v ids agg = Some (agg', cs) \<and> active_ok p agg' \<and>
    (\<forall>u. IsActiveTarget p agg' u = IsActiveTarget p agg u) \<and> (\<forall>u. u \<notin> set ids \<longrightarrow> state_of agg' u = state_of agg u) \<and>
    updates_extend v agg agg' \<and>
    (\<forall>t. map_of cs t \<noteq> None \<longrightarrow> t \<in> set ids \<and> IsActiveTarget p agg t) \<and>
    (\<forall>t \<in> set ids. IsActiveTarget p agg t \<longrightarrow>
       document_changes (state_of agg' t) = [] \<and>
       exact_change (snapshot_keys p t) (target_documents p agg t) (map_of cs t) \<and>
       (ts_current (state_of agg t) \<longrightarrow> names_missing p t (map_of (pending_document_updates agg'))))"
  using assms(1,3)
proof (induction ids arbitrary: agg)
  case (Cons i ids)
  obtain a c1 where a: "raise_target p v i agg = Some (a, c1)" "active_ok p a"
    "\<forall>u. IsActiveTarget p a u = IsActiveTarget p agg u" "\<forall>u. u \<noteq> i \<longrightarrow> state_of a u = state_of agg u"
    "updates_extend v agg a"
    "IsActiveTarget p agg i \<longrightarrow> document_changes (state_of a i) = [] \<and>
       (\<exists>change. c1 = (case change of None \<Rightarrow> [] | Some tc \<Rightarrow> [(i, tc)]) \<and>
          exact_change (snapshot_keys p i) (target_documents p agg i) change) \<and>
       (ts_current (state_of agg i) \<longrightarrow> names_missing p i (map_of (pending_document_updates a)))"
    "\<not> IsActiveTarget p agg i \<longrightarrow> c1 = []"
    using raise_target_ok [OF Cons.prems(1) assms(2), of v i] unfolding names_missing_def [symmetric] by blast
  obtain b c2 where b: "raise_targets p v ids a = Some (b, c2)" "active_ok p b"
    "\<forall>u. IsActiveTarget p b u = IsActiveTarget p a u" "\<forall>u. u \<notin> set ids \<longrightarrow> state_of b u = state_of a u"
    "updates_extend v a b"
    "\<forall>t. map_of c2 t \<noteq> None \<longrightarrow> t \<in> set ids \<and> IsActiveTarget p a t"
    "\<forall>t \<in> set ids. IsActiveTarget p a t \<longrightarrow> document_changes (state_of b t) = [] \<and>
       exact_change (snapshot_keys p t) (target_documents p a t) (map_of c2 t) \<and>
       (ts_current (state_of a t) \<longrightarrow> names_missing p t (map_of (pending_document_updates b)))"
    using Cons.IH [OF a(2)] Cons.prems(2) by auto
  have i: "i \<notin> set ids" using Cons.prems(2) by simp
  then have c2i: "map_of c2 i = None" using b(6) by blast
  have c1: "map_of c1 t = None" if "t \<noteq> i" for t
    using a(6,7) that by (cases "IsActiveTarget p agg i") (auto split: option.splits)
  have c1i: "IsActiveTarget p agg i \<Longrightarrow> exact_change (snapshot_keys p i) (target_documents p agg i) (map_of c1 i)"
    using a(6) by (auto split: option.splits)
  have docs: "t \<noteq> i \<Longrightarrow> target_documents p a t = target_documents p agg t" for t using a(4) by (simp add: target_documents_def)
  have names: "names_missing p u (map_of (pending_document_updates a)) \<Longrightarrow> names_missing p u (map_of (pending_document_updates b))" for u
    using names_missing_mono [of p u "map_of (pending_document_updates a)" "map_of (pending_document_updates b)"]
      updates_extend_keeps [OF b(5)] by blast
  have per: "document_changes (state_of b t) = [] \<and>
       exact_change (snapshot_keys p t) (target_documents p agg t) (map_of (c1 @ c2) t) \<and>
       (ts_current (state_of agg t) \<longrightarrow> names_missing p t (map_of (pending_document_updates b)))"
    if "t \<in> set (i # ids)" "IsActiveTarget p agg t" for t
  proof (cases "t = i")
    case True
    then show ?thesis
      using that a(6) b(4) i c2i c1i names [of i] by (auto simp: map_add_def split: option.splits)
  next
    case False
    then have "t \<in> set ids" "IsActiveTarget p a t" "map_of (c1 @ c2) t = map_of c2 t"
      using that a(3) c1 [OF False] by (simp_all add: map_add_def)
    then show ?thesis using b(7) False a(4) docs [OF False] by metis
  qed
  show ?case
  proof (intro exI [of _ b] exI [of _ "c1 @ c2"] conjI)
    show "updates_extend v agg b" by (rule updates_extend_trans [OF a(5) b(5)])
    show "\<forall>t. map_of (c1 @ c2) t \<noteq> None \<longrightarrow> t \<in> set (i # ids) \<and> IsActiveTarget p agg t"
      using b(6) a(3,7) c1 by (auto simp: map_add_def split: option.splits) (metis map_of.simps(1) option.distinct(1))+
    show "\<forall>t \<in> set (i # ids). IsActiveTarget p agg t \<longrightarrow> document_changes (state_of b t) = [] \<and>
        exact_change (snapshot_keys p t) (target_documents p agg t) (map_of (c1 @ c2) t) \<and>
        (ts_current (state_of agg t) \<longrightarrow> names_missing p t (map_of (pending_document_updates b)))"
      using per by blast
  qed (use a b in simp_all)
qed (simp add: updates_extend_refl)

text \<open>The provider after the event is applied: the keys of the changed targets follow their changes.\<close>

definition apply_event :: "RemoteEvent \<Rightarrow> TargetMetadataProvider \<Rightarrow> TargetMetadataProvider \<Rightarrow> bool" where
  "apply_event event p q \<longleftrightarrow>
     target_data_of q = target_data_of p \<and>
     (\<forall>t. snapshot_keys q t =
        (case map_of (target_changes event) t of
           None \<Rightarrow> snapshot_keys p t
         | Some tc \<Rightarrow> (snapshot_keys p t - removed_documents tc) \<union> added_documents tc))"

lemma remote_event_result:
  assumes "active_ok p agg" "paths_ok p" "distinct (map fst (target_states agg))"
  shows "\<exists>agg' event. CreateRemoteEvent p v agg = Some (agg', event) \<and>
    (\<forall>t. if IsActiveTarget p agg t
         then exact_change (snapshot_keys p t) (target_documents p agg t) (map_of (target_changes event) t)
         else map_of (target_changes event) t = None) \<and>
    pending_document_updates agg' = [] \<and>
    (\<forall>q. apply_event event p q \<longrightarrow>
       active_ok q agg' \<and> (\<forall>t. IsActiveTarget p agg t \<longrightarrow> target_documents q agg' t = target_documents p agg t))"
proof -
  let ?ids = "map fst (target_states agg)"
  obtain a cs where a: "raise_targets p v ?ids agg = Some (a, cs)" "\<forall>u. IsActiveTarget p a u = IsActiveTarget p agg u"
    "\<forall>u. u \<notin> set ?ids \<longrightarrow> state_of a u = state_of agg u"
    "\<forall>t. map_of cs t \<noteq> None \<longrightarrow> t \<in> set ?ids \<and> IsActiveTarget p agg t"
    "\<forall>t \<in> set ?ids. IsActiveTarget p agg t \<longrightarrow> document_changes (state_of a t) = [] \<and>
       exact_change (snapshot_keys p t) (target_documents p agg t) (map_of cs t) \<and>
       (ts_current (state_of agg t) \<longrightarrow> names_missing p t (map_of (pending_document_updates a)))"
    using raise_targets_ok [OF assms, of v] by metis
  have new: "state_of agg t = TargetState_new" if "t \<notin> set ?ids" for t
  proof -
    have "map_of (target_states agg) t = None" using that by (simp add: map_of_eq_None_iff)
    then show ?thesis by (simp add: state_of_def)
  qed
  have all: "document_changes (state_of a t) = [] \<and>
      exact_change (snapshot_keys p t) (target_documents p agg t) (map_of cs t)" if "IsActiveTarget p agg t" for t
  proof (cases "t \<in> set ?ids")
    case False
    then show ?thesis using new [OF False] a(3,4) by (auto simp: target_documents_def exact_change_def split: option.splits)
  qed (use a(5) that in blast)
  define a' where "a' = a\<lparr>pending_document_updates := [], pending_document_target_mappings := [], pending_target_resets := []\<rparr>"
  have same: "state_of a' t = state_of a t" for t by (simp add: a'_def state_of_def)
  obtain event where event: "CreateRemoteEvent p v agg = Some (a', event)" "target_changes event = cs"
    by (auto simp: CreateRemoteEvent_def a(1) a'_def)
  have after: "active_ok q a' \<and> (\<forall>t. IsActiveTarget p agg t \<longrightarrow> target_documents q a' t = target_documents p agg t)"
    if q: "apply_event event p q" for q
  proof -
    have active: "IsActiveTarget q a' t \<longleftrightarrow> IsActiveTarget p agg t" for t
      using q a(2) by (simp add: IsActiveTarget_state same apply_event_def)
    have "snapshot_keys q t = target_documents p agg t" if "IsActiveTarget p agg t" for t
      using q all [OF that] event(2) by (auto simp: apply_event_def exact_change_def split: option.splits)
    then show ?thesis
      using all active by (simp add: active_ok_def same target_ok_empty target_documents_def documents_of_cleared)
  qed
  have "if IsActiveTarget p agg t
       then exact_change (snapshot_keys p t) (target_documents p agg t) (map_of (target_changes event) t)
       else map_of (target_changes event) t = None" for t
  proof (cases "IsActiveTarget p agg t")
    case True
    then show ?thesis using all event(2) by simp
  next
    case False
    then show ?thesis using a(4) event(2) by (simp only: if_False) metis
  qed
  then show ?thesis
    using event(1) after by (intro exI [of _ a'] exI [of _ event]) (auto simp: a'_def)
qed

text \<open>C6: Raising a remote event always succeeds and is exact: an active target's change lists precisely the
  documents added to and removed from its last snapshot (no change means no difference),
  inactive targets have none, and once the keys follow the event they are the documents the
  aggregator had accumulated, with nothing pending.\<close>
theorem remote_event_exact:
  assumes "active_ok p agg" "paths_ok p" "distinct (map fst (target_states agg))"
  shows "\<exists>agg' event. CreateRemoteEvent p v agg = Some (agg', event) \<and>
    (\<forall>t. if IsActiveTarget p agg t
         then exact_change (snapshot_keys p t) (target_documents p agg t) (map_of (target_changes event) t)
         else map_of (target_changes event) t = None) \<and>
    pending_document_updates agg' = [] \<and>
    (\<forall>q. apply_event event p q \<longrightarrow>
       active_ok q agg' \<and> (\<forall>t. IsActiveTarget p agg t \<longrightarrow> target_documents q agg' t = target_documents p agg t))"
  by (rule remote_event_result [OF assms])

text \<open>C34: No document of a current document target stays unresolved: when a remote event is raised, every
  document such a target names is in its last snapshot or gets an update in the event, and
  one that had no update before the event gets a deletion at the version of the event.\<close>
theorem current_documents_resolved:
  assumes "active_ok p agg" "paths_ok p" "distinct (map fst (target_states agg))"
    and "IsActiveTarget p agg t" "ts_current (state_of agg t)" "target_data_of p t = Some td"
    and "GetDocumentPaths (td_target td) = Some (Some ps)" "key \<in> set ps" "key \<notin> snapshot_keys p t"
  shows "\<exists>agg' event doc. CreateRemoteEvent p v agg = Some (agg', event) \<and>
    map_of (document_updates event) key = Some doc \<and>
    (map_of (pending_document_updates agg) key = Some doc \<or> doc = NoDocument key v)"
proof -
  let ?ids = "map fst (target_states agg)"
  have "state_of agg t \<noteq> TargetState_new" using assms(5) by (auto simp: TargetState_new_def)
  then have "map_of (target_states agg) t \<noteq> None" by (cases "map_of (target_states agg) t") (simp_all add: state_of_def)
  then have t: "t \<in> set ?ids" by (simp add: map_of_eq_None_iff)
  obtain a cs where a: "raise_targets p v ?ids agg = Some (a, cs)" "updates_extend v agg a"
    "names_missing p t (map_of (pending_document_updates a))"
    using raise_targets_ok [OF assms(1-3), of v] t assms(4,5) by metis
  then obtain doc where doc: "map_of (pending_document_updates a) key = Some doc"
    using assms(6-9) by (auto simp: names_missing_def)
  then have "map_of (pending_document_updates agg) key = Some doc \<or> doc = NoDocument key v"
    using a(2) by (simp add: updates_extend_def)
  then show ?thesis using doc by (auto simp: CreateRemoteEvent_def a(1))
qed

section \<open>Reachable states\<close>

text \<open>The table of targets has one entry per target and never counts below zero responses.\<close>

definition table_ok :: "WatchAggregator \<Rightarrow> bool" where
  "table_ok agg \<longleftrightarrow>
     distinct (map fst (target_states agg)) \<and> (\<forall>t. 0 \<le> outstanding_responses (state_of agg t))"

lemma table_ok_update_state:
  "table_ok agg \<Longrightarrow> 0 \<le> outstanding_responses (f (state_of agg t)) \<Longrightarrow> table_ok (update_state t f agg)"
  by (simp add: table_ok_def) (simp add: update_state_def distinct_update)

lemma outstanding_simps [simp]:
  "outstanding_responses (AddDocumentChange key type s) = outstanding_responses s"
  "outstanding_responses (RemoveDocumentChange key s) = outstanding_responses s"
  "outstanding_responses (UpdateResumeToken token s) = outstanding_responses s"
  "outstanding_responses (MarkCurrent s) = outstanding_responses s"
  "outstanding_responses (ClearPendingChanges s) = outstanding_responses s"
  "outstanding_responses (RecordTargetResponse s) = outstanding_responses s - 1"
  "outstanding_responses (TargetState_RecordPendingTargetRequest s) = outstanding_responses s + 1"
  "outstanding_responses TargetState_new = 0"
  by (simp_all add: AddDocumentChange_def RemoveDocumentChange_def UpdateResumeToken_def MarkCurrent_def
      ClearPendingChanges_def RecordTargetResponse_def TargetState_RecordPendingTargetRequest_def TargetState_new_def)

lemma table_ok_state: "table_ok agg \<Longrightarrow> 0 \<le> outstanding_responses (state_of agg t)"
  by (simp add: table_ok_def)

lemma table_ok_map_document [simp]: "table_ok (map_document key t agg) = table_ok agg"
  by (simp add: table_ok_def) (simp add: map_document_def Let_def)

lemma table_ok_frame [simp]:
  "table_ok (agg\<lparr>pending_document_updates := d\<rparr>) = table_ok agg"
  "table_ok (agg\<lparr>pending_target_resets := r\<rparr>) = table_ok agg"
  "table_ok (agg\<lparr>pending_document_target_mappings := m\<rparr>) = table_ok agg"
  by (simp_all add: table_ok_def state_of_def)

lemma table_ok_RemoveTarget: "table_ok agg \<Longrightarrow> table_ok (RemoveTarget t agg)"
  by (simp add: table_ok_def) (simp add: RemoveTarget_def distinct_delete)

lemma table_ok_document_ops:
  assumes "table_ok agg"
  shows "table_ok (AddDocumentToTarget p t doc agg)" "table_ok (RemoveDocumentFromTarget p t key doc' agg)"
  using assms table_ok_state [OF assms]
  by (auto simp: AddDocumentToTarget_def RemoveDocumentFromTarget_def Let_def intro!: table_ok_update_state split: option.splits)

lemma table_ok_fold:
  "(\<And>x agg. table_ok agg \<Longrightarrow> table_ok (f x agg)) \<Longrightarrow> table_ok agg \<Longrightarrow> table_ok (fold f xs agg)"
  by (induction xs arbitrary: agg) auto

lemma table_ok_HandleDocumentChange: "table_ok agg \<Longrightarrow> table_ok (HandleDocumentChange p change agg)"
  unfolding HandleDocumentChange_def
  by (intro table_ok_fold) (auto simp: updated_target_def table_ok_document_ops split: option.splits)

lemma table_ok_ResetTarget:
  assumes "table_ok agg" "ResetTarget p t agg = Some agg'"
  shows "table_ok agg'"
proof -
  have "agg' = fold (\<lambda>key. RemoveDocumentFromTarget p t key None) (remote_keys p t) (update_state t (\<lambda>_. TargetState_new) agg)"
    using assms(2) by (auto simp: ResetTarget_def update_state_def split: option.splits if_splits)
  then show ?thesis using assms(1) by (auto intro!: table_ok_fold table_ok_document_ops table_ok_update_state)
qed

lemma table_ok_EnsureTargetState: "table_ok agg \<Longrightarrow> table_ok (EnsureTargetState t agg)"
  using table_ok_update_state [of agg "\<lambda>s. s" t] table_ok_state by (simp add: EnsureTargetState_def update_state_def)

lemma table_ok_target_change_step:
  assumes "table_ok agg" "target_change_step p change t agg = Some agg'"
    and "change_state change \<in> {TargetAdded, TargetRemoved} \<Longrightarrow> 0 < outstanding_responses (state_of agg t)"
  shows "table_ok agg'"
proof -
  note e = table_ok_EnsureTargetState [OF assms(1), of t]
  have s: "0 \<le> outstanding_responses (state_of agg t)" by (rule table_ok_state [OF assms(1)])
  have up: "table_ok a \<Longrightarrow> table_ok (update_state t (UpdateResumeToken tk) a)" for a tk
    by (rule table_ok_update_state) (simp_all add: table_ok_state)
  have r: "table_ok (update_state t RecordTargetResponse (EnsureTargetState t agg))"
    if "change_state change \<in> {TargetAdded, TargetRemoved}"
    using assms(3) [OF that] by (intro table_ok_update_state [OF e]) simp
  have c: "table_ok (update_state t ClearPendingChanges (update_state t RecordTargetResponse (EnsureTargetState t agg)))"
    if "change_state change \<in> {TargetAdded, TargetRemoved}"
    using assms(3) [OF that] by (intro table_ok_update_state r [OF that]) simp
  show ?thesis
    using assms(2) e s r c table_ok_RemoveTarget up table_ok_ResetTarget [OF e]
    by (cases "change_state change")
      (auto simp: target_change_step_def Let_def intro!: table_ok_update_state [OF e] split: if_splits)
qed

lemma table_ok_target_change_steps:
  assumes "table_ok agg" "active_ok p agg" "target_change_steps p change ids agg = Some agg'" "distinct ids"
    and "change_state change \<in> {TargetAdded, TargetRemoved} \<Longrightarrow> \<forall>t \<in> set ids. 0 < outstanding_responses (state_of agg t)"
    and "change_state change = TargetRemoved \<longrightarrow> cause_ok change"
  shows "table_ok agg'"
  using assms(1-5)
proof (induction ids arbitrary: agg)
  case (Cons i ids)
  obtain a where a: "target_change_step p change i agg = Some a" "active_ok p a" "\<forall>u. u \<noteq> i \<longrightarrow> state_of a u = state_of agg u"
    using target_change_step_ok [OF Cons.prems(2) assms(6), of i] by blast
  have ok: "table_ok a" using table_ok_target_change_step [OF Cons.prems(1) a(1)] Cons.prems(5) by simp
  have "change_state change \<in> {TargetAdded, TargetRemoved} \<Longrightarrow> \<forall>t \<in> set ids. 0 < outstanding_responses (state_of a t)"
    using Cons.prems(4,5) a(3) by (metis distinct.simps(2) list.set_intros(2))
  then show ?case using Cons.IH [OF ok a(2)] Cons.prems(3,4) a(1) by simp
qed simp

lemma table_ok_filter_removed:
  "table_ok agg \<Longrightarrow> filter_removed p bf t keys agg = Some (agg', n) \<Longrightarrow> table_ok agg'"
proof (induction keys arbitrary: agg n)
  case (Cons k keys)
  then obtain b where b: "MightContain bf (document_name p k) = Some b" by (auto split: option.splits simp: bind_eq_Some_conv)
  show ?case
  proof (cases b)
    case True
    then show ?thesis using Cons b by simp
  next
    case False
    then obtain m where "filter_removed p bf t keys (RemoveDocumentFromTarget p t k None agg) = Some (agg', m)"
      using Cons.prems(2) b by auto
    then show ?thesis using Cons.IH table_ok_document_ops(2) [OF Cons.prems(1)] by blast
  qed
qed simp

lemma table_ok_HandleExistenceFilter:
  assumes "table_ok agg" "HandleExistenceFilter p ef agg = Some agg'"
  shows "table_ok agg'"
proof -
  let ?t = "ef_target_id ef"
  have count: "GetCurrentDocumentCountForTarget p t agg = Some (a, n) \<Longrightarrow> table_ok a" for t a n
    using table_ok_EnsureTargetState [OF assms(1)] by (auto simp: GetCurrentDocumentCountForTarget_def bind_eq_Some_conv)
  have apply_filter: "ApplyBloomFilter p bf ef n a = Some (b, st) \<Longrightarrow> table_ok a \<Longrightarrow> table_ok b" for bf n a b st
    using table_ok_filter_removed by (auto simp: ApplyBloomFilter_def FilterRemovedDocuments_def bind_eq_Some_conv)
  show ?thesis
  proof (cases "TargetDataForActiveTarget p agg ?t")
    case None
    then show ?thesis using assms by (simp add: HandleExistenceFilter_def Let_def)
  next
    case (Some td)
    then obtain single where single: "GetSingleDocumentPath (td_target td) = Some single"
      using assms(2) by (auto simp: HandleExistenceFilter_def Let_def bind_eq_Some_conv)
    show ?thesis
    proof (cases single)
      case (Some path)
      then show ?thesis
        using assms single \<open>TargetDataForActiveTarget p agg ?t = Some td\<close> table_ok_document_ops(2) [OF assms(1)]
        by (auto simp: HandleExistenceFilter_def Let_def bind_eq_Some_conv split: if_splits)
    next
      case None
      define filtered where "filtered a n =
        (case usable_filter ef of Some bf \<Rightarrow> ApplyBloomFilter p bf ef n a | None \<Rightarrow> Some (a, kSkipped))" for a n
      define mismatch where "mismatch st c = (let purpose = (if st = kFalsePositive then ExistenceFilterMismatchBloom else ExistenceFilterMismatch);
          resets = pending_target_resets c
        in c\<lparr>pending_target_resets := (if map_of resets ?t = None then resets @ [(?t, purpose)] else resets)\<rparr>)"
        for st and c :: WatchAggregator
      have "HandleExistenceFilter p ef agg =
          do { (a, n) \<leftarrow> GetCurrentDocumentCountForTarget p ?t agg;
               if n = ef_count ef then Some a
               else do { (b, st) \<leftarrow> filtered a n;
                         if st = kSuccess then Some b else ResetTarget p ?t b \<bind> (\<lambda>c. Some (mismatch st c)) } }"
        using None single \<open>TargetDataForActiveTarget p agg ?t = Some td\<close>
        by (simp add: HandleExistenceFilter_def Let_def ParseBloomFilter_usable filtered_def mismatch_def
            cong: if_cong)
      then obtain a n where a: "GetCurrentDocumentCountForTarget p ?t agg = Some (a, n)"
        "(if n = ef_count ef then Some a else do { (b, st) \<leftarrow> filtered a n;
            if st = kSuccess then Some b else ResetTarget p ?t b \<bind> (\<lambda>c. Some (mismatch st c)) }) = Some agg'"
        using assms(2) by (cases "GetCurrentDocumentCountForTarget p ?t agg") auto
      have ok: "table_ok a" by (rule count [OF a(1)])
      show ?thesis
      proof (cases "n = ef_count ef")
        case True
        then show ?thesis using ok a(2) by simp
      next
        case False
        then obtain b st where b: "filtered a n = Some (b, st)"
          "(if st = kSuccess then Some b else ResetTarget p ?t b \<bind> (\<lambda>c. Some (mismatch st c))) = Some agg'"
          using a(2) by (cases "filtered a n") auto
        have "table_ok b" using b(1) ok apply_filter by (auto simp: filtered_def split: option.splits)
        then show ?thesis
          using b(2) table_ok_ResetTarget by (auto simp: mismatch_def Let_def bind_eq_Some_conv split: if_splits)
      qed
    qed
  qed
qed

lemma table_ok_synthesize: "table_ok agg \<Longrightarrow> synthesize_deletes p v t paths agg = Some agg' \<Longrightarrow> table_ok agg'"
proof (induction paths arbitrary: agg)
  case (Cons k paths)
  then show ?case
    using Cons.IH [OF table_ok_document_ops(2) [OF Cons.prems(1)]] by (auto simp: bind_eq_Some_conv split: if_splits)
qed simp

lemma table_ok_raise_target:
  assumes "table_ok agg" "raise_target p v t agg = Some (agg', cs)"
  shows "table_ok agg'"
proof (cases "TargetDataForActiveTarget p agg t")
  case None
  then show ?thesis using assms by (simp add: raise_target_def)
next
  case (Some td)
  then obtain ps a where a: "GetDocumentPaths (td_target td) = Some ps"
    "(case ps of Some paths \<Rightarrow> (if ts_current (state_of agg t) then synthesize_deletes p v t paths agg else Some agg)
      | None \<Rightarrow> Some agg) = Some a"
    "agg' = a \<or> agg' = update_state t ClearPendingChanges a"
    using assms(2) by (auto simp: raise_target_def bind_eq_Some_conv split: if_splits)
  have "table_ok a" using a(2) assms(1) table_ok_synthesize by (auto split: option.splits if_splits)
  moreover from this have "table_ok (update_state t ClearPendingChanges a)"
    by (rule table_ok_update_state) (simp add: table_ok_state [OF \<open>table_ok a\<close>])
  ultimately show ?thesis using a(3) by blast
qed

lemma table_ok_raise_targets: "table_ok agg \<Longrightarrow> raise_targets p v ids agg = Some (agg', cs) \<Longrightarrow> table_ok agg'"
  by (induction ids arbitrary: agg cs) (auto simp: bind_eq_Some_conv dest: table_ok_raise_target)

lemma table_ok_CreateRemoteEvent: "table_ok agg \<Longrightarrow> CreateRemoteEvent p v agg = Some (agg', event) \<Longrightarrow> table_ok agg'"
  by (auto simp: CreateRemoteEvent_def bind_eq_Some_conv dest: table_ok_raise_targets)

text \<open>
  The steps of a watch stream.  The backend answers only requests that were made; a listen or
  an unlisten changes the metadata of one target and records the request; an event is applied
  to the metadata before the next change.
\<close>

inductive watch_reachable :: "TargetMetadataProvider \<Rightarrow> WatchAggregator \<Rightarrow> bool" where
  start: "watch_reachable p WatchAggregator_new"
| document: "watch_reachable p agg \<Longrightarrow> watch_reachable p (HandleDocumentChange p change agg)"
| target: "watch_reachable p agg \<Longrightarrow> HandleTargetChange p change agg = Some agg' \<Longrightarrow>
    distinct (change_target_ids change) \<Longrightarrow>
    (change_state change \<in> {TargetAdded, TargetRemoved} \<longrightarrow>
       (\<forall>t \<in> set (GetTargetIds p agg change). 0 < outstanding_responses (state_of agg t))) \<Longrightarrow>
    watch_reachable p agg'"
| existence: "watch_reachable p agg \<Longrightarrow> HandleExistenceFilter p ef agg = Some agg' \<Longrightarrow> keys_ok p \<Longrightarrow>
    (\<forall>bf. usable_filter ef = Some bf \<longrightarrow> bit_count bf \<le> 2 ^ 31) \<Longrightarrow> watch_reachable p agg'"
| event: "watch_reachable p agg \<Longrightarrow> CreateRemoteEvent p v agg = Some (agg', event) \<Longrightarrow> paths_ok p \<Longrightarrow>
    apply_event event p q \<Longrightarrow> watch_reachable q agg'"
| request: "watch_reachable p agg \<Longrightarrow>
    (\<forall>u. u \<noteq> t \<longrightarrow> remote_keys q u = remote_keys p u \<and> target_data_of q u = target_data_of p u) \<Longrightarrow>
    watch_reachable q (RecordPendingTargetRequest t agg)"

inductive_cases watch_reachable_new: "watch_reachable p WatchAggregator_new"

lemma cause_of_success:
  assumes "target_change_steps p change ids agg = Some agg'" "ids \<noteq> []"
  shows "change_state change = TargetRemoved \<longrightarrow> cause_ok change"
  using assms by (cases ids) (auto simp: target_change_step_def Let_def bind_eq_Some_conv split: if_splits)

lemma GetTargetIds_distinct:
  "table_ok agg \<Longrightarrow> distinct (change_target_ids change) \<Longrightarrow> distinct (GetTargetIds p agg change)"
  by (simp add: GetTargetIds_def table_ok_def)

lemma watch_invariant: "watch_reachable p agg \<Longrightarrow> active_ok p agg \<and> table_ok agg"
proof (induction rule: watch_reachable.induct)
  case (start p)
  have "state_of WatchAggregator_new t = TargetState_new" for t by (simp add: state_of_def WatchAggregator_new_def)
  then show ?case by (simp add: active_ok_def table_ok_def) (simp add: WatchAggregator_new_def)
next
  case (document p agg change)
  have "active_ok p (fold (updated_target p change) (updated_target_ids change) agg)"
    using fold_updated_ids document.IH by blast
  then have "active_ok p (HandleDocumentChange p change agg)"
    unfolding HandleDocumentChange_def by (rule fold_remove_ids [THEN conjunct1])
  then show ?case using document.IH table_ok_HandleDocumentChange by blast
next
  case (target p agg change agg')
  let ?ids = "GetTargetIds p agg change"
  have steps: "target_change_steps p change ?ids agg = Some agg'" using target.hyps(2) by (simp add: HandleTargetChange_def)
  show ?case
  proof (cases "?ids = []")
    case False
    note cause = cause_of_success [OF steps False]
    have d: "distinct ?ids" using GetTargetIds_distinct target.IH target.hyps(3) by blast
    show ?thesis
      using target_change_steps_ok [of p agg change ?ids, OF _ cause d]
        table_ok_target_change_steps [of agg p change ?ids agg', OF _ _ steps d _ cause] steps target.IH target.hyps(4)
      by auto
  qed (use steps target.IH in simp)
next
  case (existence p agg ef agg')
  let ?t = "ef_target_id ef"
  have "active_ok p agg'"
  proof (cases "TargetDataForActiveTarget p agg ?t")
    case None
    then show ?thesis using existence by (simp add: HandleExistenceFilter_def Let_def)
  next
    case (Some td)
    then obtain single where single: "GetSingleDocumentPath (td_target td) = Some single"
      using existence.hyps(2) by (auto simp: HandleExistenceFilter_def Let_def bind_eq_Some_conv)
    show ?thesis
    proof (cases single)
      case None
      then show ?thesis
        using existence_filter_result [OF _ existence.hyps(3) refl Some] single existence.hyps(2,4) existence.IH by auto
    next
      case (Some path)
      then show ?thesis
        using existence.hyps(2) existence.IH RemoveDocumentFromTarget_ok single \<open>TargetDataForActiveTarget p agg ?t = Some td\<close>
        by (auto simp: HandleExistenceFilter_def Let_def bind_eq_Some_conv split: if_splits)
    qed
  qed
  then show ?case using existence table_ok_HandleExistenceFilter by blast
next
  case (event p agg v agg' event q)
  have "distinct (map fst (target_states agg))" using event.IH by (simp add: table_ok_def)
  then have "active_ok q agg'"
    using remote_event_result [of p agg v] event.IH event.hyps by auto
  then show ?case using event table_ok_CreateRemoteEvent by blast
next
  case (request p agg t q)
  have pending: "IsPending (TargetState_RecordPendingTargetRequest (state_of agg t))"
    using request.IH table_ok_state [of agg t] by (simp add: IsPending_def)
  have active: "IsActiveTarget q (RecordPendingTargetRequest t agg) u \<longleftrightarrow> u \<noteq> t \<and> IsActiveTarget p agg u" for u
    using pending request.hyps(2) by (auto simp: IsActiveTarget_state RecordPendingTargetRequest_def)
  have "active_ok q (RecordPendingTargetRequest t agg)"
    unfolding active_ok_def active using request.IH request.hyps(2)
    by (auto simp: active_ok_def RecordPendingTargetRequest_def)
  moreover have "table_ok (RecordPendingTargetRequest t agg)"
    using request.IH table_ok_state [of agg t] by (simp add: RecordPendingTargetRequest_def table_ok_update_state)
  ultimately show ?case ..
qed

text \<open>C5: In every state a watch stream can reach, the recorded changes of every active target are exactly
  the differences to its last snapshot, no target counts below zero outstanding responses,
  and an event can be raised whose changes are these differences.\<close>
theorem watch_changes_stay_exact:
  assumes "watch_reachable p agg"
  shows "active_ok p agg \<and> (\<forall>t. 0 \<le> outstanding_responses (state_of agg t)) \<and>
    (paths_ok p \<longrightarrow> (\<exists>agg' event. CreateRemoteEvent p v agg = Some (agg', event) \<and>
      (\<forall>t. IsActiveTarget p agg t \<longrightarrow>
         exact_change (snapshot_keys p t) (target_documents p agg t) (map_of (target_changes event) t))))"
proof -
  note inv = watch_invariant [OF assms]
  then have "distinct (map fst (target_states agg))" by (simp add: table_ok_def)
  then show ?thesis using inv remote_event_result [of p agg v] table_ok_state by (metis (full_types))
qed

section \<open>Witnesses\<close>

definition no_filters :: "path \<Rightarrow> Target" where
  "no_filters path =
     \<lparr>target_path = path, target_collection_group = None, target_filters = [], target_order_bys = [],
      target_limit = kNoLimit, target_start_at = None, target_end_at = None\<rparr>"

definition demo_provider :: TargetMetadataProvider where
  "demo_provider =
     \<lparr>remote_keys = (\<lambda>t. if t = 2 then [[''c'', ''a''], [''c'', ''b'']] else []),
      target_data_of = (\<lambda>t. if t = 2 then Some (TargetData_new (TargetOf (no_filters [''c''])) 2 1 Listen)
        else if t = 4 then Some (TargetData_new (TargetOf (no_filters [''c'', ''x''])) 4 2 LimboResolution) else None),
      project_id = ''p'', database_id = ''d''\<rparr>"

definition demo_state :: "(path \<times> DocumentChangeType) list \<Rightarrow> bool \<Rightarrow> TargetState" where
  "demo_state changes current =
     \<lparr>outstanding_responses = 0, document_changes = changes, ts_resume_token = [], ts_current = current,
      has_pending_changes = True\<rparr>"

definition demo_doc :: "path \<Rightarrow> MutableDocument" where
  "demo_doc key = FoundDocument key SnapshotVersion_None []"

definition demo_agg :: WatchAggregator where
  "demo_agg =
     \<lparr>target_states = [(2, demo_state [([''c'', ''a''], Removed), ([''c'', ''d''], Added)] False), (4, demo_state [] True)],
      pending_document_updates = [([''c'', ''d''], demo_doc [''c'', ''d''])],
      pending_document_target_mappings = [], pending_target_resets = []\<rparr>"

lemma demo_states: "state_of demo_agg t =
    (if t = 2 then demo_state [([''c'', ''a''], Removed), ([''c'', ''d''], Added)] False
     else if t = 4 then demo_state [] True else TargetState_new)"
  by (simp add: state_of_def demo_agg_def)

lemma demo_active: "IsActiveTarget demo_provider demo_agg t \<longleftrightarrow> t = 2 \<or> t = 4"
  by (auto simp: IsActiveTarget_state demo_states demo_provider_def IsPending_def demo_state_def)

lemma demo_ok: "active_ok demo_provider demo_agg"
proof -
  have "target_ok (snapshot_keys demo_provider 2) (map_of (pending_document_updates demo_agg)) (state_of demo_agg 2)"
    unfolding target_ok_def changes_ok_def demo_states
    by (simp add: demo_state_def demo_provider_def demo_agg_def)
  moreover have "target_ok (snapshot_keys demo_provider 4) (map_of (pending_document_updates demo_agg)) (state_of demo_agg 4)"
    by (simp add: target_ok_empty demo_states demo_state_def)
  ultimately show ?thesis by (auto simp: active_ok_def demo_active)
qed

lemma demo_documents: "target_documents demo_provider demo_agg 2 = {[''c'', ''b''], [''c'', ''d'']}"
  by (auto simp: target_documents_def documents_of_def changes_of_def demo_states demo_state_def demo_provider_def)

lemma demo_paths: "paths_ok demo_provider"
  by (auto simp: paths_ok_def demo_provider_def TargetData_new_def Target_IsDocumentQuery_def no_filters_def IsDocumentKey_def)

lemma demo_keys: "keys_ok demo_provider"
  by (simp add: keys_ok_def demo_provider_def)

lemma demo_distinct: "distinct (map fst (target_states demo_agg))"
  by (simp add: demo_agg_def)

theorem document_change_refines_witness:
  "target_documents demo_provider (HandleDocumentChange demo_provider
     \<lparr>updated_target_ids = [2], removed_target_ids = [], change_key = [''c'', ''e''], new_document = Some (demo_doc [''c'', ''e''])\<rparr>
     demo_agg) 2 = {[''c'', ''b''], [''c'', ''d''], [''c'', ''e'']}"
  using document_change_refines [OF demo_ok, of "\<lparr>updated_target_ids = [2], removed_target_ids = [], change_key = [''c'', ''e''],
      new_document = Some (demo_doc [''c'', ''e''])\<rparr>" 2] demo_documents
  by (simp add: demo_active updated_documents_def demo_doc_def FoundDocument_def document_defs InvalidDocument_def insert_commute)

theorem target_change_refines_witness:
  "\<exists>agg'. HandleTargetChange demo_provider
     \<lparr>change_state = TargetReset, change_target_ids = [2], change_resume_token = [], cause_ok = True\<rparr> demo_agg = Some agg' \<and>
     target_documents demo_provider agg' 2 = {}"
  using target_change_refines [OF demo_ok, of "\<lparr>change_state = TargetReset, change_target_ids = [2], change_resume_token = [], cause_ok = True\<rparr>"]
  by (auto simp: GetTargetIds_def target_change_documents_def demo_active)

definition zero_filter :: ExistenceFilterWatchChange where
  "zero_filter =
     \<lparr>ef_count = 0, bloom_filter_parameters = Some \<lparr>bfp_bitmap = [0], bfp_padding = 0, bfp_hash_count = 1\<rparr>, ef_target_id = 2\<rparr>"

lemma zero_filter_usable: "usable_filter zero_filter = Some \<lparr>bit_count = 8, hash_count = 1, bitmap = [0]\<rparr>"
  by (simp add: usable_filter_def zero_filter_def BloomFilter_Create_def BloomFilter_new_def Let_def)

lemma zero_filter_excludes: "MightContain \<lparr>bit_count = 8, hash_count = 1, bitmap = [0]\<rparr> s = Some False"
proof -
  let ?bf = "\<lparr>bit_count = 8, hash_count = 1, bitmap = [0]\<rparr>"
  have ok: "bloom_ok ?bf" by (simp add: bloom_ok_def)
  obtain i where "GetBitIndex ?bf (Md5HashDigest s) 0 = Some (int i)" "int i < 8"
    using GetBitIndex_ok [OF ok, of 0 s] by auto
  then have "\<not> bloom_bit ?bf (bloom_index ?bf s 0)"
    using GetBitIndex_ok [OF ok, of 0 s] by (simp add: bloom_bit_def)
  then show ?thesis using MightContain_bits [OF ok, of s] by auto
qed

lemma demo_data: "TargetDataForActiveTarget demo_provider demo_agg 2 = Some (TargetData_new (TargetOf (no_filters [''c''])) 2 1 Listen)"
  by (simp add: active_state demo_states demo_state_def IsPending_def demo_provider_def)

lemma demo_single: "GetSingleDocumentPath (td_target (TargetData_new (TargetOf (no_filters [''c''])) 2 1 Listen)) = Some None"
  by (simp add: TargetData_new_def Target_IsDocumentQuery_def no_filters_def IsDocumentKey_def)

theorem existence_filter_outcome_witness:
  "\<exists>agg'. HandleExistenceFilter demo_provider \<lparr>ef_count = 5, bloom_filter_parameters = None, ef_target_id = 2\<rparr> demo_agg = Some agg' \<and>
     target_documents demo_provider agg' 2 = {} \<and> map_of (pending_target_resets agg') 2 = Some ExistenceFilterMismatch"
proof -
  let ?ef = "\<lparr>ef_count = 5, bloom_filter_parameters = None, ef_target_id = 2\<rparr>"
  have ef: "2 = ef_target_id ?ef" "usable_filter ?ef = None" "ef_count ?ef = 5" by (simp_all add: usable_filter_def)
  then have "\<forall>bf. usable_filter ?ef = Some bf \<longrightarrow> bit_count bf \<le> 2 ^ 31" by simp
  note outcome = existence_filter_outcome [OF demo_ok demo_keys ef(1) this, unfolded demo_data demo_single option.case ef(2,3)]
  have "int (card (target_documents demo_provider demo_agg 2)) \<noteq> 5" by (simp add: demo_documents)
  moreover have "pending_target_resets demo_agg = []" by (simp add: demo_agg_def)
  ultimately show ?thesis using outcome by (auto simp only: purpose_recorded_def if_False if_not_P map_of.simps option.case fun_upd_same)
qed

theorem accepted_filter_counts_removals_twice_witness:
  "\<exists>agg'. HandleExistenceFilter demo_provider zero_filter demo_agg = Some agg' \<and> pending_target_resets agg' = [] \<and>
     card (target_documents demo_provider agg' 2) = 1 \<and> ef_count zero_filter = 0"
proof -
  let ?bf = "\<lparr>bit_count = 8, hash_count = 1, bitmap = [0]\<rparr>"
  have missing: "missing_keys demo_provider ?bf 2 = {[''c'', ''a''], [''c'', ''b'']}"
    by (auto simp: missing_keys_def zero_filter_excludes demo_provider_def)
  have "2 = ef_target_id zero_filter" "ef_count zero_filter = 0" by (simp_all add: zero_filter_def)
  then show ?thesis
    using accepted_filter_counts_removals_twice [OF demo_ok demo_keys _ demo_data demo_single zero_filter_usable]
    by (auto simp: demo_documents missing demo_agg_def [THEN arg_cong [of _ _ pending_target_resets]])
qed

lemma demo_event: "\<exists>agg' event. CreateRemoteEvent demo_provider v demo_agg = Some (agg', event)"
  using remote_event_result [OF demo_ok demo_paths demo_distinct] by blast

theorem remote_event_exact_witness:
  "\<exists>agg' event. CreateRemoteEvent demo_provider SnapshotVersion_None demo_agg = Some (agg', event) \<and>
     exact_change {[''c'', ''a''], [''c'', ''b'']} {[''c'', ''b''], [''c'', ''d'']} (map_of (target_changes event) 2)"
proof -
  have "snapshot_keys demo_provider 2 = {[''c'', ''a''], [''c'', ''b'']}" by (simp add: demo_provider_def)
  then show ?thesis
    using remote_event_exact [OF demo_ok demo_paths demo_distinct, of SnapshotVersion_None] demo_documents demo_active by (metis (full_types))
qed

theorem current_documents_resolved_witness:
  "\<exists>agg' event. CreateRemoteEvent demo_provider SnapshotVersion_None demo_agg = Some (agg', event) \<and>
     map_of (document_updates event) [''c'', ''x''] = Some (NoDocument [''c'', ''x''] SnapshotVersion_None)"
proof -
  have "IsActiveTarget demo_provider demo_agg 4" "ts_current (state_of demo_agg 4)"
    by (simp_all add: demo_active demo_states demo_state_def)
  moreover have "target_data_of demo_provider 4 = Some (TargetData_new (TargetOf (no_filters [''c'', ''x''])) 4 2 LimboResolution)"
    by (simp add: demo_provider_def)
  moreover have "GetDocumentPaths (td_target (TargetData_new (TargetOf (no_filters [''c'', ''x''])) 4 2 LimboResolution)) =
      Some (Some [[''c'', ''x'']])"
    by (simp add: TargetData_new_def Target_IsDocumentQuery_def no_filters_def IsDocumentKey_def)
  moreover have "[''c'', ''x''] \<notin> snapshot_keys demo_provider 4" by (simp add: demo_provider_def)
  ultimately show ?thesis
    using current_documents_resolved [OF demo_ok demo_paths demo_distinct, of 4 _ _ "[''c'', ''x'']" SnapshotVersion_None]
    by (auto simp: demo_agg_def [THEN arg_cong [of _ _ pending_document_updates]])
qed

theorem watch_changes_stay_exact_witness:
  "active_ok demo_provider (RecordPendingTargetRequest 2 WatchAggregator_new)"
  using watch_changes_stay_exact [OF watch_reachable.request [OF watch_reachable.start]] by blast

end
