(* ===== verification/DocumentSets.thy ===== *)
theory DocumentSets
  imports WatchChanges
begin

text \<open>
  The set of documents of a view (\<^verbatim>\<open>model/document_set.cc\<close>): an index by key and a set sorted by
  the comparator of the query.  The sorted set is the list of its elements, the index an
  association list; the comparator may fail, and then every operation that calls it fails.
  The locale \<open>document_order\<close> is what the set relies on: on a class of documents the
  comparator answers with a total order that has ties only between documents of one key.
  There the two parts agree and the set behaves like a map from keys to documents.
\<close>

section \<open>Document sets\<close>

type_synonym DocumentComparator = "MutableDocument \<Rightarrow> MutableDocument \<Rightarrow> ComparisonResult option"

record DocumentSet =
  ds_comparator :: DocumentComparator
  ds_index :: "(path \<times> MutableDocument) list"
  ds_sorted :: "MutableDocument list"

definition DocumentSet_new :: "DocumentComparator \<Rightarrow> DocumentSet" where
  "DocumentSet_new cmp = \<lparr>ds_comparator = cmp, ds_index = [], ds_sorted = []\<rparr>"

fun sorted_insert :: "DocumentComparator \<Rightarrow> MutableDocument \<Rightarrow> MutableDocument list \<Rightarrow> MutableDocument list option" where
  "sorted_insert cmp d [] = Some [d]"
| "sorted_insert cmp d (e # es) =
     do {
       result \<leftarrow> cmp d e;
       case result of
         Ascending \<Rightarrow> Some (d # e # es)
       | Same \<Rightarrow> Some (d # es)
       | Descending \<Rightarrow> map_option ((#) e) (sorted_insert cmp d es)
     }"

fun sorted_erase :: "DocumentComparator \<Rightarrow> MutableDocument \<Rightarrow> MutableDocument list \<Rightarrow> MutableDocument list option" where
  "sorted_erase cmp d [] = Some []"
| "sorted_erase cmp d (e # es) =
     do {
       result \<leftarrow> cmp d e;
       case result of
         Ascending \<Rightarrow> Some (e # es)
       | Same \<Rightarrow> Some es
       | Descending \<Rightarrow> map_option ((#) e) (sorted_erase cmp d es)
     }"

fun sorted_find_index :: "DocumentComparator \<Rightarrow> MutableDocument \<Rightarrow> MutableDocument list \<Rightarrow> nat option option" where
  "sorted_find_index cmp d [] = Some None"
| "sorted_find_index cmp d (e # es) =
     do {
       result \<leftarrow> cmp d e;
       case result of
         Ascending \<Rightarrow> Some None
       | Same \<Rightarrow> Some (Some 0)
       | Descending \<Rightarrow> map_option (map_option Suc) (sorted_find_index cmp d es)
     }"

definition ds_size :: "DocumentSet \<Rightarrow> nat" where
  "ds_size ds = length (ds_index ds)"

definition ContainsKey :: "path \<Rightarrow> DocumentSet \<Rightarrow> bool" where
  "ContainsKey key ds \<longleftrightarrow> map_of (ds_index ds) key \<noteq> None"

definition GetDocument :: "DocumentSet \<Rightarrow> path \<Rightarrow> MutableDocument option" where
  "GetDocument ds key = map_of (ds_index ds) key"

definition GetFirstDocument :: "DocumentSet \<Rightarrow> MutableDocument option" where
  "GetFirstDocument ds = (if ds_sorted ds = [] then None else Some (hd (ds_sorted ds)))"

definition GetLastDocument :: "DocumentSet \<Rightarrow> MutableDocument option" where
  "GetLastDocument ds = (if ds_sorted ds = [] then None else Some (last (ds_sorted ds)))"

text \<open>The position of a key, None inside for \<open>npos\<close>.\<close>

definition IndexOf :: "path \<Rightarrow> DocumentSet \<Rightarrow> nat option option" where
  "IndexOf key ds =
     (case GetDocument ds key of
        Some document \<Rightarrow> sorted_find_index (ds_comparator ds) document (ds_sorted ds)
      | None \<Rightarrow> Some None)"

definition DocumentSet_erase :: "path \<Rightarrow> DocumentSet \<Rightarrow> DocumentSet option" where
  "DocumentSet_erase key ds =
     (case GetDocument ds key of
        None \<Rightarrow> Some ds
      | Some document \<Rightarrow>
          do {
            docs \<leftarrow> sorted_erase (ds_comparator ds) document (ds_sorted ds);
            Some (ds\<lparr>ds_index := AList.delete key (ds_index ds), ds_sorted := docs\<rparr>)
          })"

definition DocumentSet_insert :: "MutableDocument option \<Rightarrow> DocumentSet \<Rightarrow> DocumentSet option" where
  "DocumentSet_insert document ds =
     (case document of
        None \<Rightarrow> Some ds
      | Some doc \<Rightarrow>
          do {
            removed \<leftarrow> DocumentSet_erase (doc_key doc) ds;
            docs \<leftarrow> sorted_insert (ds_comparator ds) doc (ds_sorted removed);
            Some (removed\<lparr>ds_index := AList.update (doc_key doc) doc (ds_index removed), ds_sorted := docs\<rparr>)
          })"

section \<open>The order of a query\<close>

lemma update_fresh: "k \<notin> fst ` set al \<Longrightarrow> AList.update k v al = al @ [(k, v)]"
  by (induction al) auto

locale document_order = order: comparator compare
  for compare :: "MutableDocument \<Rightarrow> MutableDocument \<Rightarrow> ComparisonResult" +
  fixes cmp :: DocumentComparator
    and good :: "MutableDocument \<Rightarrow> bool"
  assumes cmp_total: "good d \<Longrightarrow> good e \<Longrightarrow> cmp d e = Some (compare d e)"
    and cmp_key: "good d \<Longrightarrow> good e \<Longrightarrow> compare d e = Same \<Longrightarrow> doc_key d = doc_key e"
begin

abbreviation before :: "MutableDocument \<Rightarrow> MutableDocument \<Rightarrow> bool" where
  "before d e \<equiv> compare d e = Ascending"

definition sorted_docs :: "MutableDocument list \<Rightarrow> bool" where
  "sorted_docs ds \<longleftrightarrow> sorted_wrt before ds \<and> (\<forall>d \<in> set ds. good d)"

lemma sorted_docs_Nil [simp]: "sorted_docs []"
  by (simp add: sorted_docs_def)

lemma sorted_docs_Cons: "sorted_docs (d # ds) \<longleftrightarrow> good d \<and> (\<forall>e \<in> set ds. before d e) \<and> sorted_docs ds"
  by (auto simp: sorted_docs_def)

lemma not_before_self: "\<not> before d d"
  by (simp add: order.cmp_refl)

lemma sorted_insert_ok:
  assumes "sorted_docs ds" "good d" "\<forall>e \<in> set ds. doc_key e \<noteq> doc_key d"
  shows "\<exists>es. sorted_insert cmp d ds = Some es \<and> sorted_docs es \<and> set es = insert d (set ds)"
  using assms
proof (induction ds)
  case (Cons e ds)
  then have e: "good e" "\<forall>f \<in> set ds. before e f" "sorted_docs ds" by (simp_all add: sorted_docs_Cons)
  obtain es where es: "sorted_insert cmp d ds = Some es" "sorted_docs es" "set es = insert d (set ds)"
    using Cons e by auto
  have c: "cmp d e = Some (compare d e)" using cmp_total e Cons.prems by simp
  have "compare d e \<noteq> Same" using cmp_key [of d e] e Cons.prems by auto
  then consider "before d e" | "compare d e = Descending" by (cases "compare d e") auto
  then show ?case
  proof cases
    case 1
    then have "\<forall>f \<in> set ds. before d f" using e order.lt_trans by blast
    then show ?thesis using 1 c Cons.prems by (simp add: sorted_docs_Cons)
  next
    case 2
    then have "before e d" by (simp add: order.gt_iff)
    then show ?thesis using 2 c es e by (auto simp: sorted_docs_Cons)
  qed
qed (simp add: sorted_docs_Cons)

lemma sorted_erase_ok:
  assumes "sorted_docs ds" "d \<in> set ds"
  shows "\<exists>es. sorted_erase cmp d ds = Some es \<and> sorted_docs es \<and> set es = set ds - {d}"
  using assms
proof (induction ds)
  case (Cons e ds)
  then have e: "good e" "\<forall>f \<in> set ds. before e f" "sorted_docs ds" by (simp_all add: sorted_docs_Cons)
  show ?case
  proof (cases "d = e")
    case True
    then have "d \<notin> set ds" using e not_before_self by blast
    then show ?thesis using True e cmp_total [of e e] by (simp add: order.cmp_refl)
  next
    case False
    then have d: "d \<in> set ds" using Cons.prems by simp
    then have "compare d e = Descending" "good d" using e by (simp_all add: order.gt_iff sorted_docs_def)
    then have "cmp d e = Some Descending" using cmp_total e by simp
    then show ?thesis using Cons.IH [OF e(3) d] e False by (auto simp: sorted_docs_Cons)
  qed
qed simp

lemma sorted_find_index_ok:
  assumes "sorted_docs ds" "i < length ds"
  shows "sorted_find_index cmp (ds ! i) ds = Some (Some i)"
  using assms
proof (induction ds arbitrary: i)
  case (Cons e ds)
  then have e: "good e" "\<forall>f \<in> set ds. before e f" "sorted_docs ds" by (simp_all add: sorted_docs_Cons)
  show ?case
  proof (cases i)
    case 0
    then show ?thesis using e cmp_total [of e e] by (simp add: order.cmp_refl)
  next
    case (Suc j)
    then have j: "j < length ds" "ds ! j \<in> set ds" using Cons.prems by simp_all
    then have "compare (ds ! j) e = Descending" "good (ds ! j)" using e by (simp_all add: order.gt_iff sorted_docs_def)
    then have "cmp (ds ! j) e = Some Descending" using cmp_total e by simp
    then show ?thesis using Cons.IH [OF e(3) j(1)] Suc by simp
  qed
qed simp

lemma sorted_docs_unique:
  "sorted_docs ds \<Longrightarrow> sorted_docs es \<Longrightarrow> set ds = set es \<Longrightarrow> ds = es"
proof (induction ds arbitrary: es)
  case (Cons d ds)
  then obtain e es' where es: "es = e # es'" by (cases es) auto
  have d: "\<forall>f \<in> set ds. before d f" "sorted_docs ds" and e: "\<forall>f \<in> set es'. before e f" "sorted_docs es'"
    using Cons.prems es by (simp_all add: sorted_docs_Cons)
  have "d = e"
  proof (rule ccontr)
    assume "d \<noteq> e"
    then have "before e d" "before d e" using Cons.prems(3) es d e by auto
    then show False using order.gt_iff [of d e] by simp
  qed
  moreover have "d \<notin> set ds" "e \<notin> set es'" using d e not_before_self by blast+
  ultimately have "set ds = set es'" using Cons.prems(3) es by auto
  then show ?case using Cons.IH [OF d(2) e(2)] es \<open>d = e\<close> by simp
qed simp

section \<open>A document set is a map\<close>

definition set_ok :: "DocumentSet \<Rightarrow> bool" where
  "set_ok ds \<longleftrightarrow>
     ds_comparator ds = cmp \<and> sorted_docs (ds_sorted ds) \<and> distinct (map fst (ds_index ds)) \<and>
     (\<forall>e \<in> set (ds_index ds). fst e = doc_key (snd e)) \<and> snd ` set (ds_index ds) = set (ds_sorted ds)"

lemma set_ok_new: "set_ok (DocumentSet_new cmp)"
  by (simp add: set_ok_def DocumentSet_new_def)

lemma set_ok_lookup: "set_ok ds \<Longrightarrow> GetDocument ds key = Some d \<longleftrightarrow> d \<in> set (ds_sorted ds) \<and> doc_key d = key"
  by (force simp: set_ok_def GetDocument_def image_iff)

lemma set_ok_good: "set_ok ds \<Longrightarrow> GetDocument ds key = Some d \<Longrightarrow> good d \<and> doc_key d = key"
  by (auto simp: set_ok_lookup) (simp add: set_ok_def sorted_docs_def)

lemma set_ok_keys: "set_ok ds \<Longrightarrow> d \<in> set (ds_sorted ds) \<Longrightarrow> e \<in> set (ds_sorted ds) \<Longrightarrow> doc_key d = doc_key e \<Longrightarrow> d = e"
  using set_ok_lookup [of ds "doc_key d" d] set_ok_lookup [of ds "doc_key d" e] by simp

lemma set_ok_distinct: "set_ok ds \<Longrightarrow> distinct (ds_sorted ds)"
proof -
  have "sorted_docs xs \<Longrightarrow> distinct xs" for xs
    by (induction xs) (use not_before_self in \<open>auto simp: sorted_docs_Cons\<close>)
  then show "set_ok ds \<Longrightarrow> distinct (ds_sorted ds)" by (simp add: set_ok_def)
qed

lemma set_ok_size: "set_ok ds \<Longrightarrow> ds_size ds = length (ds_sorted ds)"
proof -
  assume ok: "set_ok ds"
  then have keys: "map fst (ds_index ds) = map (doc_key \<circ> snd) (ds_index ds)"
    by (intro map_cong) (auto simp: set_ok_def)
  have "distinct (map fst (ds_index ds))" using ok by (simp add: set_ok_def)
  then have "distinct (map (doc_key \<circ> snd) (ds_index ds))" by (simp only: keys)
  then have "distinct (map snd (ds_index ds))" by (metis distinct_map map_map)
  then have "length (ds_index ds) = card (set (ds_sorted ds))"
    using ok distinct_card [of "map snd (ds_index ds)"] by (simp add: set_ok_def)
  then show "ds_size ds = length (ds_sorted ds)"
    using distinct_card [OF set_ok_distinct [OF ok]] by (simp add: ds_size_def)
qed

text \<open>Two sets with the same documents have them in the same order.\<close>

lemma set_ok_unique: "set_ok ds \<Longrightarrow> set_ok es \<Longrightarrow> GetDocument ds = GetDocument es \<Longrightarrow> ds_sorted ds = ds_sorted es"
proof (rule sorted_docs_unique)
  assume "set_ok ds" "set_ok es" "GetDocument ds = GetDocument es"
  then show "set (ds_sorted ds) = set (ds_sorted es)"
    using set_ok_lookup [of ds] set_ok_lookup [of es] by (metis subsetI subset_antisym)
qed (simp_all add: set_ok_def)

lemma set_ok_removed:
  assumes "set_ok ds" "set_ok es" "d \<in> set (ds_sorted ds)" "GetDocument es = (GetDocument ds)(doc_key d := None)"
  shows "ds_sorted es = filter (\<lambda>e. e \<noteq> d) (ds_sorted ds)"
proof (rule sorted_docs_unique)
  have "e \<in> set (ds_sorted es) \<longleftrightarrow> e \<in> set (ds_sorted ds) \<and> doc_key e \<noteq> doc_key d" for e
    using set_ok_lookup [OF assms(2), of "doc_key e" e] set_ok_lookup [OF assms(1), of "doc_key e" e] assms(4)
    by (simp split: if_splits)
  then show "set (ds_sorted es) = set (filter (\<lambda>e. e \<noteq> d) (ds_sorted ds))"
    using set_ok_keys [OF assms(1) _ assms(3)] by auto
qed (use assms in \<open>auto simp: set_ok_def sorted_docs_def sorted_wrt_filter\<close>)

lemma erase_ok:
  assumes "set_ok ds"
  shows "\<exists>es. DocumentSet_erase key ds = Some es \<and> set_ok es \<and> GetDocument es = (GetDocument ds)(key := None)"
proof (cases "GetDocument ds key")
  case None
  then show ?thesis using assms by (intro exI [of _ ds]) (auto simp: DocumentSet_erase_def)
next
  case (Some d)
  then have d: "d \<in> set (ds_sorted ds)" "doc_key d = key" using assms by (simp_all add: set_ok_lookup)
  then obtain docs where docs: "sorted_erase cmp d (ds_sorted ds) = Some docs" "sorted_docs docs" "set docs = set (ds_sorted ds) - {d}"
    using sorted_erase_ok [of "ds_sorted ds" d] assms by (auto simp: set_ok_def)
  let ?es = "ds\<lparr>ds_index := AList.delete key (ds_index ds), ds_sorted := docs\<rparr>"
  have erased: "DocumentSet_erase key ds = Some ?es"
    using Some docs assms by (simp add: DocumentSet_erase_def set_ok_def)
  have "snd ` set (AList.delete key (ds_index ds)) = set docs"
    using assms set_ok_keys [OF assms] d docs(3) by (force simp: set_ok_def AList.delete_eq image_iff)
  then have "set_ok ?es"
    using assms docs by (auto simp: set_ok_def distinct_delete) (auto simp: AList.delete_eq)
  moreover have "GetDocument ?es = (GetDocument ds)(key := None)"
    by (rule ext) (simp add: GetDocument_def AList.delete_conv')
  ultimately show ?thesis using erased by blast
qed

lemma insert_ok:
  assumes "set_ok ds" "good d"
  shows "\<exists>es. DocumentSet_insert (Some d) ds = Some es \<and> set_ok es \<and> GetDocument es = (GetDocument ds)(doc_key d \<mapsto> d)"
proof -
  obtain rs where rs: "DocumentSet_erase (doc_key d) ds = Some rs" "set_ok rs" "GetDocument rs = (GetDocument ds)(doc_key d := None)"
    using erase_ok [OF assms(1)] by blast
  have fresh: "\<forall>e \<in> set (ds_sorted rs). doc_key e \<noteq> doc_key d"
    using rs(3) set_ok_lookup [OF rs(2), of "doc_key d"] by auto
  obtain docs where docs: "sorted_insert cmp d (ds_sorted rs) = Some docs" "sorted_docs docs" "set docs = insert d (set (ds_sorted rs))"
    using sorted_insert_ok [OF _ assms(2) fresh] rs(2) by (auto simp: set_ok_def)
  have none: "doc_key d \<notin> fst ` set (ds_index rs)"
    using fun_cong [OF rs(3), of "doc_key d"] by (simp add: GetDocument_def map_of_eq_None_iff [symmetric])
  then have upd: "AList.update (doc_key d) d (ds_index rs) = ds_index rs @ [(doc_key d, d)]"
    by (rule update_fresh)
  let ?es = "rs\<lparr>ds_index := AList.update (doc_key d) d (ds_index rs), ds_sorted := docs\<rparr>"
  have "set_ok ?es" using rs(2) docs none by (auto simp: set_ok_def upd)
  moreover have "DocumentSet_insert (Some d) ds = Some ?es"
    using rs docs assms(1) by (simp add: DocumentSet_insert_def set_ok_def)
  moreover have "GetDocument ?es = (GetDocument rs)(doc_key d \<mapsto> d)"
    by (rule ext) (simp add: GetDocument_def AList.update_conv')
  ultimately show ?thesis using rs(3) by auto
qed

end

section \<open>The comparator of a query\<close>

text \<open>
  The comparator of a plain query satisfies the contract on the documents the query matches.
\<close>

definition ordered_match :: "Query \<Rightarrow> MutableDocument \<Rightarrow> bool" where
  "ordered_match query doc \<longleftrightarrow>
     plain_query query \<and> comparable_match query doc \<and> value_ok (map_value (doc_value doc))"

lemma ordered_match_sortable: "ordered_match query d \<Longrightarrow> sortable (normalized_order_bys query) d"
  using matched_sortable [of query d] normalized_plain [of query] plain_segments
  by (simp add: ordered_match_def comparable_match_def del: value_ok.simps)

interpretation query_order: document_order
  "lex_compare (normalized_order_bys query)" "compare_by (normalized_order_bys query)" "ordered_match query"
  for query :: Query
proof (intro document_order.intro document_order_axioms.intro comparator_lex)
  fix d e assume m: "ordered_match query d" "ordered_match query e"
  show "compare_by (normalized_order_bys query) d e = Some (lex_compare (normalized_order_bys query) d e)"
    using m by (simp add: compare_by_lex ordered_match_sortable)
  assume same: "lex_compare (normalized_order_bys query) d e = Same"
  obtain ob where "ob \<in> set (normalized_order_bys query)" "order_field ob = KeyFieldPath"
    using normalized_has_key [of query] m by (auto simp: ordered_match_def)
  then show "doc_key d = doc_key e"
    using same m path_key_inj [of "doc_key d" "doc_key e"]
    by (auto simp: lex_Same order_key_def IsKeyFieldPath_iff ordered_match_def comparable_match_def
        simp del: value_ok.simps)
qed

end
