(* ===== verification/Views.thy ===== *)
theory Views
  imports DocumentSets
begin

text \<open>
  The view of a query (\<^verbatim>\<open>core/view.cc\<close>, \<^verbatim>\<open>core/view_snapshot.cc\<close>): how changed documents
  become a new set of results and a set of changes, and how the changes and the state of the
  target become snapshots and limbo documents.  The query of a view is a \<^verbatim>\<open>Query\<close>; pipelines
  are not modelled.  A document map is the list of its entries, a change set an association
  list, whose order the sort of \<open>View_ApplyChanges\<close> removes.  None stands for a failed assertion.
\<close>

section \<open>Changes\<close>

datatype OnlineState = OnlineUnknown | Online | Offline

datatype SyncState = SyncNone | SyncLocal | SyncSynced

record DocumentViewChange =
  dvc_document :: MutableDocument
  dvc_type :: DocumentChangeType

type_synonym DocumentViewChangeSet = "(path \<times> DocumentViewChange) list"

definition AddChange :: "DocumentViewChange \<Rightarrow> DocumentViewChangeSet \<Rightarrow> DocumentViewChangeSet option" where
  "AddChange change changes =
     (let key = doc_key (dvc_document change);
          put = (\<lambda>c. AList.update key c changes)
      in case map_of changes key of
           None \<Rightarrow> Some (put change)
         | Some old \<Rightarrow>
             (let old_type = dvc_type old; new_type = dvc_type change
              in if new_type \<noteq> Added \<and> old_type = Metadata then Some (put change)
                 else if new_type = Metadata \<and> old_type \<noteq> Removed
                 then Some (put \<lparr>dvc_document = dvc_document change, dvc_type = old_type\<rparr>)
                 else if new_type = Modified \<and> old_type = Modified
                 then Some (put \<lparr>dvc_document = dvc_document change, dvc_type = Modified\<rparr>)
                 else if new_type = Modified \<and> old_type = Added
                 then Some (put \<lparr>dvc_document = dvc_document change, dvc_type = Added\<rparr>)
                 else if new_type = Removed \<and> old_type = Added then Some (AList.delete key changes)
                 else if new_type = Removed \<and> old_type = Modified
                 then Some (put \<lparr>dvc_document = dvc_document old, dvc_type = Removed\<rparr>)
                 else if new_type = Added \<and> old_type = Removed
                 then Some (put \<lparr>dvc_document = dvc_document change, dvc_type = Modified\<rparr>)
                 else None))"

definition GetChanges :: "DocumentViewChangeSet \<Rightarrow> DocumentViewChange list" where
  "GetChanges changes = map snd changes"

record ViewSnapshot =
  snapshot_query :: Query
  snapshot_documents :: DocumentSet
  snapshot_old_documents :: DocumentSet
  snapshot_changes :: "DocumentViewChange list"
  snapshot_mutated_keys :: "path set"
  from_cache :: bool
  sync_state_changed :: bool
  excludes_metadata_changes :: bool
  has_cached_results :: bool

definition FromInitialDocuments ::
  "Query \<Rightarrow> DocumentSet \<Rightarrow> path set \<Rightarrow> bool \<Rightarrow> bool \<Rightarrow> bool \<Rightarrow> ViewSnapshot option" where
  "FromInitialDocuments query documents mutated_keys cached excludes cached_results =
     do {
       cmp \<leftarrow> Query_Comparator query;
       Some \<lparr>snapshot_query = query, snapshot_documents = documents,
         snapshot_old_documents = DocumentSet_new cmp,
         snapshot_changes = map (\<lambda>doc. \<lparr>dvc_document = doc, dvc_type = Added\<rparr>) (ds_sorted documents),
         snapshot_mutated_keys = mutated_keys, from_cache = cached, sync_state_changed = True,
         excludes_metadata_changes = excludes, has_cached_results = cached_results\<rparr>
     }"

datatype LimboDocumentChange = LimboAdded path | LimboRemoved path

record ViewDocumentChanges =
  vdc_document_set :: DocumentSet
  vdc_change_set :: DocumentViewChangeSet
  vdc_mutated_keys :: "path set"
  vdc_needs_refill :: bool

record ViewChange =
  view_snapshot :: "ViewSnapshot option"
  limbo_changes :: "LimboDocumentChange list"

record View =
  view_query :: Query
  view_document_set :: DocumentSet
  synced_documents :: "path set"
  limbo_documents :: "path list"
  mutated_keys :: "path set"
  sync_state :: SyncState
  view_current :: bool

definition View_new :: "Query \<Rightarrow> path set \<Rightarrow> View option" where
  "View_new query remote_documents =
     do {
       cmp \<leftarrow> Query_Comparator query;
       Some \<lparr>view_query = query, view_document_set = DocumentSet_new cmp, synced_documents = remote_documents,
         limbo_documents = [], mutated_keys = {}, sync_state = SyncNone, view_current = False\<rparr>
     }"

definition View_Compare :: "View \<Rightarrow> MutableDocument \<Rightarrow> MutableDocument \<Rightarrow> ComparisonResult option" where
  "View_Compare view lhs rhs = ds_comparator (view_document_set view) lhs rhs"

section \<open>Limits\<close>

definition has_limit_to_first :: "Query \<Rightarrow> bool" where
  "has_limit_to_first query \<longleftrightarrow> limit_type query = First \<and> query_limit query \<noteq> kNoLimit"

definition has_limit_to_last :: "Query \<Rightarrow> bool" where
  "has_limit_to_last query \<longleftrightarrow> limit_type query = Last \<and> query_limit query \<noteq> kNoLimit"

definition GetLimit :: "Query \<Rightarrow> int option" where
  "GetLimit query =
     (if has_limit_to_first query then Some (query_limit query)
      else if has_limit_to_last query then Some (- query_limit query)
      else None)"

definition GetLimitEdges :: "Query \<Rightarrow> DocumentSet \<Rightarrow> MutableDocument option \<times> MutableDocument option" where
  "GetLimitEdges query old_document_set =
     (case GetLimit query of
        None \<Rightarrow> (None, None)
      | Some _ \<Rightarrow>
          (if has_limit_to_first query \<and> int (ds_size old_document_set) = query_limit query
           then (GetLastDocument old_document_set, None)
           else if has_limit_to_last query \<and> int (ds_size old_document_set) = query_limit query
           then (None, GetFirstDocument old_document_set)
           else (None, None)))"

section \<open>Computing the changes\<close>

definition ShouldWaitForSyncedDocument :: "MutableDocument \<Rightarrow> MutableDocument \<Rightarrow> bool" where
  "ShouldWaitForSyncedDocument new_doc old_doc \<longleftrightarrow>
     has_local_mutations old_doc \<and> has_committed_mutations new_doc \<and> \<not> has_local_mutations new_doc"

definition docs_equal :: "MutableDocument \<Rightarrow> MutableDocument \<Rightarrow> bool option" where
  "docs_equal old_doc new_doc = ValueEquals (map_value (doc_value old_doc)) (map_value (doc_value new_doc))"

text \<open>Whether a changed document left the limit, on the side of its edge.\<close>

definition beyond :: "View \<Rightarrow> MutableDocument \<Rightarrow> ComparisonResult \<Rightarrow> MutableDocument option \<Rightarrow> bool option" where
  "beyond view new_doc side edge =
     (case edge of
        None \<Rightarrow> Some False
      | Some doc \<Rightarrow> do { result \<leftarrow> View_Compare view new_doc doc; Some (result = side) })"

text \<open>The change of one document: the new change set, whether it applies, whether it needs a refill.\<close>

definition calculate_change ::
  "View \<Rightarrow> MutableDocument option \<times> MutableDocument option \<Rightarrow> path \<Rightarrow> MutableDocument option \<Rightarrow> MutableDocument option \<Rightarrow>
   DocumentViewChangeSet \<Rightarrow> (DocumentViewChangeSet \<times> bool \<times> bool) option" where
  "calculate_change view edges key old_doc new_doc change_set =
     (case (old_doc, new_doc) of
        (Some old, Some new) \<Rightarrow>
          do {
            equal \<leftarrow> docs_equal old new;
            if \<not> equal
            then (if ShouldWaitForSyncedDocument new old then Some (change_set, False, False)
                  else do {
                    change_set \<leftarrow> AddChange \<lparr>dvc_document = new, dvc_type = Modified\<rparr> change_set;
                    outside_limit \<leftarrow> beyond view new Descending (fst edges);
                    outside_limit_to_last \<leftarrow> beyond view new Ascending (snd edges);
                    Some (change_set, True, outside_limit \<or> outside_limit_to_last)
                  })
            else if (key \<in> mutated_keys view) \<noteq>
                (has_local_mutations new \<or> key \<in> mutated_keys view \<and> has_committed_mutations new)
            then do {
              change_set \<leftarrow> AddChange \<lparr>dvc_document = new, dvc_type = Metadata\<rparr> change_set;
              Some (change_set, True, False)
            }
            else Some (change_set, False, False)
          }
      | (None, Some new) \<Rightarrow>
          do { change_set \<leftarrow> AddChange \<lparr>dvc_document = new, dvc_type = Added\<rparr> change_set; Some (change_set, True, False) }
      | (Some old, None) \<Rightarrow>
          do {
            change_set \<leftarrow> AddChange \<lparr>dvc_document = old, dvc_type = Removed\<rparr> change_set;
            Some (change_set, True, fst edges \<noteq> None \<or> snd edges \<noteq> None)
          }
      | (None, None) \<Rightarrow> Some (change_set, False, False))"

definition apply_change ::
  "path \<Rightarrow> MutableDocument option \<Rightarrow> ViewDocumentChanges \<Rightarrow> ViewDocumentChanges option" where
  "apply_change key new_doc state =
     (case new_doc of
        Some new \<Rightarrow>
          do {
            document_set \<leftarrow> DocumentSet_insert (Some new) (vdc_document_set state);
            Some (state\<lparr>vdc_document_set := document_set,
              vdc_mutated_keys := (if has_local_mutations new then insert key (vdc_mutated_keys state)
                                   else vdc_mutated_keys state - {key})\<rparr>)
          }
      | None \<Rightarrow>
          do {
            document_set \<leftarrow> DocumentSet_erase key (vdc_document_set state);
            Some (state\<lparr>vdc_document_set := document_set, vdc_mutated_keys := vdc_mutated_keys state - {key}\<rparr>)
          })"

definition change_step ::
  "View \<Rightarrow> DocumentSet \<Rightarrow> path \<Rightarrow> MutableDocument \<Rightarrow> ViewDocumentChanges \<Rightarrow> ViewDocumentChanges option" where
  "change_step view old_document_set key doc state =
     do {
       matches \<leftarrow> Query_Matches (view_query view) doc;
       let new_doc = (if matches then Some doc else None);
       (change_set, change_applied, refill) \<leftarrow>
         calculate_change view (GetLimitEdges (view_query view) old_document_set) key
           (GetDocument old_document_set key) new_doc (vdc_change_set state);
       let state = state\<lparr>vdc_change_set := change_set, vdc_needs_refill := vdc_needs_refill state \<or> refill\<rparr>;
       if change_applied then apply_change key new_doc state else Some state
     }"

fun change_loop ::
  "View \<Rightarrow> DocumentSet \<Rightarrow> (path \<times> MutableDocument) list \<Rightarrow> ViewDocumentChanges \<Rightarrow> ViewDocumentChanges option" where
  "change_loop view old_document_set [] state = Some state"
| "change_loop view old_document_set ((key, doc) # doc_changes) state =
     do { state \<leftarrow> change_step view old_document_set key doc state; change_loop view old_document_set doc_changes state }"

text \<open>Drop documents to meet the limit.\<close>

fun drop_loop :: "LimitType \<Rightarrow> nat \<Rightarrow> ViewDocumentChanges \<Rightarrow> ViewDocumentChanges option" where
  "drop_loop kind 0 state = Some state"
| "drop_loop kind (Suc i) state =
     do {
       old_doc \<leftarrow> (if kind = First then GetLastDocument (vdc_document_set state)
                  else GetFirstDocument (vdc_document_set state));
       document_set \<leftarrow> DocumentSet_erase (doc_key old_doc) (vdc_document_set state);
       change_set \<leftarrow> AddChange \<lparr>dvc_document = old_doc, dvc_type = Removed\<rparr> (vdc_change_set state);
       drop_loop kind i (state\<lparr>vdc_document_set := document_set, vdc_change_set := change_set,
         vdc_mutated_keys := vdc_mutated_keys state - {doc_key old_doc}\<rparr>)
     }"

definition drop_to_limit :: "Query \<Rightarrow> ViewDocumentChanges \<Rightarrow> ViewDocumentChanges option" where
  "drop_to_limit query state =
     (case GetLimit query of
        None \<Rightarrow> Some state
      | Some limit \<Rightarrow>
          (let size = int (ds_size (vdc_document_set state))
           in if \<bar>limit\<bar> < size then drop_loop (limit_type query) (nat (size - \<bar>limit\<bar>)) state else Some state))"

definition start_changes :: "View \<Rightarrow> ViewDocumentChanges option \<Rightarrow> ViewDocumentChanges" where
  "start_changes view previous_changes =
     (case previous_changes of
        Some previous \<Rightarrow> previous\<lparr>vdc_needs_refill := False\<rparr>
      | None \<Rightarrow> \<lparr>vdc_document_set = view_document_set view, vdc_change_set = [],
          vdc_mutated_keys = mutated_keys view, vdc_needs_refill = False\<rparr>)"

definition ComputeDocumentChanges ::
  "View \<Rightarrow> (path \<times> MutableDocument) list \<Rightarrow> ViewDocumentChanges option \<Rightarrow> ViewDocumentChanges option" where
  "ComputeDocumentChanges view doc_changes previous_changes =
     do {
       let start = start_changes view previous_changes;
       state \<leftarrow> change_loop view (vdc_document_set start) doc_changes start;
       state \<leftarrow> drop_to_limit (view_query view) state;
       if vdc_needs_refill state \<and> previous_changes \<noteq> None then None else Some state
     }"

section \<open>Applying the changes\<close>

fun type_position :: "DocumentChangeType \<Rightarrow> nat" where
  "type_position Removed = 0"
| "type_position Added = 1"
| "type_position Modified = 2"
| "type_position Metadata = 2"

definition change_less :: "View \<Rightarrow> DocumentViewChange \<Rightarrow> DocumentViewChange \<Rightarrow> bool option" where
  "change_less view lhs rhs =
     (let pos1 = type_position (dvc_type lhs); pos2 = type_position (dvc_type rhs)
      in if pos1 \<noteq> pos2 then Some (pos1 < pos2)
         else do { result \<leftarrow> View_Compare view (dvc_document lhs) (dvc_document rhs); Some (result = Ascending) })"

fun place_change :: "View \<Rightarrow> DocumentViewChange \<Rightarrow> DocumentViewChange list \<Rightarrow> DocumentViewChange list option" where
  "place_change view change [] = Some [change]"
| "place_change view change (c # cs) =
     do {
       less \<leftarrow> change_less view change c;
       if less then Some (change # c # cs) else map_option ((#) c) (place_change view change cs)
     }"

fun sort_changes :: "View \<Rightarrow> DocumentViewChange list \<Rightarrow> DocumentViewChange list option" where
  "sort_changes view [] = Some []"
| "sort_changes view (c # cs) = do { sorted \<leftarrow> sort_changes view cs; place_change view c sorted }"

definition ApplyTargetChange :: "TargetChange option \<Rightarrow> View \<Rightarrow> View option" where
  "ApplyTargetChange maybe_target_change view =
     (case maybe_target_change of
        None \<Rightarrow> Some view
      | Some target_change \<Rightarrow>
          (let synced = synced_documents view \<union> added_documents target_change
           in if \<not> modified_documents target_change \<subseteq> synced then None
              else Some (view\<lparr>synced_documents := synced - removed_documents target_change,
                view_current := tc_current target_change\<rparr>)))"

definition ShouldBeInLimbo :: "View \<Rightarrow> path \<Rightarrow> bool" where
  "ShouldBeInLimbo view key \<longleftrightarrow>
     key \<notin> synced_documents view \<and>
     (case GetDocument (view_document_set view) key of
        None \<Rightarrow> False
      | Some doc \<Rightarrow> \<not> has_local_mutations doc)"

definition UpdateLimboDocuments :: "View \<Rightarrow> View \<times> LimboDocumentChange list" where
  "UpdateLimboDocuments view =
     (if \<not> view_current view then (view, [])
      else
        let old_limbo = limbo_documents view;
            limbo = fold (\<lambda>doc limbo. if ShouldBeInLimbo view (doc_key doc) then mask_insert (doc_key doc) limbo else limbo)
              (ds_sorted (view_document_set view)) []
        in (view\<lparr>limbo_documents := limbo\<rparr>,
            map LimboRemoved (filter (\<lambda>key. key \<notin> set limbo) old_limbo) @
            map LimboAdded (filter (\<lambda>key. key \<notin> set old_limbo) limbo)))"

definition View_ApplyChanges ::
  "View \<Rightarrow> ViewDocumentChanges \<Rightarrow> TargetChange option \<Rightarrow> bool \<Rightarrow> (View \<times> ViewChange) option" where
  "View_ApplyChanges view doc_changes target_change target_is_pending_reset =
     (if vdc_needs_refill doc_changes then None
      else do {
        let old_documents = view_document_set view;
        let view = view\<lparr>view_document_set := vdc_document_set doc_changes, mutated_keys := vdc_mutated_keys doc_changes\<rparr>;
        changes \<leftarrow> sort_changes view (GetChanges (vdc_change_set doc_changes));
        view \<leftarrow> ApplyTargetChange target_change view;
        let (view, limbo) = (if target_is_pending_reset then (view, []) else UpdateLimboDocuments view);
        let synced = (limbo_documents view = [] \<and> view_current view \<and> \<not> target_is_pending_reset);
        let new_sync_state = (if synced then SyncSynced else SyncLocal);
        let changed = (new_sync_state \<noteq> sync_state view);
        let view = view\<lparr>sync_state := new_sync_state\<rparr>;
        if changes = [] \<and> \<not> changed then Some (view, \<lparr>view_snapshot = None, limbo_changes = limbo\<rparr>)
        else Some (view, \<lparr>view_snapshot = Some \<lparr>snapshot_query = view_query view,
            snapshot_documents = vdc_document_set doc_changes, snapshot_old_documents = old_documents,
            snapshot_changes = changes, snapshot_mutated_keys = vdc_mutated_keys doc_changes,
            from_cache = (new_sync_state = SyncLocal), sync_state_changed = changed,
            excludes_metadata_changes = False,
            has_cached_results = (case target_change of None \<Rightarrow> False | Some c \<Rightarrow> tc_resume_token c \<noteq> [])\<rparr>,
          limbo_changes = limbo\<rparr>)
      })"

definition ApplyOnlineStateChange :: "View \<Rightarrow> OnlineState \<Rightarrow> (View \<times> ViewChange) option" where
  "ApplyOnlineStateChange view online_state =
     (if view_current view \<and> online_state = Offline
      then View_ApplyChanges (view\<lparr>view_current := False\<rparr>)
        \<lparr>vdc_document_set = view_document_set view, vdc_change_set = [], vdc_mutated_keys = mutated_keys view,
         vdc_needs_refill = False\<rparr> None False
      else Some (view, \<lparr>view_snapshot = None, limbo_changes = []\<rparr>))"

end
