(* ===== verification/ViewResults.thy ===== *)
theory ViewResults
  imports Views
begin

text \<open>
  What views guarantee.  A change set is the exact difference of two document sets, so merging
  changes never fails; the keys with local mutations are exact; and as long as no refill is
  asked for, the documents of the view are the result of its query over all local documents.
\<close>

section \<open>Change sets are exact differences\<close>

type_synonym documents = "path \<Rightarrow> MutableDocument option"

definition exact_change :: "path \<Rightarrow> MutableDocument option \<Rightarrow> MutableDocument option \<Rightarrow> DocumentViewChange option \<Rightarrow> bool" where
  "exact_change key before after change \<longleftrightarrow>
     (case change of
        None \<Rightarrow> before = after
      | Some c \<Rightarrow> doc_key (dvc_document c) = key \<and> (before = None \<longleftrightarrow> dvc_type c = Added) \<and>
          after = (if dvc_type c = Removed then None else Some (dvc_document c)))"

definition exact_changes :: "documents \<Rightarrow> documents \<Rightarrow> DocumentViewChangeSet \<Rightarrow> bool" where
  "exact_changes old new changes \<longleftrightarrow>
     distinct (map fst changes) \<and> (\<forall>key. exact_change key (old key) (new key) (map_of changes key))"

text \<open>Whether a change is possible in a state, and the state it leads to.\<close>

definition change_fits :: "documents \<Rightarrow> DocumentViewChange \<Rightarrow> bool" where
  "change_fits docs c \<longleftrightarrow> (docs (doc_key (dvc_document c)) = None \<longleftrightarrow> dvc_type c = Added)"

definition replay_change :: "DocumentViewChange \<Rightarrow> documents \<Rightarrow> documents" where
  "replay_change c docs =
     docs(doc_key (dvc_document c) := if dvc_type c = Removed then None else Some (dvc_document c))"

lemma exact_changes_refl: "exact_changes docs docs []"
  by (simp add: exact_changes_def exact_change_def)

lemma exact_changes_put:
  assumes "exact_changes old new cs" "doc_key (dvc_document c) = key" "old key = None \<longleftrightarrow> dvc_type c = Added"
    and "new' = new(key := if dvc_type c = Removed then None else Some (dvc_document c))"
  shows "exact_changes old new' (AList.update key c cs)"
proof -
  have "exact_change k (old k) (new' k) (map_of (AList.update key c cs) k)" for k
    using assms by (cases "k = key") (simp_all add: exact_changes_def AList.update_conv', simp add: exact_change_def)
  then show ?thesis using assms(1) by (simp add: exact_changes_def distinct_update)
qed

lemma exact_changes_drop:
  assumes "exact_changes old new cs" "old key = None"
  shows "exact_changes old (new(key := None)) (AList.delete key cs)"
proof -
  have "exact_change k (old k) ((new(key := None)) k) (map_of (AList.delete key cs) k)" for k
    using assms by (cases "k = key") (simp_all add: exact_changes_def AList.delete_conv', simp add: exact_change_def)
  then show ?thesis using assms(1) by (simp add: exact_changes_def distinct_delete)
qed

lemma AddChange_exact:
  assumes exact: "exact_changes old new cs" and fits: "change_fits new c"
  shows "\<exists>cs'. AddChange c cs = Some cs' \<and> exact_changes old (replay_change c new) cs'"
proof -
  define key where "key = doc_key (dvc_document c)"
  have at: "exact_change key (old key) (new key) (map_of cs key)" using exact by (simp add: exact_changes_def)
  note facts = exact_changes_put [OF exact] exact_changes_drop [OF exact] at fits
  show ?thesis
  proof (cases "map_of cs key")
    case None
    then have "old key = new key" using at by (simp add: exact_change_def)
    then have "exact_changes old (replay_change c new) (AList.update key c cs)"
      using fits by (intro exact_changes_put [OF exact]) (simp_all add: key_def change_fits_def replay_change_def)
    then show ?thesis using None by (simp add: AddChange_def key_def)
  next
    case (Some prev)
    then have prev: "old key = None \<longleftrightarrow> dvc_type prev = Added" "doc_key (dvc_document prev) = key"
      "new key = (if dvc_type prev = Removed then None else Some (dvc_document prev))"
      using at by (simp_all add: exact_change_def)
    have "new key = None \<longleftrightarrow> dvc_type c = Added" using fits by (simp add: change_fits_def key_def)
    then show ?thesis
      using Some prev unfolding key_def
      by (cases "dvc_type prev"; cases "dvc_type c")
        (simp_all add: AddChange_def replay_change_def exact_changes_put [OF exact] exact_changes_drop [OF exact])
  qed
qed

text \<open>The documents of a change set.\<close>

definition change_docs :: "DocumentViewChangeSet \<Rightarrow> MutableDocument set" where
  "change_docs changes = (\<lambda>e. dvc_document (snd e)) ` set changes"

lemma change_docs_update: "change_docs (AList.update key c cs) \<subseteq> insert (dvc_document c) (change_docs cs)"
  by (induction cs) (auto simp: change_docs_def)

lemma change_docs_delete: "change_docs (AList.delete key cs) \<subseteq> change_docs cs"
  by (auto simp: change_docs_def AList.delete_eq)

lemma AddChange_docs:
  assumes "AddChange c cs = Some cs'"
  shows "change_docs cs' \<subseteq> insert (dvc_document c) (change_docs cs)"
proof -
  define key where "key = doc_key (dvc_document c)"
  have put: "d \<in> change_docs (AList.update key c' cs) \<Longrightarrow>
      dvc_document c' = dvc_document c \<or> dvc_document c' \<in> change_docs cs \<Longrightarrow>
      d = dvc_document c \<or> d \<in> change_docs cs" for c' d
    using change_docs_update [of key c' cs] by auto
  have drop: "d \<in> change_docs (AList.delete key cs) \<Longrightarrow> d \<in> change_docs cs" for d
    using change_docs_delete by blast
  show ?thesis
  proof (cases "map_of cs key")
    case None
    then show ?thesis using assms put [of _ c] by (auto simp: AddChange_def key_def)
  next
    case (Some prev)
    then have "dvc_document prev \<in> change_docs cs" by (force simp: change_docs_def dest: map_of_SomeD)
    then show ?thesis
      using assms Some unfolding key_def
      by (cases "dvc_type prev"; cases "dvc_type c")
        (auto simp: AddChange_def dest!: put [unfolded key_def] drop [unfolded key_def])
  qed
qed

section \<open>One changed document\<close>

definition local_keys :: "documents \<Rightarrow> path set" where
  "local_keys docs = {key. \<exists>d. docs key = Some d \<and> has_local_mutations d}"

definition state_ok :: "View \<Rightarrow> ViewDocumentChanges \<Rightarrow> bool" where
  "state_ok view state \<longleftrightarrow>
     query_order.set_ok (view_query view) (vdc_document_set state) \<and>
     exact_changes (GetDocument (view_document_set view)) (GetDocument (vdc_document_set state)) (vdc_change_set state) \<and>
     (\<forall>d \<in> change_docs (vdc_change_set state). ordered_match (view_query view) d) \<and>
     vdc_mutated_keys state = local_keys (GetDocument (vdc_document_set state))"

definition changed_document_ok :: "Query \<Rightarrow> path \<Rightarrow> MutableDocument \<Rightarrow> bool" where
  "changed_document_ok query key doc \<longleftrightarrow>
     doc_key doc = key \<and> plain_path key \<and> data_ok (doc_value doc) \<and>
     value_ok (map_value (doc_value doc)) \<and> Query_Matches query doc \<noteq> None"

definition pending_changed :: "View \<Rightarrow> MutableDocument \<Rightarrow> bool" where
  "pending_changed view doc \<longleftrightarrow>
     (doc_key doc \<in> mutated_keys view) \<noteq>
     (has_local_mutations doc \<or> doc_key doc \<in> mutated_keys view \<and> has_committed_mutations doc)"

text \<open>The document the view shows for a key after a change.\<close>

definition shown_document :: "View \<Rightarrow> MutableDocument option \<Rightarrow> MutableDocument \<Rightarrow> MutableDocument option" where
  "shown_document view old_doc doc =
     (if Query_Matches (view_query view) doc \<noteq> Some True then None
      else case old_doc of
        None \<Rightarrow> Some doc
      | Some old \<Rightarrow>
          (if docs_equal old doc = Some True
           then if pending_changed view doc then Some doc else Some old
           else if ShouldWaitForSyncedDocument doc old then Some old else Some doc))"

definition leaves_limit :: "View \<Rightarrow> MutableDocument option \<times> MutableDocument option \<Rightarrow> MutableDocument option \<Rightarrow> MutableDocument \<Rightarrow> bool" where
  "leaves_limit view edges old_doc doc \<longleftrightarrow>
     (case old_doc of
        None \<Rightarrow> False
      | Some old \<Rightarrow>
          if Query_Matches (view_query view) doc \<noteq> Some True then edges \<noteq> (None, None)
          else docs_equal old doc = Some False \<and> \<not> ShouldWaitForSyncedDocument doc old \<and>
            ((\<exists>edge. fst edges = Some edge \<and> lex_compare (normalized_order_bys (view_query view)) doc edge = Descending) \<or>
             (\<exists>edge. snd edges = Some edge \<and> lex_compare (normalized_order_bys (view_query view)) doc edge = Ascending)))"

lemma changed_document_good:
  "plain_query query \<Longrightarrow> changed_document_ok query key doc \<Longrightarrow> Query_Matches query doc = Some True \<Longrightarrow> ordered_match query doc"
  by (auto simp: changed_document_ok_def ordered_match_def comparable_match_def simp del: value_ok.simps)


lemma docs_equal_total: "ordered_match query d \<Longrightarrow> ordered_match query e \<Longrightarrow> \<exists>r. docs_equal d e = Some r"
  using ValueEquals_total [of "map_value (doc_value d)" "map_value (doc_value e)"]
  by (auto simp: docs_equal_def ordered_match_def simp del: value_ok.simps)

lemma AddChange_ok:
  assumes "state_ok view state" "change_fits (GetDocument (vdc_document_set state)) c"
  shows "\<exists>cs. AddChange c (vdc_change_set state) = Some cs \<and>
    exact_changes (GetDocument (view_document_set view)) (replay_change c (GetDocument (vdc_document_set state))) cs"
  using AddChange_exact assms by (auto simp: state_ok_def)

text \<open>A document that is not changed or not applied leaves the state as it is.\<close>

lemma apply_change_ok:
  assumes "query_order.set_ok query (vdc_document_set state)"
    and "vdc_mutated_keys state = local_keys (GetDocument (vdc_document_set state))"
    and "\<And>d. new_doc = Some d \<Longrightarrow> ordered_match query d \<and> doc_key d = key"
  shows "\<exists>state'. apply_change key new_doc state = Some state' \<and>
    query_order.set_ok query (vdc_document_set state') \<and>
    GetDocument (vdc_document_set state') = (GetDocument (vdc_document_set state))(key := new_doc) \<and>
    vdc_mutated_keys state' = local_keys (GetDocument (vdc_document_set state')) \<and>
    vdc_change_set state' = vdc_change_set state \<and> vdc_needs_refill state' = vdc_needs_refill state"
proof (cases new_doc)
  case None
  obtain ds where "DocumentSet_erase key (vdc_document_set state) = Some ds" "query_order.set_ok query ds"
    "GetDocument ds = (GetDocument (vdc_document_set state))(key := None)"
    using query_order.erase_ok [OF assms(1)] by blast
  then show ?thesis using None assms(2) by (auto simp: apply_change_def local_keys_def)
next
  case (Some d)
  then have d: "ordered_match query d" "doc_key d = key" using assms(3) by simp_all
  obtain ds where "DocumentSet_insert (Some d) (vdc_document_set state) = Some ds" "query_order.set_ok query ds"
    "GetDocument ds = (GetDocument (vdc_document_set state))(key \<mapsto> d)"
    using query_order.insert_ok [OF assms(1) d(1)] d(2) by auto
  then show ?thesis using Some assms(2) by (auto simp: apply_change_def local_keys_def)
qed

lemma beyond_ok:
  assumes "query_order.set_ok (view_query view) (view_document_set view)" "ordered_match (view_query view) d"
    and "\<And>e. edge = Some e \<Longrightarrow> ordered_match (view_query view) e"
  shows "beyond view d side edge =
    Some (\<exists>e. edge = Some e \<and> lex_compare (normalized_order_bys (view_query view)) d e = side)"
  using assms query_order.cmp_total [of "view_query view" d]
  by (cases edge) (auto simp: beyond_def View_Compare_def query_order.set_ok_def)


lemma calculate_change_ok:
  fixes view edges old_doc doc key
  defines "query \<equiv> view_query view"
  defines "new_doc \<equiv> if Query_Matches query doc = Some True then Some doc else None"
  assumes view: "query_order.set_ok query (view_document_set view)" "plain_query query"
    and edges: "\<And>e. fst edges = Some e \<or> snd edges = Some e \<Longrightarrow> ordered_match query e"
    and exact: "exact_changes base docs cs" "docs key = old_doc"
    and old: "\<And>d. old_doc = Some d \<Longrightarrow> ordered_match query d \<and> doc_key d = key"
    and doc: "changed_document_ok query key doc"
  shows "\<exists>cs' applied. calculate_change view edges key old_doc new_doc cs =
      Some (cs', applied, leaves_limit view edges old_doc doc) \<and>
    change_docs cs' \<subseteq> Collect (ordered_match query) \<union> change_docs cs \<and>
    (applied \<longrightarrow> exact_changes base (docs(key := new_doc)) cs' \<and> shown_document view old_doc doc = new_doc) \<and>
    (\<not> applied \<longrightarrow> cs' = cs \<and> shown_document view old_doc doc = old_doc)"
proof -
  have key: "doc_key doc = key" using doc by (simp add: changed_document_ok_def)
  have add: "\<exists>cs'. AddChange \<lparr>dvc_document = d, dvc_type = t\<rparr> cs = Some cs' \<and>
      change_docs cs' \<subseteq> Collect (ordered_match query) \<union> change_docs cs \<and>
      exact_changes base (docs(key := if t = Removed then None else Some d)) cs'"
    if "ordered_match query d" "doc_key d = key" "old_doc = None \<longleftrightarrow> t = Added" for d t
    using AddChange_exact [OF exact(1), of "\<lparr>dvc_document = d, dvc_type = t\<rparr>"] that exact(2)
      AddChange_docs [of "\<lparr>dvc_document = d, dvc_type = t\<rparr>" cs]
    by (fastforce simp: change_fits_def replay_change_def split del: if_split cong: if_cong)
  note defs = calculate_change_def leaves_limit_def shown_document_def query_def [symmetric]
  show ?thesis
  proof (cases "Query_Matches query doc = Some True")
    case False
    then show ?thesis
      using add [of "the old_doc" Removed] old
      by (cases old_doc; cases edges) (auto simp: new_doc_def defs exact(2))
  next
    case True
    then have new: "new_doc = Some doc" and good: "ordered_match query doc"
      using changed_document_good [OF view(2) doc] by (simp_all add: new_doc_def)
    show ?thesis
    proof (cases old_doc)
      case None
      then show ?thesis using add [of doc Added] key True good by (auto simp: new defs)
    next
      case (Some prev)
      obtain eq where eq: "docs_equal prev doc = Some eq"
        using docs_equal_total [of query prev doc] old Some good by auto
      have "beyond view doc side (fst edges) =
          Some (\<exists>e. fst edges = Some e \<and> lex_compare (normalized_order_bys query) doc e = side)"
        "beyond view doc side (snd edges) =
          Some (\<exists>e. snd edges = Some e \<and> lex_compare (normalized_order_bys query) doc e = side)" for side
        using beyond_ok view(1) good edges unfolding query_def by simp_all
      then show ?thesis
        using Some True eq key good add [of doc Modified] add [of doc Metadata]
        by (cases eq) (auto simp: new defs pending_changed_def)
    qed
  qed
qed

lemma change_step_ok:
  fixes view
  defines "query \<equiv> view_query view"
  assumes view: "query_order.set_ok query (view_document_set view)" "plain_query query"
    and old: "query_order.set_ok query old_set"
    and state: "state_ok view state" "GetDocument (vdc_document_set state) key = GetDocument old_set key"
    and doc: "changed_document_ok query key doc"
  shows "\<exists>state'. change_step view old_set key doc state = Some state' \<and> state_ok view state' \<and>
    GetDocument (vdc_document_set state') = (GetDocument (vdc_document_set state))
      (key := shown_document view (GetDocument old_set key) doc) \<and>
    vdc_needs_refill state' =
      (vdc_needs_refill state \<or> leaves_limit view (GetLimitEdges query old_set) (GetDocument old_set key) doc)"
proof -
  define new_doc where "new_doc = (if Query_Matches query doc = Some True then Some doc else None)"
  define refill where "refill = leaves_limit view (GetLimitEdges query old_set) (GetDocument old_set key) doc"
  have edges: "ordered_match query e"
    if "fst (GetLimitEdges query old_set) = Some e \<or> snd (GetLimitEdges query old_set) = Some e" for e
    using that old last_in_set hd_in_set
    by (auto simp: GetLimitEdges_def GetLastDocument_def GetFirstDocument_def query_order.set_ok_def
        query_order.sorted_docs_def split: if_splits option.splits)
  obtain cs applied where calc: "calculate_change view (GetLimitEdges query old_set) key (GetDocument old_set key) new_doc
      (vdc_change_set state) = Some (cs, applied, refill)"
    and docs: "change_docs cs \<subseteq> Collect (ordered_match query) \<union> change_docs (vdc_change_set state)"
    and yes: "applied \<Longrightarrow> exact_changes (GetDocument (view_document_set view))
        ((GetDocument (vdc_document_set state))(key := new_doc)) cs \<and>
        shown_document view (GetDocument old_set key) doc = new_doc"
    and no: "\<not> applied \<Longrightarrow> cs = vdc_change_set state \<and>
        shown_document view (GetDocument old_set key) doc = GetDocument old_set key"
    using calculate_change_ok [of view "GetLimitEdges query old_set" "GetDocument (view_document_set view)"
        "GetDocument (vdc_document_set state)" "vdc_change_set state" key "GetDocument old_set key" doc]
      view edges state query_order.set_ok_good [OF old] doc
    unfolding query_def [symmetric] new_doc_def refill_def by (auto simp: state_ok_def)
  obtain matches where m: "Query_Matches query doc = Some matches" "new_doc = (if matches then Some doc else None)"
    using doc by (auto simp: changed_document_ok_def new_doc_def)
  let ?state = "state\<lparr>vdc_change_set := cs, vdc_needs_refill := vdc_needs_refill state \<or> refill\<rparr>"
  have step: "change_step view old_set key doc state = (if applied then apply_change key new_doc ?state else Some ?state)"
    using m(1) calc by (simp add: change_step_def query_def [symmetric] flip: m(2))
  show ?thesis
  proof (cases applied)
    case True
    have "d = doc" "matches" if "new_doc = Some d" for d using that m(2) by (simp_all split: if_splits)
    then have good: "ordered_match query d \<and> doc_key d = key" if "new_doc = Some d" for d
      using that changed_document_good [OF view(2) doc] doc m(1) by (auto simp: changed_document_ok_def)
    have "query_order.set_ok query (vdc_document_set ?state)"
      "vdc_mutated_keys ?state = local_keys (GetDocument (vdc_document_set ?state))"
      using state(1) by (simp_all add: state_ok_def query_def)
    from apply_change_ok [OF this good]
    obtain state' where "apply_change key new_doc ?state = Some state'" "query_order.set_ok query (vdc_document_set state')"
      "GetDocument (vdc_document_set state') = (GetDocument (vdc_document_set ?state))(key := new_doc)"
      "vdc_mutated_keys state' = local_keys (GetDocument (vdc_document_set state'))"
      "vdc_change_set state' = vdc_change_set ?state" "vdc_needs_refill state' = vdc_needs_refill ?state"
      by blast
    moreover have "\<forall>d \<in> change_docs cs. ordered_match query d"
      using docs state(1) by (auto simp: state_ok_def query_def)
    ultimately show ?thesis using step True yes by (auto simp: state_ok_def query_def refill_def)
  next
    case False
    then show ?thesis using step no state by (auto simp: state_ok_def refill_def)
  qed
qed


section \<open>All changed documents\<close>

lemma change_loop_ok:
  fixes view
  defines "query \<equiv> view_query view"
  assumes view: "query_order.set_ok query (view_document_set view)" "plain_query query"
    and old: "query_order.set_ok query old_set"
  shows "state_ok view state \<Longrightarrow> distinct (map fst changes) \<Longrightarrow>
    \<forall>(key, doc) \<in> set changes. changed_document_ok query key doc \<and>
      GetDocument (vdc_document_set state) key = GetDocument old_set key \<Longrightarrow>
    \<exists>state'. change_loop view old_set changes state = Some state' \<and> state_ok view state' \<and>
      GetDocument (vdc_document_set state') = (\<lambda>key. case map_of changes key of
          None \<Rightarrow> GetDocument (vdc_document_set state) key
        | Some doc \<Rightarrow> shown_document view (GetDocument old_set key) doc) \<and>
      vdc_needs_refill state' = (vdc_needs_refill state \<or>
        (\<exists>(key, doc) \<in> set changes. leaves_limit view (GetLimitEdges query old_set) (GetDocument old_set key) doc))"
proof (induction changes arbitrary: state)
  case (Cons change changes)
  obtain key doc where c: "change = (key, doc)" by (cases change)
  then have doc: "changed_document_ok query key doc" "GetDocument (vdc_document_set state) key = GetDocument old_set key"
    using Cons.prems(3) by simp_all
  obtain state1 where s1: "change_step view old_set key doc state = Some state1" "state_ok view state1"
    "GetDocument (vdc_document_set state1) = (GetDocument (vdc_document_set state))
      (key := shown_document view (GetDocument old_set key) doc)"
    "vdc_needs_refill state1 =
      (vdc_needs_refill state \<or> leaves_limit view (GetLimitEdges query old_set) (GetDocument old_set key) doc)"
    using change_step_ok [OF view [unfolded query_def] old [unfolded query_def] Cons.prems(1) doc(2)
        doc(1) [unfolded query_def]] by (auto simp: query_def)
  have "key \<notin> fst ` set changes" using Cons.prems(2) c by simp
  then have rest: "\<forall>(key, doc) \<in> set changes. changed_document_ok query key doc \<and>
      GetDocument (vdc_document_set state1) key = GetDocument old_set key"
    using Cons.prems(3) s1(3) by (force simp: image_iff)
  obtain state' where s': "change_loop view old_set changes state1 = Some state'" "state_ok view state'"
    "GetDocument (vdc_document_set state') = (\<lambda>key. case map_of changes key of
        None \<Rightarrow> GetDocument (vdc_document_set state1) key
      | Some doc \<Rightarrow> shown_document view (GetDocument old_set key) doc)"
    "vdc_needs_refill state' = (vdc_needs_refill state1 \<or>
      (\<exists>(key, doc) \<in> set changes. leaves_limit view (GetLimitEdges query old_set) (GetDocument old_set key) doc))"
    using Cons.IH [OF s1(2) _ rest] Cons.prems(2) c by auto
  have "map_of changes key = None" using \<open>key \<notin> fst ` set changes\<close> by (simp add: map_of_eq_None_iff)
  then have "GetDocument (vdc_document_set state') = (\<lambda>k. case map_of (change # changes) k of
        None \<Rightarrow> GetDocument (vdc_document_set state) k
      | Some doc \<Rightarrow> shown_document view (GetDocument old_set k) doc)"
    unfolding s'(3) s1(3) c by - (rule ext, simp split: option.split)
  then show ?case using s1 s' c by auto
qed simp

lemma filter_not_last: "distinct xs \<Longrightarrow> xs \<noteq> [] \<Longrightarrow> filter (\<lambda>x. x \<noteq> last xs) xs = butlast xs"
  by (induction xs rule: rev_induct) (auto simp: filter_id_conv)

lemma filter_not_hd: "distinct xs \<Longrightarrow> xs \<noteq> [] \<Longrightarrow> filter (\<lambda>x. x \<noteq> hd xs) xs = tl xs"
  by (cases xs) (auto simp: filter_id_conv)

lemma drop_loop_ok:
  "state_ok view state \<Longrightarrow> n \<le> length (ds_sorted (vdc_document_set state)) \<Longrightarrow>
   \<exists>state'. drop_loop kind n state = Some state' \<and> state_ok view state' \<and>
     ds_sorted (vdc_document_set state') =
       (if kind = First then take (length (ds_sorted (vdc_document_set state)) - n) (ds_sorted (vdc_document_set state))
        else drop n (ds_sorted (vdc_document_set state))) \<and>
     vdc_needs_refill state' = vdc_needs_refill state"
proof (induction n arbitrary: state)
  case (Suc n)
  let ?ds = "vdc_document_set state" let ?docs = "ds_sorted ?ds" let ?query = "view_query view"
  have ok: "query_order.set_ok ?query ?ds" and ne: "?docs \<noteq> []" using Suc.prems by (auto simp: state_ok_def)
  define d where "d = (if kind = First then last ?docs else hd ?docs)"
  have d: "d \<in> set ?docs" using ne by (simp add: d_def)
  have found: "(if kind = First then GetLastDocument ?ds else GetFirstDocument ?ds) = Some d"
    using ne by (simp add: d_def GetLastDocument_def GetFirstDocument_def)
  obtain es where es: "DocumentSet_erase (doc_key d) ?ds = Some es" "query_order.set_ok ?query es"
    "GetDocument es = (GetDocument ?ds)(doc_key d := None)" using query_order.erase_ok [OF ok] by blast
  have at: "GetDocument ?ds (doc_key d) = Some d" using query_order.set_ok_lookup [OF ok] d by simp
  then obtain cs where cs: "AddChange \<lparr>dvc_document = d, dvc_type = Removed\<rparr> (vdc_change_set state) = Some cs"
    "exact_changes (GetDocument (view_document_set view)) (GetDocument es) cs"
    using AddChange_ok [OF Suc.prems(1), of "\<lparr>dvc_document = d, dvc_type = Removed\<rparr>"] es(3)
    by (auto simp: change_fits_def replay_change_def)
  let ?state = "state\<lparr>vdc_document_set := es, vdc_change_set := cs, vdc_mutated_keys := vdc_mutated_keys state - {doc_key d}\<rparr>"
  have ok': "state_ok view ?state"
    using Suc.prems(1) es cs AddChange_docs [OF cs(1)] query_order.set_ok_good [OF ok at]
    by (auto simp: state_ok_def local_keys_def split: if_splits)
  have "filter (\<lambda>e. e \<noteq> last ?docs) ?docs = butlast ?docs" "filter (\<lambda>e. e \<noteq> hd ?docs) ?docs = tl ?docs"
    using query_order.set_ok_distinct [OF ok] ne by (simp_all add: filter_not_last filter_not_hd)
  then have docs': "ds_sorted es = (if kind = First then butlast ?docs else tl ?docs)"
    using query_order.set_ok_removed [OF ok es(2) d es(3)] by (simp add: d_def)
  then have len: "length (ds_sorted es) = length ?docs - 1" by simp
  then have n: "n \<le> length (ds_sorted (vdc_document_set ?state))" using Suc.prems(2) by simp
  obtain state' where s': "drop_loop kind n ?state = Some state'" "state_ok view state'"
    "ds_sorted (vdc_document_set state') = (if kind = First then take (length (ds_sorted es) - n) (ds_sorted es) else drop n (ds_sorted es))"
    "vdc_needs_refill state' = vdc_needs_refill state"
    using Suc.IH [OF ok' n] by auto
  have "drop_loop kind (Suc n) state = Some state'" using found es(1) cs(1) s'(1) by simp
  moreover have "ds_sorted (vdc_document_set state') =
      (if kind = First then take (length ?docs - Suc n) ?docs else drop (Suc n) ?docs)"
    unfolding s'(3) len docs' by (simp add: butlast_conv_take drop_Suc min_def)
  ultimately show ?case using s' by blast
qed simp


section \<open>The limit\<close>

text \<open>The documents of a result list that a query keeps.\<close>

definition limit_documents :: "Query \<Rightarrow> MutableDocument list \<Rightarrow> MutableDocument list" where
  "limit_documents query docs =
     (if has_limit_to_first query then take (nat (query_limit query)) docs
      else if has_limit_to_last query then drop (length docs - nat (query_limit query)) docs
      else docs)"

lemma drop_to_limit_ok:
  assumes "state_ok view state" "0 \<le> query_limit (view_query view)"
  shows "\<exists>state'. drop_to_limit (view_query view) state = Some state' \<and> state_ok view state' \<and>
    ds_sorted (vdc_document_set state') = limit_documents (view_query view) (ds_sorted (vdc_document_set state)) \<and>
    vdc_needs_refill state' = vdc_needs_refill state"
proof -
  let ?query = "view_query view" let ?docs = "ds_sorted (vdc_document_set state)"
  let ?n = "nat (int (length ?docs) - query_limit ?query)"
  have size: "ds_size (vdc_document_set state) = length ?docs"
    using query_order.set_ok_size assms(1) by (auto simp: state_ok_def)
  have "?n \<le> length ?docs" using assms(2) by linarith
  note drops = drop_loop_ok [OF assms(1) this, of "limit_type ?query"]
  show ?thesis
  proof (cases "has_limit_to_first ?query \<or> has_limit_to_last ?query")
    case False
    then show ?thesis using assms(1) by (auto simp: drop_to_limit_def GetLimit_def limit_documents_def)
  next
    case True
    then have "\<exists>l. GetLimit ?query = Some l \<and> \<bar>l\<bar> = query_limit ?query"
      using assms(2) by (auto simp: GetLimit_def)
    then have drop: "drop_to_limit ?query state =
        (if query_limit ?query < int (length ?docs) then drop_loop (limit_type ?query) ?n state else Some state)"
      by (auto simp: drop_to_limit_def size)
    have kind: "limit_type ?query = First \<longleftrightarrow> has_limit_to_first ?query"
      using True by (auto simp: has_limit_to_first_def has_limit_to_last_def)
    show ?thesis
    proof (cases "query_limit ?query < int (length ?docs)")
      case True
      then have "length ?docs - ?n = nat (query_limit ?query)" "?n = length ?docs - nat (query_limit ?query)"
        using assms(2) by linarith+
      then show ?thesis
        using drops True drop \<open>has_limit_to_first ?query \<or> has_limit_to_last ?query\<close> unfolding kind limit_documents_def by auto
    next
      case False
      then have "length ?docs \<le> nat (query_limit ?query)" by linarith
      then show ?thesis using False drop assms(1) by (auto simp: limit_documents_def)
    qed
  qed
qed

text \<open>The first \<open>n\<close> of a list come from a sublist that holds \<open>n\<close> elements before all others.\<close>

lemma take_filter_prefix:
  assumes "sorted_wrt R xs" "\<And>x. \<not> R x x" "\<And>x y. R x y \<Longrightarrow> \<not> R y x"
    and "A \<subseteq> set xs" "n \<le> card A" "\<forall>x \<in> A. P x" "\<forall>x \<in> A. \<forall>y \<in> set xs. \<not> P y \<longrightarrow> R x y"
  shows "take n (filter P xs) = take n xs"
  using assms
proof (induction xs arbitrary: A n)
  case (Cons x xs)
  show ?case
  proof (cases n)
    case (Suc m)
    have fin: "finite A" using Cons.prems(4) finite_subset by blast
    have "P x"
    proof (rule ccontr)
      assume "\<not> P x"
      have "A \<noteq> {}" using Cons.prems(5) Suc by auto
      then obtain a where a: "a \<in> A" "R a x" using Cons.prems(7) \<open>\<not> P x\<close> by auto
      then show False using Cons.prems(1,2,3,4) by auto
    qed
    moreover have "take m (filter P xs) = take m xs"
    proof (rule Cons.IH [of "A - {x}"])
      have "card (A - {x}) \<ge> card A - 1" using fin by (simp add: card_Diff_singleton_if)
      then show "m \<le> card (A - {x})" using Cons.prems(5) Suc by linarith
    qed (use Cons.prems in auto)
    ultimately show ?thesis using Suc by simp
  qed simp
qed simp


section \<open>The view is the result of its query\<close>

definition view_ok :: "View \<Rightarrow> bool" where
  "view_ok view \<longleftrightarrow>
     plain_query (view_query view) \<and> 0 \<le> query_limit (view_query view) \<and>
     query_order.set_ok (view_query view) (view_document_set view) \<and>
     mutated_keys view = local_keys (GetDocument (view_document_set view))"

text \<open>A list holds the given documents in the order of the query.\<close>

definition lists_documents :: "Query \<Rightarrow> documents \<Rightarrow> MutableDocument list \<Rightarrow> bool" where
  "lists_documents query docs all \<longleftrightarrow>
     query_order.sorted_docs query all \<and> (\<forall>key d. docs key = Some d \<longleftrightarrow> d \<in> set all \<and> doc_key d = key)"

text \<open>
  What a view with the document set \<open>old\<close> is to show for each key after the changes, given what it is
  to show before.
\<close>

definition updated_documents :: "View \<Rightarrow> DocumentSet \<Rightarrow> (path \<times> MutableDocument) list \<Rightarrow> documents \<Rightarrow> documents" where
  "updated_documents view old changes docs key =
     (case map_of changes key of
        None \<Rightarrow> docs key
      | Some doc \<Rightarrow> shown_document view (GetDocument old key) doc)"

definition changes_ok :: "View \<Rightarrow> (path \<times> MutableDocument) list \<Rightarrow> bool" where
  "changes_ok view changes \<longleftrightarrow>
     distinct (map fst changes) \<and> (\<forall>(key, doc) \<in> set changes. changed_document_ok (view_query view) key doc)"

text \<open>Documents whose contents are equal are ordered alike.\<close>

definition equal_ordered_alike :: "View \<Rightarrow> DocumentSet \<Rightarrow> (path \<times> MutableDocument) list \<Rightarrow> bool" where
  "equal_ordered_alike view old changes \<longleftrightarrow>
     (\<forall>(key, doc) \<in> set changes. \<forall>prev. GetDocument old key = Some prev \<longrightarrow>
        docs_equal prev doc = Some True \<longrightarrow> lex_compare (normalized_order_bys (view_query view)) doc prev = Same)"

lemma set_lists: "query_order.set_ok query ds \<Longrightarrow> lists_documents query (GetDocument ds) (ds_sorted ds)"
  by (auto simp: lists_documents_def query_order.set_ok_lookup) (simp add: query_order.set_ok_def)

lemma lists_unique: "lists_documents query docs xs \<Longrightarrow> lists_documents query docs ys \<Longrightarrow> xs = ys"
  unfolding lists_documents_def by (rule query_order.sorted_docs_unique) blast+

lemma lists_filter:
  assumes "lists_documents query docs xs" "lists_documents query docs' ys" "\<And>key d. docs' key = Some d \<Longrightarrow> docs key = Some d"
  shows "ys = filter (\<lambda>d. docs' (doc_key d) = Some d) xs"
proof (rule query_order.sorted_docs_unique)
  show "query_order.sorted_docs query (filter (\<lambda>d. docs' (doc_key d) = Some d) xs)"
    using assms(1) by (auto simp: lists_documents_def query_order.sorted_docs_def sorted_wrt_filter)
  show "set ys = set (filter (\<lambda>d. docs' (doc_key d) = Some d) xs)"
    using assms by (auto simp: lists_documents_def)
qed (use assms in \<open>simp add: lists_documents_def\<close>)

lemma lists_keys: "lists_documents query docs xs \<Longrightarrow> d \<in> set xs \<Longrightarrow> docs (doc_key d) = Some d"
  by (simp add: lists_documents_def)

lemma limit_documents_subset: "set (limit_documents query docs) \<subseteq> set docs"
  by (auto simp: limit_documents_def dest: in_set_takeD in_set_dropD)

lemma lists_distinct: "lists_documents query docs xs \<Longrightarrow> distinct xs"
proof -
  have "query_order.sorted_docs query xs \<Longrightarrow> distinct xs"
    by (induction xs) (auto simp: query_order.sorted_docs_Cons query_order.not_before_self)
  then show "lists_documents query docs xs \<Longrightarrow> distinct xs" by (simp add: lists_documents_def)
qed

lemma not_leaving_stays:
  assumes "\<not> leaves_limit view edges (Some old) doc" "edges \<noteq> (None, None)"
    and "fst edges = Some edge \<Longrightarrow> lex_compare (normalized_order_bys (view_query view)) old edge \<noteq> Descending"
    and "snd edges = Some edge \<Longrightarrow> lex_compare (normalized_order_bys (view_query view)) old edge \<noteq> Ascending"
    and "docs_equal old doc \<noteq> None"
    and alike: "docs_equal old doc = Some True \<Longrightarrow> lex_compare (normalized_order_bys (view_query view)) doc old = Same"
  shows "\<exists>d. shown_document view (Some old) doc = Some d \<and>
    (fst edges = Some edge \<longrightarrow> lex_compare (normalized_order_bys (view_query view)) d edge \<noteq> Descending) \<and>
    (snd edges = Some edge \<longrightarrow> lex_compare (normalized_order_bys (view_query view)) d edge \<noteq> Ascending)"
proof -
  obtain eq where eq: "docs_equal old doc = Some eq" using assms(5) by blast
  have m: "Query_Matches (view_query view) doc = Some True"
    using assms(1,2) by (auto simp: leaves_limit_def split: if_splits)
  have "lex_compare (normalized_order_bys (view_query view)) doc edge =
      lex_compare (normalized_order_bys (view_query view)) old edge" if eq
    using query_order.order.same_cong [OF alike] eq that by simp
  then show ?thesis
    using assms(1,3,4) eq m by (cases eq) (auto simp: leaves_limit_def shown_document_def)
qed


lemma limit_of_part:
  assumes all: "lists_documents query docs xs" and part: "lists_documents query docs' ys"
    and sub: "\<And>key d. docs' key = Some d \<Longrightarrow> docs key = Some d"
    and A: "A \<subseteq> set ys" "nat (query_limit query) \<le> card A"
    and first: "\<And>d e. has_limit_to_first query \<Longrightarrow> d \<in> A \<Longrightarrow> e \<in> set xs - set ys \<Longrightarrow>
      lex_compare (normalized_order_bys query) d e = Ascending"
    and last: "\<And>d e. has_limit_to_last query \<Longrightarrow> d \<in> A \<Longrightarrow> e \<in> set xs - set ys \<Longrightarrow>
      lex_compare (normalized_order_bys query) e d = Ascending"
    and limit: "has_limit_to_first query \<or> has_limit_to_last query"
  shows "limit_documents query ys = limit_documents query xs"
proof -
  let ?R = "\<lambda>d e. lex_compare (normalized_order_bys query) d e = Ascending" let ?n = "nat (query_limit query)"
  define P where "P = (\<lambda>d. docs' (doc_key d) = Some d)"
  have ys: "ys = filter P xs" unfolding P_def by (rule lists_filter [OF all part sub])
  have sorted: "sorted_wrt ?R xs" using all by (simp add: lists_documents_def query_order.sorted_docs_def)
  have asym: "?R x y \<Longrightarrow> \<not> ?R y x" for x y using query_order.order.gt_iff [of query x y] by simp
  have A': "A \<subseteq> set xs" "\<forall>d \<in> A. P d" using A(1) ys by auto
  have out: "e \<in> set xs - set ys" if "e \<in> set xs" "\<not> P e" for e using that ys by auto
  show ?thesis
  proof (cases "has_limit_to_first query")
    case True
    have "take ?n (filter P xs) = take ?n xs"
      using sorted query_order.not_before_self asym A'(1) A(2) A'(2)
      by (rule take_filter_prefix) (use first [OF True] out in blast)+
    then show ?thesis using True by (simp add: limit_documents_def flip: ys)
  next
    case False
    then have l: "has_limit_to_last query" using limit by simp
    have "take ?n (filter P (rev xs)) = take ?n (rev xs)"
    proof (rule take_filter_prefix [of "\<lambda>d e. ?R e d" "rev xs" A])
      show "\<forall>d \<in> A. \<forall>e \<in> set (rev xs). \<not> P e \<longrightarrow> ?R e d" using last [OF l] out by auto
    qed (use sorted asym A A' query_order.not_before_self in \<open>auto simp: sorted_wrt_rev\<close>)
    then have "rev (take ?n (rev ys)) = rev (take ?n (rev xs))" by (simp add: ys rev_filter)
    then show ?thesis using False l by (simp add: limit_documents_def rev_take)
  qed
qed

text \<open>What is beyond the edge of a full limit comes after every document that stays.\<close>

lemma beyond_edge:
  assumes all: "lists_documents query docs xs" and len: "0 < nat (query_limit query)" "nat (query_limit query) < length xs"
    and e: "e \<in> set xs" "e \<notin> set (limit_documents query xs)"
  shows "has_limit_to_first query \<Longrightarrow>
      lex_compare (normalized_order_bys query) (last (limit_documents query xs)) e = Ascending"
    and "\<not> has_limit_to_first query \<Longrightarrow> has_limit_to_last query \<Longrightarrow>
      lex_compare (normalized_order_bys query) e (hd (limit_documents query xs)) = Ascending"
proof -
  let ?n = "nat (query_limit query)"
  have sorted: "sorted_wrt (\<lambda>d e. lex_compare (normalized_order_bys query) d e = Ascending) (take k xs @ drop k xs)" for k
    using all by (simp add: lists_documents_def query_order.sorted_docs_def)
  have split: "e \<in> set (take k xs) \<or> e \<in> set (drop k xs)" for k
    using e(1) append_take_drop_id [of k xs] by (metis Un_iff set_append)
  show "lex_compare (normalized_order_bys query) (last (limit_documents query xs)) e = Ascending" if "has_limit_to_first query"
  proof -
    have "e \<in> set (drop ?n xs)" "last (take ?n xs) \<in> set (take ?n xs)"
      using e(2) split [of ?n] that len by (auto simp: limit_documents_def intro!: last_in_set)
    then show ?thesis using sorted [of ?n] that unfolding sorted_wrt_append by (simp add: limit_documents_def)
  qed
  show "lex_compare (normalized_order_bys query) e (hd (limit_documents query xs)) = Ascending"
    if "\<not> has_limit_to_first query" "has_limit_to_last query"
  proof -
    let ?k = "length xs - ?n"
    have "e \<in> set (take ?k xs)" "hd (drop ?k xs) \<in> set (drop ?k xs)"
      using e(2) split [of ?k] that len by (auto simp: limit_documents_def intro!: hd_in_set)
    then show ?thesis using sorted [of ?k] that unfolding sorted_wrt_append by (simp add: limit_documents_def)
  qed
qed


lemma edges_full:
  assumes "query_order.set_ok query ds" "length (ds_sorted ds) = nat (query_limit query)" "0 < query_limit query"
    and "has_limit_to_first query \<or> has_limit_to_last query"
  shows "GetLimitEdges query ds =
    (if has_limit_to_first query then (Some (last (ds_sorted ds)), None) else (None, Some (hd (ds_sorted ds))))"
proof -
  have "int (ds_size ds) = query_limit query" "ds_sorted ds \<noteq> []"
    using assms(2,3) query_order.set_ok_size [OF assms(1)] by auto
  then show ?thesis
    using assms(4) by (auto simp: GetLimitEdges_def GetLimit_def GetLastDocument_def GetFirstDocument_def)
qed

lemma edge_bounds:
  assumes "query_order.sorted_docs query xs" "d \<in> set xs"
  shows "lex_compare (normalized_order_bys query) d (last xs) \<noteq> Descending"
    and "lex_compare (normalized_order_bys query) d (hd xs) \<noteq> Ascending"
proof -
  let ?R = "\<lambda>d e. lex_compare (normalized_order_bys query) d e = Ascending"
  have ne: "xs \<noteq> []" using assms(2) by auto
  then have "sorted_wrt ?R (butlast xs @ [last xs])" "d \<in> set (butlast xs @ [last xs])"
    and "sorted_wrt ?R (hd xs # tl xs)" "d \<in> set (hd xs # tl xs)"
    using assms by (simp_all add: query_order.sorted_docs_def)
  then have "d = last xs \<or> ?R d (last xs)" "d = hd xs \<or> ?R (hd xs) d"
    unfolding sorted_wrt_append by auto
  then show "lex_compare (normalized_order_bys query) d (last xs) \<noteq> Descending"
    "lex_compare (normalized_order_bys query) d (hd xs) \<noteq> Ascending"
    using query_order.order.gt_iff [of query d "hd xs"] by (auto simp: lex_refl)
qed

text \<open>While nothing leaves the limit, every document of a full view stays on its side of the edge.\<close>

lemma shown_stays:
  fixes view changes prev
  defines "query \<equiv> view_query view"
  assumes set_ok: "query_order.set_ok query old"
    and ok: "view_ok view" "changes_ok view changes" "equal_ordered_alike view old changes"
    and edges: "GetLimitEdges query old =
      (if has_limit_to_first query then (Some (last (ds_sorted old)), None) else (None, Some (hd (ds_sorted old))))"
    and stay: "\<forall>(key, doc) \<in> set changes. \<not> leaves_limit view (GetLimitEdges query old) (GetDocument old key) doc"
    and prev: "prev \<in> set (ds_sorted old)"
  shows "\<exists>d. updated_documents view old changes (GetDocument old) (doc_key prev) = Some d \<and>
    (if has_limit_to_first query then lex_compare (normalized_order_bys query) d (last (ds_sorted old)) \<noteq> Descending
     else lex_compare (normalized_order_bys query) d (hd (ds_sorted old)) \<noteq> Ascending)"
proof -
  have at: "GetDocument old (doc_key prev) = Some prev" using prev query_order.set_ok_lookup [OF set_ok] by simp
  have bounds: "lex_compare (normalized_order_bys query) prev (last (ds_sorted old)) \<noteq> Descending"
    "lex_compare (normalized_order_bys query) prev (hd (ds_sorted old)) \<noteq> Ascending"
    using edge_bounds [OF _ prev] set_ok by (simp_all add: query_order.set_ok_def)
  show ?thesis
  proof (cases "map_of changes (doc_key prev)")
    case None
    then show ?thesis using at bounds by (auto simp: updated_documents_def)
  next
    case (Some doc)
    then have doc: "(doc_key prev, doc) \<in> set changes" by (rule map_of_SomeD)
    then have doc_ok: "changed_document_ok query (doc_key prev) doc" using ok(2) by (auto simp: changes_ok_def query_def)
    have no: "\<not> leaves_limit view (GetLimitEdges query old) (Some prev) doc" using stay doc at by fastforce
    then have "Query_Matches query doc = Some True" using edges by (auto simp: leaves_limit_def query_def split: if_splits)
    then have "docs_equal prev doc \<noteq> None"
      using changed_document_good [OF _ doc_ok] ok(1) query_order.set_ok_good [OF set_ok at] docs_equal_total [of query prev doc]
      by (auto simp: view_ok_def query_def)
    moreover have "docs_equal prev doc = Some True \<Longrightarrow> lex_compare (normalized_order_bys query) doc prev = Same"
      using ok(3) doc at by (fastforce simp: equal_ordered_alike_def query_def)
    ultimately show ?thesis
      using not_leaving_stays [OF no, of "last (ds_sorted old)"] not_leaving_stays [OF no, of "hd (ds_sorted old)"]
        edges bounds Some at
      by (cases "has_limit_to_first query") (simp_all add: updated_documents_def flip: query_def)
  qed
qed

text \<open>The documents with keys of the old view are at least as many afterwards.\<close>

lemma kept_card:
  assumes set_ok: "query_order.set_ok query old" and mid: "lists_documents query docs mid"
    and stays: "\<And>prev. prev \<in> set (ds_sorted old) \<Longrightarrow> \<exists>d. docs (doc_key prev) = Some d"
  shows "length (ds_sorted old) \<le> card {d \<in> set mid. GetDocument old (doc_key d) \<noteq> None}" (is "_ \<le> card ?A")
proof -
  have "doc_key ` set (ds_sorted old) \<subseteq> doc_key ` ?A"
  proof
    fix key assume "key \<in> doc_key ` set (ds_sorted old)"
    then obtain prev where prev: "prev \<in> set (ds_sorted old)" "key = doc_key prev" by blast
    then obtain d where "docs key = Some d" using stays by blast
    then have "d \<in> set mid" "doc_key d = key" using mid by (simp_all add: lists_documents_def)
    moreover have "GetDocument old key = Some prev" using prev query_order.set_ok_lookup [OF set_ok] by simp
    ultimately show "key \<in> doc_key ` ?A" by auto
  qed
  then have "card (doc_key ` set (ds_sorted old)) \<le> card (doc_key ` ?A)" by (intro card_mono) auto
  also have "\<dots> \<le> card ?A" by (intro card_image_le) simp
  finally show ?thesis
    using query_order.set_ok_keys [OF set_ok] query_order.set_ok_distinct [OF set_ok]
    by (subst (asm) card_image) (auto simp: inj_on_def distinct_card)
qed

lemma limit_without_refill:
  fixes view changes
  defines "query \<equiv> view_query view"
  assumes set_ok: "query_order.set_ok query old"
    and ok: "view_ok view" "changes_ok view changes" "equal_ordered_alike view old changes"
    and docs: "lists_documents query docs all" "ds_sorted old = limit_documents query all"
    and all': "lists_documents query (updated_documents view old changes docs) all'"
    and mid: "lists_documents query (updated_documents view old changes (GetDocument old)) mid"
    and stay: "\<forall>(key, doc) \<in> set changes. \<not> leaves_limit view (GetLimitEdges query old) (GetDocument old key) doc"
    and limited: "has_limit_to_first query \<or> has_limit_to_last query" "0 < nat (query_limit query)"
      "nat (query_limit query) < length all"
  shows "limit_documents query mid = limit_documents query all'"
proof -
  let ?n = "nat (query_limit query)" let ?cmp = "lex_compare (normalized_order_bys query)"
  have len: "length (ds_sorted old) = ?n" using docs(2) limited by (auto simp: limit_documents_def)
  have kind: "has_limit_to_last query \<longleftrightarrow> \<not> has_limit_to_first query"
    using limited(1) by (auto simp: has_limit_to_first_def has_limit_to_last_def)
  have sub: "updated_documents view old changes (GetDocument old) key = Some d \<Longrightarrow>
      updated_documents view old changes docs key = Some d" for key d
    using docs limit_documents_subset [of query all] query_order.set_ok_lookup [OF set_ok]
    by (auto simp: updated_documents_def lists_documents_def split: option.splits)
  have edges: "GetLimitEdges query old =
      (if has_limit_to_first query then (Some (last (ds_sorted old)), None) else (None, Some (hd (ds_sorted old))))"
    using limited by (intro edges_full [OF set_ok len]) simp_all
  define edge where "edge = (if has_limit_to_first query then last (ds_sorted old) else hd (ds_sorted old))"
  have stays: "\<exists>d. updated_documents view old changes (GetDocument old) (doc_key prev) = Some d \<and>
      (if has_limit_to_first query then ?cmp d edge \<noteq> Descending else ?cmp d edge \<noteq> Ascending)"
    if "prev \<in> set (ds_sorted old)" for prev
    using shown_stays [OF set_ok [unfolded query_def] ok, folded query_def, OF edges stay that] by (simp add: edge_def if_distrib cong: if_cong)
  define A where "A = {d \<in> set mid. GetDocument old (doc_key d) \<noteq> None}"
  have kept: "if has_limit_to_first query then ?cmp d edge \<noteq> Descending else ?cmp d edge \<noteq> Ascending" if d: "d \<in> A" for d
  proof -
    obtain prev where "GetDocument old (doc_key d) = Some prev" using d by (auto simp: A_def)
    then have "prev \<in> set (ds_sorted old)" "doc_key prev = doc_key d" using query_order.set_ok_lookup [OF set_ok] by simp_all
    then show ?thesis using stays [of prev] d lists_keys [OF mid, of d] by (auto simp: A_def)
  qed
  have left: "e \<in> set all \<and> e \<notin> set (limit_documents query all)" if e: "e \<in> set all' - set mid" for e
  proof -
    have "updated_documents view old changes docs (doc_key e) = Some e" using e lists_keys [OF all'] by simp
    moreover have "updated_documents view old changes (GetDocument old) (doc_key e) \<noteq> Some e"
      using e mid by (simp add: lists_documents_def)
    ultimately have "docs (doc_key e) = Some e" "GetDocument old (doc_key e) \<noteq> Some e"
      by (auto simp: updated_documents_def split: option.splits)
    then show ?thesis using docs query_order.set_ok_lookup [OF set_ok] by (auto simp: lists_documents_def)
  qed
  note far = beyond_edge [OF docs(1) limited(2,3), folded docs(2)]
  show ?thesis
  proof (rule limit_of_part [OF all' mid sub, where A = A])
    show "?n \<le> card A" using kept_card [OF set_ok mid] stays len unfolding A_def by fastforce
  next
    fix d e assume "has_limit_to_first query" "d \<in> A" "e \<in> set all' - set mid"
    then show "?cmp d e = Ascending"
      using kept [of d] left [of e] far(1) [of e] query_order.order.le_lt_trans [of query d edge e]
      by (simp add: edge_def docs(2))
  next
    fix d e assume "has_limit_to_last query" "d \<in> A" "e \<in> set all' - set mid"
    then show "?cmp e d = Ascending"
      using kept [of d] left [of e] far(2) [of e] kind query_order.order.lt_le_trans [of query e edge d]
        query_order.order.gt_iff [of query edge d] by (simp add: edge_def docs(2))
  qed (use limited in \<open>auto simp: A_def\<close>)
qed


section \<open>Computing document changes\<close>

lemma start_ok:
  assumes "view_ok view" "\<And>previous. previous_changes = Some previous \<Longrightarrow> state_ok view previous"
  shows "state_ok view (start_changes view previous_changes)" "\<not> vdc_needs_refill (start_changes view previous_changes)"
  using assms by (auto simp: start_changes_def state_ok_def view_ok_def exact_changes_refl change_docs_def split: option.splits)

lemma changes_step:
  assumes ok: "view_ok view" "changes_ok view changes"
    and previous: "\<And>previous. previous_changes = Some previous \<Longrightarrow> state_ok view previous"
    and old: "old = vdc_document_set (start_changes view previous_changes)"
  shows "\<exists>result mid. state_ok view result \<and>
    ComputeDocumentChanges view changes previous_changes =
      (if vdc_needs_refill result \<and> previous_changes \<noteq> None then None else Some result) \<and>
    vdc_needs_refill result = (\<exists>(key, doc) \<in> set changes.
      leaves_limit view (GetLimitEdges (view_query view) old) (GetDocument old key) doc) \<and>
    lists_documents (view_query view) (updated_documents view old changes (GetDocument old)) mid \<and>
    ds_sorted (vdc_document_set result) = limit_documents (view_query view) mid"
proof -
  let ?query = "view_query view" let ?start = "start_changes view previous_changes"
  have start: "state_ok view ?start" "\<not> vdc_needs_refill ?start"
    using start_ok [OF ok(1), of previous_changes] previous by blast+
  have view: "query_order.set_ok ?query (view_document_set view)" "plain_query ?query" and "0 \<le> query_limit ?query"
    using ok(1) by (simp_all add: view_ok_def)
  have set_ok: "query_order.set_ok ?query old" using start(1) old by (simp add: state_ok_def)
  have pre: "distinct (map fst changes)" "\<forall>(key, doc) \<in> set changes. changed_document_ok ?query key doc \<and>
      GetDocument (vdc_document_set ?start) key = GetDocument old key"
    using ok(2) old by (auto simp: changes_ok_def)
  have upd: "updated_documents view old changes (GetDocument old) = (\<lambda>key. case map_of changes key of
      None \<Rightarrow> GetDocument (vdc_document_set ?start) key | Some doc \<Rightarrow> shown_document view (GetDocument old key) doc)"
    by (rule ext) (simp add: updated_documents_def old split: option.split)
  obtain state where s: "change_loop view old changes ?start = Some state" "state_ok view state"
    "GetDocument (vdc_document_set state) = updated_documents view old changes (GetDocument old)"
    "vdc_needs_refill state = (\<exists>(key, doc) \<in> set changes.
      leaves_limit view (GetLimitEdges ?query old) (GetDocument old key) doc)"
    using change_loop_ok [OF view set_ok start(1) pre] start(2) unfolding upd by blast
  obtain result where r: "drop_to_limit ?query state = Some result" "state_ok view result"
    "ds_sorted (vdc_document_set result) = limit_documents ?query (ds_sorted (vdc_document_set state))"
    "vdc_needs_refill result = vdc_needs_refill state"
    using drop_to_limit_ok [OF s(2) \<open>0 \<le> query_limit ?query\<close>] by blast
  have "lists_documents ?query (updated_documents view old changes (GetDocument old)) (ds_sorted (vdc_document_set state))"
    using set_lists [of ?query "vdc_document_set state"] s(2,3) by (simp add: state_ok_def)
  moreover have "ComputeDocumentChanges view changes previous_changes =
      (if vdc_needs_refill result \<and> previous_changes \<noteq> None then None else Some result)"
    using s(1) r(1) old by (simp add: ComputeDocumentChanges_def)
  ultimately show ?thesis using r s(4) by blast
qed

lemma result_without_refill:
  assumes ok: "view_ok view" "changes_ok view changes" "equal_ordered_alike view (view_document_set view) changes"
    and docs: "lists_documents (view_query view) docs all"
      "ds_sorted (view_document_set view) = limit_documents (view_query view) all"
    and all': "lists_documents (view_query view) (updated_documents view (view_document_set view) changes docs) all'"
    and result: "ComputeDocumentChanges view changes None = Some result" "\<not> vdc_needs_refill result"
  shows "ds_sorted (vdc_document_set result) = limit_documents (view_query view) all'"
proof -
  let ?query = "view_query view" let ?old = "view_document_set view" let ?n = "nat (query_limit ?query)"
  have set_ok: "query_order.set_ok ?query ?old" using ok(1) by (simp add: view_ok_def)
  have "vdc_document_set (start_changes view None) = ?old" by (simp add: start_changes_def)
  then obtain mid where mid: "lists_documents ?query (updated_documents view ?old changes (GetDocument ?old)) mid"
    "ds_sorted (vdc_document_set result) = limit_documents ?query mid"
    "\<forall>(key, doc) \<in> set changes. \<not> leaves_limit view (GetLimitEdges ?query ?old) (GetDocument ?old key) doc"
    using changes_step [OF ok(1,2), of None ?old] result by auto
  consider "(has_limit_to_first ?query \<or> has_limit_to_last ?query) \<and> 0 < ?n \<and> ?n < length all"
    | "(has_limit_to_first ?query \<or> has_limit_to_last ?query) \<and> ?n = 0"
    | "limit_documents ?query all = all"
    by (cases "has_limit_to_first ?query \<or> has_limit_to_last ?query"; cases "?n < length all"; cases "?n = 0")
      (auto simp: limit_documents_def)
  then show ?thesis
  proof cases
    case 1
    then show ?thesis using limit_without_refill [OF set_ok ok docs all' mid(1,3)] mid(2) by simp
  next
    case 2
    then show ?thesis using mid(2) by (auto simp: limit_documents_def)
  next
    case 3
    then have "lists_documents ?query (GetDocument ?old) all" using set_lists [OF set_ok] docs(2) by simp
    then have "GetDocument ?old key = Some d \<longleftrightarrow> docs key = Some d" for key d using docs(1) by (simp add: lists_documents_def)
    then have "GetDocument ?old = docs" by (intro ext) (metis option.exhaust)
    then show ?thesis using lists_unique [OF mid(1)] all' mid(2) by simp
  qed
qed

text \<open>A refill runs over all the local results, which include the documents the view shows already.\<close>

lemma result_of_refill:
  assumes ok: "view_ok view" "changes_ok view changes" "state_ok view previous"
    and complete: "\<And>key. GetDocument (vdc_document_set previous) key \<noteq> None \<Longrightarrow> key \<in> fst ` set changes"
    and agree: "\<And>key doc shown. (key, doc) \<in> set changes \<Longrightarrow> GetDocument (vdc_document_set previous) key = Some shown \<Longrightarrow>
      Query_Matches (view_query view) doc = Some True \<and> (docs_equal shown doc = Some True \<or> ShouldWaitForSyncedDocument doc shown)"
    and all: "lists_documents (view_query view) (updated_documents view (vdc_document_set previous) changes (\<lambda>_. None)) all"
  shows "\<exists>result. ComputeDocumentChanges view changes (Some previous) = Some result \<and> state_ok view result \<and>
    \<not> vdc_needs_refill result \<and> ds_sorted (vdc_document_set result) = limit_documents (view_query view) all"
proof -
  let ?old = "vdc_document_set previous"
  have "?old = vdc_document_set (start_changes view (Some previous))" by (simp add: start_changes_def)
  moreover have "\<And>p. Some previous = Some p \<Longrightarrow> state_ok view p" using ok(3) by simp
  ultimately obtain result mid where r: "state_ok view result"
    "ComputeDocumentChanges view changes (Some previous) =
      (if vdc_needs_refill result \<and> Some previous \<noteq> None then None else Some result)"
    "vdc_needs_refill result = (\<exists>(key, doc) \<in> set changes.
      leaves_limit view (GetLimitEdges (view_query view) ?old) (GetDocument ?old key) doc)"
    "lists_documents (view_query view) (updated_documents view ?old changes (GetDocument ?old)) mid"
    "ds_sorted (vdc_document_set result) = limit_documents (view_query view) mid"
    using changes_step [OF ok(1,2), of "Some previous" ?old] by blast
  have stay: "\<not> leaves_limit view edges (GetDocument ?old key) doc" if "(key, doc) \<in> set changes" for key doc edges
    using agree [OF that] by (auto simp: leaves_limit_def split: option.splits)
  have "updated_documents view ?old changes (GetDocument ?old) = updated_documents view ?old changes (\<lambda>_. None)"
  proof
    fix key show "updated_documents view ?old changes (GetDocument ?old) key = updated_documents view ?old changes (\<lambda>_. None) key"
      using complete [of key] map_of_eq_None_iff [of changes key] by (auto simp: updated_documents_def split: option.split)
  qed
  then have "mid = all" using lists_unique r(4) all by simp
  then show ?thesis using r stay by fastforce
qed

end
