(* ===== verification/ViewSnapshots.thy ===== *)
theory ViewSnapshots
  imports ViewResults "HOL-Library.Multiset"
begin

text \<open>
  From changes to snapshots.  Applying the changes of a view always succeeds when the target
  change only modifies documents that are synced; the snapshot lists the exact changes in the
  order of their type and of the query; limbo documents are exactly the unexplained ones.  Runs
  of a view are the relation \<open>view_run\<close>, and whoever replays the snapshots of a run from nothing
  has the documents of the view.
\<close>

section \<open>Sorting the changes\<close>

definition less_change :: "Query \<Rightarrow> DocumentViewChange \<Rightarrow> DocumentViewChange \<Rightarrow> bool" where
  "less_change query lhs rhs \<longleftrightarrow>
     type_position (dvc_type lhs) < type_position (dvc_type rhs) \<or>
     type_position (dvc_type lhs) = type_position (dvc_type rhs) \<and>
       lex_compare (normalized_order_bys query) (dvc_document lhs) (dvc_document rhs) = Ascending"

definition sorted_changes :: "Query \<Rightarrow> DocumentViewChange list \<Rightarrow> bool" where
  "sorted_changes query changes \<longleftrightarrow> sorted_wrt (\<lambda>c d. \<not> less_change query d c) changes"

lemma less_change_trans: "less_change query a b \<Longrightarrow> less_change query b c \<Longrightarrow> less_change query a c"
  using query_order.order.lt_trans [of query "dvc_document a" "dvc_document b" "dvc_document c"]
  by (auto simp: less_change_def)

lemma less_change_asym: "less_change query a b \<Longrightarrow> \<not> less_change query b a"
  using query_order.order.gt_iff [of query "dvc_document a" "dvc_document b"] by (auto simp: less_change_def)

lemma change_less_ok:
  assumes "query_order.set_ok query (view_document_set view)"
    and "ordered_match query (dvc_document c)" "ordered_match query (dvc_document d)"
  shows "change_less view c d = Some (less_change query c d)"
  using assms query_order.cmp_total [of query "dvc_document c" "dvc_document d"]
  by (auto simp: change_less_def Let_def less_change_def View_Compare_def query_order.set_ok_def)

lemma place_change_ok:
  assumes "query_order.set_ok query (view_document_set view)" "ordered_match query (dvc_document c)"
  shows "\<forall>d \<in> set cs. ordered_match query (dvc_document d) \<Longrightarrow> sorted_changes query cs \<Longrightarrow>
    \<exists>ds. place_change view c cs = Some ds \<and> mset ds = add_mset c (mset cs) \<and> sorted_changes query ds"
proof (induction cs)
  case (Cons d cs)
  obtain ds where ds: "place_change view c cs = Some ds" "mset ds = add_mset c (mset cs)" "sorted_changes query ds"
    using Cons by (auto simp: sorted_changes_def)
  have less: "change_less view c d = Some (less_change query c d)"
    using change_less_ok [OF assms] Cons.prems by simp
  have sets: "set ds = insert c (set cs)" using ds(2) by (metis set_mset_add_mset_insert set_mset_mset)
  show ?case
  proof (cases "less_change query c d")
    case True
    have "\<not> less_change query e c" if "e \<in> set (d # cs)" for e
      using that True Cons.prems(2) less_change_trans [of query e c d] less_change_asym [of query c d]
      by (auto simp: sorted_changes_def)
    then show ?thesis using True less Cons.prems(2) by (auto simp: sorted_changes_def)
  next
    case False
    then show ?thesis using less ds Cons.prems(2) sets by (auto simp: sorted_changes_def)
  qed
qed (simp add: sorted_changes_def)

lemma sort_changes_ok:
  assumes "query_order.set_ok query (view_document_set view)" "\<forall>d \<in> set cs. ordered_match query (dvc_document d)"
  shows "\<exists>ds. sort_changes view cs = Some ds \<and> mset ds = mset cs \<and> sorted_changes query ds"
  using assms(2)
proof (induction cs)
  case (Cons c cs)
  then obtain ds where ds: "sort_changes view cs = Some ds" "mset ds = mset cs" "sorted_changes query ds" by auto
  then have "\<forall>d \<in> set ds. ordered_match query (dvc_document d)" using Cons.prems by (metis list.set_intros(2) set_mset_mset)
  then show ?case using place_change_ok [OF assms(1) _ _ ds(3), of c] Cons.prems ds by auto
qed (simp add: sorted_changes_def)

section \<open>Replaying changes\<close>

definition change_key :: "DocumentViewChange \<Rightarrow> path" where
  "change_key c = doc_key (dvc_document c)"

definition replay :: "DocumentViewChange list \<Rightarrow> documents \<Rightarrow> documents" where
  "replay changes docs = fold replay_change changes docs"

definition exact_list :: "documents \<Rightarrow> documents \<Rightarrow> DocumentViewChange list \<Rightarrow> bool" where
  "exact_list old new changes \<longleftrightarrow>
     distinct (map change_key changes) \<and> (\<forall>c \<in> set changes. exact_change (change_key c) (old (change_key c)) (new (change_key c)) (Some c)) \<and>
     (\<forall>key. key \<notin> change_key ` set changes \<longrightarrow> old key = new key)"

lemma exact_changes_list:
  assumes "exact_changes old new cs"
  shows "exact_list old new (GetChanges cs)"
proof -
  have at: "exact_change k (old k) (new k) (Some c)" if "(k, c) \<in> set cs" for k c
    using assms map_of_is_SomeI [OF _ that] by (metis exact_changes_def)
  then have key: "change_key c = k" if "(k, c) \<in> set cs" for k c
    using that by (fastforce simp: exact_change_def change_key_def)
  have keys: "map change_key (GetChanges cs) = map fst cs"
    unfolding GetChanges_def using key by (auto simp: prod_eq_iff intro!: nth_equalityI)
  have "exact_change k (old k) (new k) None" if "k \<notin> fst ` set cs" for k
    using assms that map_of_eq_None_iff [of cs k] by (metis exact_changes_def)
  then have "old k = new k" if "k \<notin> fst ` set cs" for k using that by (simp add: exact_change_def)
  moreover have "change_key ` set (GetChanges cs) = fst ` set cs" using arg_cong [OF keys, of set] by simp
  ultimately show ?thesis
    using assms at key unfolding exact_list_def keys by (auto simp: exact_changes_def GetChanges_def)
qed

lemma exact_list_mset: "exact_list old new cs \<Longrightarrow> mset ds = mset cs \<Longrightarrow> exact_list old new ds"
proof -
  assume exact: "exact_list old new cs" and same: "mset ds = mset cs"
  have "set ds = set cs" using same by (metis set_mset_mset)
  moreover have "mset (map change_key ds) = mset (map change_key cs)" using same by (simp add: mset_map)
  then have "distinct (map change_key ds)" using exact by (metis exact_list_def mset_eq_imp_distinct_iff)
  ultimately show ?thesis using exact by (simp add: exact_list_def)
qed

lemma replay_other: "key \<notin> change_key ` set cs \<Longrightarrow> replay cs docs key = docs key"
  by (induction cs arbitrary: docs) (auto simp: replay_def replay_change_def change_key_def)

lemma replay_at:
  "distinct (map change_key cs) \<Longrightarrow> c \<in> set cs \<Longrightarrow>
   replay cs docs (change_key c) = (if dvc_type c = Removed then None else Some (dvc_document c))"
proof (induction cs arbitrary: docs)
  case (Cons d cs)
  show ?case
  proof (cases "c = d")
    case True
    then have "replay cs (replay_change d docs) (change_key c) = replay_change d docs (change_key c)"
      using Cons.prems(1) by (intro replay_other) simp
    then show ?thesis using True by (simp add: replay_def replay_change_def change_key_def)
  next
    case False
    then show ?thesis using Cons by (simp add: replay_def)
  qed
qed simp

lemma exact_list_replay: "exact_list old new cs \<Longrightarrow> replay cs old = new"
proof
  fix key assume exact: "exact_list old new cs"
  show "replay cs old key = new key"
  proof (cases "key \<in> change_key ` set cs")
    case True
    then show ?thesis using exact replay_at [of cs] by (auto simp: exact_list_def exact_change_def)
  next
    case False
    then show ?thesis using exact replay_other [of key cs old] by (auto simp: exact_list_def)
  qed
qed


section \<open>Limbo documents\<close>

definition in_limbo :: "View \<Rightarrow> path set" where
  "in_limbo view = {key. ShouldBeInLimbo view key}"

definition limbo_ok :: "View \<Rightarrow> bool" where
  "limbo_ok view \<longleftrightarrow> mask_ok (limbo_documents view)"

lemma limbo_fold:
  assumes "\<forall>d \<in> set docs. plain_path (doc_key d)" "mask_ok limbo"
  shows "mask_ok (fold (\<lambda>doc limbo. if P (doc_key doc) then mask_insert (doc_key doc) limbo else limbo) docs limbo) \<and>
    set (fold (\<lambda>doc limbo. if P (doc_key doc) then mask_insert (doc_key doc) limbo else limbo) docs limbo) =
      {key \<in> doc_key ` set docs. P key} \<union> set limbo"
  using assms by (induction docs arbitrary: limbo) (use mask_insert_ok in auto)

text \<open>The limbo changes take the old limbo documents to the new ones.\<close>

definition replay_limbo :: "LimboDocumentChange list \<Rightarrow> path set \<Rightarrow> path set" where
  "replay_limbo changes keys =
     (keys - {key. LimboRemoved key \<in> set changes}) \<union> {key. LimboAdded key \<in> set changes}"

lemma UpdateLimboDocuments_ok:
  assumes set_ok: "query_order.set_ok query (view_document_set view)" and limbo: "limbo_ok view"
  shows "\<exists>limbo changes. UpdateLimboDocuments view = (view\<lparr>limbo_documents := limbo\<rparr>, changes) \<and> mask_ok limbo \<and>
    (if view_current view then set limbo = in_limbo view else limbo = limbo_documents view) \<and>
    replay_limbo changes (set (limbo_documents view)) = set limbo \<and>
    (\<forall>key. LimboAdded key \<in> set changes \<longrightarrow> key \<notin> set (limbo_documents view)) \<and>
    (\<forall>key. LimboRemoved key \<in> set changes \<longrightarrow> key \<in> set (limbo_documents view))"
proof (cases "view_current view")
  case False
  then show ?thesis using limbo
    by (intro exI [of _ "limbo_documents view"] exI [of _ "[]"])
      (simp add: UpdateLimboDocuments_def limbo_ok_def replay_limbo_def)
next
  case True
  let ?docs = "ds_sorted (view_document_set view)"
  define limbo where "limbo = fold (\<lambda>doc limbo. if ShouldBeInLimbo view (doc_key doc) then mask_insert (doc_key doc) limbo else limbo) ?docs []"
  have plain: "\<forall>d \<in> set ?docs. plain_path (doc_key d)"
    using set_ok by (auto simp: query_order.set_ok_def query_order.sorted_docs_def ordered_match_def comparable_match_def)
  have new: "mask_ok limbo" "set limbo = {key \<in> doc_key ` set ?docs. ShouldBeInLimbo view key}"
    using limbo_fold [OF plain mask_ok_Nil] unfolding limbo_def by auto
  have "key \<in> doc_key ` set ?docs" if "ShouldBeInLimbo view key" for key
    using that query_order.set_ok_lookup [OF set_ok, of key] by (force simp: ShouldBeInLimbo_def split: option.splits)
  then have "set limbo = in_limbo view" using new(2) by (auto simp: in_limbo_def)
  then show ?thesis
    using True new(1) unfolding UpdateLimboDocuments_def Let_def limbo_def [symmetric] by (auto simp: replay_limbo_def)
qed

section \<open>Applying changes\<close>

definition target_change_ok :: "View \<Rightarrow> TargetChange option \<Rightarrow> bool" where
  "target_change_ok view target_change \<longleftrightarrow>
     (\<forall>c. target_change = Some c \<longrightarrow> modified_documents c \<subseteq> synced_documents view \<union> added_documents c)"

definition synced_after :: "View \<Rightarrow> TargetChange option \<Rightarrow> path set" where
  "synced_after view target_change =
     (case target_change of
        None \<Rightarrow> synced_documents view
      | Some c \<Rightarrow> synced_documents view \<union> added_documents c - removed_documents c)"

definition current_after :: "View \<Rightarrow> TargetChange option \<Rightarrow> bool" where
  "current_after view target_change = (case target_change of None \<Rightarrow> view_current view | Some c \<Rightarrow> tc_current c)"

lemma ApplyTargetChange_ok:
  "target_change_ok view target_change \<Longrightarrow> ApplyTargetChange target_change view =
     Some (view\<lparr>synced_documents := synced_after view target_change, view_current := current_after view target_change\<rparr>)"
  by (cases target_change) (auto simp: ApplyTargetChange_def target_change_ok_def synced_after_def current_after_def Let_def)

text \<open>What a snapshot tells about a view: its documents, the exact change, and whether they are synced.\<close>

definition snapshot_ok :: "View \<Rightarrow> View \<Rightarrow> ViewSnapshot option \<Rightarrow> bool" where
  "snapshot_ok before after snapshot \<longleftrightarrow>
     (let old = GetDocument (view_document_set before); new = GetDocument (view_document_set after)
      in case snapshot of
           None \<Rightarrow> old = new \<and> sync_state before = sync_state after
         | Some s \<Rightarrow>
             snapshot_documents s = view_document_set after \<and> snapshot_old_documents s = view_document_set before \<and>
             exact_list old new (snapshot_changes s) \<and> sorted_changes (view_query after) (snapshot_changes s) \<and>
             snapshot_mutated_keys s = local_keys new \<and> from_cache s = (sync_state after \<noteq> SyncSynced) \<and>
             sync_state_changed s = (sync_state before \<noteq> sync_state after))"


definition limbo_step :: "View \<Rightarrow> View \<Rightarrow> LimboDocumentChange list \<Rightarrow> bool" where
  "limbo_step before after changes \<longleftrightarrow>
     replay_limbo changes (set (limbo_documents before)) = set (limbo_documents after) \<and>
     (\<forall>key. LimboAdded key \<in> set changes \<longrightarrow> key \<notin> set (limbo_documents before)) \<and>
     (\<forall>key. LimboRemoved key \<in> set changes \<longrightarrow> key \<in> set (limbo_documents before))"

lemma limbo_part:
  assumes "query_order.set_ok query (view_document_set view)" "limbo_ok view"
  shows "\<exists>limbo changes. (if pending then (view, []) else UpdateLimboDocuments view) =
      (view\<lparr>limbo_documents := limbo\<rparr>, changes) \<and> mask_ok limbo \<and>
    (if view_current view \<and> \<not> pending then set limbo = in_limbo view else limbo = limbo_documents view) \<and>
    limbo_step view (view\<lparr>limbo_documents := limbo\<rparr>) changes"
proof (cases pending)
  case True
  then show ?thesis using assms(2)
    by (intro exI [of _ "limbo_documents view"] exI [of _ "[]"]) (simp add: limbo_ok_def limbo_step_def replay_limbo_def)
next
  case False
  then show ?thesis using UpdateLimboDocuments_ok [OF assms] by (auto simp: limbo_step_def)
qed

lemma View_ApplyChanges_ok:
  fixes view changes
  defines "docs \<equiv> vdc_document_set changes"
  assumes ok: "view_ok view" "limbo_ok view" "state_ok view changes" "\<not> vdc_needs_refill changes"
    and target: "target_change_ok view target_change"
  shows "\<exists>view' change. View_ApplyChanges view changes target_change pending = Some (view', change) \<and>
    view_ok view' \<and> limbo_ok view' \<and> view_query view' = view_query view \<and> view_document_set view' = docs \<and>
    synced_documents view' = synced_after view target_change \<and> view_current view' = current_after view target_change \<and>
    (if view_current view' \<and> \<not> pending then set (limbo_documents view') = in_limbo view'
     else limbo_documents view' = limbo_documents view) \<and>
    (sync_state view' = SyncSynced \<longleftrightarrow> limbo_documents view' = [] \<and> view_current view' \<and> \<not> pending) \<and>
    limbo_step view view' (limbo_changes change) \<and> snapshot_ok view view' (view_snapshot change)"
proof -
  let ?query = "view_query view"
  define view1 where "view1 = view\<lparr>view_document_set := docs, mutated_keys := vdc_mutated_keys changes\<rparr>"
  define view2 where "view2 = view1\<lparr>synced_documents := synced_after view target_change, view_current := current_after view target_change\<rparr>"
  have set_ok: "query_order.set_ok ?query docs" using ok(3) by (simp add: state_ok_def docs_def)
  have exact: "exact_list (GetDocument (view_document_set view)) (GetDocument docs) (GetChanges (vdc_change_set changes))"
    using ok(3) exact_changes_list by (simp add: state_ok_def docs_def)
  have "\<forall>d \<in> set (GetChanges (vdc_change_set changes)). ordered_match ?query (dvc_document d)"
    using ok(3) by (auto simp: state_ok_def GetChanges_def change_docs_def)
  then obtain sorted where sorted: "sort_changes view1 (GetChanges (vdc_change_set changes)) = Some sorted"
    "mset sorted = mset (GetChanges (vdc_change_set changes))" "sorted_changes ?query sorted"
    using sort_changes_ok [of ?query view1] set_ok by (auto simp: view1_def)
  have list: "exact_list (GetDocument (view_document_set view)) (GetDocument docs) sorted"
    using exact_list_mset [OF exact sorted(2)] .
  have "ApplyTargetChange target_change view1 = Some view2"
    using ApplyTargetChange_ok [of view1 target_change] target
    by (simp add: view1_def view2_def target_change_ok_def synced_after_def current_after_def cong: option.case_cong)
  note parts = sorted(1) this
  obtain limbo lchanges where limbo: "(if pending then (view2, []) else UpdateLimboDocuments view2) =
      (view2\<lparr>limbo_documents := limbo\<rparr>, lchanges)" "mask_ok limbo"
    "if view_current view2 \<and> \<not> pending then set limbo = in_limbo view2 else limbo = limbo_documents view2"
    "limbo_step view2 (view2\<lparr>limbo_documents := limbo\<rparr>) lchanges"
    using limbo_part [of ?query view2 pending] set_ok ok(2) by (auto simp: view1_def view2_def limbo_ok_def)
  have v2: "view_query view2 = ?query" "sync_state view2 = sync_state view" by (simp_all add: view2_def view1_def)
  define state where "state = (if limbo = [] \<and> view_current view2 \<and> \<not> pending then SyncSynced else SyncLocal)"
  define view3 where "view3 = view2\<lparr>limbo_documents := limbo, sync_state := state\<rparr>"
  define snapshot where "snapshot = \<lparr>snapshot_query = ?query, snapshot_documents = docs,
    snapshot_old_documents = view_document_set view, snapshot_changes = sorted,
    snapshot_mutated_keys = vdc_mutated_keys changes, from_cache = (state = SyncLocal),
    sync_state_changed = (state \<noteq> sync_state view), excludes_metadata_changes = False,
    has_cached_results = (case target_change of None \<Rightarrow> False | Some c \<Rightarrow> tc_resume_token c \<noteq> [])\<rparr>"
  define change where "change = \<lparr>view_snapshot = (if sorted = [] \<and> state = sync_state view then None else Some snapshot), limbo_changes = lchanges\<rparr>"
  have result: "View_ApplyChanges view changes target_change pending = Some (view3, change)"
    unfolding View_ApplyChanges_def Let_def docs_def [symmetric] view1_def [symmetric]
    by (simp add: ok(4) parts limbo(1) v2 change_def snapshot_def state_def view3_def)
  have "snapshot_ok view view3 (view_snapshot change)"
    using list sorted(3) ok(3)
    by (auto simp: snapshot_ok_def change_def view3_def view2_def view1_def snapshot_def state_def exact_list_def state_ok_def docs_def)
  moreover have "view_ok view3" using ok(1,3) set_ok by (simp add: view3_def view2_def view1_def view_ok_def state_ok_def docs_def)
  ultimately show ?thesis
    using result limbo by (auto simp: view3_def view2_def view1_def state_def change_def limbo_ok_def limbo_step_def
        in_limbo_def ShouldBeInLimbo_def)
qed


section \<open>Runs of a view\<close>

text \<open>
  What the sync engine does with a view: it creates it with the remote keys of its target, computes
  the changes of changed documents, refills the view when that is asked for, applies the changes,
  and tells it about the online state.
\<close>

inductive view_run :: "Query \<Rightarrow> path set \<Rightarrow> View \<Rightarrow> ViewChange list \<Rightarrow> bool" for query remote where
  run_new: "View_new query remote = Some view \<Longrightarrow> view_run query remote view []"
| run_update: "view_run query remote view history \<Longrightarrow> changes_ok view docs \<Longrightarrow>
    ComputeDocumentChanges view docs None = Some result \<Longrightarrow> target_change_ok view target_change \<Longrightarrow>
    View_ApplyChanges view result target_change pending = Some (view', change) \<Longrightarrow>
    view_run query remote view' (history @ [change])"
| run_refill: "view_run query remote view history \<Longrightarrow> changes_ok view docs \<Longrightarrow>
    ComputeDocumentChanges view docs None = Some part \<Longrightarrow> changes_ok view docs2 \<Longrightarrow>
    ComputeDocumentChanges view docs2 (Some part) = Some result \<Longrightarrow> target_change_ok view target_change \<Longrightarrow>
    View_ApplyChanges view result target_change pending = Some (view', change) \<Longrightarrow>
    view_run query remote view' (history @ [change])"
| run_online: "view_run query remote view history \<Longrightarrow> ApplyOnlineStateChange view online = Some (view', change) \<Longrightarrow>
    view_run query remote view' (history @ [change])"

text \<open>What a listener has after the snapshots of a history, and what the sync engine has in limbo.\<close>

definition snapshot_list :: "ViewChange \<Rightarrow> DocumentViewChange list" where
  "snapshot_list change = (case view_snapshot change of None \<Rightarrow> [] | Some s \<Rightarrow> snapshot_changes s)"

definition listener_documents :: "ViewChange list \<Rightarrow> documents" where
  "listener_documents history = fold (\<lambda>change. replay (snapshot_list change)) history (\<lambda>_. None)"

definition tracked_limbo :: "ViewChange list \<Rightarrow> path set" where
  "tracked_limbo history = fold (\<lambda>change. replay_limbo (limbo_changes change)) history {}"

definition run_ok :: "View \<Rightarrow> ViewChange list \<Rightarrow> bool" where
  "run_ok view history \<longleftrightarrow> view_ok view \<and> limbo_ok view \<and>
     listener_documents history = GetDocument (view_document_set view) \<and>
     tracked_limbo history = set (limbo_documents view)"

lemma snapshot_replay:
  assumes "snapshot_ok view view' (view_snapshot change)"
  shows "replay (snapshot_list change) (GetDocument (view_document_set view)) = GetDocument (view_document_set view')"
  using assms exact_list_replay
  by (cases "view_snapshot change") (auto simp: snapshot_ok_def snapshot_list_def replay_def Let_def)

lemma run_ok_step:
  assumes "run_ok view history" "view_ok view'" "limbo_ok view'"
    and "snapshot_ok view view' (view_snapshot change)" "limbo_step view view' (limbo_changes change)"
  shows "run_ok view' (history @ [change])"
  using assms snapshot_replay by (simp add: run_ok_def listener_documents_def tracked_limbo_def limbo_step_def)

lemma View_new_ok:
  assumes "plain_query query" "0 \<le> query_limit query" "View_new query remote = Some view"
  shows "run_ok view [] \<and> view_query view = query"
proof -
  have view: "view = \<lparr>view_query = query, view_document_set = DocumentSet_new (compare_by (normalized_order_bys query)),
      synced_documents = remote, limbo_documents = [], mutated_keys = {}, sync_state = SyncNone, view_current = False\<rparr>"
    using assms Query_Comparator_lex by (simp add: View_new_def)
  have none: "GetDocument (DocumentSet_new cmp) = (\<lambda>_. None)" for cmp
    by (rule ext) (simp add: GetDocument_def DocumentSet_new_def)
  then show ?thesis
    using assms query_order.set_ok_new [of query]
    by (simp add: view run_ok_def view_ok_def limbo_ok_def local_keys_def listener_documents_def tracked_limbo_def)
qed

lemma View_ApplyChanges_step:
  assumes "run_ok view history" "state_ok view result" "target_change_ok view target_change"
    and "View_ApplyChanges view result target_change pending = Some (view', change)"
  shows "run_ok view' (history @ [change]) \<and> view_query view' = view_query view"
proof -
  have "\<not> vdc_needs_refill result" using assms(4) by (auto simp: View_ApplyChanges_def split: if_splits)
  then show ?thesis
    using View_ApplyChanges_ok [of view result target_change pending] assms run_ok_step by (fastforce simp: run_ok_def)
qed

lemma compute_state_ok:
  assumes "view_ok view" "changes_ok view docs" "\<And>p. previous = Some p \<Longrightarrow> state_ok view p"
    and "ComputeDocumentChanges view docs previous = Some result"
  shows "state_ok view result"
proof -
  obtain r where "state_ok view r"
    "ComputeDocumentChanges view docs previous = (if vdc_needs_refill r \<and> previous \<noteq> None then None else Some r)"
    using changes_step [of view docs previous "vdc_document_set (start_changes view previous)"] assms(1,2,3) by blast
  then show ?thesis using assms(4) by (simp split: if_splits)
qed

lemma online_step:
  assumes "run_ok view history" "ApplyOnlineStateChange view online = Some (view', change)"
  shows "run_ok view' (history @ [change]) \<and> view_query view' = view_query view"
proof (cases "view_current view \<and> online = Offline")
  case True
  let ?view = "view\<lparr>view_current := False\<rparr>"
  let ?none = "\<lparr>vdc_document_set = view_document_set view, vdc_change_set = [], vdc_mutated_keys = mutated_keys view, vdc_needs_refill = False\<rparr>"
  have "run_ok ?view history" "state_ok ?view ?none" "target_change_ok ?view None"
    using assms(1) by (auto simp: run_ok_def view_ok_def limbo_ok_def state_ok_def exact_changes_refl change_docs_def target_change_ok_def)
  then show ?thesis using View_ApplyChanges_step [of ?view history ?none None False view' change] True assms(2)
    by (simp add: ApplyOnlineStateChange_def)
next
  case False
  then have "view' = view" "change = \<lparr>view_snapshot = None, limbo_changes = []\<rparr>"
    using assms(2) by (auto simp: ApplyOnlineStateChange_def)
  then show ?thesis
    using assms(1) by (auto simp: run_ok_def listener_documents_def tracked_limbo_def snapshot_list_def replay_def replay_limbo_def)
qed

lemma view_run_ok:
  assumes "plain_query query" "0 \<le> query_limit query" "view_run query remote view history"
  shows "run_ok view history \<and> view_query view = query"
  using assms(3)
proof (induction rule: view_run.induct)
  case (run_new view)
  then show ?case using View_new_ok assms(1,2) by blast
next
  case (run_update view history docs result target_change pending view' change)
  then show ?case
    using compute_state_ok [of view docs None result] View_ApplyChanges_step [of view history result target_change pending view' change]
    by (auto simp: run_ok_def)
next
  case (run_refill view history docs part docs2 result target_change pending view' change)
  then have "state_ok view part" using compute_state_ok [of view docs None part] by (auto simp: run_ok_def)
  then show ?case
    using run_refill compute_state_ok [of view docs2 "Some part" result]
      View_ApplyChanges_step [of view history result target_change pending view' change] by (auto simp: run_ok_def)
next
  case (run_online view history online view' change)
  then show ?case using online_step by blast
qed

end
