(* ===== verification/ViewProperties.thy ===== *)
theory ViewProperties
  imports ViewSnapshots
begin

text \<open>
  The properties of views, each with an instance: the query \<open>scores_query\<close>, which keeps the last two
  of the scores.
\<close>

section \<open>An example\<close>

definition scores_view :: View where
  "scores_view = the (View_new scores_query {})"

definition scores_changes :: "(path \<times> MutableDocument) list" where
  "scores_changes = map (\<lambda>name. ([''scores'', name], score_doc name)) [''a'', ''b'', ''c'']"

lemma scores_view_new: "View_new scores_query {} = Some scores_view"
  using Query_Comparator_lex [OF scores_query_plain] by (simp add: scores_view_def View_new_def)

lemma scores_view_run: "view_run scores_query {} scores_view []"
  using scores_view_new by (rule run_new)

lemma scores_limit: "0 \<le> query_limit scores_query"
  by (simp add: scores_query_def)

lemma scores_view_ok: "run_ok scores_view []" "view_query scores_view = scores_query"
  using view_run_ok [OF scores_query_plain scores_limit scores_view_run] by simp_all

lemma scores_view_empty: "GetDocument (view_document_set scores_view) = (\<lambda>_. None)"
  using scores_view_ok(1) by (simp add: run_ok_def listener_documents_def)

lemma score_doc_ok: "name \<in> {''a'', ''b'', ''c''} \<Longrightarrow> changed_document_ok scores_query [''scores'', name] (score_doc name)"
proof -
  have "changed_document_ok scores_query [''scores'', ''a''] (score_doc ''a'')"
    "changed_document_ok scores_query [''scores'', ''b''] (score_doc ''b'')"
    "changed_document_ok scores_query [''scores'', ''c''] (score_doc ''c'')"
    unfolding changed_document_ok_def plain_path_def by code_simp+
  then show "name \<in> {''a'', ''b'', ''c''} \<Longrightarrow> ?thesis" by auto
qed

lemma score_doc_matches_all:
  "Query_Matches scores_query (score_doc ''a'') = Some True"
  "Query_Matches scores_query (score_doc ''b'') = Some True"
  "Query_Matches scores_query (score_doc ''c'') = Some True"
  by code_simp+

lemma score_doc_key: "doc_key (score_doc name) = [''scores'', name]"
  by (simp add: score_doc_def FoundDocument_def ConvertToFoundDocument_def InvalidDocument_def)

lemma scores_changes_ok: "changes_ok scores_view scores_changes"
  using score_doc_ok by (auto simp: changes_ok_def scores_changes_def scores_view_ok)

section \<open>Listeners and limbo\<close>

text \<open>C3: In every run of a view, a listener that starts with nothing and replays the changes of the
  snapshots it is sent has exactly the documents of the view, and whoever follows the limbo
  changes has exactly its limbo documents.  The keys with local mutations are those of the
  documents with local mutations.\<close>
theorem listener_sees_view:
  assumes "plain_query query" "0 \<le> query_limit query" "view_run query remote view history"
  shows "listener_documents history = GetDocument (view_document_set view) \<and>
    tracked_limbo history = set (limbo_documents view) \<and>
    mutated_keys view = local_keys (GetDocument (view_document_set view))"
  using view_run_ok [OF assms] by (simp add: run_ok_def view_ok_def)

text \<open>C8: In every run of a view, computing the changes of changed documents never fails an assertion, and
  unless a refill is asked for, applying them succeeds: a snapshot lists in the order of their
  type and of the query exactly the differences between the documents before and after, it is
  from the cache exactly when the view is not synced, and without a snapshot neither the
  documents nor the sync state changed.\<close>
theorem view_update_exact:
  assumes "plain_query query" "0 \<le> query_limit query" "view_run query remote view history"
    and "changes_ok view docs" "target_change_ok view target_change"
  shows "\<exists>result. ComputeDocumentChanges view docs None = Some result \<and>
    (\<not> vdc_needs_refill result \<longrightarrow>
      (\<exists>view' change. View_ApplyChanges view result target_change pending = Some (view', change) \<and>
        view_document_set view' = vdc_document_set result \<and> synced_documents view' = synced_after view target_change \<and>
        snapshot_ok view view' (view_snapshot change) \<and> limbo_step view view' (limbo_changes change)))"
proof -
  have ok: "view_ok view" "limbo_ok view" using view_run_ok [OF assms(1-3)] by (simp_all add: run_ok_def)
  obtain result where result: "ComputeDocumentChanges view docs None = Some result" "state_ok view result"
    using changes_step [OF ok(1) assms(4), of None "view_document_set view"] by (auto simp: start_changes_def)
  then show ?thesis using View_ApplyChanges_ok [OF ok result(2) _ assms(5), of pending] by fastforce
qed

section \<open>The result of the query\<close>

text \<open>C4: As long as no refill is asked for, a view is maintained incrementally: if it shows what the limit of
  its query leaves of all documents, then after the changes it shows what the limit leaves of
  all documents as changed.  Documents with equal contents must be ordered alike.\<close>
theorem view_is_query_result:
  assumes "view_ok view" "changes_ok view changes" "equal_ordered_alike view (view_document_set view) changes"
    and "lists_documents (view_query view) docs all"
    and "ds_sorted (view_document_set view) = limit_documents (view_query view) all"
    and "lists_documents (view_query view) (updated_documents view (view_document_set view) changes docs) all'"
    and "ComputeDocumentChanges view changes None = Some result" "\<not> vdc_needs_refill result"
  shows "ds_sorted (vdc_document_set result) = limit_documents (view_query view) all'"
  by (rule result_without_refill [OF assms])

text \<open>C9: One refill is enough: computing the changes of all local results on top of the changes that asked
  for the refill never asks for another, and the view then shows what the limit of the query
  leaves of all of them.  The local results include the documents the view shows, with the
  contents it shows or with a change it waits to see synced.\<close>
theorem one_refill_suffices:
  assumes "view_ok view" "changes_ok view changes" "ComputeDocumentChanges view changes None = Some part"
    and "changes_ok view results"
    and "\<And>key. GetDocument (vdc_document_set part) key \<noteq> None \<Longrightarrow> key \<in> fst ` set results"
    and "\<And>key doc shown. (key, doc) \<in> set results \<Longrightarrow> GetDocument (vdc_document_set part) key = Some shown \<Longrightarrow>
      Query_Matches (view_query view) doc = Some True \<and> (docs_equal shown doc = Some True \<or> ShouldWaitForSyncedDocument doc shown)"
    and "lists_documents (view_query view) (updated_documents view (vdc_document_set part) results (\<lambda>_. None)) all"
  shows "\<exists>result. ComputeDocumentChanges view results (Some part) = Some result \<and> \<not> vdc_needs_refill result \<and>
    ds_sorted (vdc_document_set result) = limit_documents (view_query view) all"
proof -
  have "state_ok view part" using compute_state_ok [OF assms(1,2) _ assms(3)] by simp
  then have "\<exists>result. ComputeDocumentChanges view results (Some part) = Some result \<and> state_ok view result \<and>
      \<not> vdc_needs_refill result \<and> ds_sorted (vdc_document_set result) = limit_documents (view_query view) all"
    by (rule result_of_refill [OF assms(1,4)]) (use assms(5,6,7) in blast)+
  then show ?thesis by blast
qed

section \<open>Synced snapshots\<close>

text \<open>C36: A snapshot that is not from the cache leaves nothing unexplained: the view is current, no reset is
  pending, and every document in the snapshot is one the backend has confirmed or one with local
  mutations.\<close>
theorem synced_snapshot_explained:
  assumes "plain_query query" "0 \<le> query_limit query" "view_run query remote view history"
    and "changes_ok view docs" "ComputeDocumentChanges view docs None = Some result" "target_change_ok view target_change"
    and "View_ApplyChanges view result target_change pending = Some (view', change)"
    and "view_snapshot change = Some snapshot" "\<not> from_cache snapshot"
  shows "view_current view' \<and> \<not> pending \<and>
    (\<forall>key doc. GetDocument (snapshot_documents snapshot) key = Some doc \<longrightarrow>
       key \<in> synced_documents view' \<or> has_local_mutations doc)"
proof -
  have ok: "view_ok view" "limbo_ok view" using view_run_ok [OF assms(1-3)] by (simp_all add: run_ok_def)
  have state: "state_ok view result" "\<not> vdc_needs_refill result"
    using compute_state_ok [OF ok(1) assms(4) _ assms(5)] assms(7) by (auto simp: View_ApplyChanges_def split: if_splits)
  note step = View_ApplyChanges_ok [OF ok state assms(6), of pending]
  then have snapshot: "snapshot_documents snapshot = view_document_set view'" "sync_state view' = SyncSynced"
    using assms(7,8,9) by (auto simp: snapshot_ok_def Let_def)
  then have "limbo_documents view' = []" "view_current view'" "\<not> pending" "in_limbo view' = {}"
    using step assms(7) by auto
  then show ?thesis using snapshot(1) by (auto simp: in_limbo_def ShouldBeInLimbo_def)
qed

section \<open>A change the view does not see\<close>

lemma unseen_change:
  assumes "view_ok view" "GetDocument (view_document_set view) key = Some shown"
    and "Query_Matches (view_query view) doc = Some True" "docs_equal shown doc = Some True"
    and "\<not> has_local_mutations shown" "\<not> has_local_mutations doc" "limit_type (view_query view) = NoLimit"
  shows "ComputeDocumentChanges view [(key, doc)] None =
    Some \<lparr>vdc_document_set = view_document_set view, vdc_change_set = [], vdc_mutated_keys = mutated_keys view,
      vdc_needs_refill = False\<rparr>"
proof -
  have "key \<notin> mutated_keys view" using assms(1,2,5) by (auto simp: view_ok_def local_keys_def)
  moreover have "GetLimit (view_query view) = None"
    using assms(7) by (simp add: GetLimit_def has_limit_to_first_def has_limit_to_last_def)
  ultimately show ?thesis using assms
    by (simp add: ComputeDocumentChanges_def start_changes_def change_step_def calculate_change_def drop_to_limit_def)
qed

text \<open>C37: When the number in the only field of a shown document changes from an integer to the double of the
  same value, the view of a query without limit takes the document for unchanged: it keeps the old
  one and reports nothing, so that listeners are never told of the new type.\<close>
theorem view_misses_number_type:
  assumes "plain_query query" "0 \<le> query_limit query" "limit_type query = NoLimit" "view_run query remote view history"
    and "GetDocument (view_document_set view) key = Some shown" "doc_value shown = [(field, integer_value i)]"
    and "doc_value doc = [(field, double_value d)]" "\<not> isnan d" "dbl_key d = sint i * 2 ^ 1074"
    and "Query_Matches query doc = Some True" "\<not> has_local_mutations shown" "\<not> has_local_mutations doc"
  shows "ComputeDocumentChanges view [(key, doc)] None =
    Some \<lparr>vdc_document_set = view_document_set view, vdc_change_set = [], vdc_mutated_keys = mutated_keys view,
      vdc_needs_refill = False\<rparr>"
proof -
  have "docs_equal shown doc = Some True"
    using map_equality_number_types [OF assms(8,9)] assms(6,7) by (simp add: docs_equal_def)
  then show ?thesis
    using view_run_ok [OF assms(1,2,4)] assms by (intro unseen_change) (auto simp: run_ok_def)
qed

section \<open>Instances\<close>

lemma first_update:
  assumes "plain_query query" "0 \<le> query_limit query" "View_new query {} = Some view" "changes_ok view docs"
    and "ComputeDocumentChanges view docs None = Some result" "\<not> vdc_needs_refill result"
  shows "\<exists>view' change. View_ApplyChanges view result None False = Some (view', change) \<and>
    view_run query {} view' [change] \<and> view_document_set view' = vdc_document_set result"
proof -
  have run: "view_run query {} view []" using assms(3) by (rule run_new)
  then have ok: "view_ok view" "limbo_ok view" using view_run_ok [OF assms(1,2)] by (simp_all add: run_ok_def)
  have state: "state_ok view result" using compute_state_ok [OF ok(1) assms(4) _ assms(5)] by simp
  have target: "target_change_ok view None" by (simp add: target_change_ok_def)
  obtain view' change where "View_ApplyChanges view result None False = Some (view', change)" "view_document_set view' = vdc_document_set result"
    using View_ApplyChanges_ok [OF ok state assms(6) target, of False] by blast
  then show ?thesis using run_update [OF run assms(4,5) target] by auto
qed

definition scores_result :: ViewDocumentChanges where
  "scores_result = the (ComputeDocumentChanges scores_view scores_changes None)"

lemma scores_result_eval:
  "ComputeDocumentChanges scores_view scores_changes None = Some scores_result"
  "\<not> vdc_needs_refill scores_result" "ds_sorted (vdc_document_set scores_result) = [score_doc ''b'', score_doc ''c'']"
proof -
  have "ComputeDocumentChanges scores_view scores_changes None \<noteq> None" by code_simp
  then show "ComputeDocumentChanges scores_view scores_changes None = Some scores_result" by (auto simp: scores_result_def)
qed code_simp+

theorem listener_sees_view_witness:
  "\<exists>view change. view_run scores_query {} view [change] \<and>
     listener_documents [change] [''scores'', ''b''] = Some (score_doc ''b'')"
proof -
  obtain view change where run: "view_run scores_query {} view [change]" "view_document_set view = vdc_document_set scores_result"
    using first_update [OF scores_query_plain scores_limit scores_view_new scores_changes_ok scores_result_eval(1,2)] by blast
  have "GetDocument (vdc_document_set scores_result) [''scores'', ''b''] = Some (score_doc ''b'')" by code_simp
  then have "listener_documents [change] [''scores'', ''b''] = Some (score_doc ''b'')"
    using listener_sees_view [OF scores_query_plain scores_limit run(1)] run(2) by simp
  then show ?thesis using run(1) by blast
qed

theorem view_update_exact_witness:
  "\<exists>view' change s. View_ApplyChanges scores_view scores_result None False = Some (view', change) \<and>
     view_snapshot change = Some s \<and> exact_list (\<lambda>_. None) (GetDocument (view_document_set view')) (snapshot_changes s)"
proof -
  have "target_change_ok scores_view None" by (simp add: target_change_ok_def)
  from view_update_exact [OF scores_query_plain scores_limit scores_view_run scores_changes_ok this, of False]
  obtain view' change where applied: "View_ApplyChanges scores_view scores_result None False = Some (view', change)"
    "view_document_set view' = vdc_document_set scores_result" "snapshot_ok scores_view view' (view_snapshot change)"
    using scores_result_eval by auto
  have "GetDocument (vdc_document_set scores_result) [''scores'', ''b''] = Some (score_doc ''b'')" by code_simp
  then have "GetDocument (view_document_set view') \<noteq> (\<lambda>_. None)" using applied(2) by (auto simp: fun_eq_iff)
  then show ?thesis using applied scores_view_empty by (auto simp: snapshot_ok_def Let_def split: option.splits)
qed


text \<open>Three scores arrive at the empty view; the last two remain.\<close>

lemma scores_listed:
  "lists_documents scores_query (updated_documents scores_view (view_document_set scores_view) scores_changes (\<lambda>_. None))
     [score_doc ''a'', score_doc ''b'', score_doc ''c'']"
proof -
  have "query_order.sorted_docs scores_query [score_doc ''a'', score_doc ''b'', score_doc ''c'']"
  proof -
    have "lex_compare (normalized_order_bys scores_query) (score_doc ''a'') (score_doc ''b'') = Ascending"
      "lex_compare (normalized_order_bys scores_query) (score_doc ''a'') (score_doc ''c'') = Ascending"
      "lex_compare (normalized_order_bys scores_query) (score_doc ''b'') (score_doc ''c'') = Ascending"
      by code_simp+
    moreover have "ordered_match scores_query (score_doc name)" if "name \<in> {''a'', ''b'', ''c''}" for name
      using that changed_document_good [OF scores_query_plain score_doc_ok [OF that]] by (auto simp: score_doc_matches_all)
    ultimately show ?thesis by (simp add: query_order.sorted_docs_def)
  qed
  moreover have "updated_documents scores_view (view_document_set scores_view) scores_changes (\<lambda>_. None) key =
      map_of scores_changes key" for key
  proof (cases "map_of scores_changes key")
    case (Some doc)
    then have "doc \<in> {score_doc ''a'', score_doc ''b'', score_doc ''c''}" by (auto simp: scores_changes_def split: if_splits)
    then show ?thesis using Some
      by (auto simp: updated_documents_def shown_document_def scores_view_empty scores_view_ok(2) score_doc_matches_all)
  qed (simp add: updated_documents_def)
  moreover have "map_of scores_changes key = Some d \<longleftrightarrow>
      d \<in> set [score_doc ''a'', score_doc ''b'', score_doc ''c''] \<and> doc_key d = key" for key d
    by (auto simp: scores_changes_def score_doc_key)
  ultimately show ?thesis by (simp only: lists_documents_def) blast
qed

theorem view_is_query_result_witness:
  "ds_sorted (vdc_document_set scores_result) = limit_documents scores_query [score_doc ''a'', score_doc ''b'', score_doc ''c'']"
proof -
  have alike: "equal_ordered_alike scores_view (view_document_set scores_view) scores_changes"
    by (simp add: equal_ordered_alike_def scores_view_empty)
  have none: "lists_documents scores_query (\<lambda>_. None) []" by (simp add: lists_documents_def)
  have empty: "ds_sorted (view_document_set scores_view) = limit_documents scores_query []" by code_simp
  have ok: "view_ok scores_view" using scores_view_ok(1) by (simp add: run_ok_def)
  show ?thesis
    by (rule view_is_query_result [of scores_view scores_changes, unfolded scores_view_ok(2),
          OF ok scores_changes_ok alike none empty scores_listed scores_result_eval(1,2)])
qed


text \<open>The last score is deleted, which asks for a refill; the remaining scores refill the view.\<close>

definition scores_view2 :: View where
  "scores_view2 = fst (the (View_ApplyChanges scores_view scores_result None False))"

definition scores_deletion :: "(path \<times> MutableDocument) list" where
  "scores_deletion = [([''scores'', ''c''], NoDocument [''scores'', ''c''] \<lparr>seconds = 1, nanos = 0\<rparr>)]"

definition scores_part :: ViewDocumentChanges where
  "scores_part = the (ComputeDocumentChanges scores_view2 scores_deletion None)"

definition scores_rest :: "(path \<times> MutableDocument) list" where
  "scores_rest = map (\<lambda>name. ([''scores'', name], score_doc name)) [''a'', ''b'']"

lemma scores_view2_run: "\<exists>change. view_run scores_query {} scores_view2 [change]"
  using first_update [OF scores_query_plain scores_limit scores_view_new scores_changes_ok scores_result_eval(1,2)]
  by (auto simp: scores_view2_def)

lemma scores_view2_ok: "view_ok scores_view2" "view_query scores_view2 = scores_query"
  using scores_view2_run view_run_ok [OF scores_query_plain scores_limit] by (auto simp: run_ok_def)

lemma scores_part_eval:
  "ComputeDocumentChanges scores_view2 scores_deletion None = Some scores_part" "vdc_needs_refill scores_part"
  "ds_index (vdc_document_set scores_part) = [([''scores'', ''b''], score_doc ''b'')]"
proof -
  have "ComputeDocumentChanges scores_view2 scores_deletion None \<noteq> None" by code_simp
  then show "ComputeDocumentChanges scores_view2 scores_deletion None = Some scores_part" by (auto simp: scores_part_def)
qed code_simp+

lemma scores_deletion_ok: "changes_ok scores_view2 scores_deletion"
proof -
  have "changed_document_ok scores_query [''scores'', ''c''] (NoDocument [''scores'', ''c''] \<lparr>seconds = 1, nanos = 0\<rparr>)"
    unfolding changed_document_ok_def plain_path_def by code_simp
  then show ?thesis by (simp add: changes_ok_def scores_deletion_def scores_view2_ok)
qed

lemma scores_part_documents:
  "GetDocument (vdc_document_set scores_part) key = (if key = [''scores'', ''b''] then Some (score_doc ''b'') else None)"
  by (simp add: GetDocument_def scores_part_eval)

lemma scores_rest_listed:
  "lists_documents scores_query (updated_documents scores_view2 (vdc_document_set scores_part) scores_rest (\<lambda>_. None))
     [score_doc ''a'', score_doc ''b'']"
proof -
  have "query_order.sorted_docs scores_query [score_doc ''a'', score_doc ''b'']"
    using scores_listed by (simp add: lists_documents_def query_order.sorted_docs_def)
  moreover have "docs_equal (score_doc ''b'') (score_doc ''b'') = Some True" "\<not> pending_changed scores_view2 (score_doc ''b'')"
    by code_simp+
  then have "updated_documents scores_view2 (vdc_document_set scores_part) scores_rest (\<lambda>_. None) key = map_of scores_rest key" for key
    by (auto simp: updated_documents_def scores_rest_def scores_part_documents shown_document_def scores_view2_ok(2) score_doc_matches_all)
  moreover have "map_of scores_rest key = Some d \<longleftrightarrow> d \<in> set [score_doc ''a'', score_doc ''b''] \<and> doc_key d = key" for key d
    by (auto simp: scores_rest_def score_doc_key)
  ultimately show ?thesis by (simp only: lists_documents_def) blast
qed

theorem one_refill_suffices_witness:
  "\<exists>result. ComputeDocumentChanges scores_view2 scores_rest (Some scores_part) = Some result \<and>
     ds_sorted (vdc_document_set result) = limit_documents scores_query [score_doc ''a'', score_doc ''b'']"
proof -
  have rest: "changes_ok scores_view2 scores_rest"
    using score_doc_ok by (auto simp: changes_ok_def scores_rest_def scores_view2_ok)
  have complete: "\<And>key. GetDocument (vdc_document_set scores_part) key \<noteq> None \<Longrightarrow> key \<in> fst ` set scores_rest"
    by (auto simp: scores_part_documents scores_rest_def split: if_splits)
  have "docs_equal (score_doc ''b'') (score_doc ''b'') = Some True" by code_simp
  then have agree: "\<And>key doc shown. (key, doc) \<in> set scores_rest \<Longrightarrow> GetDocument (vdc_document_set scores_part) key = Some shown \<Longrightarrow>
      Query_Matches scores_query doc = Some True \<and> (docs_equal shown doc = Some True \<or> ShouldWaitForSyncedDocument doc shown)"
    by (auto simp: scores_part_documents scores_rest_def score_doc_matches_all split: if_splits)
  have "\<exists>result. ComputeDocumentChanges scores_view2 scores_rest (Some scores_part) = Some result \<and> \<not> vdc_needs_refill result \<and>
      ds_sorted (vdc_document_set result) = limit_documents scores_query [score_doc ''a'', score_doc ''b'']"
    by (rule one_refill_suffices [of scores_view2, unfolded scores_view2_ok(2),
          OF scores_view2_ok(1) scores_deletion_ok scores_part_eval(1) rest])
      (use complete agree scores_rest_listed in blast)+
  then show ?thesis by blast
qed

text \<open>The backend confirms the scores and declares the target current.\<close>

definition scores_target_change :: TargetChange where
  "scores_target_change = \<lparr>tc_resume_token = [1], tc_current = True,
     added_documents = {[''scores'', ''b''], [''scores'', ''c'']}, modified_documents = {}, removed_documents = {}\<rparr>"

theorem synced_snapshot_explained_witness:
  "\<exists>view' change. View_ApplyChanges scores_view scores_result (Some scores_target_change) False = Some (view', change) \<and>
     view_current view' \<and> [''scores'', ''b''] \<in> synced_documents view'"
proof -
  define applied where "applied = the (View_ApplyChanges scores_view scores_result (Some scores_target_change) False)"
  have "View_ApplyChanges scores_view scores_result (Some scores_target_change) False \<noteq> None" by code_simp
  then have step: "View_ApplyChanges scores_view scores_result (Some scores_target_change) False = Some (fst applied, snd applied)"
    by (auto simp: applied_def)
  have snapshot: "view_snapshot (snd applied) = Some (the (view_snapshot (snd applied)))"
  proof -
    have "view_snapshot (snd applied) \<noteq> None" unfolding applied_def by code_simp
    then show ?thesis by simp
  qed
  have cached: "\<not> from_cache (the (view_snapshot (snd applied)))" unfolding applied_def by code_simp
  have shown: "GetDocument (snapshot_documents (the (view_snapshot (snd applied)))) [''scores'', ''b''] = Some (score_doc ''b'')"
    unfolding applied_def by code_simp
  have local: "\<not> has_local_mutations (score_doc ''b'')" by code_simp
  have target: "target_change_ok scores_view (Some scores_target_change)"
    by (simp add: target_change_ok_def scores_target_change_def)
  note explained = synced_snapshot_explained [OF scores_query_plain scores_limit scores_view_run scores_changes_ok
      scores_result_eval(1) target step snapshot cached]
  then have "view_current (fst applied)" "[''scores'', ''b''] \<in> synced_documents (fst applied)"
    using shown local by blast+
  then show ?thesis using step by blast
qed

text \<open>A collection without limit whose document changes from the integer 0 to the double 0.\<close>

definition all_query :: Query where
  "all_query =
     \<lparr>query_path = [''scores''], query_collection_group = None, query_filters = [],
      explicit_order_bys = [], query_limit = kNoLimit, limit_type = NoLimit,
      query_start_at = None, query_end_at = None\<rparr>"

definition number_doc :: "Value \<Rightarrow> MutableDocument" where
  "number_doc v = FoundDocument [''scores'', ''a''] SnapshotVersion_None [(''score'', v)]"

definition all_view :: View where
  "all_view = the (View_new all_query {})"

definition all_result :: ViewDocumentChanges where
  "all_result = the (ComputeDocumentChanges all_view [([''scores'', ''a''], number_doc (integer_value 0))] None)"

lemma all_query_plain: "plain_query all_query" "0 \<le> query_limit all_query" "limit_type all_query = NoLimit"
proof -
  show "plain_query all_query" unfolding plain_query_def plain_path_def by code_simp
qed (simp_all add: all_query_def kNoLimit_def)

lemma all_view_new: "View_new all_query {} = Some all_view"
  using Query_Comparator_lex [OF all_query_plain(1)] by (simp add: all_view_def View_new_def)

lemma all_result_eval:
  "ComputeDocumentChanges all_view [([''scores'', ''a''], number_doc (integer_value 0))] None = Some all_result"
  "\<not> vdc_needs_refill all_result"
  "GetDocument (vdc_document_set all_result) [''scores'', ''a''] = Some (number_doc (integer_value 0))"
proof -
  have "ComputeDocumentChanges all_view [([''scores'', ''a''], number_doc (integer_value 0))] None \<noteq> None" by code_simp
  then show "ComputeDocumentChanges all_view [([''scores'', ''a''], number_doc (integer_value 0))] None = Some all_result"
    by (auto simp: all_result_def)
qed code_simp+

lemma all_changes_ok: "changes_ok all_view [([''scores'', ''a''], number_doc (integer_value 0))]"
proof -
  have "changed_document_ok all_query [''scores'', ''a''] (number_doc (integer_value 0))"
    unfolding changed_document_ok_def plain_path_def by code_simp
  moreover have "view_query all_view = all_query" using View_new_ok [OF all_query_plain(1,2) all_view_new] by simp
  ultimately show ?thesis by (simp add: changes_ok_def)
qed

theorem view_misses_number_type_witness:
  "\<exists>view result. view_run all_query {} view [result] \<and>
     GetDocument (view_document_set view) [''scores'', ''a''] = Some (number_doc (integer_value 0)) \<and>
     (\<exists>part. ComputeDocumentChanges view [([''scores'', ''a''], number_doc (double_value 0))] None = Some part \<and>
       vdc_document_set part = view_document_set view \<and> vdc_change_set part = [])"
proof -
  obtain view result where run: "view_run all_query {} view [result]" "view_document_set view = vdc_document_set all_result"
    using first_update [OF all_query_plain(1,2) all_view_new all_changes_ok all_result_eval(1,2)] by blast
  have shown: "GetDocument (view_document_set view) [''scores'', ''a''] = Some (number_doc (integer_value 0))"
    using all_result_eval(3) run(2) by simp
  have zero: "\<not> isnan (0 :: 64 word)" "dbl_key 0 = sint (0 :: 64 word) * 2 ^ 1074"
    by (simp_all add: isnan_def dbl_key_def dbl_mag_def dbl_negative_def mag_value_def)
  have doc: "doc_value (number_doc v) = [(''score'', v)]" "\<not> has_local_mutations (number_doc v)" for v
    by (simp_all add: number_doc_def FoundDocument_def document_defs)
  have match: "Query_Matches all_query (number_doc (double_value 0)) = Some True" by code_simp
  show ?thesis
    using view_misses_number_type [OF all_query_plain run(1) shown doc(1) doc(1) zero match doc(2) doc(2)] run(1) shown by auto
qed

end
