(* ===== verification/OrderedCode.thy ===== *)
theory OrderedCode
  imports Bytes
begin

text \<open>
  The order-preserving encodings of strings and numbers (\<^verbatim>\<open>util/ordered_code.cc\<close>,
  \<^verbatim>\<open>util/bits.cc\<close>) behind the keys of the persistent store.  A \<^verbatim>\<open>string_view\<close> is its list of bytes,
  a reader returns the bytes it leaves.  The outer None stands for a failed assertion, the inner
  None for the answer \<^verbatim>\<open>false\<close>.  Words are loaded and stored as on a little-endian machine,
  freshly allocated bytes are 0 (\<open>copy_inverted_bytes\<close> shows that they do not matter).
\<close>

section \<open>Logarithms\<close>

definition log2_step :: "nat \<Rightarrow> 32 word \<times> int \<Rightarrow> 32 word \<times> int" where
  "log2_step i state =
     (let shift = 2 ^ i; (value, log) = state; x = drop_bit shift value
      in if x \<noteq> 0 then (x, log + int shift) else (value, log))"

definition Log2Floor_Portable :: "32 word \<Rightarrow> int option" where
  "Log2Floor_Portable n =
     (if n = 0 then Some (- 1)
      else let (value, log) = fold log2_step [4, 3, 2, 1, 0] (n, 0)
           in if value = 1 then Some log else None)"

definition Log2Floor64_Portable :: "64 word \<Rightarrow> int option" where
  "Log2Floor64_Portable n =
     (let top_bits = ucast (drop_bit 32 n) :: 32 word
      in if top_bits = 0 then Log2Floor_Portable (ucast n) else map_option ((+) 32) (Log2Floor_Portable top_bits))"

text \<open>\<^verbatim>\<open>__builtin_clz\<close> and \<^verbatim>\<open>__builtin_clzll\<close> count leading zeros and are undefined at 0.\<close>

definition builtin_clz :: "'a::len word \<Rightarrow> int" where
  "builtin_clz n = int LENGTH('a) - int (bit_length (unat n))"

definition Log2FloorNonZero :: "32 word \<Rightarrow> int option" where
  "Log2FloorNonZero n = (if n = 0 then None else Some (31 XOR builtin_clz n))"

definition Log2Floor64 :: "64 word \<Rightarrow> int" where
  "Log2Floor64 n = (if n = 0 then - 1 else 63 XOR builtin_clz n)"

definition Log2FloorNonZero64 :: "64 word \<Rightarrow> int option" where
  "Log2FloorNonZero64 n = (if n = 0 then None else Some (63 XOR builtin_clz n))"

section \<open>Copying with inversion\<close>

definition kEscape1 :: byte where "kEscape1 = 0"
definition kNullCharacter :: byte where "kNullCharacter = 0xff"
definition kSeparator :: byte where "kSeparator = 1"
definition kEscape2 :: byte where "kEscape2 = 0xff"
definition kInfinity :: byte where "kInfinity = 0xff"
definition kFFCharacter :: byte where "kFFCharacter = 0"

definition Convert :: "bool \<Rightarrow> 'a::len word \<Rightarrow> 'a word" where
  "Convert invert x = (if invert then NOT x else x)"

definition Convert2 :: "bool \<Rightarrow> byte \<Rightarrow> byte \<Rightarrow> 16 word" where
  "Convert2 invert a b =
     (let x = ucast a OR push_bit 8 (ucast b) :: 16 word in if invert then NOT x else x)"

definition convert16 :: "bool \<Rightarrow> nat \<Rightarrow> byte list \<Rightarrow> byte list \<Rightarrow> byte list" where
  "convert16 invert i src dst = store_at i (store_le 2 (Convert invert (load_le (take 2 (drop i src)) :: 16 word))) dst"

definition convert32 :: "bool \<Rightarrow> nat \<Rightarrow> byte list \<Rightarrow> byte list \<Rightarrow> byte list" where
  "convert32 invert i src dst = store_at i (store_le 4 (Convert invert (load_le (take 4 (drop i src)) :: 32 word))) dst"

definition convert64 :: "bool \<Rightarrow> nat \<Rightarrow> byte list \<Rightarrow> byte list \<Rightarrow> byte list" where
  "convert64 invert i src dst = store_at i (store_le 8 (Convert invert (load_le (take 8 (drop i src)) :: 64 word))) dst"

function convert_words :: "bool \<Rightarrow> nat \<Rightarrow> byte list \<Rightarrow> byte list \<Rightarrow> byte list" where
  "convert_words invert done_bytes src dst =
     (if done_bytes < length src - 8
      then convert_words invert (done_bytes + 8) src (convert64 invert done_bytes src dst)
      else dst)"
  by auto
termination by (relation "measure (\<lambda>(invert, i, src, dst). length src - i)") auto

declare convert_words.simps [simp del]

definition CopyInvertedBytes :: "bool \<Rightarrow> byte list \<Rightarrow> byte list \<Rightarrow> byte list" where
  "CopyInvertedBytes invert dst src =
     (let len = length src
      in if len = 0 then dst
         else if len = 1 then dst[0 := Convert invert (src ! 0)]
         else if len = 3 then convert16 invert 0 src (dst[2 := Convert invert (src ! 2)])
         else if len = 2 then convert16 invert 0 src dst
         else if len = 5 \<or> len = 6 \<or> len = 7 then convert32 invert 0 src (convert32 invert (len - 4) src dst)
         else if len = 4 then convert32 invert 0 src dst
         else convert64 invert (len - 8) src (convert_words invert 0 src dst))"

definition AppendBytes :: "bool \<Rightarrow> byte list \<Rightarrow> byte list \<Rightarrow> byte list" where
  "AppendBytes invert dest src = dest @ CopyInvertedBytes invert (replicate (length src) 0) src"

section \<open>Finding special bytes\<close>

definition IsSpecialByte :: "byte \<Rightarrow> bool" where
  "IsSpecialByte c \<longleftrightarrow> c + 1 < 2"

definition AdvanceIfNoSpecialBytes :: "32 word \<Rightarrow> byte list \<Rightarrow> nat option" where
  "AdvanceIfNoSpecialBytes v_32 p =
     (if load_le (take 4 p) \<noteq> v_32 then None
      else if (v_32 - 0x01010101) AND NOT (v_32 + 0x01010101) AND 0x80808080 \<noteq> 0
      then (if IsSpecialByte (p ! 0) \<or> IsSpecialByte (p ! 1) \<or> IsSpecialByte (p ! 2) \<or> IsSpecialByte (p ! 3)
            then Some 0 else None)
      else if \<not> IsSpecialByte (p ! 0) \<and> \<not> IsSpecialByte (p ! 1) \<and> \<not> IsSpecialByte (p ! 2) \<and> \<not> IsSpecialByte (p ! 3)
      then Some 4 else None)"

fun scan_special :: "byte list \<Rightarrow> nat" where
  "scan_special [] = 0"
| "scan_special (c # cs) = (if IsSpecialByte c then 0 else Suc (scan_special cs))"

text \<open>The distance from the start of a range to its first special byte, or to its limit.\<close>

function SkipToNextSpecialByte :: "byte list \<Rightarrow> nat option" where
  "SkipToNextSpecialByte p =
     (if 8 \<le> length p
      then let v = load_le (take 8 p) :: 64 word
           in if (v - 0x0101010101010101) AND NOT (v + 0x0101010101010101) AND 0x8080808080808080 = 0
              then map_option ((+) 8) (SkipToNextSpecialByte (drop 8 p))
              else do {
                i \<leftarrow> AdvanceIfNoSpecialBytes (ucast v) p;
                if IsSpecialByte (p ! i) then Some i
                else if IsSpecialByte (p ! (i + 1)) then Some (i + 1)
                else if IsSpecialByte (p ! (i + 2)) then Some (i + 2)
                else if IsSpecialByte (p ! (i + 3)) then Some (i + 3)
                else None
              }
      else do {
        i \<leftarrow> (if 4 \<le> length p then AdvanceIfNoSpecialBytes (load_le (take 4 p)) p else Some 0);
        Some (i + scan_special (drop i p))
      })"
  by auto
termination by (relation "measure length") auto

declare SkipToNextSpecialByte.simps [simp del]

section \<open>Strings\<close>

function encode_loop :: "bool \<Rightarrow> byte list \<Rightarrow> byte list \<Rightarrow> byte list option" where
  "encode_loop invert dest s =
     do {
       n \<leftarrow> SkipToNextSpecialByte s;
       if n \<ge> length s then Some (if n > 0 then AppendBytes invert dest s else dest)
       else if \<not> IsSpecialByte (s ! n) then None
       else let dest = AppendBytes invert dest (take n s); c = s ! n
            in encode_loop invert (dest @ [Convert invert c, Convert (\<not> invert) c]) (drop (n + 1) s)
     }"
  by auto
termination by (relation "measure (\<lambda>(invert, dest, s). length s)") auto

declare encode_loop.simps [simp del]

definition EncodeStringFragment :: "bool \<Rightarrow> byte list \<Rightarrow> byte list \<Rightarrow> byte list option" where
  "EncodeStringFragment invert dest s = (if s = [] then Some dest else encode_loop invert dest s)"

definition WriteString :: "byte list \<Rightarrow> byte list \<Rightarrow> byte list option" where
  "WriteString dest s =
     do { dest \<leftarrow> EncodeStringFragment False dest s; Some (AppendBytes False dest [kEscape1, kSeparator]) }"

definition WriteStringDecreasing :: "byte list \<Rightarrow> byte list \<Rightarrow> byte list option" where
  "WriteStringDecreasing dest s =
     do { dest \<leftarrow> EncodeStringFragment True dest s; Some (AppendBytes True dest [kEscape1, kSeparator]) }"

definition WriteInfinity :: "byte list \<Rightarrow> byte list" where
  "WriteInfinity dest = dest @ [Convert False kEscape2, Convert False kInfinity]"

definition WriteInfinityDecreasing :: "byte list \<Rightarrow> byte list" where
  "WriteInfinityDecreasing dest = dest @ [Convert True kEscape2, Convert True kInfinity]"

definition WriteTrailingString :: "byte list \<Rightarrow> byte list \<Rightarrow> byte list" where
  "WriteTrailingString dest str = dest @ str"

function ReadStringInternal :: "bool \<Rightarrow> byte list \<Rightarrow> byte list \<Rightarrow> (byte list \<times> byte list) option option" where
  "ReadStringInternal invert src result =
     do {
       n \<leftarrow> SkipToNextSpecialByte (butlast src);
       if n \<ge> length src - 1 then Some None
       else if \<not> IsSpecialByte (src ! n) then None
       else let result = AppendBytes invert result (take n src);
                seq = load_le (take 2 (drop n src)) :: 16 word
            in if seq = Convert2 invert kEscape1 kSeparator then Some (Some (drop (n + 2) src, result))
               else if seq = Convert2 invert kEscape1 kNullCharacter
               then ReadStringInternal invert (drop (n + 2) src) (result @ [0])
               else if seq = Convert2 invert kEscape2 kFFCharacter
               then ReadStringInternal invert (drop (n + 2) src) (result @ [0xff])
               else Some None
     }"
  by auto
termination by (relation "measure (\<lambda>(invert, src, result). length src)") auto

declare ReadStringInternal.simps [simp del]

definition ReadString :: "byte list \<Rightarrow> byte list \<Rightarrow> (byte list \<times> byte list) option option" where
  "ReadString = ReadStringInternal False"

definition ReadStringDecreasing :: "byte list \<Rightarrow> byte list \<Rightarrow> (byte list \<times> byte list) option option" where
  "ReadStringDecreasing = ReadStringInternal True"

definition ReadInfinityInternal :: "bool \<Rightarrow> byte list \<Rightarrow> byte list option" where
  "ReadInfinityInternal invert src =
     (if length src \<ge> 2 \<and> src ! 0 = Convert invert kEscape2 \<and> src ! 1 = Convert invert kInfinity
      then Some (drop 2 src) else None)"

text \<open>Either infinity (True) or a string; the result is unchanged for infinity.\<close>

definition ReadStringOrInfinityInternal ::
  "bool \<Rightarrow> byte list \<Rightarrow> byte list \<Rightarrow> (byte list \<times> byte list \<times> bool) option option" where
  "ReadStringOrInfinityInternal invert src result =
     (case ReadInfinityInternal invert src of
        Some rest \<Rightarrow> Some (Some (rest, result, True))
      | None \<Rightarrow>
          do {
            success \<leftarrow> (if invert then ReadStringDecreasing src result else ReadString src result);
            Some (map_option (\<lambda>(rest, result). (rest, result, False)) success)
          })"

definition ReadTrailingString :: "byte list \<Rightarrow> byte list \<times> byte list" where
  "ReadTrailingString src = ([], src)"

section \<open>Unsigned numbers\<close>

definition OrderedNumLength :: "64 word \<Rightarrow> nat" where
  "OrderedNumLength val = nat ((Log2Floor64 val + 1 + 7) div 8)"

definition WriteNumIncreasing :: "byte list \<Rightarrow> 64 word \<Rightarrow> byte list" where
  "WriteNumIncreasing dest num =
     (let buf = store_at 1 (store_be 8 num) (replicate 17 0);
          len = OrderedNumLength num;
          start = 9 - len - 1
      in dest @ take (len + 1) (drop start (buf[start := word_of_nat len])))"

definition WriteNumDecreasing :: "byte list \<Rightarrow> 64 word \<Rightarrow> byte list" where
  "WriteNumDecreasing dest num =
     (let buf = store_at 1 (store_be 8 (NOT num)) (replicate 17 0);
          len = OrderedNumLength num;
          start = 9 - len - 1
      in dest @ take (len + 1) (drop start (buf[start := NOT (word_of_nat len)])))"

definition shift_in :: "byte \<Rightarrow> 64 word \<Rightarrow> 64 word" where
  "shift_in b tmp = push_bit 8 tmp OR ucast b"

definition ReadNumIncreasing :: "byte list \<Rightarrow> (byte list \<times> 64 word) option option" where
  "ReadNumIncreasing src =
     (if src = [] then Some None
      else let len = scast (src ! 0) :: 64 word
           in if \<not> (len = 0 \<or> length src = 1 \<or> src ! 1 \<noteq> 0) then None
              else if unat (len + 1) > length src \<or> len > 8 then Some None
              else Some (Some (drop (unat len + 1) src, fold shift_in (take (unat len) (tl src)) 0)))"

definition ReadNumDecreasing :: "byte list \<Rightarrow> (byte list \<times> 64 word) option option" where
  "ReadNumDecreasing src =
     (if src = [] then Some None
      else let len = scast (NOT (src ! 0)) :: 64 word
           in if \<not> (len = 0 \<or> length src = 1 \<or> src ! 1 \<noteq> 0xff) then None
              else if unat (len + 1) > length src \<or> len > 8 then Some None
              else Some (Some (drop (unat len + 1) src,
                if len \<noteq> 0 then NOT (fold shift_in (take (unat len) (tl src)) (NOT 0)) else 0)))"

section \<open>Signed numbers\<close>

definition kLengthToHeaderBits :: "(byte \<times> byte) list" where
  "kLengthToHeaderBits =
     [(0, 0), (0x80, 0), (0xc0, 0), (0xe0, 0), (0xf0, 0), (0xf8, 0), (0xfc, 0), (0xfe, 0), (0xff, 0),
      (0xff, 0x80), (0xff, 0xc0)]"

definition kLengthToMask :: "64 word list" where
  "kLengthToMask =
     [0, 0x80, 0xc000, 0xe00000, 0xf0000000, 0xf800000000, 0xfc0000000000, 0xfe000000000000,
      0xff00000000000000, 0x8000000000000000, 0]"

definition kBitsToLength :: "nat list" where
  "kBitsToLength =
     [1, 1, 1, 1, 1, 1, 1, 2, 2, 2, 2, 2, 2, 2, 3, 3, 3, 3, 3, 3, 3, 4,
      4, 4, 4, 4, 4, 4, 5, 5, 5, 5, 5, 5, 5, 6, 6, 6, 6, 6, 6, 6, 7, 7,
      7, 7, 7, 7, 7, 8, 8, 8, 8, 8, 8, 8, 9, 9, 9, 9, 9, 9, 9, 10]"

definition SignedEncodingLength :: "64 word \<Rightarrow> nat" where
  "SignedEncodingLength n = kBitsToLength ! nat (Log2Floor64 (if sint n < 0 then NOT n else n) + 1)"

definition SignedEncodingLengthPositive :: "64 word \<Rightarrow> nat option" where
  "SignedEncodingLengthPositive n =
     map_option (\<lambda>log. kBitsToLength ! nat (log + 1)) (Log2FloorNonZero64 n)"

definition put_header :: "nat \<Rightarrow> byte list \<Rightarrow> byte list" where
  "put_header len buf =
     (let start = 10 - len;
          buf = buf[start := buf ! start XOR fst (kLengthToHeaderBits ! len)];
          buf = buf[start + 1 := buf ! (start + 1) XOR snd (kLengthToHeaderBits ! len)]
      in drop start buf)"

definition WriteSignedNumIncreasing :: "byte list \<Rightarrow> 64 word \<Rightarrow> byte list option" where
  "WriteSignedNumIncreasing dest num =
     (let x = (if sint num < 0 then NOT num else num)
      in if x < 64 then Some (dest @ [fst (kLengthToHeaderBits ! 1) XOR ucast num])
         else do {
           let sign_byte = (if sint num < 0 then 0xff else 0);
           let buf = sign_byte # sign_byte # store_be 8 num;
           len \<leftarrow> SignedEncodingLengthPositive x;
           if len < 2 then None else Some (dest @ put_header len buf)
         })"

definition signed_length_and_bits :: "byte list \<Rightarrow> 64 word \<Rightarrow> (nat \<times> 64 word) option option" where
  "signed_length_and_bits src xor_mask =
     (let first_byte = src ! 0 XOR ucast xor_mask
      in if first_byte \<noteq> 0xff
         then do {
           log \<leftarrow> Log2FloorNonZero (ucast (first_byte XOR 0xff));
           let len = nat (7 - log);
           if length src < len then Some None
           else Some (Some (len, fold shift_in (take len src) xor_mask))
         }
         else if length src < 8 then Some None
         else let second_byte = src ! 1 XOR ucast xor_mask;
                  finish = (\<lambda>len. if length src < len then None
                                  else Some (len, load_le (rev (take 8 (drop (len - 8) src)))))
              in if second_byte \<ge> 0x80
                 then (if second_byte < 0xc0 then Some (finish 9)
                       else if second_byte = 0xc0 \<and> src ! 2 XOR ucast xor_mask < 0x80 then Some (finish 10)
                       else Some None)
                 else Some (finish 8))"

definition ReadSignedNumIncreasing :: "byte list \<Rightarrow> (byte list \<times> 64 word) option option" where
  "ReadSignedNumIncreasing src =
     (if src = [] then Some None
      else do {
        r \<leftarrow> signed_length_and_bits src (if src ! 0 AND 0x80 = 0 then NOT 0 else 0);
        case r of
          None \<Rightarrow> Some None
        | Some (len, x) \<Rightarrow>
            (let x = x XOR kLengthToMask ! len
             in if len = SignedEncodingLength x then Some (Some (drop len src, x)) else None)
      })"

definition WriteSignedNumDecreasing :: "byte list \<Rightarrow> 64 word \<Rightarrow> byte list option" where
  "WriteSignedNumDecreasing dest num = WriteSignedNumIncreasing dest (NOT num)"

definition ReadSignedNumDecreasing :: "byte list \<Rightarrow> (byte list \<times> 64 word) option option" where
  "ReadSignedNumDecreasing src = map_option (map_option (\<lambda>(rest, x). (rest, NOT x))) (ReadSignedNumIncreasing src)"

section \<open>Doubles\<close>

definition EncodeDoubleAsInt64 :: "double \<Rightarrow> 64 word" where
  "EncodeDoubleAsInt64 num = (let enc = num in if sint enc < 0 then 0x8000000000000000 - enc else enc)"

definition DecodeDoubleFromInt64 :: "64 word \<Rightarrow> double" where
  "DecodeDoubleFromInt64 enc = (if sint enc < 0 then 0x8000000000000000 - enc else enc)"

definition WriteDoubleIncreasing :: "byte list \<Rightarrow> double \<Rightarrow> byte list option" where
  "WriteDoubleIncreasing dest num = WriteSignedNumIncreasing dest (EncodeDoubleAsInt64 num)"

definition WriteDoubleDecreasing :: "byte list \<Rightarrow> double \<Rightarrow> byte list option" where
  "WriteDoubleDecreasing dest num = WriteSignedNumDecreasing dest (EncodeDoubleAsInt64 num)"

definition ReadDoubleIncreasing :: "byte list \<Rightarrow> (byte list \<times> double) option option" where
  "ReadDoubleIncreasing src =
     map_option (map_option (\<lambda>(rest, enc). (rest, DecodeDoubleFromInt64 enc))) (ReadSignedNumIncreasing src)"

definition ReadDoubleDecreasing :: "byte list \<Rightarrow> (byte list \<times> double) option option" where
  "ReadDoubleDecreasing src =
     map_option (map_option (\<lambda>(rest, enc). (rest, DecodeDoubleFromInt64 enc))) (ReadSignedNumDecreasing src)"

end
