(* ===== verification/OrderedStrings.thy ===== *)
theory OrderedStrings
  imports OrderedCode
begin

text \<open>
  The string half of the ordered code: copying whole words at a time is copying bytes, the word
  tricks find exactly the special bytes, and the loops compute the escaped string, which is read
  back and ordered as the string is.
\<close>

section \<open>Logarithms\<close>

lemma xor_mask_minus:
  assumes "0 \<le> m" "m < 64" shows "63 XOR m = (63 - m :: int)"
proof -
  have "\<forall>m \<in> set [0..63]. 63 XOR m = (63 - m :: int)" by code_simp
  then show ?thesis using assms by simp
qed

lemma xor_mask_minus32:
  assumes "0 \<le> m" "m < 32" shows "31 XOR m = (31 - m :: int)"
proof -
  have "\<forall>m \<in> set [0..31]. 31 XOR m = (31 - m :: int)" by code_simp
  then show ?thesis using assms by simp
qed

lemma bit_length_word: "bit_length (unat (n :: 'a::len word)) \<le> LENGTH('a)"
  by (rule bit_length_le) (rule unsigned_less)

lemma bit_length_pos: "0 < n \<Longrightarrow> 0 < bit_length n"
  by (subst bit_length.simps) simp

lemma Log2Floor64_eq: "Log2Floor64 n = int (bit_length (unat n)) - 1"
  using bit_length_word [of n] bit_length_pos [of "unat n"]
  by (auto simp: Log2Floor64_def builtin_clz_def xor_mask_minus unat_gt_0)

lemma Log2FloorNonZero64_eq: "n \<noteq> 0 \<Longrightarrow> Log2FloorNonZero64 n = Some (int (bit_length (unat n)) - 1)"
  using bit_length_word [of n] bit_length_pos [of "unat n"]
  by (auto simp: Log2FloorNonZero64_def builtin_clz_def xor_mask_minus unat_gt_0)

lemma Log2FloorNonZero_eq: "n \<noteq> 0 \<Longrightarrow> Log2FloorNonZero n = Some (int (bit_length (unat n)) - 1)"
  using bit_length_word [of n] bit_length_pos [of "unat n"]
  by (auto simp: Log2FloorNonZero_def builtin_clz_def xor_mask_minus32 unat_gt_0)

section \<open>Copying\<close>

lemma length_convert [simp]:
  "i + 2 \<le> length src \<Longrightarrow> length dst = length src \<Longrightarrow> length (convert16 invert i src dst) = length src"
  "i + 4 \<le> length src \<Longrightarrow> length dst = length src \<Longrightarrow> length (convert32 invert i src dst) = length src"
  "i + 8 \<le> length src \<Longrightarrow> length dst = length src \<Longrightarrow> length (convert64 invert i src dst) = length src"
  by (simp_all add: convert16_def convert32_def convert64_def)

lemma Convert_simps [simp]:
  "Convert False x = x" "Convert True x = NOT x" "Convert False = (\<lambda>x. x)" "Convert True = (\<lambda>x. NOT x)"
  by (simp_all add: Convert_def fun_eq_iff)

lemma store_convert_load:
  assumes "8 * length bs \<le> LENGTH('a)"
  shows "store_le (length bs) (Convert invert (load_le bs :: 'a::len word)) = map (Convert invert) bs"
  using store_le_NOT_load [OF assms] store_le_load [OF assms] by (cases invert) simp_all

lemma nth_convert:
  assumes "length dst = length src" "j < length src"
  shows "i + 2 \<le> length src \<Longrightarrow> convert16 invert i src dst ! j =
      (if i \<le> j \<and> j < i + 2 then Convert invert (src ! j) else dst ! j)"
    and "i + 4 \<le> length src \<Longrightarrow> convert32 invert i src dst ! j =
      (if i \<le> j \<and> j < i + 4 then Convert invert (src ! j) else dst ! j)"
    and "i + 8 \<le> length src \<Longrightarrow> convert64 invert i src dst ! j =
      (if i \<le> j \<and> j < i + 8 then Convert invert (src ! j) else dst ! j)"
proof -
  have part: "length (take n (drop i src)) = n"
      "i \<le> j \<Longrightarrow> j < i + n \<Longrightarrow> map (Convert invert) (take n (drop i src)) ! (j - i) = Convert invert (src ! j)"
    if "i + n \<le> length src" for n
    using that assms by auto
  show "convert16 invert i src dst ! j = (if i \<le> j \<and> j < i + 2 then Convert invert (src ! j) else dst ! j)"
    if "i + 2 \<le> length src"
    using store_convert_load [where 'a = 16, of "take 2 (drop i src)" invert] part [OF that] that assms
    by (simp add: convert16_def nth_store_at del: nth_map)
  show "convert32 invert i src dst ! j = (if i \<le> j \<and> j < i + 4 then Convert invert (src ! j) else dst ! j)"
    if "i + 4 \<le> length src"
    using store_convert_load [where 'a = 32, of "take 4 (drop i src)" invert] part [OF that] that assms
    by (simp add: convert32_def nth_store_at del: nth_map)
  show "convert64 invert i src dst ! j = (if i \<le> j \<and> j < i + 8 then Convert invert (src ! j) else dst ! j)"
    if "i + 8 \<le> length src"
    using store_convert_load [where 'a = 64, of "take 8 (drop i src)" invert] part [OF that] that assms
    by (simp add: convert64_def nth_store_at del: nth_map)
qed

lemma convert_words_ok:
  assumes "length dst = length src" "8 \<le> length src" "i \<le> length src" "\<forall>j<i. dst ! j = Convert invert (src ! j)"
  shows "length (convert_words invert i src dst) = length src \<and>
    (\<forall>j<length src - 8. convert_words invert i src dst ! j = Convert invert (src ! j))"
  using assms
proof (induction invert i src dst rule: convert_words.induct)
  case (1 invert i src dst)
  show ?case
  proof (cases "i < length src - 8")
    case True
    have "\<forall>j<i + 8. convert64 invert i src dst ! j = Convert invert (src ! j)"
      using True "1.prems" by (auto simp: nth_convert(3))
    then show ?thesis
      using True "1.IH" "1.prems" by (subst (1 2) convert_words.simps) simp
  next
    case False
    then show ?thesis using "1.prems" by (subst (1 2) convert_words.simps) simp
  qed
qed

lemma copy_inverted_bytes:
  assumes "length dst = length src"
  shows "CopyInvertedBytes invert dst src = map (Convert invert) src"
proof (rule nth_equalityI)
  have words: "8 \<le> length src \<Longrightarrow> length (convert_words invert 0 src dst) = length src \<and>
      (\<forall>j<length src - 8. convert_words invert 0 src dst ! j = Convert invert (src ! j))"
    using convert_words_ok [of dst src 0 invert] assms by simp
  show "length (CopyInvertedBytes invert dst src) = length (map (Convert invert) src)"
  proof (cases "8 \<le> length src")
    case True
    then show ?thesis using words assms by (auto simp: CopyInvertedBytes_def Let_def)
  next
    case False
    then have "length src = 0 \<or> length src = 1 \<or> length src = 2 \<or> length src = 3 \<or> length src = 4 \<or>
        length src = 5 \<or> length src = 6 \<or> length src = 7"
      by linarith
    then show ?thesis using assms by (elim disjE) (simp_all add: CopyInvertedBytes_def Let_def)
  qed
  fix j
  assume "j < length (CopyInvertedBytes invert dst src)"
  then have j: "j < length src" using \<open>length (CopyInvertedBytes invert dst src) = _\<close> by simp
  consider "length src = 1" | "length src = 2" | "length src = 3" | "length src = 4"
    | "length src = 5 \<or> length src = 6 \<or> length src = 7" | "8 \<le> length src"
    using j by linarith
  then show "CopyInvertedBytes invert dst src ! j = map (Convert invert) src ! j"
  proof cases
    case 3
    then have "j < 2 \<or> j = 2" using j by linarith
    then show ?thesis using 3 assms by (auto simp: CopyInvertedBytes_def Let_def nth_convert)
  next
    case 6
    then show ?thesis using words j by (auto simp: CopyInvertedBytes_def Let_def nth_convert)
  qed (use j assms in \<open>auto simp: CopyInvertedBytes_def Let_def nth_convert nth_list_update\<close>)
qed

lemma AppendBytes_eq [simp]: "AppendBytes invert dest src = dest @ map (Convert invert) src"
  by (simp add: AppendBytes_def copy_inverted_bytes)

section \<open>Special bytes\<close>

fun every_byte :: "int \<Rightarrow> nat \<Rightarrow> int" where
  "every_byte k 0 = 0"
| "every_byte k (Suc n) = k + 256 * every_byte k n"

definition special_mark :: "byte list \<Rightarrow> int" where
  "special_mark bs =
     (bytes_value bs - every_byte 1 (length bs)) AND NOT (bytes_value bs + every_byte 1 (length bs)) AND
       every_byte 128 (length bs)"

lemma IsSpecialByte_uint: "IsSpecialByte b \<longleftrightarrow> uint b = 0 \<or> uint b = 255"
proof -
  have "IsSpecialByte b \<longleftrightarrow> (uint b + 1) mod 256 < 2"
    by (simp add: IsSpecialByte_def word_less_def uint_word_ariths)
  also have "\<dots> \<longleftrightarrow> uint b = 0 \<or> uint b = 255"
  proof (cases "uint b = 255")
    case False
    then have "(uint b + 1) mod 256 = uint b + 1" using uint_byte [of b] by (intro mod_pos_pos_trivial; linarith)
    moreover have "uint b + 1 < 2 \<longleftrightarrow> uint b = 0" using uint_byte [of b] by (intro iffI; linarith)
    ultimately show ?thesis using False by simp
  qed simp
  finally show ?thesis .
qed

lemma ordinary_byte_mark: "1 \<le> b \<Longrightarrow> b \<le> 254 \<Longrightarrow> (b - 1) AND (254 - b) AND 128 = (0 :: int)"
proof -
  have "\<forall>b \<in> set [1..254]. (b - 1) AND (254 - b) AND 128 = (0 :: int)" by code_simp
  then show "1 \<le> b \<Longrightarrow> b \<le> 254 \<Longrightarrow> ?thesis" by simp
qed

lemma two_power_8: "2 ^ 8 = (256 :: int)"
  by simp

lemma div_part: "0 \<le> a \<Longrightarrow> a < 256 \<Longrightarrow> (a + 256 * c) div 256 = (c :: int)"
  by simp

lemma int_zero_bytes: "(k :: int) = 0 \<longleftrightarrow> take_bit 8 k = 0 \<and> drop_bit 8 k = 0"
  using bits_ident [of 8 k] by auto

lemma special_mark_iff: "special_mark bs = 0 \<longleftrightarrow> (\<forall>b \<in> set bs. \<not> IsSpecialByte b)"
proof (induction bs)
  case (Cons b bs)
  define n where "n = length bs"
  define X where "X = bytes_value (b # bs) - every_byte 1 (Suc n)"
  define Y where "Y = NOT (bytes_value (b # bs) + every_byte 1 (Suc n))"
  define M where "M = every_byte 128 (Suc n)"
  have mark: "special_mark (b # bs) = X AND Y AND M"
    by (simp only: special_mark_def X_def Y_def M_def n_def list.size(4) add_Suc_right add_0_right One_nat_def)
  have parts: "X = (uint b - 1) + 256 * (bytes_value bs - every_byte 1 n)"
    "Y = (254 - uint b) + 256 * NOT (bytes_value bs + every_byte 1 n)" "M = 128 + 256 * every_byte 128 n"
    by (simp_all add: X_def Y_def M_def not_int_def algebra_simps)
  have low: "take_bit 8 X = (uint b - 1) mod 256" "take_bit 8 Y = (254 - uint b) mod 256" "take_bit 8 M = 128"
    unfolding parts take_bit_eq_mod by (simp_all only: two_power_8 mod_mult_self2) simp
  have split: "special_mark (b # bs) = 0 \<longleftrightarrow>
      ((uint b - 1) mod 256) AND ((254 - uint b) mod 256) AND 128 = 0 \<and> drop_bit 8 X AND drop_bit 8 Y AND drop_bit 8 M = 0"
    unfolding mark int_zero_bytes [of "X AND Y AND M"] by (simp only: take_bit_and drop_bit_and low)
  show ?case
  proof (cases "IsSpecialByte b")
    case True
    have "((uint b - 1) mod 256) AND ((254 - uint b) mod 256) AND 128 \<noteq> 0"
      using True unfolding IsSpecialByte_uint by auto
    then show ?thesis using True split by simp
  next
    case False
    then have "uint b \<noteq> 0" "uint b \<noteq> 255" by (auto simp: IsSpecialByte_uint)
    then have b: "1 \<le> uint b" "uint b \<le> 254" using uint_byte [of b] by linarith+
    have high: "drop_bit 8 X = bytes_value bs - every_byte 1 n" "drop_bit 8 Y = NOT (bytes_value bs + every_byte 1 n)"
      "drop_bit 8 M = every_byte 128 n"
      using b unfolding parts drop_bit_eq_div two_power_8 by (intro div_part; linarith)+
    have "special_mark (b # bs) = 0 \<longleftrightarrow> special_mark bs = 0"
      using b ordinary_byte_mark [OF b] unfolding split high by (simp add: special_mark_def n_def)
    then show ?thesis using False Cons.IH by simp
  qed
qed (simp add: special_mark_def)

lemma every_byte_bounds:
  assumes "0 \<le> k" "k < 256" shows "0 \<le> every_byte k n" "every_byte k n < 256 ^ n"
proof (induction n)
  case (Suc n)
  { case 1 show ?case using Suc assms by simp }
  { case 2 show ?case using Suc assms unfolding every_byte.simps power_Suc by linarith }
qed simp_all

lemma special_mark_word:
  assumes "8 * length bs = LENGTH('a::len)"
    and "c = word_of_int (every_byte 1 (length bs))" "m = word_of_int (every_byte 128 (length bs))"
  shows "(load_le bs - c) AND NOT (load_le bs + c) AND m = (0 :: 'a word) \<longleftrightarrow> (\<forall>b \<in> set bs. \<not> IsSpecialByte b)"
proof -
  have M: "0 \<le> every_byte 128 (length bs)" "every_byte 128 (length bs) < 2 ^ LENGTH('a)"
    using every_byte_bounds [of 128 "length bs"] unfolding assms(1) [symmetric] power_mult two_power_8 by simp_all
  have mark: "0 \<le> special_mark bs" "special_mark bs < 2 ^ LENGTH('a)"
    using M AND_upper2 [OF M(1)] by (auto simp: special_mark_def intro: order_le_less_trans)
  have "(load_le bs - c) AND NOT (load_le bs + c) AND m = (word_of_int (special_mark bs) :: 'a word)"
    by (simp add: special_mark_def assms(2,3) load_le_def of_int_and_eq of_int_not_eq)
  also have "\<dots> = 0 \<longleftrightarrow> special_mark bs = 0"
    using mark by (simp add: word_of_int_eq_0_iff dvd_eq_mod_eq_0 mod_pos_pos_trivial)
  finally show ?thesis by (simp add: special_mark_iff)
qed

lemma every_byte_evals:
  "every_byte 1 4 = 0x01010101" "every_byte 128 4 = 0x80808080"
  "every_byte 1 8 = 0x0101010101010101" "every_byte 128 8 = 0x8080808080808080"
  by code_simp+

lemma special_mark_32:
  "4 \<le> length p \<Longrightarrow>
     (load_le (take 4 p) - 0x01010101) AND NOT (load_le (take 4 p) + 0x01010101) AND 0x80808080 = (0 :: 32 word) \<longleftrightarrow>
     (\<forall>b \<in> set (take 4 p). \<not> IsSpecialByte b)"
  by (rule special_mark_word) (simp_all add: every_byte_evals)

lemma special_mark_64:
  "8 \<le> length p \<Longrightarrow>
     (load_le (take 8 p) - 0x0101010101010101) AND NOT (load_le (take 8 p) + 0x0101010101010101) AND
       0x8080808080808080 = (0 :: 64 word) \<longleftrightarrow>
     (\<forall>b \<in> set (take 8 p). \<not> IsSpecialByte b)"
  by (rule special_mark_word) (simp_all add: every_byte_evals)

lemma set_take_4: "4 \<le> length p \<Longrightarrow> set (take 4 p) = {p ! 0, p ! 1, p ! 2, p ! 3}"
  by (cases p; cases "tl p"; cases "tl (tl p)"; cases "tl (tl (tl p))") (auto simp: numeral_eq_Suc)

lemma AdvanceIfNoSpecialBytes_eq:
  "4 \<le> length p \<Longrightarrow> AdvanceIfNoSpecialBytes (load_le (take 4 p)) p =
     Some (if \<forall>b \<in> set (take 4 p). \<not> IsSpecialByte b then 4 else 0)"
  unfolding AdvanceIfNoSpecialBytes_def by (simp add: special_mark_32 set_take_4)

lemma scan_special_append:
  "\<forall>b \<in> set xs. \<not> IsSpecialByte b \<Longrightarrow> scan_special (xs @ ys) = length xs + scan_special ys"
  by (induction xs) auto

lemma scan_special_take_drop:
  "n \<le> length p \<Longrightarrow> \<forall>b \<in> set (take n p). \<not> IsSpecialByte b \<Longrightarrow> scan_special p = n + scan_special (drop n p)"
  using scan_special_append [of "take n p" "drop n p"] by simp

lemma scan_special_le: "scan_special p \<le> length p"
  by (induction p) auto

lemma scan_special_at: "scan_special p < length p \<Longrightarrow> IsSpecialByte (p ! scan_special p)"
  by (induction p) auto

lemma scan_special_before: "\<forall>b \<in> set (take (scan_special p) p). \<not> IsSpecialByte b"
  by (induction p) auto

lemma scan_special_upto: "n < length p \<Longrightarrow> IsSpecialByte (p ! n) \<Longrightarrow> scan_special p \<le> n"
  by (induction p arbitrary: n) (auto simp: nth_Cons split: nat.splits)

lemma load_low_half: "8 \<le> length p \<Longrightarrow> ucast (load_le (take 8 p) :: 64 word) = (load_le (take 4 p) :: 32 word)"
  by (rule bit_word_eqI) (auto simp: bit_ucast_iff bit_load_le)

lemma find_in_four:
  assumes "4 \<le> length p" "\<exists>b \<in> set (take 4 p). IsSpecialByte b"
  shows "(if IsSpecialByte (p ! 0) then Some i else if IsSpecialByte (p ! 1) then Some (i + 1)
          else if IsSpecialByte (p ! 2) then Some (i + 2) else if IsSpecialByte (p ! 3) then Some (i + 3) else None) =
     Some (i + scan_special p)"
proof -
  obtain a b c d q where p: "p = a # b # c # d # q"
    using assms(1) by (cases p; cases "tl p"; cases "tl (tl p)"; cases "tl (tl (tl p))") auto
  show ?thesis using assms(2) unfolding p by (auto simp: numeral_eq_Suc)
qed

lemma skip_to_next_special_byte: "SkipToNextSpecialByte p = Some (scan_special p)"
proof (induction p rule: SkipToNextSpecialByte.induct)
  case (1 p)
  show ?case
  proof (cases "8 \<le> length p")
    case long: True
    show ?thesis
    proof (cases "\<forall>b \<in> set (take 8 p). \<not> IsSpecialByte b")
      case True
      then have "SkipToNextSpecialByte (drop 8 p) = Some (scan_special (drop 8 p))"
        using "1.IH" long special_mark_64 [OF long] by simp
      then show ?thesis
        using long True special_mark_64 [OF long] scan_special_take_drop [OF long True]
        by (subst SkipToNextSpecialByte.simps) simp
    next
      case False
      define i where "i = (if \<forall>b \<in> set (take 4 p). \<not> IsSpecialByte b then 4 else 0 :: nat)"
      have i: "AdvanceIfNoSpecialBytes (ucast (load_le (take 8 p) :: 64 word)) p = Some i"
        using long by (simp add: load_low_half AdvanceIfNoSpecialBytes_eq i_def)
      have t8: "take 8 p = take 4 p @ take 4 (drop 4 p)" using take_add [of 4 4 p] by simp
      have special: "\<exists>b \<in> set (take 4 (drop i p)). IsSpecialByte b" "4 \<le> length (drop i p)"
        using False long unfolding t8 i_def by auto
      have "scan_special p = i + scan_special (drop i p)"
        using scan_special_take_drop [of 4 p] long by (auto simp: i_def)
      moreover have "drop i p ! 0 = p ! i" "drop i p ! 1 = p ! (i + 1)" "drop i p ! 2 = p ! (i + 2)" "drop i p ! 3 = p ! (i + 3)"
        using long by (auto simp: i_def)
      ultimately have "(if IsSpecialByte (p ! i) then Some i else if IsSpecialByte (p ! (i + 1)) then Some (i + 1)
          else if IsSpecialByte (p ! (i + 2)) then Some (i + 2) else if IsSpecialByte (p ! (i + 3)) then Some (i + 3)
          else None) = Some (scan_special p)"
        using find_in_four [OF special(2,1), of i] by (simp only:)
      then show ?thesis
        using long False special_mark_64 [OF long] i by (subst SkipToNextSpecialByte.simps) auto
    qed
  next
    case False
    then show ?thesis
      using scan_special_take_drop [of 4 p]
      by (subst SkipToNextSpecialByte.simps) (auto simp: AdvanceIfNoSpecialBytes_eq)
  qed
qed

section \<open>The escaped string\<close>

definition escape_byte :: "byte \<Rightarrow> byte list" where
  "escape_byte b = (if IsSpecialByte b then [b, NOT b] else [b])"

definition escaped :: "byte list \<Rightarrow> byte list" where
  "escaped s = concat (map escape_byte s) @ [0, 1]"

lemma special_byte_cases: "IsSpecialByte b \<longleftrightarrow> b = 0 \<or> b = 0xff"
  by (auto simp: IsSpecialByte_uint word_uint_eq_iff)

lemma scan_special_eq_length: "\<not> scan_special s < length s \<Longrightarrow> \<forall>b \<in> set s. \<not> IsSpecialByte b"
  using scan_special_before [of s] by simp

lemma escape_ordinary: "\<forall>b \<in> set s. \<not> IsSpecialByte b \<Longrightarrow> concat (map escape_byte s) = s"
  by (induction s) (auto simp: escape_byte_def)

lemma escape_upto_special:
  assumes "scan_special s < length s"
  shows "concat (map escape_byte s) =
     take (scan_special s) s @ [s ! scan_special s, NOT (s ! scan_special s)] @
     concat (map escape_byte (drop (Suc (scan_special s)) s))"
proof -
  let ?n = "scan_special s"
  have "concat (map escape_byte s) = concat (map escape_byte (take ?n s @ s ! ?n # drop (Suc ?n) s))"
    using assms by (simp add: id_take_nth_drop [symmetric])
  then show ?thesis
    using scan_special_at [OF assms] escape_ordinary [OF scan_special_before [of s]] by (simp add: escape_byte_def)
qed

lemma Convert_not: "Convert (\<not> invert) c = Convert invert (NOT c)"
  by (cases invert) simp_all

lemma encode_loop_ok: "encode_loop invert dest s = Some (dest @ map (Convert invert) (concat (map escape_byte s)))"
proof (induction invert dest s rule: encode_loop.induct)
  case (1 invert dest s)
  show ?case
  proof (cases "scan_special s < length s")
    case True
    then show ?thesis
      using "1.IH" [OF skip_to_next_special_byte] scan_special_at [OF True] escape_upto_special [OF True]
      by (subst encode_loop.simps) (simp add: skip_to_next_special_byte Convert_not Let_def)
  next
    case False
    then show ?thesis
      using escape_ordinary [OF scan_special_eq_length [OF False]] scan_special_le [of s]
      by (subst encode_loop.simps) (auto simp: skip_to_next_special_byte)
  qed
qed

lemma EncodeStringFragment_ok:
  "EncodeStringFragment invert dest s = Some (dest @ map (Convert invert) (concat (map escape_byte s)))"
  by (simp add: EncodeStringFragment_def encode_loop_ok)

lemma WriteString_ok: "WriteString dest s = Some (dest @ escaped s)"
  by (simp add: WriteString_def EncodeStringFragment_ok escaped_def kEscape1_def kSeparator_def)

lemma WriteStringDecreasing_ok: "WriteStringDecreasing dest s = Some (dest @ map (\<lambda>b. NOT b) (escaped s))"
  by (simp add: WriteStringDecreasing_def EncodeStringFragment_ok escaped_def kEscape1_def kSeparator_def)

section \<open>Reading strings\<close>

text \<open>What the reader does, byte by byte.\<close>

fun unescape :: "byte list \<Rightarrow> (byte list \<times> byte list) option" where
  "unescape [] = None"
| "unescape [b] = None"
| "unescape (b # c # src) =
     (if \<not> IsSpecialByte b then map_option (\<lambda>(rest, s). (rest, b # s)) (unescape (c # src))
      else if b = 0 \<and> c = 1 then Some (src, [])
      else if c = NOT b then map_option (\<lambda>(rest, s). (rest, b # s)) (unescape src)
      else None)"

lemma unescape_escaped: "unescape (escaped s @ rest) = Some (rest, s)"
proof (induction s)
  case Nil
  then show ?case by (simp add: escaped_def special_byte_cases)
next
  case (Cons b s)
  then show ?case
    by (cases "concat (map escape_byte s) @ 0 # 1 # rest") (auto simp: escaped_def escape_byte_def special_byte_cases)
qed

lemma unescape_ordinary:
  assumes "n < length t - 1" "\<forall>b \<in> set (take n t). \<not> IsSpecialByte b"
  shows "unescape t = map_option (\<lambda>(rest, s). (rest, take n t @ s)) (unescape (drop n t))"
  using assms
proof (induction n arbitrary: t)
  case 0
  then show ?case by (cases "unescape t") auto
next
  case (Suc n)
  then obtain b c t' where t: "t = b # c # t'" by (cases t; cases "tl t") auto
  have "unescape (c # t') = map_option (\<lambda>(rest, s). (rest, take n (c # t') @ s)) (unescape (drop n (c # t')))"
    using Suc.prems t by (intro Suc.IH) auto
  then show ?case using Suc.prems t by (cases "unescape (drop n (c # t'))") auto
qed

lemma unescape_none:
  assumes "\<forall>b \<in> set (butlast t). \<not> IsSpecialByte b" shows "unescape t = None"
  using assms by (induction t rule: unescape.induct) auto

lemma Convert_convert [simp]: "Convert invert (Convert invert x) = x"
  by (cases invert) simp_all

lemma Convert_comp [simp]: "Convert invert \<circ> Convert invert = id"
  by (simp add: fun_eq_iff)

lemma IsSpecialByte_NOT: "IsSpecialByte (NOT b) = IsSpecialByte b"
  by (auto simp: IsSpecialByte_uint uint_NOT_byte)

lemma IsSpecialByte_Convert [simp]: "IsSpecialByte (Convert invert b) = IsSpecialByte b"
  by (cases invert) (simp_all add: IsSpecialByte_NOT)

lemma Convert2_load: "Convert2 invert a b = load_le [Convert invert a, Convert invert b]"
proof (rule bit_word_eqI)
  fix n
  assume n: "n < LENGTH(16)"
  show "bit (Convert2 invert a b) n = bit (load_le [Convert invert a, Convert invert b] :: 16 word) n"
  proof (cases "n < 8")
    case True
    then show ?thesis
      by (cases invert) (auto simp: Convert2_def bit_simps bit_load_le)
  next
    case False
    have "\<not> bit a n" using False bit_imp_le_length [of a n] by auto
    then show ?thesis using False n
      by (cases invert) (auto simp: Convert2_def bit_simps bit_load_le le_div_geq le_mod_geq)
  qed
qed

lemma load_16_inject: "(load_le [a, b] :: 16 word) = load_le [c, d] \<longleftrightarrow> a = c \<and> b = d"
proof
  assume "(load_le [a, b] :: 16 word) = load_le [c, d]"
  then have "store_le 2 (load_le [a, b] :: 16 word) = store_le 2 (load_le [c, d] :: 16 word)" by simp
  then show "a = c \<and> b = d"
    using store_le_load [where 'a = 16, of "[a, b]"] store_le_load [where 'a = 16, of "[c, d]"]
    by (simp add: numeral_2_eq_2)
qed simp

lemma byte_all_ones: "(- 1 :: byte) = 0xff" "(- 256 :: byte) = 0"
  by code_simp+

lemma Convert2_inject [simp]: "Convert2 invert a b = Convert2 invert c d \<longleftrightarrow> a = c \<and> b = d"
  unfolding Convert2_load load_16_inject by (metis Convert_convert)

lemma ReadStringInternal_ok:
  "ReadStringInternal invert src result =
     Some (map_option (\<lambda>(rest, s). (map (Convert invert) rest, result @ s)) (unescape (map (Convert invert) src)))"
proof (induction invert src result rule: ReadStringInternal.induct)
  case (1 invert src result)
  define n where "n = scan_special (butlast src)"
  define t where "t = map (Convert invert) src"
  have skip: "SkipToNextSpecialByte (butlast src) = Some n" by (simp add: skip_to_next_special_byte n_def)
  show ?case
  proof (cases "n < length src - 1")
    case False
    then have "\<forall>b \<in> set (butlast src). \<not> IsSpecialByte b"
      using scan_special_eq_length [of "butlast src"] by (simp add: n_def)
    then have "unescape t = None" by (intro unescape_none) (simp add: t_def map_butlast [symmetric])
    then show ?thesis using False skip by (subst ReadStringInternal.simps) (simp add: t_def)
  next
    case True
    have drop: "drop n src = src ! n # src ! (n + 1) # drop (n + 2) src"
      using True by (simp add: Cons_nth_drop_Suc)
    have special: "IsSpecialByte (src ! n)"
      using scan_special_at [of "butlast src"] True by (simp add: n_def nth_butlast)
    have "take n src = take n (butlast src)" using True by (simp add: take_butlast)
    then have ordinary: "\<forall>b \<in> set (take n src). \<not> IsSpecialByte b"
      using scan_special_before [of "butlast src"] by (simp add: n_def)
    have t: "unescape t = map_option (\<lambda>(rest, s). (rest, take n t @ s)) (unescape (drop n t))"
      using True ordinary by (intro unescape_ordinary) (auto simp: t_def take_map)
    have dt: "drop n t = Convert invert (src ! n) # Convert invert (src ! (n + 1)) # map (Convert invert) (drop (n + 2) src)"
      unfolding t_def drop_map drop by simp
    have tt: "map (Convert invert) (take n src) = take n t" by (simp add: t_def take_map)
    have seq: "load_le (take 2 (drop n src)) = Convert2 invert a b \<longleftrightarrow>
        Convert invert (src ! n) = a \<and> Convert invert (src ! (n + 1)) = b" for a b
      unfolding drop Convert2_load by (auto simp: load_16_inject)
    note special_bytes = kEscape1_def kSeparator_def kNullCharacter_def kEscape2_def kFFCharacter_def
    define rest where "rest = unescape (map (Convert invert) (drop (n + 2) src))"
    have null: "ReadStringInternal invert (drop (n + 2) src) (result @ take n t @ [0]) =
        Some (map_option (\<lambda>(rest, s). (map (Convert invert) rest, (result @ take n t @ [0]) @ s)) rest)"
      if "Convert invert (src ! n) = 0" "Convert invert (src ! (n + 1)) = 0xff"
      using "1.IH"(1) [OF skip _ _ refl refl] True special that by (simp add: seq tt special_bytes rest_def)
    have ff: "ReadStringInternal invert (drop (n + 2) src) (result @ take n t @ [0xff]) =
        Some (map_option (\<lambda>(rest, s). (map (Convert invert) rest, (result @ take n t @ [0xff]) @ s)) rest)"
      if "Convert invert (src ! n) = 0xff" "Convert invert (src ! (n + 1)) = 0"
      using "1.IH"(2) [OF skip _ _ refl refl] True special that by (simp add: seq tt special_bytes rest_def)
    have unfold: "ReadStringInternal invert src result =
      (if Convert invert (src ! n) = 0 \<and> Convert invert (src ! (n + 1)) = 1 then Some (Some (drop (n + 2) src, result @ take n t))
       else if Convert invert (src ! n) = 0 \<and> Convert invert (src ! (n + 1)) = 0xff
       then ReadStringInternal invert (drop (n + 2) src) (result @ take n t @ [0])
       else if Convert invert (src ! n) = 0xff \<and> Convert invert (src ! (n + 1)) = 0
       then ReadStringInternal invert (drop (n + 2) src) (result @ take n t @ [0xff])
       else Some None)"
      using True special
      by (subst ReadStringInternal.simps)
        (simp add: skip Let_def tt seq special_bytes)
    have special': "Convert invert (src ! n) = 0 \<or> Convert invert (src ! n) = 0xff"
      using special IsSpecialByte_Convert [of invert "src ! n"] by (simp only: special_byte_cases)
    consider "Convert invert (src ! n) = 0" "Convert invert (src ! (n + 1)) = 1"
      | "Convert invert (src ! n) = 0" "Convert invert (src ! (n + 1)) = 0xff"
      | "Convert invert (src ! n) = 0xff" "Convert invert (src ! (n + 1)) = 0"
      | "Convert invert (src ! n) = 0" "Convert invert (src ! (n + 1)) \<noteq> 1" "Convert invert (src ! (n + 1)) \<noteq> 0xff"
      | "Convert invert (src ! n) = 0xff" "Convert invert (src ! (n + 1)) \<noteq> 0"
      using special' by blast
    then show ?thesis
    proof cases
      case 1
      then show ?thesis unfolding unfold t_def [symmetric] t dt by (simp add: special_byte_cases)
    next
      case 2
      then have "unescape (drop n t) = map_option (\<lambda>(rest, s). (rest, 0 # s)) rest"
        unfolding dt by (simp add: special_byte_cases rest_def)
      then show ?thesis using 2 null [OF 2] unfolding unfold t_def [symmetric] t by (cases rest) auto
    next
      case 3
      then have "unescape (drop n t) = map_option (\<lambda>(rest, s). (rest, 0xff # s)) rest"
        unfolding dt by (simp add: special_byte_cases rest_def)
      then show ?thesis using 3 ff [OF 3] unfolding unfold t_def [symmetric] t by (cases rest) auto
    next
      case 4
      then show ?thesis unfolding unfold t_def [symmetric] t dt by (simp add: special_byte_cases byte_all_ones)
    next
      case 5
      then show ?thesis unfolding unfold t_def [symmetric] t dt by (simp add: special_byte_cases byte_all_ones)
    qed
  qed
qed

section \<open>The order of strings\<close>

lemma ordinary_byte: "\<not> IsSpecialByte b \<Longrightarrow> 0 < b \<and> b < 0xff"
proof -
  assume "\<not> IsSpecialByte b"
  then have "uint b \<noteq> 0" "uint b \<noteq> 255" by (auto simp: IsSpecialByte_uint)
  then have "0 < uint b" "uint b < 255" using uint_byte [of b] by linarith+
  then show ?thesis by (simp add: word_less_def)
qed

lemma one_less_last_byte [simp]: "(1 :: byte) < - 1"
  unfolding byte_all_ones by (simp add: word_less_def)

lemma escaped_Nil: "escaped [] = [0, 1]"
  by (simp add: escaped_def)

lemma escaped_Cons: "escaped (b # s) = escape_byte b @ escaped s"
  by (simp add: escaped_def)

lemma escape_byte_less:
  assumes "a < b" shows "strictly_before (escape_byte a @ r) (escape_byte b @ s)"
proof -
  consider "IsSpecialByte b" | "\<not> IsSpecialByte b" "IsSpecialByte a" | "\<not> IsSpecialByte b" "\<not> IsSpecialByte a"
    by blast
  then show ?thesis
    using assms ordinary_byte [of a] ordinary_byte [of b]
    by cases (auto simp: escape_byte_def special_byte_cases word_less_def)
qed

lemma escaped_less: "s < t \<Longrightarrow> strictly_before (escaped s) (escaped t)"
proof (induction s arbitrary: t)
  case Nil
  then obtain b u where t: "t = b # u" by (cases t) auto
  show ?case
    using ordinary_byte [of b] unfolding t by (auto simp: escaped_Nil escaped_Cons escape_byte_def special_byte_cases)
next
  case (Cons a s)
  then obtain b u where t: "t = b # u" "a < b \<or> a = b \<and> s < u" by (cases t) auto
  then show ?case using Cons.IH escape_byte_less [of a b] by (auto simp: escaped_Cons)
qed

lemma escaped_below_infinity: "strictly_before (escaped s) [0xff, 0xff]"
proof (cases s)
  case (Cons b u)
  then show ?thesis using ordinary_byte [of b] by (auto simp: escaped_Cons escape_byte_def special_byte_cases)
qed (simp add: escaped_Nil)

end
