(* ===== verification/OrderedNumbers.thy ===== *)
theory OrderedNumbers
  imports OrderedStrings
begin

text \<open>
  The number half of the ordered code: each number has one encoding, whose value in network byte
  order grows with the number, which the reader takes apart again, and whose inversion is the
  encoding in decreasing order.
\<close>

section \<open>Unsigned numbers\<close>

lemma shift_in_eq: "shift_in b w = w * 256 + ucast b"
proof -
  have "push_bit 8 w OR ucast b = push_bit 8 w + ucast b"
    by (rule disjunctive_add_eq_or [symmetric], rule bit_word_eqI) (auto simp: bit_simps dest: bit_imp_le_length)
  then show ?thesis by (simp add: shift_in_def push_bit_eq_mult)
qed

lemma fold_shift_in: "fold shift_in bs w = w * 256 ^ length bs + word_of_int (be_value bs)"
proof (induction bs arbitrary: w)
  case (Cons b bs)
  have "(ucast b :: 64 word) = word_of_int (uint b)" by simp
  then show ?case by (simp add: Cons.IH shift_in_eq [of b w] algebra_simps)
qed simp

lemma shift_in_NOT: "shift_in (NOT b) (NOT w) = NOT (shift_in b w)"
  by (rule bit_word_eqI) (auto simp: shift_in_def bit_simps dest: bit_imp_le_length)

lemma fold_shift_in_NOT: "fold shift_in (map (\<lambda>b. NOT b) bs) (NOT w) = NOT (fold shift_in bs w)"
  by (induction bs arbitrary: w) (simp_all add: shift_in_NOT)

lemma store_be_NOT: "8 * n \<le> LENGTH('a) \<Longrightarrow> store_be n (NOT (w :: 'a::len word)) = map (\<lambda>b. NOT b) (store_be n w)"
  by (auto simp: store_be_def store_le_def rev_map intro!: bit_word_eqI)
    (auto simp: bit_simps dest: bit_imp_le_length)

definition payload :: "nat \<Rightarrow> 64 word \<Rightarrow> byte list" where
  "payload len num = drop (8 - len) (store_be 8 num)"

lemma length_payload [simp]: "len \<le> 8 \<Longrightarrow> length (payload len num) = len"
  by (simp add: payload_def)

lemma payload_0 [simp]: "payload 0 num = []"
  by (simp add: payload_def)

lemma be_value_payload:
  assumes "len \<le> 8" "uint num < 256 ^ len"
  shows "be_value (payload len num) = uint num"
proof -
  let ?h = "take (8 - len) (store_be 8 num)"
  have "be_value ?h * 256 ^ len + be_value (payload len num) = be_value (?h @ payload len num)"
    using assms(1) by (simp only: be_value_append length_payload)
  also have "\<dots> = uint num"
    using uint_lt2p [of num] by (simp add: payload_def be_value_store_be mod_pos_pos_trivial)
  finally have eq: "uint num = be_value ?h * 256 ^ len + be_value (payload len num)" by simp
  then have "be_value ?h * 256 ^ len < 1 * 256 ^ len"
    using assms(2) be_value_bounds(1) [of "payload len num"] by linarith
  then have "be_value ?h < 1" by simp
  then have "be_value ?h = 0" using be_value_bounds(1) [of ?h] by linarith
  then show ?thesis using eq by simp
qed

lemma OrderedNumLength_eq: "OrderedNumLength num = (bit_length (unat num) + 7) div 8"
  by (simp add: OrderedNumLength_def Log2Floor64_eq nat_div_distrib nat_add_distrib)

lemma OrderedNumLength_bounds:
  "OrderedNumLength num \<le> 8" "uint num < 256 ^ OrderedNumLength num"
  "0 < OrderedNumLength num \<Longrightarrow> 256 ^ (OrderedNumLength num - 1) \<le> uint num"
proof -
  let ?b = "bit_length (unat num)" and ?l = "OrderedNumLength num"
  have b: "?b \<le> 64" using bit_length_word [of num] by simp
  then show "?l \<le> 8" by (simp add: OrderedNumLength_eq)
  have "unat num < 2 ^ ?b" by (rule bit_length_upper)
  also have "(2 :: nat) ^ ?b \<le> 2 ^ (8 * ?l)" by (rule power_increasing) (auto simp: OrderedNumLength_eq)
  finally have "int (unat num) < int (2 ^ (8 * ?l))" by (simp only: of_nat_less_iff)
  then show "uint num < 256 ^ ?l"
    by (simp only: uint_nat [symmetric] of_nat_power of_nat_numeral power_mult two_power_8)
  assume "0 < ?l"
  then have "0 < ?b" "8 * (?l - 1) \<le> ?b - 1" by (auto simp: OrderedNumLength_eq)
  then have "(2 :: nat) ^ (8 * (?l - 1)) \<le> 2 ^ (?b - 1)" "0 < unat num"
    by (auto intro: power_increasing simp del: bit_length.simps intro!: Nat.gr0I)
  moreover have "2 ^ (?b - 1) \<le> unat num" using \<open>0 < unat num\<close> by (rule bit_length_lower)
  ultimately have "int (2 ^ (8 * (?l - 1))) \<le> int (unat num)" by (simp only: of_nat_le_iff)
  then show "256 ^ (?l - 1) \<le> uint num"
    by (simp only: uint_nat [symmetric] of_nat_power of_nat_numeral power_mult two_power_8)
qed

definition num_bytes :: "64 word \<Rightarrow> byte list" where
  "num_bytes num = word_of_nat (OrderedNumLength num) # payload (OrderedNumLength num) num"

lemma drop_update_at: "k < length xs \<Longrightarrow> drop k (xs[k := c]) = c # drop (Suc k) xs"
  by (simp add: Cons_nth_drop_Suc [symmetric])

lemma num_buffer:
  assumes "len \<le> 8" "length bs = 8"
  shows "take (len + 1) (drop (9 - len - 1) ((store_at 1 bs (replicate 17 0))[9 - len - 1 := c])) = c # drop (8 - len) bs"
proof -
  have buf: "store_at 1 bs (replicate 17 0) = 0 # bs @ replicate 8 0"
    using assms(2) by (simp add: store_at_def numeral_eq_Suc)
  have "drop (9 - len - 1) ((store_at 1 bs (replicate 17 0))[9 - len - 1 := c]) = c # drop (8 - len) bs @ replicate 8 0"
    using assms by (subst drop_update_at) (simp_all add: buf [unfolded One_nat_def])
  then show ?thesis using assms by simp
qed

lemma WriteNumIncreasing_ok: "WriteNumIncreasing dest num = dest @ num_bytes num"
  unfolding WriteNumIncreasing_def Let_def num_buffer [OF OrderedNumLength_bounds(1) length_store_be]
  by (simp add: num_bytes_def payload_def)

lemma WriteNumDecreasing_ok: "WriteNumDecreasing dest num = dest @ map (\<lambda>b. NOT b) (num_bytes num)"
  unfolding WriteNumDecreasing_def Let_def num_buffer [OF OrderedNumLength_bounds(1) length_store_be]
  by (simp add: num_bytes_def payload_def store_be_NOT drop_map)

lemma num_bytes_less:
  assumes "x < y" shows "strictly_before (num_bytes x) (num_bytes y)"
proof -
  let ?k = "OrderedNumLength x" and ?l = "OrderedNumLength y"
  have xy: "uint x < uint y" using assms by (simp add: word_less_def)
  have le: "?k \<le> ?l"
  proof (rule ccontr)
    assume "\<not> ?k \<le> ?l"
    then have "256 ^ ?l \<le> (256 :: int) ^ (?k - 1)" by (intro power_increasing) auto
    moreover have "0 < ?k" using \<open>\<not> ?k \<le> ?l\<close> by simp
    ultimately show False
      using OrderedNumLength_bounds(2) [of y] OrderedNumLength_bounds(3) [of x] xy by linarith
  qed
  show ?thesis
  proof (cases "?k = ?l")
    case True
    have "strictly_before (payload ?l x) (payload ?l y)"
      using OrderedNumLength_bounds(1,2) [of y] OrderedNumLength_bounds(2) [of x] xy True
      by (intro lex_by_value [where N = ?l]) (simp_all add: be_value_payload)
    then show ?thesis using True by (simp add: num_bytes_def)
  next
    case False
    then have "(word_of_nat ?k :: byte) < word_of_nat ?l"
      using le OrderedNumLength_bounds(1) [of y] by (simp add: word_less_nat_alt unat_of_nat)
    then show ?thesis by (simp add: num_bytes_def)
  qed
qed

lemma length_byte:
  assumes "len \<le> 8"
  shows "(scast (word_of_nat len :: byte) :: 64 word) = word_of_nat len" "NOT (NOT (word_of_nat len :: byte)) = word_of_nat len"
    "unat (word_of_nat len :: 64 word) = len" "unat (word_of_nat len + 1 :: 64 word) = len + 1"
    "(word_of_nat len :: 64 word) \<le> 8" "(word_of_nat len :: 64 word) = 0 \<longleftrightarrow> len = 0"
proof -
  have "\<forall>l \<in> set [0..<9]. (scast (word_of_nat l :: byte) :: 64 word) = word_of_nat l" by code_simp
  then show "(scast (word_of_nat len :: byte) :: 64 word) = word_of_nat len" using assms by simp
  have "unat (word_of_nat k :: 64 word) = k" if "k \<le> 9" for k
    using that by (simp add: unat_of_nat)
  from this [of len] this [of "len + 1"] show
    "unat (word_of_nat len :: 64 word) = len" "unat (word_of_nat len + 1 :: 64 word) = len + 1"
    using assms by (simp_all add: add.commute)
  then show "(word_of_nat len :: 64 word) \<le> 8" "(word_of_nat len :: 64 word) = 0 \<longleftrightarrow> len = 0"
    using assms by (simp_all add: word_le_nat_alt unat_eq_0 [symmetric])
qed simp

lemma ReadNumIncreasing_ok: "ReadNumIncreasing (num_bytes num @ rest) = Some (Some (rest, num))"
proof -
  define len where "len = OrderedNumLength num"
  have len: "len \<le> 8" and num: "uint num < 256 ^ len" and low: "0 < len \<Longrightarrow> 256 ^ (len - 1) \<le> uint num"
    using OrderedNumLength_bounds [of num] by (simp_all add: len_def)
  note byte = length_byte [OF len]
  define src where "src = num_bytes num @ rest"
  have src: "src = word_of_nat len # payload len num @ rest" by (simp add: src_def num_bytes_def len_def)
  have minimal: "src ! 1 \<noteq> 0" if pos: "0 < len"
  proof
    assume zero: "src ! 1 = 0"
    obtain b bs where bs: "payload len num = b # bs" using pos length_payload [OF len, of num] by (cases "payload len num") (simp_all del: length_payload)
    then have "length bs = len - 1" using len by (metis length_payload length_Cons diff_Suc_1)
    moreover have "b = 0" using zero bs by (simp add: src)
    ultimately have "uint num < 256 ^ (len - 1)"
      using be_value_payload [OF len num] be_value_bounds(2) [of bs] bs by simp
    then show False using low pos by simp
  qed
  have "fold shift_in (take len (tl src)) 0 = num"
    using len num by (simp add: src fold_shift_in be_value_payload)
  then have "ReadNumIncreasing src = Some (Some (rest, num))"
    using minimal len byte by (auto simp: ReadNumIncreasing_def src not_less Let_def)
  then show ?thesis by (simp add: src_def)
qed

lemma ReadNumDecreasing_NOT:
  "ReadNumDecreasing (map (\<lambda>b. NOT b) src) =
     map_option (map_option (\<lambda>(rest, num). (map (\<lambda>b. NOT b) rest, num))) (ReadNumIncreasing src)"
proof (cases src)
  case (Cons b bs)
  have "map (\<lambda>b. NOT b) bs ! 0 = 0xff \<longleftrightarrow> bs ! 0 = 0" if "bs \<noteq> []"
    using that byte_all_ones by (cases bs) (auto simp: word_uint_eq_iff uint_NOT_byte)
  moreover have "fold shift_in (map (\<lambda>b. NOT b) xs) (- 1) = NOT (fold shift_in xs 0)" for xs
    using fold_shift_in_NOT [of xs 0] by simp
  ultimately show ?thesis
    by (cases "bs = []") (auto simp: Cons ReadNumIncreasing_def ReadNumDecreasing_def Let_def take_map drop_map)
qed (simp add: ReadNumIncreasing_def ReadNumDecreasing_def)

lemma NOT_comp [simp]: "(NOT) \<circ> (NOT) = (id :: byte \<Rightarrow> byte)"
  by (simp add: fun_eq_iff)

lemma map_NOT_NOT [simp]: "map (\<lambda>b. NOT b) (map (\<lambda>b. NOT b) bs) = (bs :: byte list)"
  by (simp add: o_def)

lemma ReadNumDecreasing_ok: "ReadNumDecreasing (map (\<lambda>b. NOT b) (num_bytes num) @ rest) = Some (Some (rest, num))"
  using ReadNumDecreasing_NOT [of "num_bytes num @ map (\<lambda>b. NOT b) rest"]
  by (simp add: ReadNumIncreasing_ok o_def)

section \<open>Signed numbers\<close>

definition signed_length :: "64 word \<Rightarrow> nat" where
  "signed_length x = bit_length (unat x) div 7 + 1"

definition signed_header :: "nat \<Rightarrow> int" where
  "signed_header len = 2 ^ (8 * len) - 2 ^ (7 * len)"

lemma kBitsToLength_eq: "b \<le> 63 \<Longrightarrow> kBitsToLength ! b = b div 7 + 1"
proof -
  have "\<forall>b \<in> set [0..<64]. kBitsToLength ! b = b div 7 + 1" by code_simp
  then show "b \<le> 63 \<Longrightarrow> ?thesis" by simp
qed

lemma uint_64: "0 \<le> uint (x :: 64 word)" "uint (x :: 64 word) < 2 ^ 64"
  using uint_lt2p [of x] by simp_all

lemma mod_half:
  fixes k h :: int
  shows "0 \<le> k \<Longrightarrow> k < h \<Longrightarrow> (k + h) mod (2 * h) = k + h"
    and "h \<le> k \<Longrightarrow> k < 2 * h \<Longrightarrow> (k + h) mod (2 * h) = k - h"
proof -
  show "(k + h) mod (2 * h) = k + h" if "0 \<le> k" "k < h"
    using that by (intro mod_pos_pos_trivial; linarith)
  assume "h \<le> k" "k < 2 * h"
  have "(k + h) mod (2 * h) = (k - h + 2 * h) mod (2 * h)" by (simp add: algebra_simps)
  also have "\<dots> = (k - h) mod (2 * h)" by (simp only: mod_add_self2)
  also have "\<dots> = k - h" using \<open>h \<le> k\<close> \<open>k < 2 * h\<close> by (intro mod_pos_pos_trivial; linarith)
  finally show "(k + h) mod (2 * h) = k - h" .
qed

lemma sint_uint_cases: "sint (x :: 64 word) = (if uint x < 2 ^ 63 then uint x else uint x - 2 ^ 64)"
proof -
  have "sint x = (uint x + 2 ^ 63) mod (2 * 2 ^ 63) - 2 ^ 63"
    by (simp add: sint_uint signed_take_bit_eq_take_bit_shift take_bit_eq_mod)
  then show ?thesis
    using mod_half [where k = "uint x" and h = "2 ^ 63"] uint_64 [of x] by (cases "uint x < 2 ^ 63") simp_all
qed

lemma nonneg_word: "0 \<le> sint (x :: 64 word) \<Longrightarrow> uint x < 2 ^ 63 \<and> bit_length (unat x) \<le> 63 \<and> sint x = uint x"
proof -
  assume "0 \<le> sint x"
  then have u: "uint x < 2 ^ 63" using uint_64 [of x] by (auto simp: sint_uint_cases split: if_splits)
  then have "int (unat x) < int (2 ^ 63)" by (simp only: uint_nat [symmetric] of_nat_power of_nat_numeral)
  then have "unat x < 2 ^ 63" by (simp only: of_nat_less_iff)
  then show ?thesis using u bit_length_le [of "unat x" 63] by (simp add: sint_uint_cases)
qed

lemma signed_length_bounds:
  assumes "0 \<le> sint x"
  shows "1 \<le> signed_length x" "signed_length x \<le> 10" "uint x < 2 ^ (7 * signed_length x - 1)"
    "signed_length x = 10 \<Longrightarrow> uint x < 2 ^ 63"
proof -
  note w = nonneg_word [OF assms]
  show "1 \<le> signed_length x" by (simp add: signed_length_def)
  show "signed_length x \<le> 10" using w div_le_mono [of "bit_length (unat x)" 63 7] by (simp add: signed_length_def)
  show "signed_length x = 10 \<Longrightarrow> uint x < 2 ^ 63" using w by simp
  have "unat x < 2 ^ bit_length (unat x)" by (rule bit_length_upper)
  also have "(2 :: nat) ^ bit_length (unat x) \<le> 2 ^ (7 * signed_length x - 1)"
    by (rule power_increasing) (auto simp: signed_length_def)
  finally have "int (unat x) < int (2 ^ (7 * signed_length x - 1))" by (simp only: of_nat_less_iff)
  then show "uint x < 2 ^ (7 * signed_length x - 1)" by (simp only: uint_nat [symmetric] of_nat_power of_nat_numeral)
qed

lemma SignedEncodingLength_nonneg: "0 \<le> sint x \<Longrightarrow> SignedEncodingLength x = signed_length x"
  using nonneg_word [of x] by (simp add: SignedEncodingLength_def Log2Floor64_eq kBitsToLength_eq signed_length_def)

lemma sint_NOT: "sint (NOT x :: 64 word) = - sint x - 1"
proof -
  have "uint (NOT x) = 2 ^ 64 - 1 - uint x"
  proof -
    have "uint (NOT x) = (2 ^ 64 - 1 - uint x) mod 2 ^ 64"
    proof -
      have "uint (NOT x) = (- uint x - 1) mod 2 ^ 64" by (simp add: unsigned_not_eq take_bit_eq_mod not_int_def)
      also have "\<dots> = (- uint x - 1 + 2 ^ 64) mod 2 ^ 64" by (simp only: mod_add_self2)
      finally show ?thesis by simp
    qed
    also have "\<dots> = 2 ^ 64 - 1 - uint x"
      using uint_64 [of x] by (intro mod_pos_pos_trivial; linarith)
    finally show ?thesis .
  qed
  then show ?thesis using uint_64 [of x] by (auto simp: sint_uint_cases)
qed

lemma SignedEncodingLength_NOT: "SignedEncodingLength (NOT x) = SignedEncodingLength x"
  by (auto simp: SignedEncodingLength_def sint_NOT)

lemma header_xor:
  assumes "2 \<le> len" "len \<le> 7" "uint r < 2 ^ (7 - len)"
  shows "uint (r XOR fst (kLengthToHeaderBits ! len)) = uint r + uint (fst (kLengthToHeaderBits ! len))"
proof -
  have "\<forall>len \<in> set [2..<8]. \<forall>r \<in> set [0..2 ^ (7 - len) - 1].
      r XOR uint (fst (kLengthToHeaderBits ! len)) = r + uint (fst (kLengthToHeaderBits ! len))"
    by code_simp
  then have "\<forall>r \<in> set [0..2 ^ (7 - len) - 1].
      r XOR uint (fst (kLengthToHeaderBits ! len)) = r + uint (fst (kLengthToHeaderBits ! len))"
    by (rule bspec) (use assms in \<open>simp add: less_Suc_eq_le set_upt del: upt.simps upt_rec_numeral\<close>)
  then show ?thesis using assms(3) uint_byte [of r] by (simp add: unsigned_xor_eq)
qed

lemma second_header_xor: "uint (r :: byte) < 64 \<Longrightarrow> uint (r XOR 0x80) = uint r + 0x80"
proof -
  have "\<forall>r \<in> set [0..63]. r XOR 0x80 = r + (0x80 :: int)" by code_simp
  then show "uint r < 64 \<Longrightarrow> ?thesis" using uint_byte [of r] by (simp add: unsigned_xor_eq)
qed

text \<open>The encoding of a number that is not negative, as a list.\<close>

definition signed_bytes :: "64 word \<Rightarrow> byte list" where
  "signed_bytes x =
     (let len = signed_length x; raw = drop (10 - len) (0 # 0 # store_be 8 x)
      in if len = 1 then [0x80 XOR ucast x]
         else (raw ! 0 XOR fst (kLengthToHeaderBits ! len)) # (raw ! 1 XOR snd (kLengthToHeaderBits ! len)) # drop 2 raw)"

lemma signed_raw:
  assumes "0 \<le> sint x" "signed_length x = len" "2 \<le> len"
  defines "raw \<equiv> drop (10 - len) (0 # 0 # store_be 8 x)"
  obtains r0 r1 rs where "raw = r0 # r1 # rs" "length rs = len - 2"
    "uint r0 * 256 ^ (len - 1) + uint r1 * 256 ^ (len - 2) + be_value rs = uint x"
proof -
  note bounds = signed_length_bounds [OF assms(1), unfolded assms(2)]
  have len: "length raw = len" using bounds by (simp add: raw_def)
  then obtain r0 r1 rs where raw: "raw = r0 # r1 # rs"
    using assms(3) by (cases raw; cases "tl raw") auto
  have "be_value raw = uint x"
  proof (cases "len \<le> 8")
    case True
    have "uint x < 2 ^ (7 * len - 1)" by (rule bounds)
    also have "(2 :: int) ^ (7 * len - 1) \<le> 2 ^ (8 * len)" by (rule power_increasing) auto
    finally have "uint x < 256 ^ len" by (simp only: power_mult two_power_8)
    moreover have "raw = payload len x"
      using True by (simp add: raw_def payload_def drop_Cons' Suc_diff_le numeral_eq_Suc)
    ultimately show ?thesis using True by (simp add: be_value_payload)
  next
    case False
    then have "len = 9 \<or> len = 10" using bounds by linarith
    then have "be_value raw = be_value (store_be 8 x)" by (auto simp: raw_def)
    then show ?thesis using uint_64 [of x] by (simp add: be_value_store_be mod_pos_pos_trivial)
  qed
  moreover have "length rs = len - 2" "len - 1 = Suc (len - 2)" using len raw assms(3) by auto
  ultimately show thesis using raw by (intro that) (simp_all add: algebra_simps)
qed

lemma length_cases:
  assumes "1 \<le> len" "len \<le> (10 :: nat)"
  obtains "len = 1" | "len = 2" | "len = 3" | "len = 4" | "len = 5" | "len = 6" | "len = 7" | "len = 8" | "len = 9" | "len = 10"
proof -
  have "len = 1 \<or> len = 2 \<or> len = 3 \<or> len = 4 \<or> len = 5 \<or> len = 6 \<or> len = 7 \<or> len = 8 \<or> len = 9 \<or> len = 10"
    using assms by presburger
  then show thesis using that by blast
qed

lemma short_header: "len \<le> 7 \<Longrightarrow> snd (kLengthToHeaderBits ! len) = 0"
proof -
  have "\<forall>len \<in> set [0..<8]. snd (kLengthToHeaderBits ! len) = 0" by code_simp
  then show "len \<le> 7 \<Longrightarrow> ?thesis" by (simp add: less_Suc_eq_le set_upt del: upt.simps upt_rec_numeral)
qed

lemma byte_zero:
  assumes "uint (r :: byte) * K \<le> n" "n < K" "0 < K" shows "r = 0"
proof -
  have "uint r * K < 1 * K" using assms by linarith
  then have "uint r < 1" using assms(3) by (simp add: mult_less_cancel_right)
  then have "uint r = 0" using uint_byte(1) [of r] by linarith
  then show ?thesis by (simp add: word_uint_eq_iff)
qed

lemma header_fits:
  assumes "2 \<le> len" "len \<le> 10" "uint x < 2 ^ (7 * len - 1)" "uint (x :: 64 word) < 2 ^ 63"
    and "uint r0 * 256 ^ (len - 1) + uint r1 * 256 ^ (len - 2) + v = uint x" "0 \<le> v"
  shows "uint (r0 XOR fst (kLengthToHeaderBits ! len)) = uint r0 + uint (fst (kLengthToHeaderBits ! len)) \<and>
     uint (r1 XOR snd (kLengthToHeaderBits ! len)) = uint r1 + uint (snd (kLengthToHeaderBits ! len))"
proof -
  have "0 \<le> uint r0 * 256 ^ (len - 1)" "0 \<le> uint r1 * 256 ^ (len - 2)" by simp_all
  then have le: "uint r0 * 256 ^ (len - 1) \<le> uint x" "uint r1 * 256 ^ (len - 2) \<le> uint x"
    using assms(5,6) by linarith+
  have "len \<le> 7 \<or> len = 8 \<or> len = 9 \<or> len = 10" using assms(2) by presburger
  then show ?thesis
  proof (elim disjE)
    assume len: "len \<le> 7"
    have "7 * len - 1 = (7 - len) + 8 * (len - 1)" using assms(1) len by presburger
    then have "(2 :: int) ^ (7 * len - 1) = 2 ^ (7 - len) * 256 ^ (len - 1)"
      by (simp only: power_add power_mult two_power_8)
    then have "uint r0 * 256 ^ (len - 1) < 2 ^ (7 - len) * 256 ^ (len - 1)" using le assms(3) by linarith
    then have "uint r0 < 2 ^ (7 - len)" by simp
    moreover have "snd (kLengthToHeaderBits ! len) = 0" using len by (rule short_header)
    ultimately show ?thesis using header_xor [OF assms(1) len] by simp
  next
    assume len: "len = 8"
    have "r0 = 0" using assms(3) by (intro byte_zero [OF le(1)]) (simp_all add: len)
    then show ?thesis by (simp add: len kLengthToHeaderBits_def)
  next
    assume len: "len = 9"
    have "r0 = 0" using assms(4) by (intro byte_zero [OF le(1)]) (simp_all add: len)
    moreover have "uint r1 < 64" using le(2) assms(3) len by simp
    ultimately show ?thesis using second_header_xor [of r1] by (simp add: len kLengthToHeaderBits_def)
  next
    assume len: "len = 10"
    have "r0 = 0" using assms(4) by (intro byte_zero [OF le(1)]) (simp_all add: len)
    moreover have "r1 = 0" using assms(4) by (intro byte_zero [OF le(2)]) (simp_all add: len)
    ultimately show ?thesis by (simp add: len kLengthToHeaderBits_def)
  qed
qed

lemma header_value:
  assumes "2 \<le> len" "len \<le> 10"
  shows "uint (fst (kLengthToHeaderBits ! len)) * 256 ^ (len - 1) + uint (snd (kLengthToHeaderBits ! len)) * 256 ^ (len - 2) =
     signed_header len"
proof -
  have "\<forall>len \<in> set [2..<11].
      uint (fst (kLengthToHeaderBits ! len)) * 256 ^ (len - 1) + uint (snd (kLengthToHeaderBits ! len)) * 256 ^ (len - 2) =
      signed_header len"
    by code_simp
  then show ?thesis by (rule bspec) (use assms in \<open>simp add: less_Suc_eq_le set_upt del: upt.simps upt_rec_numeral\<close>)
qed

lemma be_value_signed_bytes:
  assumes "0 \<le> sint x"
  shows "length (signed_bytes x) = signed_length x"
    and "be_value (signed_bytes x) = signed_header (signed_length x) + uint x"
proof -
  define len where "len = signed_length x"
  note bounds = signed_length_bounds [OF assms, folded len_def]
  have "length (signed_bytes x) = len \<and> be_value (signed_bytes x) = signed_header len + uint x"
  proof (cases "len = 1")
    case True
    then have x: "uint x < 64" "0 \<le> uint x" using bounds(3) by simp_all
    have "uint (ucast x :: byte) = uint x"
      using x by (simp add: unsigned_ucast_eq take_bit_eq_mod mod_pos_pos_trivial)
    then have "uint (0x80 XOR ucast x :: byte) = uint x + 0x80"
      using second_header_xor [of "ucast x"] x by (simp add: xor.commute)
    then show ?thesis using True by (simp add: signed_bytes_def len_def [symmetric] signed_header_def)
  next
    case False
    then have two: "2 \<le> len" using bounds(1) by simp
    obtain r0 r1 rs where raw: "drop (10 - len) (0 # 0 # store_be 8 x) = r0 # r1 # rs" "length rs = len - 2"
      and x: "uint r0 * 256 ^ (len - 1) + uint r1 * 256 ^ (len - 2) + be_value rs = uint x"
      by (rule signed_raw [OF assms len_def [symmetric] two])
    have bytes: "signed_bytes x =
        (r0 XOR fst (kLengthToHeaderBits ! len)) # (r1 XOR snd (kLengthToHeaderBits ! len)) # rs"
      using False by (simp add: signed_bytes_def len_def [symmetric] raw)
    note nonneg = uint_byte(1) [of r0] uint_byte(1) [of r1] be_value_bounds(1) [of rs]
    have "uint x < 2 ^ 63" using nonneg_word [OF assms] by simp
    note header_fits [OF two bounds(2,3) this x nonneg(3)] header_value [OF two bounds(2)]
    moreover have "len - 1 = Suc (len - 2)" "Suc (Suc (len - 2)) = len" using two by auto
    ultimately show ?thesis
      unfolding bytes using raw(2) x by (simp add: algebra_simps)
  qed
  then show "length (signed_bytes x) = signed_length x"
    "be_value (signed_bytes x) = signed_header (signed_length x) + uint x"
    by (simp_all add: len_def)
qed

lemma bit_length_mono: "m \<le> n \<Longrightarrow> bit_length m \<le> bit_length n"
  using bit_length_upper [of n] by (intro bit_length_le) (simp del: bit_length.simps)

lemma headers_apart:
  assumes "1 \<le> k" "k < l" "l \<le> 10"
  shows "(signed_header k + 2 ^ (7 * k - 1)) * 256 ^ (10 - k) \<le> signed_header l * 256 ^ (10 - l)"
proof -
  have "\<forall>l \<in> set [2..<11]. \<forall>k \<in> set [1..<l].
      (signed_header k + 2 ^ (7 * k - 1)) * 256 ^ (10 - k) \<le> signed_header l * 256 ^ (10 - l)"
    by code_simp
  then have "\<forall>k \<in> set [1..<l]. (signed_header k + 2 ^ (7 * k - 1)) * 256 ^ (10 - k) \<le> signed_header l * 256 ^ (10 - l)"
    by (rule bspec) (use assms in \<open>simp add: less_Suc_eq_le set_upt del: upt.simps upt_rec_numeral\<close>)
  then show ?thesis
    by (rule bspec) (use assms in \<open>simp add: less_Suc_eq_le set_upt del: upt.simps upt_rec_numeral\<close>)
qed

lemma signed_bytes_less:
  assumes "0 \<le> sint x" "sint x < sint y"
  shows "strictly_before (signed_bytes x) (signed_bytes y)"
proof -
  have y: "0 \<le> sint y" using assms by simp
  define k l where "k = signed_length x" and "l = signed_length y"
  note xb = signed_length_bounds [OF assms(1), folded k_def] and yb = signed_length_bounds [OF y, folded l_def]
  have xy: "uint x < uint y" using assms nonneg_word [OF assms(1)] nonneg_word [OF y] by simp
  then have "unat x \<le> unat y" by (simp add: word_less_def [symmetric] word_le_nat_alt [symmetric])
  then have kl: "k \<le> l" using div_le_mono [OF bit_length_mono, of "unat x" "unat y" 7]
    by (simp add: k_def l_def signed_length_def del: bit_length.simps)
  have "(signed_header k + uint x + 1) * 256 ^ (10 - k) \<le> (signed_header l + uint y) * 256 ^ (10 - l)"
  proof (cases "k = l")
    case True
    then show ?thesis using xy by (simp add: mult_right_mono)
  next
    case False
    have "(signed_header k + uint x + 1) * 256 ^ (10 - k) \<le> (signed_header k + 2 ^ (7 * k - 1)) * 256 ^ (10 - k)"
      using xb(3) by (intro mult_right_mono) auto
    also have "\<dots> \<le> signed_header l * 256 ^ (10 - l)"
      using False kl xb yb by (intro headers_apart) auto
    also have "\<dots> \<le> (signed_header l + uint y) * 256 ^ (10 - l)"
      by (intro mult_right_mono) auto
    finally show ?thesis .
  qed
  then show ?thesis
    using be_value_signed_bytes [OF assms(1)] be_value_signed_bytes [OF y] xb yb
    by (intro lex_by_value [where N = 10]) (simp_all add: k_def l_def)
qed

lemma put_header_eq:
  assumes "length buf = 10" "2 \<le> len"
  shows "put_header len buf =
     (drop (10 - len) buf ! 0 XOR fst (kLengthToHeaderBits ! len)) #
     (drop (10 - len) buf ! 1 XOR snd (kLengthToHeaderBits ! len)) # drop 2 (drop (10 - len) buf)"
proof -
  define i where "i = 10 - len"
  have "Suc i < length buf" using assms by (simp add: i_def)
  then show ?thesis
    unfolding put_header_def Let_def i_def [symmetric] by (simp add: drop_update_swap Cons_nth_drop_Suc [symmetric])
qed

lemma signed_length_1: "0 \<le> sint x \<Longrightarrow> signed_length x = 1 \<longleftrightarrow> x < 64"
proof
  assume x: "0 \<le> sint x" "signed_length x = 1"
  then show "x < 64" using signed_length_bounds(3) [OF x(1)] by (simp add: word_less_def)
next
  assume "x < 64"
  then have "unat x < 2 ^ 6" by (simp add: word_less_nat_alt)
  then have "bit_length (unat x) \<le> 6" by (rule bit_length_le)
  then show "signed_length x = 1" by (simp add: signed_length_def del: bit_length.simps)
qed

lemma WriteSigned_nonneg:
  assumes "0 \<le> sint num"
  shows "WriteSignedNumIncreasing dest num = Some (dest @ signed_bytes num)"
proof (cases "num < 64")
  case True
  then show ?thesis
    using assms signed_length_1 [OF assms]
    by (simp add: WriteSignedNumIncreasing_def signed_bytes_def kLengthToHeaderBits_def)
next
  case False
  define len where "len = signed_length num"
  have len: "2 \<le> len" "len \<le> 10"
    using False signed_length_1 [OF assms] signed_length_bounds [OF assms] by (auto simp: len_def)
  have "num \<noteq> 0" using False by auto
  then have "SignedEncodingLengthPositive num = Some len"
    using nonneg_word [OF assms]
    by (simp add: SignedEncodingLengthPositive_def Log2FloorNonZero64_eq kBitsToLength_eq len_def signed_length_def)
  then show ?thesis
    using False assms len
    by (simp add: WriteSignedNumIncreasing_def signed_bytes_def put_header_eq len_def [symmetric] Let_def
        del: nth_Cons_Suc drop_Suc_Cons)
qed

lemma word_NOT_less_64: "uint (ucast (x :: 64 word) :: byte) = uint x mod 256"
  by (simp add: unsigned_ucast_eq take_bit_eq_mod)

lemma put_header_NOT:
  assumes "length buf = 10" "2 \<le> len" "len \<le> 10"
  shows "put_header len (map (\<lambda>b. NOT b) buf) = map (\<lambda>b. NOT b) (put_header len buf)"
proof -
  have nth: "drop (10 - len) (map (\<lambda>b. NOT b) buf) ! i = NOT (drop (10 - len) buf ! i)" if "i < 2" for i
    using that assms by (simp add: drop_map)
  have x: "NOT a XOR b = NOT (a XOR b)" for a b :: byte
    by (simp add: bit_eq_iff bit_simps)
  show ?thesis using assms nth [of 0] nth [of 1] by (simp add: put_header_eq x drop_map)
qed

lemma WriteSigned_NOT:
  assumes "0 \<le> sint num"
  shows "WriteSignedNumIncreasing dest (NOT num) = Some (dest @ map (\<lambda>b. NOT b) (signed_bytes num))"
proof (cases "num < 64")
  case True
  have "signed_bytes num = [0x80 XOR ucast num]"
    using True signed_length_1 [OF assms] by (simp add: signed_bytes_def)
  moreover have "0x80 XOR (ucast (NOT num) :: byte) = NOT (0x80 XOR ucast num)"
    by (rule bit_word_eqI) (auto simp: bit_simps)
  ultimately show ?thesis
    using True assms by (simp add: WriteSignedNumIncreasing_def sint_NOT kLengthToHeaderBits_def)
next
  case False
  define len where "len = signed_length num"
  have len: "2 \<le> len" "len \<le> 10"
    using False signed_length_1 [OF assms] signed_length_bounds [OF assms] by (auto simp: len_def)
  have "num \<noteq> 0" using False by auto
  then have positive: "SignedEncodingLengthPositive num = Some len"
    using nonneg_word [OF assms]
    by (simp add: SignedEncodingLengthPositive_def Log2FloorNonZero64_eq kBitsToLength_eq len_def signed_length_def)
  have "WriteSignedNumIncreasing [] num = Some (put_header len (0 # 0 # store_be 8 num))"
    using False assms len positive by (simp add: WriteSignedNumIncreasing_def)
  then have "signed_bytes num = put_header len (0 # 0 # store_be 8 num)"
    using WriteSigned_nonneg [OF assms, of "[]"] by simp
  moreover have "(0xff :: byte) # 0xff # store_be 8 (NOT num) = map (\<lambda>b. NOT b) (0 # 0 # store_be 8 num)"
    by (simp add: store_be_NOT byte_all_ones)
  ultimately show ?thesis
    using False assms len positive
    by (simp add: WriteSignedNumIncreasing_def sint_NOT put_header_NOT del: list.map)
qed

definition signed_code :: "64 word \<Rightarrow> byte list" where
  "signed_code num = (if 0 \<le> sint num then signed_bytes num else map (\<lambda>b. NOT b) (signed_bytes (NOT num)))"

lemma WriteSignedNumIncreasing_ok: "WriteSignedNumIncreasing dest num = Some (dest @ signed_code num)"
  using WriteSigned_NOT [of "NOT num" dest] by (simp add: signed_code_def WriteSigned_nonneg sint_NOT)

lemma signed_code_NOT: "signed_code (NOT num) = map (\<lambda>b. NOT b) (signed_code num)"
  by (simp add: signed_code_def sint_NOT)

lemma WriteSignedNumDecreasing_ok:
  "WriteSignedNumDecreasing dest num = Some (dest @ map (\<lambda>b. NOT b) (signed_code num))"
  by (simp add: WriteSignedNumDecreasing_def WriteSignedNumIncreasing_ok signed_code_NOT)

text \<open>The first byte of a number that is not negative is at least 0x80.\<close>

lemma signed_bytes_first:
  assumes "0 \<le> sint x"
  obtains b bs where "signed_bytes x = b # bs" "128 \<le> uint b"
proof -
  define len where "len = signed_length x"
  note bounds = signed_length_bounds [OF assms, folded len_def]
  note enc = be_value_signed_bytes [OF assms, folded len_def]
  obtain b bs where bytes: "signed_bytes x = b # bs"
    using enc(1) bounds(1) by (cases "signed_bytes x") auto
  have "128 * 256 ^ (len - 1) \<le> signed_header len"
  proof -
    have "\<forall>len \<in> set [1..<11]. 128 * 256 ^ (len - 1) \<le> signed_header len" by code_simp
    then show ?thesis by (rule bspec) (use bounds in \<open>simp add: less_Suc_eq_le set_upt del: upt.simps upt_rec_numeral\<close>)
  qed
  also have "\<dots> \<le> uint b * 256 ^ (len - 1) + be_value bs"
    using enc bytes by (auto simp: uint_64)
  finally have "128 * 256 ^ (len - 1) < (uint b + 1) * 256 ^ (len - 1)"
  proof -
    assume le: "128 * 256 ^ (len - 1) \<le> uint b * 256 ^ (len - 1) + be_value bs"
    have "be_value bs < 256 ^ (len - 1)" using be_value_bounds(2) [of bs] enc(1) bytes by auto
    then show ?thesis using le unfolding distrib_right by linarith
  qed
  then have "128 < uint b + 1" by (simp only: mult_less_cancel_right_pos zero_less_power zero_less_numeral)
  then show thesis using bytes that by simp
qed

lemma signed_code_less:
  assumes "sint x < sint y" shows "strictly_before (signed_code x) (signed_code y)"
proof -
  consider "0 \<le> sint x" "0 \<le> sint y" | "sint x < 0" "0 \<le> sint y" | "sint x < 0" "sint y < 0"
    using assms by linarith
  then show ?thesis
  proof cases
    case 1
    then show ?thesis using signed_bytes_less [of x y] assms by (simp add: signed_code_def)
  next
    case 2
    obtain b bs where "signed_bytes (NOT x) = b # bs" "128 \<le> uint b"
      by (rule signed_bytes_first [of "NOT x"]) (use 2 in \<open>simp_all add: sint_NOT\<close>)
    moreover obtain c cs where "signed_bytes y = c # cs" "128 \<le> uint c"
      by (rule signed_bytes_first [of y]) (use 2 in simp_all)
    ultimately show ?thesis using 2 by (simp add: signed_code_def word_less_def uint_NOT_byte)
  next
    case 3
    then have "strictly_before (signed_bytes (NOT y)) (signed_bytes (NOT x))"
      using assms by (intro signed_bytes_less) (simp_all add: sint_NOT)
    then show ?thesis using 3 by (simp add: signed_code_def strictly_before_NOT)
  qed
qed

section \<open>Reading signed numbers\<close>

lemma byte_sign: "(b :: byte) AND 0x80 = 0 \<longleftrightarrow> uint b < 128"
proof -
  have "\<forall>u \<in> set [0..255]. u AND 128 = 0 \<longleftrightarrow> u < (128 :: int)" by code_simp
  then have "uint b AND 128 = 0 \<longleftrightarrow> uint b < 128" using uint_byte [of b] by simp
  then show ?thesis by (simp add: word_uint_eq_iff unsigned_and_eq)
qed

lemma digit_unique:
  assumes "a * P + v = b * P + w" "0 \<le> v" "v < P" "0 \<le> w" "w < (P :: int)"
  shows "a = b" "v = w"
proof -
  have "(a * P + v) div P = a" "(b * P + w) div P = b" using assms(2-) by simp_all
  then show eq: "a = b" using assms(1) by metis
  show "v = w" using assms(1) unfolding eq by simp
qed

lemma mask_bits:
  assumes "0 \<le> x" "x < 2 ^ k"
  shows "word_of_int (push_bit k h + x) XOR word_of_int (push_bit k h) = (word_of_int x :: 'a::len word)"
proof -
  have x: "x = take_bit k x" using assms by (simp add: take_bit_int_eq_self)
  have "push_bit k h AND x = 0" by (subst x) (rule bit_eqI, auto simp: bit_simps)
  then have "push_bit k h + x = push_bit k h XOR x" by (rule disjunctive_add_eq_xor)
  then have "(push_bit k h + x) XOR push_bit k h = x" by (simp add: xor.assoc xor.left_commute)
  then have "word_of_int ((push_bit k h + x) XOR push_bit k h) = (word_of_int x :: 'a word)" by (simp only:)
  then show ?thesis by (simp only: of_int_xor_eq)
qed

lemma mask_header:
  assumes "0 \<le> x" "x < 2 ^ (7 * len)"
  shows "word_of_int (signed_header len + x) XOR word_of_int (signed_header len) = (word_of_int x :: 'a::len word)"
proof -
  have "signed_header len = push_bit (7 * len) (2 ^ len - 1)"
    by (simp add: signed_header_def push_bit_eq_mult algebra_simps flip: power_add)
  then show ?thesis using mask_bits [OF assms] by simp
qed

lemma kLengthToMask_header: "len \<le> 8 \<Longrightarrow> 1 \<le> len \<Longrightarrow> kLengthToMask ! len = word_of_int (signed_header len)"
proof -
  have "\<forall>len \<in> set [1..<9]. kLengthToMask ! len = word_of_int (signed_header len)" by code_simp
  then show "len \<le> 8 \<Longrightarrow> 1 \<le> len \<Longrightarrow> ?thesis" by (elim bspec) (simp add: less_Suc_eq_le set_upt del: upt.simps upt_rec_numeral)
qed

lemma short_first_byte:
  assumes "1 \<le> len" "len \<le> 7" "uint (b :: byte) * 256 ^ (len - 1) + v = signed_header len + x"
    and "0 \<le> v" "v < 256 ^ (len - 1)" "0 \<le> x" "x < 2 ^ (7 * len - 1)"
  shows "b \<noteq> 0xff" "Log2FloorNonZero (ucast (b XOR 0xff)) = Some (7 - int len)"
proof -
  define P q :: int where "P = 256 ^ (len - 1)" and "q = 2 ^ (7 - len)"
  have e: "7 * len - 1 = (7 - len) + 8 * (len - 1)" "8 * len = 8 + 8 * (len - 1)" "7 * len = Suc (7 - len) + 8 * (len - 1)"
    using assms(1,2) by presburger+
  have half: "2 ^ (7 * len - 1) = q * P" unfolding e(1) P_def q_def by (simp only: power_add power_mult two_power_8)
  have header: "signed_header len = (256 - 2 * q) * P"
    unfolding signed_header_def e(2,3) power_add power_mult two_power_8 power_Suc P_def q_def by (simp add: algebra_simps)
  have P: "0 < P" and q: "1 \<le> q" by (simp_all add: P_def q_def)
  have "(256 - 2 * q) * P < (uint b + 1) * P" "uint b * P < (256 - q) * P"
    using assms(3-7) unfolding header half P_def [symmetric] by (simp_all add: algebra_simps)
  then have b: "256 - 2 * q \<le> uint b" "uint b < 256 - q" using P by simp_all
  then show "b \<noteq> 0xff" using q by auto
  have x: "uint (b XOR 0xff) = 255 - uint b"
    using uint_NOT_byte [of b] byte_all_ones(1) by (metis bit.xor_one_right)
  moreover have "(255 - uint b) mod 4294967296 = 255 - uint b"
    using uint_byte [of b] by (intro mod_pos_pos_trivial; linarith)
  ultimately have u: "uint (ucast (b XOR 0xff) :: 32 word) = 255 - uint b"
    by (simp add: unsigned_ucast_eq take_bit_eq_mod)
  then have "int (unat (ucast (b XOR 0xff) :: 32 word)) = 255 - uint b" by (simp only: uint_nat [symmetric])
  then have "int (2 ^ (7 - len)) \<le> int (unat (ucast (b XOR 0xff) :: 32 word))"
    "int (unat (ucast (b XOR 0xff) :: 32 word)) < int (2 ^ Suc (7 - len))"
    using b by (simp_all add: q_def)
  then have "bit_length (unat (ucast (b XOR 0xff) :: 32 word)) = Suc (7 - len)"
    by (intro bit_length_eq) (simp_all only: of_nat_le_iff of_nat_less_iff)
  moreover have "(ucast (b XOR 0xff) :: 32 word) \<noteq> 0"
  proof
    assume "(ucast (b XOR 0xff) :: 32 word) = 0"
    then have "255 - uint b = 0" using u by simp
    then show False using b q by simp
  qed
  ultimately show "Log2FloorNonZero (ucast (b XOR 0xff)) = Some (7 - int len)"
    using assms(2) by (simp add: Log2FloorNonZero_eq of_nat_diff del: bit_length.simps)
qed

lemma long_first_bytes:
  assumes "8 \<le> len" "len \<le> 10" "length bs = len" "be_value bs = signed_header len + x" "0 \<le> x"
    and "x < 2 ^ (7 * len - 1)" "x < 2 ^ 63"
  obtains b1 b2 cs where "bs = 0xff # b1 # b2 # cs"
    "len = 8 \<Longrightarrow> uint b1 < 128 \<and> word_of_int (be_value bs) XOR kLengthToMask ! len = (word_of_int x :: 64 word)"
    "len = 9 \<Longrightarrow> 128 \<le> uint b1 \<and> uint b1 < 192 \<and>
       word_of_int (be_value (b1 # b2 # cs)) XOR kLengthToMask ! len = (word_of_int x :: 64 word)"
    "len = 10 \<Longrightarrow> b1 = 192 \<and> uint b2 < 128 \<and>
       word_of_int (be_value (b2 # cs)) XOR kLengthToMask ! len = (word_of_int x :: 64 word)"
proof -
  obtain b0 b1 b2 cs where bs: "bs = b0 # b1 # b2 # cs"
    using assms(1,3) by (cases bs; cases "tl bs"; cases "tl (tl bs)") auto
  have n: "length cs = len - 3" using assms(3) bs by simp
  note v0 = be_value_bounds [of "b1 # b2 # cs"] and v1 = be_value_bounds [of "b2 # cs"] and v2 = be_value_bounds [of cs]
  consider "len = 8" | "len = 9" | "len = 10" using assms(1,2) by linarith
  then show thesis
  proof cases
    case 1
    have "uint b0 * 256 ^ 7 + be_value (b1 # b2 # cs) = 255 * 256 ^ 7 + x"
      using assms(4) bs n 1 by (simp add: signed_header_def)
    then have "uint b0 = 255" "be_value (b1 # b2 # cs) = x"
      by (rule digit_unique; use v0 assms n 1 in simp)+
    moreover from this(2) have "uint b1 * 256 ^ 6 \<le> x" using v1 n 1 by simp
    then have "uint b1 < 128" using assms(6) 1 by simp
    moreover have "word_of_int (be_value bs) XOR kLengthToMask ! len = (word_of_int x :: 64 word)"
    proof -
      have "x < 2 ^ (7 * len)" using assms(6) 1 by simp
      then show ?thesis
        using mask_header [OF assms(5)] 1 unfolding assms(4) by (simp only: kLengthToMask_header)
    qed
    ultimately show thesis using 1 bs by (intro that) (simp_all add: word_uint_eq_iff)
  next
    case 2
    have "uint b0 * 256 ^ 8 + be_value (b1 # b2 # cs) = 255 * 256 ^ 8 + (128 * 256 ^ 7 + x)"
      using assms(4) bs n 2 by (simp add: signed_header_def)
    then have tail: "uint b0 = 255" "be_value (b1 # b2 # cs) = 128 * 256 ^ 7 + x"
      by (rule digit_unique; use v0 assms n 2 in simp)+
    have "uint b1 * 256 ^ 7 + be_value (b2 # cs) = 128 * 256 ^ 7 + x" using tail(2) n 2 by simp
    moreover have "be_value (b2 # cs) < 256 ^ 7" "0 \<le> be_value (b2 # cs)" "x < 64 * 256 ^ 7"
      using v1 n 2 assms(6) by simp_all
    ultimately have "128 * 256 ^ 7 < (uint b1 + 1) * 256 ^ 7" "uint b1 * 256 ^ 7 < 192 * 256 ^ 7"
      using assms(5) unfolding distrib_right by linarith+
    then have "128 \<le> uint b1" "uint b1 < 192" by simp_all
    moreover have "word_of_int (be_value (b1 # b2 # cs)) XOR kLengthToMask ! len = (word_of_int x :: 64 word)"
      unfolding tail(2) using mask_bits [of x 63 1, where 'a = 64] assms(5,7) 2 by (simp add: kLengthToMask_def)
    moreover have "b0 = 0xff" using tail(1) by (simp add: word_uint_eq_iff)
    ultimately show thesis using 2 bs by (intro that [of b1 b2 cs]) (simp_all del: be_value_simps)
  next
    case 3
    have "uint b0 * 256 ^ 9 + be_value (b1 # b2 # cs) = 255 * 256 ^ 9 + (192 * 256 ^ 8 + x)"
      using assms(4) bs n 3 by (simp add: signed_header_def)
    then have tail: "uint b0 = 255" "be_value (b1 # b2 # cs) = 192 * 256 ^ 8 + x"
      by (rule digit_unique; use v0 assms n 3 in simp)+
    have "uint b1 * 256 ^ 8 + be_value (b2 # cs) = 192 * 256 ^ 8 + x" using tail(2) n 3 by simp
    then have tail2: "uint b1 = 192" "be_value (b2 # cs) = x"
      by (rule digit_unique; use v1 assms n 3 in simp)+
    have "uint b2 * 256 ^ 7 \<le> x" using tail2(2) v2 n 3 by simp
    then have "uint b2 < 128" using assms(7) by simp
    moreover have "word_of_int (be_value (b2 # cs)) XOR kLengthToMask ! len = (word_of_int x :: 64 word)"
      unfolding tail2(2) 3 by (simp add: kLengthToMask_def)
    moreover have "b0 = 0xff" "b1 = 192" using tail(1) tail2(1) by (simp_all add: word_uint_eq_iff)
    ultimately show thesis using 3 bs by (intro that [of b1 b2 cs]) (simp_all del: be_value_simps)
  qed
qed

lemma ReadSigned_nonneg:
  assumes "0 \<le> sint num"
  shows "ReadSignedNumIncreasing (signed_bytes num @ rest) = Some (Some (rest, num))"
proof -
  define len where "len = signed_length num"
  define src where "src = signed_bytes num @ rest"
  note bounds = signed_length_bounds [OF assms, folded len_def]
  note enc = be_value_signed_bytes [OF assms, folded len_def]
  have x: "0 \<le> uint num" "uint num < 2 ^ 63" using nonneg_word [OF assms] by simp_all
  obtain b bs where bytes: "signed_bytes num = b # bs" "128 \<le> uint b" by (rule signed_bytes_first [OF assms])
  then have head: "src ! 0 = b" "src \<noteq> []" "\<not> b AND 0x80 = 0" by (simp_all add: src_def byte_sign)
  have word: "word_of_int (uint num) = num" by simp
  have "\<exists>v. signed_length_and_bits src 0 = Some (Some (len, v)) \<and> v XOR kLengthToMask ! len = num"
  proof (cases "len \<le> 7")
    case True
    have "uint b * 256 ^ (len - 1) + be_value bs = signed_header len + uint num"
      using enc bytes(1) by auto
    moreover have "be_value bs < 256 ^ (len - 1)" using be_value_bounds(2) [of bs] enc(1) bytes(1) by auto
    ultimately have first: "b \<noteq> 0xff" "Log2FloorNonZero (ucast (b XOR 0xff)) = Some (7 - int len)"
      using short_first_byte [OF bounds(1) True _ be_value_bounds(1) _ x(1) bounds(3)] by blast+
    have "fold shift_in (take len src) 0 = word_of_int (signed_header len + uint num)"
      using enc by (simp add: src_def fold_shift_in)
    moreover have "uint num < 2 ^ (7 * len)"
      using bounds(3) by (rule order_less_le_trans) (rule power_increasing, simp_all)
    ultimately have "fold shift_in (take len src) 0 XOR kLengthToMask ! len = num"
      using mask_header [OF x(1), where 'a = 64] bounds(1) True word by (simp only: kLengthToMask_header)
    then show ?thesis
      using first True enc(1) by (simp add: signed_length_and_bits_def head(1)) (simp add: src_def)
  next
    case False
    have eight: "8 \<le> len" using False by simp
    obtain b1 b2 cs where bs: "signed_bytes num = 0xff # b1 # b2 # cs"
      and c8: "len = 8 \<Longrightarrow> uint b1 < 128 \<and> word_of_int (be_value (signed_bytes num)) XOR kLengthToMask ! len = num"
      and c9: "len = 9 \<Longrightarrow> 128 \<le> uint b1 \<and> uint b1 < 192 \<and> word_of_int (be_value (b1 # b2 # cs)) XOR kLengthToMask ! len = num"
      and c10: "len = 10 \<Longrightarrow> b1 = 192 \<and> uint b2 < 128 \<and> word_of_int (be_value (b2 # cs)) XOR kLengthToMask ! len = num"
      by (rule long_first_bytes [OF eight bounds(2) enc x(1) bounds(3) x(2)]) (unfold word, blast)
    have n: "length cs = len - 3" using enc(1) bs by simp
    have src: "src = 0xff # b1 # b2 # cs @ rest" by (simp add: src_def bs)
    have load: "load_le (rev ys) = (word_of_int (be_value ys) :: 64 word)" for ys
      by (simp add: load_le_def be_value_def)
    consider "len = 8" | "len = 9" | "len = 10" using eight bounds(2) by linarith
    then show ?thesis
    proof cases
      case 1
      then show ?thesis using c8 n bs
        by (simp add: signed_length_and_bits_def src load word_le_def word_less_def del: be_value_simps rev.simps)
    next
      case 2
      then show ?thesis using c9 n
        by (simp add: signed_length_and_bits_def src load word_le_def word_less_def del: be_value_simps rev.simps)
    next
      case 3
      then show ?thesis using c10 n
        by (simp add: signed_length_and_bits_def src load word_le_def word_less_def del: be_value_simps rev.simps)
    qed
  qed
  then have "ReadSignedNumIncreasing src = Some (Some (drop len src, num))"
    using head SignedEncodingLength_nonneg [OF assms] by (auto simp: ReadSignedNumIncreasing_def len_def)
  then show ?thesis using enc(1) by (simp add: src_def)
qed

lemma load_le_NOT: "length bs = 8 \<Longrightarrow> load_le (map (\<lambda>b. NOT b) bs) = NOT (load_le bs :: 64 word)"
  by (rule bit_word_eqI) (auto simp: bit_load_le bit_simps)

lemma signed_length_and_bits_NOT:
  assumes "src \<noteq> []"
  shows "signed_length_and_bits (map (\<lambda>b. NOT b) src) (NOT xm) =
     map_option (map_option (\<lambda>(len, x). (len, NOT x))) (signed_length_and_bits src xm)"
proof -
  have flip: "NOT b XOR ucast (NOT xm) = b XOR ucast xm" for b :: byte
    by (rule bit_word_eqI) (auto simp: bit_simps)
  have finish: "load_le (rev (take 8 (drop (len - 8) (map (\<lambda>b. NOT b) src)))) =
      NOT (load_le (rev (take 8 (drop (len - 8) src))) :: 64 word)" if "len \<le> length src" "8 \<le> len" for len
    using that load_le_NOT [of "rev (take 8 (drop (len - 8) src))"] by (simp add: rev_map take_map drop_map)
  have nth: "i < length src \<Longrightarrow> map (\<lambda>b. NOT b) src ! i XOR ucast (NOT xm) = src ! i XOR ucast xm" for i
    using flip by simp
  have "0 < length src" using assms by simp
  show ?thesis
  proof (cases "src ! 0 XOR ucast xm = 0xff \<and> 8 \<le> length src")
    case True
    then show ?thesis
      using nth [OF \<open>0 < length src\<close>] nth [of 1] nth [of 2] finish [of 8] finish [of 9] finish [of 10]
      by (simp add: signed_length_and_bits_def Let_def del: nth_map take_all take_all_iff)
  next
    case False
    have shifted: "fold shift_in (take n (map (\<lambda>b. NOT b) src)) (NOT xm) = NOT (fold shift_in (take n src) xm)" for n
      by (simp only: take_map fold_shift_in_NOT)
    show ?thesis
    proof (cases "src ! 0 XOR ucast xm = 0xff")
      case True
      then show ?thesis
        using False nth [OF \<open>0 < length src\<close>] by (simp add: signed_length_and_bits_def del: nth_map)
    next
      case first: False
      then show ?thesis
        using nth [OF \<open>0 < length src\<close>] shifted
        by (cases "Log2FloorNonZero (ucast ((src ! 0 XOR ucast xm) XOR 0xff))")
          (simp_all add: signed_length_and_bits_def Let_def del: nth_map)
    qed
  qed
qed

lemma ReadSigned_NOT:
  "ReadSignedNumIncreasing (map (\<lambda>b. NOT b) src) =
     map_option (map_option (\<lambda>(rest, x). (map (\<lambda>b. NOT b) rest, NOT x))) (ReadSignedNumIncreasing src)"
proof (cases "src = []")
  case False
  define xm :: "64 word" where "xm = (if src ! 0 AND 0x80 = 0 then NOT 0 else 0)"
  have "uint (NOT (src ! 0)) < 128 \<longleftrightarrow> \<not> uint (src ! 0) < 128" by (auto simp: uint_NOT_byte)
  then have flip: "(if map (\<lambda>b. NOT b) src ! 0 AND 0x80 = 0 then NOT 0 else 0) = NOT xm"
    using False by (simp add: xm_def byte_sign)
  have x: "NOT v XOR m = NOT (v XOR m)" for v m :: "64 word"
    by (rule bit_word_eqI) (auto simp: bit_simps)
  show ?thesis
    unfolding ReadSignedNumIncreasing_def flip
    using False signed_length_and_bits_NOT [OF False, of xm]
    by (auto simp: xm_def [symmetric] x SignedEncodingLength_NOT drop_map Let_def split: option.split bind_split)
qed (simp add: ReadSignedNumIncreasing_def)

lemma ReadSignedNumIncreasing_ok: "ReadSignedNumIncreasing (signed_code num @ rest) = Some (Some (rest, num))"
proof (cases "0 \<le> sint num")
  case True
  then show ?thesis by (simp add: signed_code_def ReadSigned_nonneg)
next
  case False
  then have "0 \<le> sint (NOT num)" by (simp add: sint_NOT)
  then show ?thesis
    using ReadSigned_NOT [of "signed_bytes (NOT num) @ map (\<lambda>b. NOT b) rest"] False
    by (simp add: signed_code_def ReadSigned_nonneg)
qed

lemma ReadSignedNumDecreasing_ok:
  "ReadSignedNumDecreasing (map (\<lambda>b. NOT b) (signed_code num) @ rest) = Some (Some (rest, num))"
  using ReadSignedNumIncreasing_ok [of "NOT num" rest] by (simp add: ReadSignedNumDecreasing_def signed_code_NOT)

end
