(* ===== verification/OrderedItems.thy ===== *)
theory OrderedItems
  imports OrderedNumbers
begin

text \<open>
  What the ordered code promises (\<^verbatim>\<open>util/ordered_code.h\<close>): sequences of items compare as their
  encodings do, and every sequence is read back from its encoding, whatever follows it.
\<close>

section \<open>Doubles\<close>

lemma mag_value_strict_mono:
  assumes "m < n" shows "mag_value m < mag_value n"
proof -
  define e f where "e = m div 2 ^ 52" and "f = m mod 2 ^ 52"
  define g h where "g = n div 2 ^ 52" and "h = n mod 2 ^ 52"
  define B :: nat where "B = 2 ^ 52"
  have m: "m = e * B + f" "f < B" and n: "n = g * B + h" "h < B"
    by (simp_all add: e_def f_def g_def h_def B_def)
  have eg: "e \<le> g" using assms unfolding e_def g_def by (intro div_le_mono) simp
  have vm: "mag_value m = (if e = 0 then f else (B + f) * 2 ^ (e - 1))"
    and vn: "mag_value n = (if g = 0 then h else (B + h) * 2 ^ (g - 1))"
    by (auto simp: mag_value_def e_def f_def g_def h_def B_def div_eq_0_iff)
  show ?thesis
  proof (cases "e = g")
    case True
    then have "f < h" using assms m n by simp
    then show ?thesis using True by (simp add: vm vn)
  next
    case False
    then have g: "e < g" using eg by simp
    have "mag_value m < B * 2 ^ e"
    proof (cases "e = 0")
      case True
      then show ?thesis using vm m(2) by simp
    next
      case e: False
      have "(B + f) * 2 ^ (e - 1) < (B + B) * 2 ^ (e - 1)" using m by simp
      also have "(B + B) * 2 ^ (e - 1) = B * 2 ^ e" using e by (cases e) simp_all
      finally show ?thesis using e by (simp add: vm)
    qed
    also have "B * 2 ^ e \<le> (B + h) * 2 ^ (g - 1)"
      using g by (intro mult_le_mono power_increasing) auto
    finally show ?thesis using g by (simp add: vn)
  qed
qed

lemma dbl_negative_uint: "dbl_negative d \<longleftrightarrow> 2 ^ 63 \<le> uint d"
proof -
  have "dbl_negative d \<longleftrightarrow> int (2 ^ 63) \<le> int (unat d)" unfolding dbl_negative_def by (simp only: of_nat_le_iff)
  then show ?thesis by (simp only: uint_nat [symmetric] of_nat_power of_nat_numeral)
qed

lemma dbl_negative_sint: "dbl_negative d \<longleftrightarrow> sint d < 0"
  using uint_64 [of d] by (auto simp: dbl_negative_uint sint_uint_cases)

lemma sint_EncodeDouble:
  "sint (EncodeDoubleAsInt64 d) = (if dbl_negative d then - int (dbl_mag d) else int (dbl_mag d))"
proof -
  have u: "uint d = int (unat d)" by (simp only: uint_nat)
  have neg: "sint d < 0 \<longleftrightarrow> dbl_negative d" by (simp add: dbl_negative_sint)
  show ?thesis
  proof (cases "dbl_negative d")
    case True
    then have le: "2 ^ 63 \<le> unat d" by (simp add: dbl_negative_def)
    have lt: "unat d < 2 ^ 64" using unsigned_less [of d] by simp
    have mag: "dbl_mag d = unat d - 2 ^ 63"
      using le lt by (simp add: dbl_mag_def le_mod_geq)
    have "EncodeDoubleAsInt64 d = word_of_int (2 ^ 63 - uint d)"
      using True neg by (simp add: EncodeDoubleAsInt64_def)
    moreover have "sint (word_of_int (2 ^ 63 - uint d) :: 64 word) = 2 ^ 63 - uint d"
    proof -
      have "(2 :: int) ^ 64 = 2 * 2 ^ 63" by simp
      then show ?thesis using True uint_64 [of d] unfolding dbl_negative_uint by (intro sint_int64; linarith)
    qed
    ultimately show ?thesis using True le mag unfolding u by simp
  next
    case False
    then have "unat d < 2 ^ 63" by (simp add: dbl_negative_def)
    then have "dbl_mag d = unat d" by (simp add: dbl_mag_def)
    moreover have "sint d = uint d" using False by (simp add: dbl_negative_uint sint_uint_cases)
    moreover have "EncodeDoubleAsInt64 d = d" using False neg by (simp add: EncodeDoubleAsInt64_def)
    ultimately show ?thesis using False by (simp only: u if_False)
  qed
qed

lemma dbl_key_mags:
  "dbl_key x < dbl_key y \<longleftrightarrow>
     (if dbl_negative x then - int (dbl_mag x) else int (dbl_mag x)) <
     (if dbl_negative y then - int (dbl_mag y) else int (dbl_mag y))"
proof -
  have less: "mag_value m < mag_value n \<longleftrightarrow> m < n" for m n
    using mag_value_strict_mono [of m n] mag_value_strict_mono [of n m] by (cases m n rule: linorder_cases) auto
  have zero: "mag_value m = 0 \<longleftrightarrow> m = 0" for m
    using less [of 0 m] by (auto simp: mag_value_def)
  show ?thesis using less zero [of "dbl_mag x"] zero [of "dbl_mag y"] by (auto simp: dbl_key_def)
qed

lemma EncodeDouble_order: "sint (EncodeDoubleAsInt64 x) < sint (EncodeDoubleAsInt64 y) \<longleftrightarrow> dbl_key x < dbl_key y"
  by (simp only: sint_EncodeDouble dbl_key_mags)

lemma EncodeDouble_same: "dbl_key x = dbl_key y \<Longrightarrow> EncodeDoubleAsInt64 x = EncodeDoubleAsInt64 y"
  using EncodeDouble_order [of x y] EncodeDouble_order [of y x] by (metis less_irrefl linorder_cases signed_word_eqI)

definition dbl_minus_zero :: double where
  "dbl_minus_zero = 0x8000000000000000"

lemma DecodeDouble_Encode: "DecodeDoubleFromInt64 (EncodeDoubleAsInt64 d) = (if d = dbl_minus_zero then 0 else d)"
proof (cases "sint d < 0 \<and> d \<noteq> dbl_minus_zero")
  case True
  then have neg: "dbl_negative d" by (simp add: dbl_negative_sint)
  have "unat d \<noteq> unat dbl_minus_zero" using True word_unat_eq_iff [of d dbl_minus_zero] by blast
  moreover have "2 ^ 63 \<le> unat d" "unat d < 2 ^ 64"
    using neg unsigned_less [of d] by (simp_all add: dbl_negative_def)
  ultimately have "0 < dbl_mag d" by (simp add: dbl_mag_def dbl_minus_zero_def le_mod_geq)
  then have "sint (EncodeDoubleAsInt64 d) < 0" using neg by (simp add: sint_EncodeDouble)
  then show ?thesis using True by (simp add: DecodeDoubleFromInt64_def EncodeDoubleAsInt64_def)
next
  case False
  have zero: "sint dbl_minus_zero < 0" unfolding dbl_minus_zero_def by code_simp
  show ?thesis
  proof (cases "d = dbl_minus_zero")
    case True
    then have "EncodeDoubleAsInt64 d = 0" using zero by (simp add: EncodeDoubleAsInt64_def) (simp add: dbl_minus_zero_def)
    then show ?thesis using True by (simp add: DecodeDoubleFromInt64_def)
  next
    case False
    then show ?thesis
      using \<open>\<not> (sint d < 0 \<and> d \<noteq> dbl_minus_zero)\<close> by (simp add: DecodeDoubleFromInt64_def EncodeDoubleAsInt64_def)
  qed
qed

section \<open>Items\<close>

text \<open>
  An item and the direction of its encoding.  Strings and infinity share a kind: they are read
  by the same routine.
\<close>

datatype text_or_infinity = Text "byte list" | Infinity

datatype item =
    TextItem bool text_or_infinity
  | NumItem bool "64 word"
  | SignedItem bool "64 word"
  | DoubleItem bool double

fun write_item :: "byte list \<Rightarrow> item \<Rightarrow> byte list option" where
  "write_item dest (TextItem False (Text s)) = WriteString dest s"
| "write_item dest (TextItem True (Text s)) = WriteStringDecreasing dest s"
| "write_item dest (TextItem False Infinity) = Some (WriteInfinity dest)"
| "write_item dest (TextItem True Infinity) = Some (WriteInfinityDecreasing dest)"
| "write_item dest (NumItem False n) = Some (WriteNumIncreasing dest n)"
| "write_item dest (NumItem True n) = Some (WriteNumDecreasing dest n)"
| "write_item dest (SignedItem False n) = WriteSignedNumIncreasing dest n"
| "write_item dest (SignedItem True n) = WriteSignedNumDecreasing dest n"
| "write_item dest (DoubleItem False d) = WriteDoubleIncreasing dest d"
| "write_item dest (DoubleItem True d) = WriteDoubleDecreasing dest d"

fun write_items :: "byte list \<Rightarrow> item list \<Rightarrow> byte list option" where
  "write_items dest [] = Some dest"
| "write_items dest (i # is) = do { dest \<leftarrow> write_item dest i; write_items dest is }"

datatype item_kind = TextKind bool | NumKind bool | SignedKind bool | DoubleKind bool

fun kind_of :: "item \<Rightarrow> item_kind" where
  "kind_of (TextItem down t) = TextKind down"
| "kind_of (NumItem down n) = NumKind down"
| "kind_of (SignedItem down n) = SignedKind down"
| "kind_of (DoubleItem down d) = DoubleKind down"

fun text_compare :: "text_or_infinity \<Rightarrow> text_or_infinity \<Rightarrow> ComparisonResult" where
  "text_compare (Text s) (Text t) = DefaultCompare s t"
| "text_compare (Text s) Infinity = Ascending"
| "text_compare Infinity (Text t) = Descending"
| "text_compare Infinity Infinity = Same"

definition directed :: "bool \<Rightarrow> ComparisonResult \<Rightarrow> ComparisonResult" where
  "directed down r = (if down then ReverseOrder r else r)"

text \<open>Comparing two items of one kind.\<close>

fun item_compare :: "item \<Rightarrow> item \<Rightarrow> ComparisonResult" where
  "item_compare (TextItem down s) (TextItem _ t) = directed down (text_compare s t)"
| "item_compare (NumItem down m) (NumItem _ n) = directed down (DefaultCompare m n)"
| "item_compare (SignedItem down m) (SignedItem _ n) = directed down (DefaultCompare (sint m) (sint n))"
| "item_compare (DoubleItem down d) (DoubleItem _ e) = directed down (CompareDouble d e)"
| "item_compare _ _ = Same"

fun item_ok :: "item \<Rightarrow> bool" where
  "item_ok (DoubleItem down d) \<longleftrightarrow> \<not> isnan d"
| "item_ok _ \<longleftrightarrow> True"

text \<open>Two sequences have items of the same kinds up to the first items that differ.\<close>

fun same_kinds :: "item list \<Rightarrow> item list \<Rightarrow> bool" where
  "same_kinds [] B \<longleftrightarrow> True"
| "same_kinds (i # is) [] \<longleftrightarrow> True"
| "same_kinds (i # is) (j # js) \<longleftrightarrow> kind_of i = kind_of j \<and> (item_compare i j = Same \<longrightarrow> same_kinds is js)"

section \<open>The encoding of an item\<close>

fun text_bytes :: "text_or_infinity \<Rightarrow> byte list" where
  "text_bytes (Text s) = escaped s"
| "text_bytes Infinity = [0xff, 0xff]"

definition flip_bytes :: "bool \<Rightarrow> byte list \<Rightarrow> byte list" where
  "flip_bytes down bs = (if down then map (\<lambda>b. NOT b) bs else bs)"

fun item_bytes :: "item \<Rightarrow> byte list" where
  "item_bytes (TextItem down t) = flip_bytes down (text_bytes t)"
| "item_bytes (NumItem down n) = flip_bytes down (num_bytes n)"
| "item_bytes (SignedItem down n) = flip_bytes down (signed_code n)"
| "item_bytes (DoubleItem down d) = flip_bytes down (signed_code (EncodeDoubleAsInt64 d))"

lemma write_item_ok: "write_item dest i = Some (dest @ item_bytes i)"
  by (induction dest i rule: write_item.induct)
    (simp_all add: flip_bytes_def WriteString_ok WriteStringDecreasing_ok WriteNumIncreasing_ok WriteNumDecreasing_ok
      WriteSignedNumIncreasing_ok WriteSignedNumDecreasing_ok WriteDoubleIncreasing_def WriteDoubleDecreasing_def
      WriteInfinity_def WriteInfinityDecreasing_def kEscape2_def kInfinity_def)

lemma write_items_ok: "write_items dest is = Some (dest @ concat (map item_bytes is))"
  by (induction "is" arbitrary: dest) (simp_all add: write_item_ok)

lemma text_bytes_less: "text_compare s t = Ascending \<Longrightarrow> strictly_before (text_bytes s) (text_bytes t)"
  by (cases s; cases t) (simp_all add: DefaultCompare_simps escaped_less escaped_below_infinity)

lemma text_compare_swap: "text_compare t s = ReverseOrder (text_compare s t)"
  by (cases s; cases t) (auto simp: DefaultCompare_def)

lemma text_compare_Same: "text_compare s t = Same \<Longrightarrow> s = t"
  by (cases s; cases t) simp_all

lemma flip_bytes_less:
  assumes "strictly_before p q"
  shows "strictly_before (flip_bytes False p) (flip_bytes False q)" "strictly_before (flip_bytes True q) (flip_bytes True p)"
  using assms by (simp_all add: flip_bytes_def strictly_before_NOT)

lemma CompareDouble_key: "\<not> isnan d \<Longrightarrow> \<not> isnan e \<Longrightarrow> CompareDouble d e = DefaultCompare (dbl_key d) (dbl_key e)"
  by (simp add: CompareDouble_nan_key nan_key_def)

lemma item_bytes_less:
  assumes "kind_of i = kind_of j" "item_ok i" "item_ok j" "item_compare i j = Ascending"
  shows "strictly_before (item_bytes i) (item_bytes j)"
proof (cases i)
  case (TextItem down s)
  then obtain t where "j = TextItem down t" using assms(1) by (cases j) auto
  then show ?thesis
    using TextItem assms(4) text_bytes_less [of s t] text_bytes_less [of t s] text_compare_swap [of s t]
    by (cases down) (auto simp: directed_def intro: flip_bytes_less)
next
  case (NumItem down m)
  then obtain n where "j = NumItem down n" using assms(1) by (cases j) auto
  then show ?thesis
    using NumItem assms(4) num_bytes_less [of m n] num_bytes_less [of n m]
    by (cases down) (auto simp: directed_def DefaultCompare_simps intro: flip_bytes_less)
next
  case (SignedItem down m)
  then obtain n where "j = SignedItem down n" using assms(1) by (cases j) auto
  then show ?thesis
    using SignedItem assms(4) signed_code_less [of m n] signed_code_less [of n m]
    by (cases down) (auto simp: directed_def DefaultCompare_simps intro: flip_bytes_less)
next
  case (DoubleItem down d)
  then obtain e where "j = DoubleItem down e" using assms(1) by (cases j) auto
  then show ?thesis
    using DoubleItem assms(2-4) signed_code_less EncodeDouble_order
    by (cases down) (auto simp: directed_def CompareDouble_key DefaultCompare_simps intro: flip_bytes_less)
qed

lemma item_bytes_same:
  assumes "kind_of i = kind_of j" "item_ok i" "item_ok j" "item_compare i j = Same"
  shows "item_bytes i = item_bytes j"
  using assms by (cases i; cases j)
    (auto simp: directed_def CompareDouble_key dest: text_compare_Same EncodeDouble_same signed_word_eqI split: if_splits)

lemma directed_swap: "r = ReverseOrder q \<Longrightarrow> directed down r = ReverseOrder (directed down q)"
  by (simp add: directed_def)

lemma DefaultCompare_swap: "DefaultCompare (y :: 'a::linorder) x = ReverseOrder (DefaultCompare x y)"
  by (rule comparator.cmp_swap [OF comparator_DefaultCompare])

lemma item_compare_swap:
  "kind_of i = kind_of j \<Longrightarrow> item_ok i \<Longrightarrow> item_ok j \<Longrightarrow> item_compare j i = ReverseOrder (item_compare i j)"
  by (cases i; cases j) (auto simp: CompareDouble_key intro!: directed_swap text_compare_swap DefaultCompare_swap)

lemma signed_code_not_empty [simp]: "signed_code n \<noteq> []"
proof (cases "0 \<le> sint n")
  case True
  obtain b bs where "signed_bytes n = b # bs" by (rule signed_bytes_first [OF True])
  then show ?thesis using True by (simp add: signed_code_def)
next
  case False
  then have "0 \<le> sint (NOT n)" by (simp add: sint_NOT)
  then obtain b bs where "signed_bytes (NOT n) = b # bs" by (rule signed_bytes_first)
  then show ?thesis using False by (simp add: signed_code_def)
qed

lemma text_bytes_not_empty [simp]: "text_bytes t \<noteq> []"
  by (cases t) (simp_all add: escaped_def)

lemma item_bytes_not_empty [simp]: "item_bytes i \<noteq> []"
  by (cases i) (simp_all add: flip_bytes_def num_bytes_def)

lemma Nil_less_iff [simp]: "[] < (p :: byte list) \<longleftrightarrow> p \<noteq> []"
  by (cases p) simp_all

lemma append_less_same [simp]: "c @ p < c @ q \<longleftrightarrow> p < (q :: byte list)"
  by (induction c) auto

lemma DefaultCompare_append_same [simp]: "DefaultCompare (c @ p) (c @ q) = DefaultCompare p (q :: byte list)"
  by (simp add: DefaultCompare_def)

lemma items_order:
  assumes "same_kinds A B" "list_all item_ok A" "list_all item_ok B"
  shows "DefaultCompare (concat (map item_bytes A) :: byte list) (concat (map item_bytes B)) = CompareContainer item_compare A B"
  using assms
proof (induction A B rule: same_kinds.induct)
  case (1 B)
  then show ?case by (cases B) (simp_all add: DefaultCompare_def)
next
  case (2 i "is")
  then show ?case by (simp add: DefaultCompare_def)
next
  case (3 i "is" j js)
  then have k: "kind_of i = kind_of j" "item_ok i" "item_ok j" by simp_all
  show ?case
  proof (cases "item_compare i j")
    case Ascending
    then show ?thesis
      using strictly_before_less [OF item_bytes_less [OF k]] by (simp add: DefaultCompare_def)
  next
    case Same
    then show ?thesis using item_bytes_same [OF k] 3 by simp
  next
    case Descending
    then have "item_compare j i = Ascending" using item_compare_swap [OF k] by simp
    then show ?thesis
      using strictly_before_less [OF item_bytes_less, of j i] k Descending
      by (simp add: DefaultCompare_def order_less_not_sym)
  qed
qed

section \<open>Reading items\<close>

definition read_text :: "bool \<Rightarrow> byte list \<Rightarrow> (byte list \<times> item) option option" where
  "read_text down src =
     map_option (map_option (\<lambda>(rest, s, inf). (rest, TextItem down (if inf then Infinity else Text s))))
       (ReadStringOrInfinityInternal down src [])"

fun read_item :: "item_kind \<Rightarrow> byte list \<Rightarrow> (byte list \<times> item) option option" where
  "read_item (TextKind down) src = read_text down src"
| "read_item (NumKind down) src =
     map_option (map_option (\<lambda>(rest, n). (rest, NumItem down n)))
       (if down then ReadNumDecreasing src else ReadNumIncreasing src)"
| "read_item (SignedKind down) src =
     map_option (map_option (\<lambda>(rest, n). (rest, SignedItem down n)))
       (if down then ReadSignedNumDecreasing src else ReadSignedNumIncreasing src)"
| "read_item (DoubleKind down) src =
     map_option (map_option (\<lambda>(rest, d). (rest, DoubleItem down d)))
       (if down then ReadDoubleDecreasing src else ReadDoubleIncreasing src)"

fun read_items :: "item_kind list \<Rightarrow> byte list \<Rightarrow> (byte list \<times> item list) option option" where
  "read_items [] src = Some (Some (src, []))"
| "read_items (k # ks) src =
     do {
       r \<leftarrow> read_item k src;
       case r of
         None \<Rightarrow> Some None
       | Some (rest, i) \<Rightarrow> map_option (map_option (\<lambda>(rest, is). (rest, i # is))) (read_items ks rest)
     }"

text \<open>Negative zero is read back as zero.\<close>

fun normal_item :: "item \<Rightarrow> item" where
  "normal_item (DoubleItem down d) = DoubleItem down (if d = dbl_minus_zero then 0 else d)"
| "normal_item i = i"

lemma ReadString_escaped:
  "ReadStringInternal invert (flip_bytes invert (escaped s) @ rest) result = Some (Some (rest, result @ s))"
proof -
  have "map (Convert invert) (flip_bytes invert (escaped s) @ rest) = escaped s @ map (Convert invert) rest"
    by (cases invert) (simp_all add: flip_bytes_def)
  then show ?thesis by (simp add: ReadStringInternal_ok unescape_escaped)
qed

lemma escaped_not_infinity:
  "ReadInfinityInternal invert (flip_bytes invert (escaped s) @ rest) = None"
proof -
  obtain x y zs where e: "escaped s = x # y # zs" "\<not> (x = 0xff \<and> y = 0xff)"
  proof (cases s)
    case (Cons b t)
    obtain z zs where "escaped t = z # zs" by (cases "escaped t") (simp_all add: escaped_def)
    then show thesis
      using that by (cases "IsSpecialByte b") (auto simp: Cons escaped_Cons escape_byte_def special_byte_cases byte_all_ones)
  qed (simp add: escaped_Nil)
  then show ?thesis
    by (cases invert) (auto simp: flip_bytes_def ReadInfinityInternal_def kEscape2_def kInfinity_def word_uint_eq_iff uint_NOT_byte)
qed

lemma read_text_ok: "read_text down (flip_bytes down (text_bytes t) @ rest) = Some (Some (rest, TextItem down t))"
proof (cases t)
  case (Text s)
  then show ?thesis
    using escaped_not_infinity ReadString_escaped [of down s rest "[]"]
    by (cases down) (simp_all add: read_text_def ReadStringOrInfinityInternal_def ReadString_def ReadStringDecreasing_def)
next
  case Infinity
  then have "ReadInfinityInternal down (flip_bytes down (text_bytes t) @ rest) = Some rest"
    by (cases down) (simp_all add: flip_bytes_def ReadInfinityInternal_def kEscape2_def kInfinity_def)
  then show ?thesis using Infinity by (simp add: read_text_def ReadStringOrInfinityInternal_def)
qed

lemma read_item_ok: "read_item (kind_of i) (item_bytes i @ rest) = Some (Some (rest, normal_item i))"
proof (cases i)
  case (TextItem down t)
  then show ?thesis by (simp add: read_text_ok)
qed (simp_all add: flip_bytes_def ReadNumIncreasing_ok ReadNumDecreasing_ok ReadSignedNumIncreasing_ok
    ReadSignedNumDecreasing_ok ReadDoubleIncreasing_def ReadDoubleDecreasing_def DecodeDouble_Encode)

lemma read_items_ok:
  "read_items (map kind_of is) (concat (map item_bytes is) @ rest) = Some (Some (rest, map normal_item is))"
  by (induction "is") (simp_all add: read_item_ok)

section \<open>Properties\<close>

text \<open>C10: Encoding two sequences of items never fails, and comparing the encodings byte by
  byte gives the comparison of the sequences item by item, in the direction of each item; a sequence that
  extends the other has the longer encoding.  The sequences must have items of the same kinds up to the first
  items that differ, and doubles that are numbers, not NaN.\<close>

theorem ordered_code_order:
  assumes "same_kinds A B" "list_all item_ok A" "list_all item_ok B"
  shows "\<exists>p q. write_items [] A = Some p \<and> write_items [] B = Some q \<and>
    DefaultCompare p q = CompareContainer item_compare A B"
  using items_order [OF assms] by (simp add: write_items_ok)

lemma ordered_code_order_witness:
  "\<exists>p q. write_items [] [TextItem False (Text [0, 0xff]), SignedItem True (- 3)] = Some p \<and>
     write_items [] [TextItem False (Text [0, 0xff]), SignedItem True 64, NumItem False 5] = Some q \<and>
     DefaultCompare p q = Descending"
proof -
  let ?A = "[TextItem False (Text [0, 0xff]), SignedItem True (- 3)]"
  let ?B = "[TextItem False (Text [0, 0xff]), SignedItem True 64, NumItem False 5]"
  have "CompareContainer item_compare ?A ?B = Descending"
    by (simp add: directed_def DefaultCompare_def)
  then show ?thesis using ordered_code_order [of ?A ?B] by simp
qed

text \<open>C14: Every sequence of strings, infinities, numbers and doubles, in any mixture of directions, is read back
  from its encoding, and what follows the encoding is left; only negative zero comes back as zero.\<close>

theorem ordered_code_round_trip:
  "\<exists>bytes. write_items dest items = Some (dest @ bytes) \<and>
     (\<forall>rest. read_items (map kind_of items) (bytes @ rest) = Some (Some (rest, map normal_item items)))"
  by (simp add: write_items_ok read_items_ok)

text \<open>C38: The search that tests eight bytes at a time never fails an assertion and finds the first byte that is
  0 or 255.\<close>

theorem special_byte_search:
  "SkipToNextSpecialByte p = Some (length (takeWhile (\<lambda>b. b \<noteq> 0 \<and> b \<noteq> 0xff) p))"
proof -
  have "scan_special p = length (takeWhile (\<lambda>b. b \<noteq> 0 \<and> b \<noteq> 0xff) p)"
    by (induction p) (simp_all add: special_byte_cases)
  then show ?thesis by (simp add: skip_to_next_special_byte)
qed

lemma scast_byte_zero: "(scast (b :: byte) :: 64 word) = 0 \<longleftrightarrow> b = 0"
proof -
  have "\<forall>u \<in> set [0..255]. (scast (word_of_int u :: byte) :: 64 word) = 0 \<longleftrightarrow> (word_of_int u :: byte) = 0" by code_simp
  then have "(scast (word_of_int (uint b) :: byte) :: 64 word) = 0 \<longleftrightarrow> (word_of_int (uint b) :: byte) = 0"
    by (rule bspec) (use uint_byte [of b] in simp)
  then show ?thesis by simp
qed

lemma overlong_signed_number:
  assumes "uint b < 64"
  shows "ReadSignedNumIncreasing (0xc0 # b # rest) = None"
proof -
  have top: "(0xc0 :: byte) AND 0x80 \<noteq> 0" "Log2FloorNonZero (ucast ((0xc0 :: byte) XOR 0xff)) = Some 5" by code_simp+
  have "signed_length_and_bits (0xc0 # b # rest) 0 = Some (Some (2, word_of_int (0xc000 + uint b)))"
  proof -
    have two: "take 2 (0xc0 # b # rest) = [0xc0, b]" by (simp add: numeral_2_eq_2)
    have "fold shift_in [0xc0, b] 0 = (word_of_int (0xc000 + uint b) :: 64 word)"
      unfolding fold_shift_in by simp
    then have "fold shift_in (take 2 (0xc0 # b # rest)) 0 = (word_of_int (0xc000 + uint b) :: 64 word)"
      by (simp only: two)
    then show ?thesis using top(2) by (simp add: signed_length_and_bits_def Let_def)
  qed
  moreover have "word_of_int (0xc000 + uint b) XOR kLengthToMask ! 2 = (word_of_int (uint b) :: 64 word)"
    using mask_header [of "uint b" 2, where 'a = 64] assms by (simp add: kLengthToMask_def signed_header_def)
  moreover have "SignedEncodingLength (word_of_int (uint b)) = 1"
  proof -
    have u: "uint (word_of_int (uint b) :: 64 word) = uint b"
      using assms uint_byte [of b] by (simp add: unsigned_ucast_eq take_bit_eq_mod mod_pos_pos_trivial)
    then have "0 \<le> sint (word_of_int (uint b) :: 64 word)" using assms uint_byte [of b] by (simp add: sint_uint_cases)
    moreover have "(word_of_int (uint b) :: 64 word) < 64" using u assms by (simp add: word_less_def)
    ultimately show ?thesis using SignedEncodingLength_nonneg signed_length_1 by metis
  qed
  ultimately show ?thesis
    using top(1) by (simp add: ReadSignedNumIncreasing_def)
qed

lemma ReadNumIncreasing_None:
  "ReadNumIncreasing src = None \<longleftrightarrow> 2 \<le> length src \<and> src ! 0 \<noteq> 0 \<and> src ! 1 = 0"
proof (cases src)
  case (Cons c cs)
  then show ?thesis by (cases cs) (simp_all add: ReadNumIncreasing_def Let_def scast_byte_zero)
qed (simp add: ReadNumIncreasing_def)

text \<open>The readers of numbers fail an assertion, instead of answering false, on an encoding that is not the
  shortest one of its number: an unsigned number exactly when bytes follow a length that is not 0 and the
  first of them is 0, a signed number when two bytes hold a number below 64.\<close>

theorem overlong_number_aborts:
  assumes "uint b < 64"
  shows "ReadSignedNumIncreasing (0xc0 # b # rest) = None \<and>
    (ReadNumIncreasing src = None \<longleftrightarrow> 2 \<le> length src \<and> src ! 0 \<noteq> 0 \<and> src ! 1 = 0)"
  using overlong_signed_number [OF assms] ReadNumIncreasing_None by blast

lemma overlong_number_aborts_witness: "ReadSignedNumIncreasing [0xc0, 5, 7] = None"
  using overlong_number_aborts [of 5 "[7]"] by simp

end
