(* ===== verification/LevelDbCodec.thy ===== *)
theory LevelDbCodec
  imports OrderedItems Paths
begin

text \<open>
  The reader and the writer behind the keys of the persistent store (the anonymous namespace of
  \<^verbatim>\<open>local/leveldb_key.cc\<close>).  A key is a sequence of labelled components in ordered code.
  None stands for a failed assertion; a \<^verbatim>\<open>Reader\<close> that has failed is a value.  Strings of the
  program are strings here, and lists of bytes in keys.
\<close>

section \<open>Strings and bytes\<close>

definition bytes_of :: "string \<Rightarrow> byte list" where
  "bytes_of s = map (\<lambda>c. word_of_nat (of_char c)) s"

definition string_of :: "byte list \<Rightarrow> string" where
  "string_of bs = map (\<lambda>b. char_of (unat b)) bs"

lemma unat_char_byte [simp]: "unat (word_of_nat (of_char c) :: byte) = of_char c"
  by (simp add: unat_of_nat take_bit_eq_mod)

lemma string_of_bytes_of [simp]: "string_of (bytes_of s) = s"
  by (simp add: string_of_def bytes_of_def comp_def)

lemma bytes_of_string_of [simp]: "bytes_of (string_of bs) = bs"
proof -
  have "unat b mod 256 = unat b" for b :: byte using unsigned_less [of b, where 'a = nat] by simp
  then have "word_of_nat (of_char (char_of (unat b) :: char)) = b" for b :: byte by (simp add: of_char_of)
  then show ?thesis by (simp add: string_of_def bytes_of_def comp_def)
qed

lemma bytes_of_inject [simp]: "bytes_of s = bytes_of t \<longleftrightarrow> s = t"
  by (metis string_of_bytes_of)

lemma bytes_of_order: "DefaultCompare (bytes_of s) (bytes_of t) = CompareContainer (\<lambda>c d. DefaultCompare (of_char c :: nat) (of_char d)) s t"
proof (induction "\<lambda>c d. DefaultCompare (of_char c :: nat) (of_char d)" s t rule: CompareContainer.induct)
  case (4 c cs d ds)
  have "(word_of_nat (of_char c) :: byte) < word_of_nat (of_char d) \<longleftrightarrow> (of_char c :: nat) < of_char d" for c d
    by (simp add: word_less_nat_alt)
  then show ?case using 4 by (auto simp: bytes_of_def DefaultCompare_def word_unat_eq_iff)
qed (simp_all add: bytes_of_def DefaultCompare_def)

section \<open>Component labels\<close>

datatype ComponentLabel =
    Terminator | TableName | BatchId | CanonicalId | TargetId | UserId | CollectionId | DocumentId | SnapshotVersion
  | BundleId | QueryName | IndexId | IndexArrayValue | IndexDirectionalValue | CollectionGroup | SequenceNumber
  | OrderedDocumentKey | DataMigrationName | GlobalName | PathSegment | Unknown

fun label_value :: "ComponentLabel \<Rightarrow> 64 word" where
  "label_value Terminator = 0"
| "label_value TableName = 5"
| "label_value BatchId = 10"
| "label_value CanonicalId = 11"
| "label_value TargetId = 12"
| "label_value UserId = 13"
| "label_value CollectionId = 14"
| "label_value DocumentId = 15"
| "label_value SnapshotVersion = 16"
| "label_value BundleId = 17"
| "label_value QueryName = 18"
| "label_value IndexId = 19"
| "label_value IndexArrayValue = 20"
| "label_value IndexDirectionalValue = 21"
| "label_value CollectionGroup = 22"
| "label_value SequenceNumber = 23"
| "label_value OrderedDocumentKey = 24"
| "label_value DataMigrationName = 25"
| "label_value GlobalName = 26"
| "label_value PathSegment = 62"
| "label_value Unknown = 63"

lemma label_value_inject [simp]: "label_value l = label_value m \<longleftrightarrow> l = m"
  by (cases l; cases m) simp_all

section \<open>The writer\<close>

definition WriteComponentLabel :: "ComponentLabel \<Rightarrow> byte list \<Rightarrow> byte list option" where
  "WriteComponentLabel label dest = WriteSignedNumIncreasing dest (label_value label)"

definition WriteLabeledInt32 :: "ComponentLabel \<Rightarrow> 32 word \<Rightarrow> byte list \<Rightarrow> byte list option" where
  "WriteLabeledInt32 label value dest =
     do { dest \<leftarrow> WriteComponentLabel label dest; WriteSignedNumIncreasing dest (scast value) }"

definition WriteLabeledInt64 :: "ComponentLabel \<Rightarrow> 64 word \<Rightarrow> byte list \<Rightarrow> byte list option" where
  "WriteLabeledInt64 label value dest =
     do { dest \<leftarrow> WriteComponentLabel label dest; WriteSignedNumIncreasing dest value }"

definition WriteLabeledString :: "ComponentLabel \<Rightarrow> string \<Rightarrow> byte list \<Rightarrow> byte list option" where
  "WriteLabeledString label value dest =
     do { dest \<leftarrow> WriteComponentLabel label dest; WriteString dest (bytes_of value) }"

definition WriteTerminator :: "byte list \<Rightarrow> byte list option" where
  "WriteTerminator dest = WriteSignedNumIncreasing dest (label_value Terminator)"

definition WriteTableName :: "string \<Rightarrow> byte list \<Rightarrow> byte list option" where
  "WriteTableName = WriteLabeledString TableName"

definition WriteGlobalName :: "string \<Rightarrow> byte list \<Rightarrow> byte list option" where
  "WriteGlobalName = WriteLabeledString GlobalName"

definition WriteBatchId :: "32 word \<Rightarrow> byte list \<Rightarrow> byte list option" where
  "WriteBatchId = WriteLabeledInt32 BatchId"

definition WriteCanonicalId :: "string \<Rightarrow> byte list \<Rightarrow> byte list option" where
  "WriteCanonicalId = WriteLabeledString CanonicalId"

definition WriteTargetId :: "32 word \<Rightarrow> byte list \<Rightarrow> byte list option" where
  "WriteTargetId = WriteLabeledInt32 TargetId"

definition WriteUserId :: "string \<Rightarrow> byte list \<Rightarrow> byte list option" where
  "WriteUserId = WriteLabeledString UserId"

definition WriteCollectionId :: "string \<Rightarrow> byte list \<Rightarrow> byte list option" where
  "WriteCollectionId = WriteLabeledString CollectionId"

definition WriteDocumentId :: "string \<Rightarrow> byte list \<Rightarrow> byte list option" where
  "WriteDocumentId = WriteLabeledString DocumentId"

definition WriteOrderedDocumentKey :: "string \<Rightarrow> byte list \<Rightarrow> byte list option" where
  "WriteOrderedDocumentKey = WriteLabeledString OrderedDocumentKey"

definition WriteSnapshotVersion :: "Timestamp \<Rightarrow> byte list \<Rightarrow> byte list option" where
  "WriteSnapshotVersion snapshot_version dest =
     do {
       dest \<leftarrow> WriteComponentLabel SnapshotVersion dest;
       dest \<leftarrow> WriteSignedNumIncreasing dest (seconds snapshot_version);
       WriteSignedNumIncreasing dest (scast (nanos snapshot_version))
     }"

definition WriteBundleId :: "string \<Rightarrow> byte list \<Rightarrow> byte list option" where
  "WriteBundleId = WriteLabeledString BundleId"

definition WriteQueryName :: "string \<Rightarrow> byte list \<Rightarrow> byte list option" where
  "WriteQueryName = WriteLabeledString QueryName"

fun WriteResourcePath :: "path \<Rightarrow> byte list \<Rightarrow> byte list option" where
  "WriteResourcePath [] dest = Some dest"
| "WriteResourcePath (segment # segments) dest =
     do {
       dest \<leftarrow> WriteComponentLabel PathSegment dest;
       dest \<leftarrow> WriteString dest (bytes_of segment);
       WriteResourcePath segments dest
     }"

definition WriteIndexId :: "32 word \<Rightarrow> byte list \<Rightarrow> byte list option" where
  "WriteIndexId = WriteLabeledInt32 IndexId"

definition WriteCollectionGroup :: "string \<Rightarrow> byte list \<Rightarrow> byte list option" where
  "WriteCollectionGroup = WriteLabeledString CollectionGroup"

definition WriteIndexArrayValue :: "string \<Rightarrow> byte list \<Rightarrow> byte list option" where
  "WriteIndexArrayValue = WriteLabeledString IndexArrayValue"

definition WriteIndexDirectionalValue :: "string \<Rightarrow> byte list \<Rightarrow> byte list option" where
  "WriteIndexDirectionalValue = WriteLabeledString IndexDirectionalValue"

definition WriteSequenceNumber :: "64 word \<Rightarrow> byte list \<Rightarrow> byte list option" where
  "WriteSequenceNumber = WriteLabeledInt64 SequenceNumber"

definition WriteDataMigrationName :: "string \<Rightarrow> byte list \<Rightarrow> byte list option" where
  "WriteDataMigrationName = WriteLabeledString DataMigrationName"

section \<open>The reader\<close>

record Reader =
  reader_src :: "byte list"
  reader_ok :: bool

definition Reader_new :: "byte list \<Rightarrow> Reader" where
  "Reader_new src = \<lparr>reader_src = src, reader_ok = True\<rparr>"

definition reader_empty :: "Reader \<Rightarrow> bool" where
  "reader_empty r \<longleftrightarrow> \<not> reader_ok r \<or> reader_src r = []"

definition Fail :: "Reader \<Rightarrow> Reader" where
  "Fail r = r\<lparr>reader_ok := False\<rparr>"

definition Reader_ReadSignedNumIncreasing :: "Reader \<Rightarrow> (64 word \<times> Reader) option" where
  "Reader_ReadSignedNumIncreasing r =
     (if reader_ok r
      then do {
        result \<leftarrow> ReadSignedNumIncreasing (reader_src r);
        Some (case result of Some (tmp, result) \<Rightarrow> (result, r\<lparr>reader_src := tmp\<rparr>) | None \<Rightarrow> (0, Fail r))
      }
      else Some (0, Fail r))"

definition Reader_ReadString :: "Reader \<Rightarrow> (string \<times> Reader) option" where
  "Reader_ReadString r =
     (if reader_ok r
      then do {
        result \<leftarrow> ReadString (reader_src r) [];
        Some (case result of Some (tmp, result) \<Rightarrow> (string_of result, r\<lparr>reader_src := tmp\<rparr>) | None \<Rightarrow> ('''', Fail r))
      }
      else Some ('''', Fail r))"

text \<open>A label that is read need not be one of the enumeration.\<close>

definition ReadComponentLabel :: "Reader \<Rightarrow> (64 word \<times> Reader) option" where
  "ReadComponentLabel r =
     (if reader_ok r
      then do {
        (raw_result, r) \<leftarrow> Reader_ReadSignedNumIncreasing r;
        Some (if reader_ok r \<and> sint raw_result \<ge> sint (label_value Terminator) \<and> sint raw_result \<le> sint (label_value Unknown)
              then (raw_result, r) else (label_value Unknown, Fail r))
      }
      else Some (label_value Unknown, Fail r))"

definition ReadComponentLabelMatching :: "ComponentLabel \<Rightarrow> Reader \<Rightarrow> (bool \<times> Reader) option" where
  "ReadComponentLabelMatching expected_label r =
     (if reader_ok r
      then do {
        (raw_result, r) \<leftarrow> Reader_ReadSignedNumIncreasing r;
        Some (if reader_ok r then (raw_result = label_value expected_label, r) else (False, Fail r))
      }
      else Some (False, Fail r))"

definition ReadInt32 :: "Reader \<Rightarrow> (32 word \<times> Reader) option" where
  "ReadInt32 r =
     (if reader_ok r
      then do {
        (raw_result, r) \<leftarrow> Reader_ReadSignedNumIncreasing r;
        Some (if reader_ok r \<and> sint raw_result \<ge> - (2 ^ 31) \<and> sint raw_result \<le> 2 ^ 31 - 1
              then (ucast raw_result, r) else (0, Fail r))
      }
      else Some (0, Fail r))"

definition ReadInt64 :: "Reader \<Rightarrow> (64 word \<times> Reader) option" where
  "ReadInt64 = Reader_ReadSignedNumIncreasing"

definition ReadLabeledInt32 :: "ComponentLabel \<Rightarrow> Reader \<Rightarrow> (32 word \<times> Reader) option" where
  "ReadLabeledInt32 expected_label r =
     do {
       (matching, r) \<leftarrow> ReadComponentLabelMatching expected_label r;
       ReadInt32 (if matching then r else Fail r)
     }"

definition ReadLabeledInt64 :: "ComponentLabel \<Rightarrow> Reader \<Rightarrow> (64 word \<times> Reader) option" where
  "ReadLabeledInt64 expected_label r =
     do {
       (matching, r) \<leftarrow> ReadComponentLabelMatching expected_label r;
       ReadInt64 (if matching then r else Fail r)
     }"

definition ReadLabeledString :: "ComponentLabel \<Rightarrow> Reader \<Rightarrow> (string \<times> Reader) option" where
  "ReadLabeledString expected_label r =
     do {
       (matching, r) \<leftarrow> ReadComponentLabelMatching expected_label r;
       Reader_ReadString (if matching then r else Fail r)
     }"

definition ReadLabeledStringMatching :: "ComponentLabel \<Rightarrow> string \<Rightarrow> Reader \<Rightarrow> (bool \<times> Reader) option" where
  "ReadLabeledStringMatching expected_label expected_value r =
     do {
       (value, r) \<leftarrow> ReadLabeledString expected_label r;
       Some (if reader_ok r then (value = expected_value, r) else (False, Fail r))
     }"

definition ReadTableNameMatching :: "string \<Rightarrow> Reader \<Rightarrow> Reader option" where
  "ReadTableNameMatching expected_table_name r =
     do {
       (matching, r) \<leftarrow> ReadLabeledStringMatching TableName expected_table_name r;
       Some (if matching then r else Fail r)
     }"

definition ReadTerminator :: "Reader \<Rightarrow> Reader option" where
  "ReadTerminator r =
     do {
       (matching, r) \<leftarrow> ReadComponentLabelMatching Terminator r;
       Some (if matching then r else Fail r)
     }"

definition ReadBatchId :: "Reader \<Rightarrow> (32 word \<times> Reader) option" where
  "ReadBatchId = ReadLabeledInt32 BatchId"

definition ReadCanonicalId :: "Reader \<Rightarrow> (string \<times> Reader) option" where
  "ReadCanonicalId = ReadLabeledString CanonicalId"

definition ReadTargetId :: "Reader \<Rightarrow> (32 word \<times> Reader) option" where
  "ReadTargetId = ReadLabeledInt32 TargetId"

definition ReadUserId :: "Reader \<Rightarrow> (string \<times> Reader) option" where
  "ReadUserId = ReadLabeledString UserId"

definition ReadCollectionId :: "Reader \<Rightarrow> (string \<times> Reader) option" where
  "ReadCollectionId = ReadLabeledString CollectionId"

definition ReadDocumentId :: "Reader \<Rightarrow> (string \<times> Reader) option" where
  "ReadDocumentId = ReadLabeledString DocumentId"

definition ReadOrderedDocumentKey :: "Reader \<Rightarrow> (string \<times> Reader) option" where
  "ReadOrderedDocumentKey = ReadLabeledString OrderedDocumentKey"

definition ReadBundleId :: "Reader \<Rightarrow> (string \<times> Reader) option" where
  "ReadBundleId = ReadLabeledString BundleId"

definition ReadGlobalName :: "Reader \<Rightarrow> (string \<times> Reader) option" where
  "ReadGlobalName = ReadLabeledString GlobalName"

definition ReadQueryName :: "Reader \<Rightarrow> (string \<times> Reader) option" where
  "ReadQueryName = ReadLabeledString QueryName"

definition ReadIndexId :: "Reader \<Rightarrow> (32 word \<times> Reader) option" where
  "ReadIndexId = ReadLabeledInt32 IndexId"

definition ReadCollectionGroup :: "Reader \<Rightarrow> (string \<times> Reader) option" where
  "ReadCollectionGroup = ReadLabeledString CollectionGroup"

definition ReadIndexArrayValue :: "Reader \<Rightarrow> (string \<times> Reader) option" where
  "ReadIndexArrayValue = ReadLabeledString IndexArrayValue"

definition ReadIndexDirectionalValue :: "Reader \<Rightarrow> (string \<times> Reader) option" where
  "ReadIndexDirectionalValue = ReadLabeledString IndexDirectionalValue"

definition ReadSequenceNumber :: "Reader \<Rightarrow> (64 word \<times> Reader) option" where
  "ReadSequenceNumber = ReadLabeledInt64 SequenceNumber"

definition ReadDataMigrationName :: "Reader \<Rightarrow> (string \<times> Reader) option" where
  "ReadDataMigrationName = ReadLabeledString DataMigrationName"

text \<open>The checks of the constructor of \<^verbatim>\<open>Timestamp\<close>.\<close>

definition ValidateBounds :: "Timestamp \<Rightarrow> bool" where
  "ValidateBounds t \<longleftrightarrow>
     sint (nanos t) \<ge> 0 \<and> sint (nanos t) < 1000 * 1000 * 1000 \<and>
     sint (seconds t) \<ge> - 62135596800 \<and> sint (seconds t) < 253402300800"

definition ReadSnapshotVersion :: "Reader \<Rightarrow> (Timestamp \<times> Reader) option" where
  "ReadSnapshotVersion r =
     do {
       (matching, r) \<leftarrow> ReadComponentLabelMatching SnapshotVersion r;
       (s, r) \<leftarrow> ReadInt64 (if matching then r else Fail r);
       (n, r) \<leftarrow> ReadInt32 r;
       let version = \<lparr>seconds = s, nanos = n\<rparr>;
       if ValidateBounds version then Some (version, r) else None
     }"

lemma Reader_ReadString_shorter:
  assumes "Reader_ReadString r = Some (s, r')" "reader_ok r'"
  shows "length (reader_src r') < length (reader_src r)"
proof -
  have shorter: "unescape src = Some (rest, t) \<Longrightarrow> length rest < length src" for src rest t
    by (induction src arbitrary: rest t rule: unescape.induct) (fastforce split: if_splits)+
  show ?thesis
    using assms by (auto simp: Reader_ReadString_def ReadString_def ReadStringInternal_ok Fail_def dest: shorter
      split: if_splits option.splits)
qed

lemma ReadSignedNumIncreasing_shorter:
  assumes "ReadSignedNumIncreasing src = Some (Some (rest, x))"
  shows "length rest \<le> length src"
proof -
  define m where "m = (if src ! 0 AND 0x80 = 0 then NOT 0 else 0 :: 64 word)"
  have "src \<noteq> []" using assms by (auto simp: ReadSignedNumIncreasing_def)
  then obtain len y where "signed_length_and_bits src m = Some (Some (len, y))" and "rest = drop len src"
    using assms unfolding ReadSignedNumIncreasing_def m_def [symmetric]
    by (cases "signed_length_and_bits src m"; cases "the (signed_length_and_bits src m)")
      (auto simp: Let_def split: if_splits)
  then show ?thesis by simp
qed

lemma Reader_ReadSigned_shorter:
  assumes "Reader_ReadSignedNumIncreasing r = Some (x, r')"
  shows "length (reader_src r') \<le> length (reader_src r)"
proof (cases "ReadSignedNumIncreasing (reader_src r)")
  case (Some res)
  then show ?thesis
    using assms ReadSignedNumIncreasing_shorter [of "reader_src r"]
    by (cases res) (auto simp: Reader_ReadSignedNumIncreasing_def Fail_def split: if_splits)
qed (use assms in \<open>auto simp: Reader_ReadSignedNumIncreasing_def Fail_def split: if_splits\<close>)

lemma ReadComponentLabelMatching_shorter:
  "ReadComponentLabelMatching l r = Some (b, r') \<Longrightarrow> length (reader_src r') \<le> length (reader_src r)"
  using Reader_ReadSigned_shorter
  by (fastforce simp: ReadComponentLabelMatching_def Fail_def bind_eq_Some_conv split: if_splits)

function path_loop :: "path \<Rightarrow> Reader \<Rightarrow> (path \<times> Reader) option" where
  "path_loop path_segments r =
     (if reader_empty r then Some (path_segments, r)
      else do {
        (matching, r1) \<leftarrow> ReadComponentLabelMatching PathSegment r;
        if \<not> matching then Some (path_segments, r1\<lparr>reader_src := reader_src r\<rparr>)
        else do {
          (segment, r2) \<leftarrow> Reader_ReadString r1;
          if \<not> reader_ok r2 then Some (path_segments, r2) else path_loop (path_segments @ [segment]) r2
        }
      })"
  by auto
termination
  by (relation "measure (\<lambda>(path_segments, r). length (reader_src r))")
    (use Reader_ReadString_shorter ReadComponentLabelMatching_shorter in fastforce)+

declare path_loop.simps [simp del]

definition ReadResourcePath :: "Reader \<Rightarrow> (path \<times> Reader) option" where
  "ReadResourcePath = path_loop []"

definition ReadDocumentKey :: "Reader \<Rightarrow> (path \<times> Reader) option" where
  "ReadDocumentKey r =
     do {
       (path, r) \<leftarrow> ReadResourcePath r;
       if reader_ok r \<and> path \<noteq> [] \<and> IsDocumentKey path
       then do { key \<leftarrow> DocumentKey_of path; Some (key, r) }
       else Some ([], Fail r)
     }"

end
