(* ===== verification/LevelDbKeys.thy ===== *)
theory LevelDbKeys
  imports LevelDbCodec
begin

text \<open>
  The classes of keys of the persistent store (\<^verbatim>\<open>local/leveldb_key.cc\<close>,
  \<^verbatim>\<open>local/leveldb_key.h\<close>): for each class its \<^verbatim>\<open>Key\<close>, its overloads of
  \<^verbatim>\<open>KeyPrefix\<close> and its \<^verbatim>\<open>Decode\<close>, which returns the decoded object and the answer
  of the reader.  A constructor of \<open>LevelDbKey\<close> is an object of a class with the fields it stores;
  an entry of an overlay index has the document key of the common base class.
\<close>

section \<open>Tables\<close>

definition kVersionGlobalTable :: string where "kVersionGlobalTable = ''version''"
definition kMutationsTable :: string where "kMutationsTable = ''mutation''"
definition kDocumentMutationsTable :: string where "kDocumentMutationsTable = ''document_mutation''"
definition kMutationQueuesTable :: string where "kMutationQueuesTable = ''mutation_queue''"
definition kTargetGlobalTable :: string where "kTargetGlobalTable = ''target_global''"
definition kTargetsTable :: string where "kTargetsTable = ''target''"
definition kQueryTargetsTable :: string where "kQueryTargetsTable = ''query_target''"
definition kTargetDocumentsTable :: string where "kTargetDocumentsTable = ''target_document''"
definition kDocumentTargetsTable :: string where "kDocumentTargetsTable = ''document_target''"
definition kRemoteDocumentsTable :: string where "kRemoteDocumentsTable = ''remote_document''"
definition kCollectionParentsTable :: string where "kCollectionParentsTable = ''collection_parent''"
definition kRemoteDocumentReadTimeTable :: string where "kRemoteDocumentReadTimeTable = ''remote_document_read_time''"
definition kGlobalsTable :: string where "kGlobalsTable = ''globals''"
definition kBundlesTable :: string where "kBundlesTable = ''bundles''"
definition kNamedQueriesTable :: string where "kNamedQueriesTable = ''named_queries''"
definition kIndexConfigurationTable :: string where "kIndexConfigurationTable = ''index_configuration''"
definition kIndexStateTable :: string where "kIndexStateTable = ''index_state''"
definition kIndexEntriesTable :: string where "kIndexEntriesTable = ''index_entries''"
definition kIndexEntriesDocumentKeyIndexTable :: string where "kIndexEntriesDocumentKeyIndexTable = ''index_entries_document_key_index''"
definition kDocumentOverlaysTable :: string where "kDocumentOverlaysTable = ''document_overlays''"
definition kDocumentOverlaysLargestBatchIdIndexTable :: string where "kDocumentOverlaysLargestBatchIdIndexTable = ''document_overlays_largest_batch_id_index''"
definition kDocumentOverlaysCollectionIndexTable :: string where "kDocumentOverlaysCollectionIndexTable = ''document_overlays_collection_index''"
definition kDocumentOverlaysCollectionGroupIndexTable :: string where "kDocumentOverlaysCollectionGroupIndexTable = ''document_overlays_collection_group_index''"
definition kDataMigrationTable :: string where "kDataMigrationTable = ''data_migration''"

lemmas table_defs = kVersionGlobalTable_def
  kMutationsTable_def kDocumentMutationsTable_def kMutationQueuesTable_def kTargetGlobalTable_def kTargetsTable_def kQueryTargetsTable_def kTargetDocumentsTable_def kDocumentTargetsTable_def kRemoteDocumentsTable_def kCollectionParentsTable_def kRemoteDocumentReadTimeTable_def kGlobalsTable_def kBundlesTable_def kNamedQueriesTable_def kIndexConfigurationTable_def kIndexStateTable_def kIndexEntriesTable_def kIndexEntriesDocumentKeyIndexTable_def kDocumentOverlaysTable_def kDocumentOverlaysLargestBatchIdIndexTable_def kDocumentOverlaysCollectionIndexTable_def kDocumentOverlaysCollectionGroupIndexTable_def kDataMigrationTable_def

section \<open>Objects\<close>

datatype LevelDbKey =
    LevelDbMutationKey string "32 word"
  | LevelDbDocumentMutationKey string path "32 word"
  | LevelDbMutationQueueKey string
  | LevelDbTargetGlobalKey
  | LevelDbTargetKey "32 word"
  | LevelDbQueryTargetKey string "32 word"
  | LevelDbTargetDocumentKey "32 word" path
  | LevelDbDocumentTargetKey path "32 word"
  | LevelDbRemoteDocumentKey path
  | LevelDbCollectionParentKey string path
  | LevelDbRemoteDocumentReadTimeKey path Timestamp string
  | LevelDbGlobalKey string
  | LevelDbBundleKey string
  | LevelDbNamedQueryKey string
  | LevelDbIndexConfigurationKey "32 word" string
  | LevelDbIndexStateKey string "32 word"
  | LevelDbIndexEntryKey "32 word" string string string string string
  | LevelDbIndexEntryDocumentKeyIndexKey "32 word" string string "64 word"
  | LevelDbDocumentOverlayKey string path "32 word"
  | LevelDbDocumentOverlayLargestBatchIdIndexKey string "32 word" path
  | LevelDbDocumentOverlayCollectionIndexKey string "32 word" path
  | LevelDbDocumentOverlayCollectionGroupIndexKey string string "32 word" path
  | LevelDbDataMigrationKey string

section \<open>Keys, prefixes and decoders\<close>

definition LevelDbVersionKey_Key :: "byte list option" where
  "LevelDbVersionKey_Key = do { w \<leftarrow> WriteTableName kVersionGlobalTable []; WriteTerminator w }"

definition LevelDbMutationKey_KeyPrefix :: "byte list option" where
  "LevelDbMutationKey_KeyPrefix = WriteTableName kMutationsTable []"

definition LevelDbMutationKey_KeyPrefix_user :: "string \<Rightarrow> byte list option" where
  "LevelDbMutationKey_KeyPrefix_user user_id =
     do { w \<leftarrow> WriteTableName kMutationsTable []; WriteUserId user_id w }"

definition LevelDbMutationKey_Key :: "string \<Rightarrow> 32 word \<Rightarrow> byte list option" where
  "LevelDbMutationKey_Key user_id batch_id =
     do {
       w \<leftarrow> WriteTableName kMutationsTable [];
       w \<leftarrow> WriteUserId user_id w;
       w \<leftarrow> WriteBatchId batch_id w;
       WriteTerminator w
     }"

definition LevelDbMutationKey_Decode :: "byte list \<Rightarrow> (LevelDbKey \<times> bool) option" where
  "LevelDbMutationKey_Decode key =
     do {
       r \<leftarrow> ReadTableNameMatching kMutationsTable (Reader_new key);
       (user_id, r) \<leftarrow> ReadUserId r;
       (batch_id, r) \<leftarrow> ReadBatchId r;
       r \<leftarrow> ReadTerminator r;
       Some (LevelDbMutationKey user_id batch_id, reader_ok r)
     }"

definition LevelDbDocumentMutationKey_KeyPrefix :: "byte list option" where
  "LevelDbDocumentMutationKey_KeyPrefix = WriteTableName kDocumentMutationsTable []"

definition LevelDbDocumentMutationKey_KeyPrefix_user :: "string \<Rightarrow> byte list option" where
  "LevelDbDocumentMutationKey_KeyPrefix_user user_id =
     do { w \<leftarrow> WriteTableName kDocumentMutationsTable []; WriteUserId user_id w }"

definition LevelDbDocumentMutationKey_KeyPrefix_user_path :: "string \<Rightarrow> path \<Rightarrow> byte list option" where
  "LevelDbDocumentMutationKey_KeyPrefix_user_path user_id resource_path =
     do {
       w \<leftarrow> WriteTableName kDocumentMutationsTable [];
       w \<leftarrow> WriteUserId user_id w;
       WriteResourcePath resource_path w
     }"

definition LevelDbDocumentMutationKey_Key :: "string \<Rightarrow> path \<Rightarrow> 32 word \<Rightarrow> byte list option" where
  "LevelDbDocumentMutationKey_Key user_id document_key batch_id =
     do {
       w \<leftarrow> WriteTableName kDocumentMutationsTable [];
       w \<leftarrow> WriteUserId user_id w;
       w \<leftarrow> WriteResourcePath document_key w;
       w \<leftarrow> WriteBatchId batch_id w;
       WriteTerminator w
     }"

definition LevelDbDocumentMutationKey_Decode :: "byte list \<Rightarrow> (LevelDbKey \<times> bool) option" where
  "LevelDbDocumentMutationKey_Decode key =
     do {
       r \<leftarrow> ReadTableNameMatching kDocumentMutationsTable (Reader_new key);
       (user_id, r) \<leftarrow> ReadUserId r;
       (document_key, r) \<leftarrow> ReadDocumentKey r;
       (batch_id, r) \<leftarrow> ReadBatchId r;
       r \<leftarrow> ReadTerminator r;
       Some (LevelDbDocumentMutationKey user_id document_key batch_id, reader_ok r)
     }"

definition LevelDbMutationQueueKey_KeyPrefix :: "byte list option" where
  "LevelDbMutationQueueKey_KeyPrefix = WriteTableName kMutationQueuesTable []"

definition LevelDbMutationQueueKey_Key :: "string \<Rightarrow> byte list option" where
  "LevelDbMutationQueueKey_Key user_id =
     do {
       w \<leftarrow> WriteTableName kMutationQueuesTable [];
       w \<leftarrow> WriteUserId user_id w;
       WriteTerminator w
     }"

definition LevelDbMutationQueueKey_Decode :: "byte list \<Rightarrow> (LevelDbKey \<times> bool) option" where
  "LevelDbMutationQueueKey_Decode key =
     do {
       r \<leftarrow> ReadTableNameMatching kMutationQueuesTable (Reader_new key);
       (user_id, r) \<leftarrow> ReadUserId r;
       r \<leftarrow> ReadTerminator r;
       Some (LevelDbMutationQueueKey user_id, reader_ok r)
     }"

definition LevelDbTargetGlobalKey_Key :: "byte list option" where
  "LevelDbTargetGlobalKey_Key =
     do { w \<leftarrow> WriteTableName kTargetGlobalTable []; WriteTerminator w }"

definition LevelDbTargetGlobalKey_Decode :: "byte list \<Rightarrow> (LevelDbKey \<times> bool) option" where
  "LevelDbTargetGlobalKey_Decode key =
     do {
       r \<leftarrow> ReadTableNameMatching kTargetGlobalTable (Reader_new key);
       r \<leftarrow> ReadTerminator r;
       Some (LevelDbTargetGlobalKey, reader_ok r)
     }"

definition LevelDbTargetKey_KeyPrefix :: "byte list option" where
  "LevelDbTargetKey_KeyPrefix = WriteTableName kTargetsTable []"

definition LevelDbTargetKey_Key :: "32 word \<Rightarrow> byte list option" where
  "LevelDbTargetKey_Key target_id =
     do {
       w \<leftarrow> WriteTableName kTargetsTable [];
       w \<leftarrow> WriteTargetId target_id w;
       WriteTerminator w
     }"

definition LevelDbTargetKey_Decode :: "byte list \<Rightarrow> (LevelDbKey \<times> bool) option" where
  "LevelDbTargetKey_Decode key =
     do {
       r \<leftarrow> ReadTableNameMatching kTargetsTable (Reader_new key);
       (target_id, r) \<leftarrow> ReadTargetId r;
       r \<leftarrow> ReadTerminator r;
       Some (LevelDbTargetKey target_id, reader_ok r)
     }"

definition LevelDbQueryTargetKey_KeyPrefix :: "byte list option" where
  "LevelDbQueryTargetKey_KeyPrefix = WriteTableName kQueryTargetsTable []"

definition LevelDbQueryTargetKey_KeyPrefix_canonical :: "string \<Rightarrow> byte list option" where
  "LevelDbQueryTargetKey_KeyPrefix_canonical canonical_id =
     do { w \<leftarrow> WriteTableName kQueryTargetsTable []; WriteCanonicalId canonical_id w }"

definition LevelDbQueryTargetKey_Key :: "string \<Rightarrow> 32 word \<Rightarrow> byte list option" where
  "LevelDbQueryTargetKey_Key canonical_id target_id =
     do {
       w \<leftarrow> WriteTableName kQueryTargetsTable [];
       w \<leftarrow> WriteCanonicalId canonical_id w;
       w \<leftarrow> WriteTargetId target_id w;
       WriteTerminator w
     }"

definition LevelDbQueryTargetKey_Decode :: "byte list \<Rightarrow> (LevelDbKey \<times> bool) option" where
  "LevelDbQueryTargetKey_Decode key =
     do {
       r \<leftarrow> ReadTableNameMatching kQueryTargetsTable (Reader_new key);
       (canonical_id, r) \<leftarrow> ReadCanonicalId r;
       (target_id, r) \<leftarrow> ReadTargetId r;
       r \<leftarrow> ReadTerminator r;
       Some (LevelDbQueryTargetKey canonical_id target_id, reader_ok r)
     }"

definition LevelDbTargetDocumentKey_KeyPrefix :: "byte list option" where
  "LevelDbTargetDocumentKey_KeyPrefix = WriteTableName kTargetDocumentsTable []"

definition LevelDbTargetDocumentKey_KeyPrefix_target :: "32 word \<Rightarrow> byte list option" where
  "LevelDbTargetDocumentKey_KeyPrefix_target target_id =
     do { w \<leftarrow> WriteTableName kTargetDocumentsTable []; WriteTargetId target_id w }"

definition LevelDbTargetDocumentKey_Key :: "32 word \<Rightarrow> path \<Rightarrow> byte list option" where
  "LevelDbTargetDocumentKey_Key target_id document_key =
     do {
       w \<leftarrow> WriteTableName kTargetDocumentsTable [];
       w \<leftarrow> WriteTargetId target_id w;
       w \<leftarrow> WriteResourcePath document_key w;
       WriteTerminator w
     }"

definition LevelDbTargetDocumentKey_Decode :: "byte list \<Rightarrow> (LevelDbKey \<times> bool) option" where
  "LevelDbTargetDocumentKey_Decode key =
     do {
       r \<leftarrow> ReadTableNameMatching kTargetDocumentsTable (Reader_new key);
       (target_id, r) \<leftarrow> ReadTargetId r;
       (document_key, r) \<leftarrow> ReadDocumentKey r;
       r \<leftarrow> ReadTerminator r;
       Some (LevelDbTargetDocumentKey target_id document_key, reader_ok r)
     }"

definition LevelDbDocumentTargetKey_KeyPrefix :: "byte list option" where
  "LevelDbDocumentTargetKey_KeyPrefix = WriteTableName kDocumentTargetsTable []"

definition LevelDbDocumentTargetKey_KeyPrefix_path :: "path \<Rightarrow> byte list option" where
  "LevelDbDocumentTargetKey_KeyPrefix_path resource_path =
     do {
       w \<leftarrow> WriteTableName kDocumentTargetsTable [];
       WriteResourcePath resource_path w
     }"

definition LevelDbDocumentTargetKey_Key :: "path \<Rightarrow> 32 word \<Rightarrow> byte list option" where
  "LevelDbDocumentTargetKey_Key document_key target_id =
     do {
       w \<leftarrow> WriteTableName kDocumentTargetsTable [];
       w \<leftarrow> WriteResourcePath document_key w;
       w \<leftarrow> WriteTargetId target_id w;
       WriteTerminator w
     }"

definition kInvalidTargetId :: "32 word" where "kInvalidTargetId = 0"

definition SentinelKey :: "path \<Rightarrow> byte list option" where
  "SentinelKey document_key = LevelDbDocumentTargetKey_Key document_key kInvalidTargetId"

definition EncodeSentinelValue :: "64 word \<Rightarrow> byte list option" where
  "EncodeSentinelValue sequence_number = WriteSignedNumIncreasing [] sequence_number"

definition DecodeSentinelValue :: "byte list \<Rightarrow> 64 word option" where
  "DecodeSentinelValue encoded =
     do { result \<leftarrow> ReadSignedNumIncreasing encoded; map_option snd result }"

definition LevelDbDocumentTargetKey_Decode :: "byte list \<Rightarrow> (LevelDbKey \<times> bool) option" where
  "LevelDbDocumentTargetKey_Decode key =
     do {
       r \<leftarrow> ReadTableNameMatching kDocumentTargetsTable (Reader_new key);
       (document_key, r) \<leftarrow> ReadDocumentKey r;
       (target_id, r) \<leftarrow> ReadTargetId r;
       r \<leftarrow> ReadTerminator r;
       Some (LevelDbDocumentTargetKey document_key target_id, reader_ok r)
     }"

definition LevelDbRemoteDocumentKey_KeyPrefix :: "byte list option" where
  "LevelDbRemoteDocumentKey_KeyPrefix = WriteTableName kRemoteDocumentsTable []"

definition LevelDbRemoteDocumentKey_KeyPrefix_path :: "path \<Rightarrow> byte list option" where
  "LevelDbRemoteDocumentKey_KeyPrefix_path resource_path =
     do {
       w \<leftarrow> WriteTableName kRemoteDocumentsTable [];
       WriteResourcePath resource_path w
     }"

definition LevelDbRemoteDocumentKey_Key :: "path \<Rightarrow> byte list option" where
  "LevelDbRemoteDocumentKey_Key document_key =
     do {
       w \<leftarrow> WriteTableName kRemoteDocumentsTable [];
       w \<leftarrow> WriteResourcePath document_key w;
       WriteTerminator w
     }"

definition LevelDbRemoteDocumentKey_Decode :: "byte list \<Rightarrow> (LevelDbKey \<times> bool) option" where
  "LevelDbRemoteDocumentKey_Decode key =
     do {
       r \<leftarrow> ReadTableNameMatching kRemoteDocumentsTable (Reader_new key);
       (document_key, r) \<leftarrow> ReadDocumentKey r;
       r \<leftarrow> ReadTerminator r;
       Some (LevelDbRemoteDocumentKey document_key, reader_ok r)
     }"

definition LevelDbCollectionParentKey_KeyPrefix :: "byte list option" where
  "LevelDbCollectionParentKey_KeyPrefix = WriteTableName kCollectionParentsTable []"

definition LevelDbCollectionParentKey_KeyPrefix_collection :: "string \<Rightarrow> byte list option" where
  "LevelDbCollectionParentKey_KeyPrefix_collection collection_id =
     do {
       w \<leftarrow> WriteTableName kCollectionParentsTable [];
       WriteCollectionId collection_id w
     }"

definition LevelDbCollectionParentKey_Key :: "string \<Rightarrow> path \<Rightarrow> byte list option" where
  "LevelDbCollectionParentKey_Key collection_id parent =
     do {
       w \<leftarrow> WriteTableName kCollectionParentsTable [];
       w \<leftarrow> WriteCollectionId collection_id w;
       w \<leftarrow> WriteResourcePath parent w;
       WriteTerminator w
     }"

definition LevelDbCollectionParentKey_Decode :: "byte list \<Rightarrow> (LevelDbKey \<times> bool) option" where
  "LevelDbCollectionParentKey_Decode key =
     do {
       r \<leftarrow> ReadTableNameMatching kCollectionParentsTable (Reader_new key);
       (collection_id, r) \<leftarrow> ReadCollectionId r;
       (parent, r) \<leftarrow> ReadResourcePath r;
       r \<leftarrow> ReadTerminator r;
       Some (LevelDbCollectionParentKey collection_id parent, reader_ok r)
     }"

definition LevelDbRemoteDocumentReadTimeKey_KeyPrefix_collection_time :: "path \<Rightarrow> Timestamp \<Rightarrow> byte list option" where
  "LevelDbRemoteDocumentReadTimeKey_KeyPrefix_collection_time collection_path read_time =
     do {
       w \<leftarrow> WriteTableName kRemoteDocumentReadTimeTable [];
       w \<leftarrow> WriteResourcePath collection_path w;
       WriteSnapshotVersion read_time w
     }"

definition LevelDbRemoteDocumentReadTimeKey_Key :: "path \<Rightarrow> Timestamp \<Rightarrow> string \<Rightarrow> byte list option" where
  "LevelDbRemoteDocumentReadTimeKey_Key collection_path read_time document_id =
     do {
       w \<leftarrow> WriteTableName kRemoteDocumentReadTimeTable [];
       w \<leftarrow> WriteResourcePath collection_path w;
       w \<leftarrow> WriteSnapshotVersion read_time w;
       w \<leftarrow> WriteDocumentId document_id w;
       WriteTerminator w
     }"

definition LevelDbRemoteDocumentReadTimeKey_Decode :: "byte list \<Rightarrow> (LevelDbKey \<times> bool) option" where
  "LevelDbRemoteDocumentReadTimeKey_Decode key =
     do {
       r \<leftarrow> ReadTableNameMatching kRemoteDocumentReadTimeTable (Reader_new key);
       (collection_path, r) \<leftarrow> ReadResourcePath r;
       (read_time, r) \<leftarrow> ReadSnapshotVersion r;
       (document_id, r) \<leftarrow> ReadDocumentId r;
       r \<leftarrow> ReadTerminator r;
       Some (LevelDbRemoteDocumentReadTimeKey collection_path read_time document_id, reader_ok r)
     }"

definition LevelDbGlobalKey_KeyPrefix :: "byte list option" where
  "LevelDbGlobalKey_KeyPrefix = WriteTableName kGlobalsTable []"

definition LevelDbGlobalKey_Key :: "string \<Rightarrow> byte list option" where
  "LevelDbGlobalKey_Key global_name =
     do {
       w \<leftarrow> WriteTableName kGlobalsTable [];
       w \<leftarrow> WriteGlobalName global_name w;
       WriteTerminator w
     }"

definition LevelDbGlobalKey_Decode :: "byte list \<Rightarrow> (LevelDbKey \<times> bool) option" where
  "LevelDbGlobalKey_Decode key =
     do {
       r \<leftarrow> ReadTableNameMatching kGlobalsTable (Reader_new key);
       (global_name, r) \<leftarrow> ReadGlobalName r;
       r \<leftarrow> ReadTerminator r;
       Some (LevelDbGlobalKey global_name, reader_ok r)
     }"

definition LevelDbBundleKey_KeyPrefix :: "byte list option" where
  "LevelDbBundleKey_KeyPrefix = WriteTableName kBundlesTable []"

definition LevelDbBundleKey_Key :: "string \<Rightarrow> byte list option" where
  "LevelDbBundleKey_Key bundle_id =
     do {
       w \<leftarrow> WriteTableName kBundlesTable [];
       w \<leftarrow> WriteBundleId bundle_id w;
       WriteTerminator w
     }"

definition LevelDbBundleKey_Decode :: "byte list \<Rightarrow> (LevelDbKey \<times> bool) option" where
  "LevelDbBundleKey_Decode key =
     do {
       r \<leftarrow> ReadTableNameMatching kBundlesTable (Reader_new key);
       (bundle_id, r) \<leftarrow> ReadBundleId r;
       r \<leftarrow> ReadTerminator r;
       Some (LevelDbBundleKey bundle_id, reader_ok r)
     }"

definition LevelDbNamedQueryKey_KeyPrefix :: "byte list option" where
  "LevelDbNamedQueryKey_KeyPrefix = WriteTableName kNamedQueriesTable []"

definition LevelDbNamedQueryKey_Key :: "string \<Rightarrow> byte list option" where
  "LevelDbNamedQueryKey_Key query_name =
     do {
       w \<leftarrow> WriteTableName kNamedQueriesTable [];
       w \<leftarrow> WriteQueryName query_name w;
       WriteTerminator w
     }"

definition LevelDbNamedQueryKey_Decode :: "byte list \<Rightarrow> (LevelDbKey \<times> bool) option" where
  "LevelDbNamedQueryKey_Decode key =
     do {
       r \<leftarrow> ReadTableNameMatching kNamedQueriesTable (Reader_new key);
       (query_name, r) \<leftarrow> ReadQueryName r;
       r \<leftarrow> ReadTerminator r;
       Some (LevelDbNamedQueryKey query_name, reader_ok r)
     }"

definition LevelDbIndexConfigurationKey_KeyPrefix :: "byte list option" where
  "LevelDbIndexConfigurationKey_KeyPrefix = WriteTableName kIndexConfigurationTable []"

definition LevelDbIndexConfigurationKey_Key :: "32 word \<Rightarrow> string \<Rightarrow> byte list option" where
  "LevelDbIndexConfigurationKey_Key index_id collection_group =
     do {
       w \<leftarrow> WriteTableName kIndexConfigurationTable [];
       w \<leftarrow> WriteIndexId index_id w;
       w \<leftarrow> WriteCollectionGroup collection_group w;
       WriteTerminator w
     }"

definition LevelDbIndexConfigurationKey_Decode :: "byte list \<Rightarrow> (LevelDbKey \<times> bool) option" where
  "LevelDbIndexConfigurationKey_Decode key =
     do {
       r \<leftarrow> ReadTableNameMatching kIndexConfigurationTable (Reader_new key);
       (index_id, r) \<leftarrow> ReadIndexId r;
       (collection_group, r) \<leftarrow> ReadCollectionGroup r;
       r \<leftarrow> ReadTerminator r;
       Some (LevelDbIndexConfigurationKey index_id collection_group, reader_ok r)
     }"

definition LevelDbIndexStateKey_KeyPrefix :: "byte list option" where
  "LevelDbIndexStateKey_KeyPrefix = WriteTableName kIndexStateTable []"

definition LevelDbIndexStateKey_KeyPrefix_user :: "string \<Rightarrow> byte list option" where
  "LevelDbIndexStateKey_KeyPrefix_user user_id =
     do { w \<leftarrow> WriteTableName kIndexStateTable []; WriteUserId user_id w }"

definition LevelDbIndexStateKey_Key :: "string \<Rightarrow> 32 word \<Rightarrow> byte list option" where
  "LevelDbIndexStateKey_Key user_id index_id =
     do {
       w \<leftarrow> WriteTableName kIndexStateTable [];
       w \<leftarrow> WriteUserId user_id w;
       w \<leftarrow> WriteIndexId index_id w;
       WriteTerminator w
     }"

definition LevelDbIndexStateKey_Decode :: "byte list \<Rightarrow> (LevelDbKey \<times> bool) option" where
  "LevelDbIndexStateKey_Decode key =
     do {
       r \<leftarrow> ReadTableNameMatching kIndexStateTable (Reader_new key);
       (user_id, r) \<leftarrow> ReadUserId r;
       (index_id, r) \<leftarrow> ReadIndexId r;
       r \<leftarrow> ReadTerminator r;
       Some (LevelDbIndexStateKey user_id index_id, reader_ok r)
     }"

definition LevelDbIndexEntryKey_KeyPrefix :: "byte list option" where
  "LevelDbIndexEntryKey_KeyPrefix = WriteTableName kIndexEntriesTable []"

definition LevelDbIndexEntryKey_KeyPrefix_index :: "32 word \<Rightarrow> byte list option" where
  "LevelDbIndexEntryKey_KeyPrefix_index index_id =
     do { w \<leftarrow> WriteTableName kIndexEntriesTable []; WriteIndexId index_id w }"

definition LevelDbIndexEntryKey_KeyPrefix_index_user_array_directional :: "32 word \<Rightarrow> string \<Rightarrow> string \<Rightarrow> string \<Rightarrow> byte list option" where
  "LevelDbIndexEntryKey_KeyPrefix_index_user_array_directional index_id user_id arr_value directional_value =
     do {
       w \<leftarrow> WriteTableName kIndexEntriesTable [];
       w \<leftarrow> WriteIndexId index_id w;
       w \<leftarrow> WriteUserId user_id w;
       w \<leftarrow> WriteIndexArrayValue arr_value w;
       WriteIndexDirectionalValue directional_value w
     }"

definition LevelDbIndexEntryKey_Key :: "32 word \<Rightarrow> string \<Rightarrow> string \<Rightarrow> string \<Rightarrow> string \<Rightarrow> string \<Rightarrow> byte list option" where
  "LevelDbIndexEntryKey_Key index_id user_id arr_value directional_value ordered_document_key document_key =
     do {
       w \<leftarrow> WriteTableName kIndexEntriesTable [];
       w \<leftarrow> WriteIndexId index_id w;
       w \<leftarrow> WriteUserId user_id w;
       w \<leftarrow> WriteIndexArrayValue arr_value w;
       w \<leftarrow> WriteIndexDirectionalValue directional_value w;
       w \<leftarrow> WriteOrderedDocumentKey ordered_document_key w;
       w \<leftarrow> WriteDocumentId document_key w;
       WriteTerminator w
     }"

definition LevelDbIndexEntryKey_Decode :: "byte list \<Rightarrow> (LevelDbKey \<times> bool) option" where
  "LevelDbIndexEntryKey_Decode key =
     do {
       r \<leftarrow> ReadTableNameMatching kIndexEntriesTable (Reader_new key);
       (index_id, r) \<leftarrow> ReadIndexId r;
       (user_id, r) \<leftarrow> ReadUserId r;
       (arr_value, r) \<leftarrow> ReadIndexArrayValue r;
       (directional_value, r) \<leftarrow> ReadIndexDirectionalValue r;
       (ordered_document_key, r) \<leftarrow> ReadOrderedDocumentKey r;
       (document_key, r) \<leftarrow> ReadDocumentId r;
       r \<leftarrow> ReadTerminator r;
       Some (LevelDbIndexEntryKey index_id user_id arr_value directional_value ordered_document_key document_key, reader_ok r)
     }"

definition LevelDbIndexEntryDocumentKeyIndexKey_KeyPrefix_index_user_document :: "32 word \<Rightarrow> string \<Rightarrow> string \<Rightarrow> byte list option" where
  "LevelDbIndexEntryDocumentKeyIndexKey_KeyPrefix_index_user_document index_id user_id document_name =
     do {
       w \<leftarrow> WriteTableName kIndexEntriesDocumentKeyIndexTable [];
       w \<leftarrow> WriteIndexId index_id w;
       w \<leftarrow> WriteUserId user_id w;
       WriteDocumentId document_name w
     }"

definition LevelDbIndexEntryDocumentKeyIndexKey_Key :: "32 word \<Rightarrow> string \<Rightarrow> string \<Rightarrow> 64 word \<Rightarrow> byte list option" where
  "LevelDbIndexEntryDocumentKeyIndexKey_Key index_id user_id document_key seq_number =
     do {
       w \<leftarrow> WriteTableName kIndexEntriesDocumentKeyIndexTable [];
       w \<leftarrow> WriteIndexId index_id w;
       w \<leftarrow> WriteUserId user_id w;
       w \<leftarrow> WriteDocumentId document_key w;
       w \<leftarrow> WriteSequenceNumber seq_number w;
       WriteTerminator w
     }"

definition LevelDbIndexEntryDocumentKeyIndexKey_Decode :: "byte list \<Rightarrow> (LevelDbKey \<times> bool) option" where
  "LevelDbIndexEntryDocumentKeyIndexKey_Decode key =
     do {
       r \<leftarrow> ReadTableNameMatching kIndexEntriesDocumentKeyIndexTable (Reader_new key);
       (index_id, r) \<leftarrow> ReadIndexId r;
       (user_id, r) \<leftarrow> ReadUserId r;
       (document_key, r) \<leftarrow> ReadDocumentId r;
       (seq_number, r) \<leftarrow> ReadSequenceNumber r;
       r \<leftarrow> ReadTerminator r;
       Some (LevelDbIndexEntryDocumentKeyIndexKey index_id user_id document_key seq_number, reader_ok r)
     }"

definition LevelDbDocumentOverlayKey_KeyPrefix_user :: "string \<Rightarrow> byte list option" where
  "LevelDbDocumentOverlayKey_KeyPrefix_user user_id =
     do { w \<leftarrow> WriteTableName kDocumentOverlaysTable []; WriteUserId user_id w }"

definition LevelDbDocumentOverlayKey_KeyPrefix_user_document :: "string \<Rightarrow> path \<Rightarrow> byte list option" where
  "LevelDbDocumentOverlayKey_KeyPrefix_user_document user_id document_key =
     do {
       w \<leftarrow> WriteTableName kDocumentOverlaysTable [];
       w \<leftarrow> WriteUserId user_id w;
       WriteResourcePath document_key w
     }"

definition LevelDbDocumentOverlayKey_Key :: "string \<Rightarrow> path \<Rightarrow> 32 word \<Rightarrow> byte list option" where
  "LevelDbDocumentOverlayKey_Key user_id document_key largest_batch_id =
     do {
       w \<leftarrow> WriteTableName kDocumentOverlaysTable [];
       w \<leftarrow> WriteUserId user_id w;
       w \<leftarrow> WriteResourcePath document_key w;
       w \<leftarrow> WriteBatchId largest_batch_id w;
       WriteTerminator w
     }"

definition LevelDbDocumentOverlayKey_Decode :: "byte list \<Rightarrow> (LevelDbKey \<times> bool) option" where
  "LevelDbDocumentOverlayKey_Decode key =
     do {
       r \<leftarrow> ReadTableNameMatching kDocumentOverlaysTable (Reader_new key);
       (user_id, r) \<leftarrow> ReadUserId r;
       (document_key, r) \<leftarrow> ReadDocumentKey r;
       (largest_batch_id, r) \<leftarrow> ReadBatchId r;
       r \<leftarrow> ReadTerminator r;
       Some (LevelDbDocumentOverlayKey user_id document_key largest_batch_id, reader_ok r)
     }"

definition LevelDbDocumentOverlayLargestBatchIdIndexKey_KeyPrefix_user :: "string \<Rightarrow> byte list option" where
  "LevelDbDocumentOverlayLargestBatchIdIndexKey_KeyPrefix_user user_id =
     do {
       w \<leftarrow> WriteTableName kDocumentOverlaysLargestBatchIdIndexTable [];
       WriteUserId user_id w
     }"

definition LevelDbDocumentOverlayLargestBatchIdIndexKey_KeyPrefix_user_batch :: "string \<Rightarrow> 32 word \<Rightarrow> byte list option" where
  "LevelDbDocumentOverlayLargestBatchIdIndexKey_KeyPrefix_user_batch user_id largest_batch_id =
     do {
       w \<leftarrow> WriteTableName kDocumentOverlaysLargestBatchIdIndexTable [];
       w \<leftarrow> WriteUserId user_id w;
       WriteBatchId largest_batch_id w
     }"

definition LevelDbDocumentOverlayLargestBatchIdIndexKey_Key :: "string \<Rightarrow> 32 word \<Rightarrow> path \<Rightarrow> byte list option" where
  "LevelDbDocumentOverlayLargestBatchIdIndexKey_Key user_id largest_batch_id document_key =
     do {
       w \<leftarrow> WriteTableName kDocumentOverlaysLargestBatchIdIndexTable [];
       w \<leftarrow> WriteUserId user_id w;
       w \<leftarrow> WriteBatchId largest_batch_id w;
       w \<leftarrow> WriteResourcePath document_key w;
       WriteTerminator w
     }"

definition LevelDbDocumentOverlayLargestBatchIdIndexKey_Decode :: "byte list \<Rightarrow> (LevelDbKey \<times> bool) option" where
  "LevelDbDocumentOverlayLargestBatchIdIndexKey_Decode key =
     do {
       r \<leftarrow> ReadTableNameMatching kDocumentOverlaysLargestBatchIdIndexTable (Reader_new key);
       (user_id, r) \<leftarrow> ReadUserId r;
       (largest_batch_id, r) \<leftarrow> ReadBatchId r;
       (document_key, r) \<leftarrow> ReadDocumentKey r;
       r \<leftarrow> ReadTerminator r;
       Some (LevelDbDocumentOverlayLargestBatchIdIndexKey user_id largest_batch_id document_key, reader_ok r)
     }"

definition LevelDbDocumentOverlayCollectionIndexKey_KeyPrefix_user :: "string \<Rightarrow> byte list option" where
  "LevelDbDocumentOverlayCollectionIndexKey_KeyPrefix_user user_id =
     do {
       w \<leftarrow> WriteTableName kDocumentOverlaysCollectionIndexTable [];
       WriteUserId user_id w
     }"

definition LevelDbDocumentOverlayCollectionIndexKey_KeyPrefix_user_collection :: "string \<Rightarrow> path \<Rightarrow> byte list option" where
  "LevelDbDocumentOverlayCollectionIndexKey_KeyPrefix_user_collection user_id collection =
     do {
       w \<leftarrow> WriteTableName kDocumentOverlaysCollectionIndexTable [];
       w \<leftarrow> WriteUserId user_id w;
       WriteResourcePath collection w
     }"

definition LevelDbDocumentOverlayCollectionIndexKey_KeyPrefix_user_collection_batch :: "string \<Rightarrow> path \<Rightarrow> 32 word \<Rightarrow> byte list option" where
  "LevelDbDocumentOverlayCollectionIndexKey_KeyPrefix_user_collection_batch user_id collection largest_batch_id =
     do {
       w \<leftarrow> WriteTableName kDocumentOverlaysCollectionIndexTable [];
       w \<leftarrow> WriteUserId user_id w;
       w \<leftarrow> WriteResourcePath collection w;
       WriteBatchId largest_batch_id w
     }"

definition LevelDbDocumentOverlayCollectionIndexKey_Key :: "string \<Rightarrow> path \<Rightarrow> 32 word \<Rightarrow> string \<Rightarrow> byte list option" where
  "LevelDbDocumentOverlayCollectionIndexKey_Key user_id collection largest_batch_id document_id =
     do {
       w \<leftarrow> WriteTableName kDocumentOverlaysCollectionIndexTable [];
       w \<leftarrow> WriteUserId user_id w;
       w \<leftarrow> WriteResourcePath collection w;
       w \<leftarrow> WriteBatchId largest_batch_id w;
       w \<leftarrow> WriteDocumentId document_id w;
       WriteTerminator w
     }"

definition LevelDbDocumentOverlayCollectionIndexKey_Decode :: "byte list \<Rightarrow> (LevelDbKey \<times> bool) option" where
  "LevelDbDocumentOverlayCollectionIndexKey_Decode key =
     do {
       r \<leftarrow> ReadTableNameMatching kDocumentOverlaysCollectionIndexTable (Reader_new key);
       (user_id, r) \<leftarrow> ReadUserId r;
       (collection, r) \<leftarrow> ReadResourcePath r;
       (largest_batch_id, r) \<leftarrow> ReadBatchId r;
       (document_id, r) \<leftarrow> ReadDocumentId r;
       r \<leftarrow> ReadTerminator r;
       document_key \<leftarrow> DocumentKey_of (path_append collection document_id);
       Some (LevelDbDocumentOverlayCollectionIndexKey user_id largest_batch_id document_key, reader_ok r)
     }"

definition LevelDbDocumentOverlayCollectionGroupIndexKey_KeyPrefix_user :: "string \<Rightarrow> byte list option" where
  "LevelDbDocumentOverlayCollectionGroupIndexKey_KeyPrefix_user user_id =
     do {
       w \<leftarrow> WriteTableName kDocumentOverlaysCollectionGroupIndexTable [];
       WriteUserId user_id w
     }"

definition LevelDbDocumentOverlayCollectionGroupIndexKey_KeyPrefix_user_group :: "string \<Rightarrow> string \<Rightarrow> byte list option" where
  "LevelDbDocumentOverlayCollectionGroupIndexKey_KeyPrefix_user_group user_id collection_group =
     do {
       w \<leftarrow> WriteTableName kDocumentOverlaysCollectionGroupIndexTable [];
       w \<leftarrow> WriteUserId user_id w;
       WriteCollectionGroup collection_group w
     }"

definition LevelDbDocumentOverlayCollectionGroupIndexKey_KeyPrefix_user_group_batch :: "string \<Rightarrow> string \<Rightarrow> 32 word \<Rightarrow> byte list option" where
  "LevelDbDocumentOverlayCollectionGroupIndexKey_KeyPrefix_user_group_batch user_id collection_group largest_batch_id =
     do {
       w \<leftarrow> WriteTableName kDocumentOverlaysCollectionGroupIndexTable [];
       w \<leftarrow> WriteUserId user_id w;
       w \<leftarrow> WriteCollectionGroup collection_group w;
       WriteBatchId largest_batch_id w
     }"

definition LevelDbDocumentOverlayCollectionGroupIndexKey_Key :: "string \<Rightarrow> string \<Rightarrow> 32 word \<Rightarrow> path \<Rightarrow> byte list option" where
  "LevelDbDocumentOverlayCollectionGroupIndexKey_Key user_id collection_group largest_batch_id document_key =
     do {
       w \<leftarrow> WriteTableName kDocumentOverlaysCollectionGroupIndexTable [];
       w \<leftarrow> WriteUserId user_id w;
       w \<leftarrow> WriteCollectionGroup collection_group w;
       w \<leftarrow> WriteBatchId largest_batch_id w;
       w \<leftarrow> WriteResourcePath document_key w;
       WriteTerminator w
     }"

definition LevelDbDocumentOverlayCollectionGroupIndexKey_Decode :: "byte list \<Rightarrow> (LevelDbKey \<times> bool) option" where
  "LevelDbDocumentOverlayCollectionGroupIndexKey_Decode key =
     do {
       r \<leftarrow> ReadTableNameMatching kDocumentOverlaysCollectionGroupIndexTable (Reader_new key);
       (user_id, r) \<leftarrow> ReadUserId r;
       (collection_group, r) \<leftarrow> ReadCollectionGroup r;
       (largest_batch_id, r) \<leftarrow> ReadBatchId r;
       (document_key, r) \<leftarrow> ReadDocumentKey r;
       r \<leftarrow> ReadTerminator r;
       Some (LevelDbDocumentOverlayCollectionGroupIndexKey user_id collection_group largest_batch_id document_key, reader_ok r)
     }"

definition LevelDbDataMigrationKey_Key :: "string \<Rightarrow> byte list option" where
  "LevelDbDataMigrationKey_Key migration_name =
     do {
       w \<leftarrow> WriteTableName kDataMigrationTable [];
       w \<leftarrow> WriteDataMigrationName migration_name w;
       WriteTerminator w
     }"

definition LevelDbDataMigrationKey_Decode :: "byte list \<Rightarrow> (LevelDbKey \<times> bool) option" where
  "LevelDbDataMigrationKey_Decode key =
     do {
       r \<leftarrow> ReadTableNameMatching kDataMigrationTable (Reader_new key);
       (migration_name, r) \<leftarrow> ReadDataMigrationName r;
       r \<leftarrow> ReadTerminator r;
       Some (LevelDbDataMigrationKey migration_name, reader_ok r)
     }"

section \<open>Overlay keys\<close>

definition LargestBatchIdIndexKey_of :: "string \<Rightarrow> path \<Rightarrow> 32 word \<Rightarrow> byte list option" where
  "LargestBatchIdIndexKey_of user_id document_key largest_batch_id =
     LevelDbDocumentOverlayLargestBatchIdIndexKey_Key user_id largest_batch_id document_key"

definition CollectionIndexKey_of :: "string \<Rightarrow> path \<Rightarrow> 32 word \<Rightarrow> byte list option" where
  "CollectionIndexKey_of user_id document_key largest_batch_id =
     do {
       collection \<leftarrow> PopLast document_key;
       document_id \<leftarrow> last_segment document_key;
       LevelDbDocumentOverlayCollectionIndexKey_Key user_id collection largest_batch_id document_id
     }"

definition CollectionGroupIndexKey_of :: "string \<Rightarrow> path \<Rightarrow> 32 word \<Rightarrow> byte list option" where
  "CollectionGroupIndexKey_of user_id document_key largest_batch_id =
     do {
       collection_group \<leftarrow> GetCollectionGroup document_key;
       LevelDbDocumentOverlayCollectionGroupIndexKey_Key user_id collection_group largest_batch_id document_key
     }"

definition ToLevelDbDocumentOverlayKey :: "LevelDbKey \<Rightarrow> LevelDbKey option" where
  "ToLevelDbDocumentOverlayKey key =
     (case key of
        LevelDbDocumentOverlayLargestBatchIdIndexKey user_id largest_batch_id document_key \<Rightarrow>
          Some (LevelDbDocumentOverlayKey user_id document_key largest_batch_id)
      | LevelDbDocumentOverlayCollectionIndexKey user_id largest_batch_id document_key \<Rightarrow>
          Some (LevelDbDocumentOverlayKey user_id document_key largest_batch_id)
      | LevelDbDocumentOverlayCollectionGroupIndexKey user_id collection_group largest_batch_id document_key \<Rightarrow>
          Some (LevelDbDocumentOverlayKey user_id document_key largest_batch_id)
      | _ \<Rightarrow> None)"

section \<open>Objects of every class\<close>

text \<open>The key of an object, and the decoder of its class.\<close>

fun Encode :: "LevelDbKey \<Rightarrow> byte list option" where
  "Encode (LevelDbMutationKey user_id batch_id) =
     LevelDbMutationKey_Key user_id batch_id"
| "Encode (LevelDbDocumentMutationKey user_id document_key batch_id) =
     LevelDbDocumentMutationKey_Key user_id document_key batch_id"
| "Encode (LevelDbMutationQueueKey user_id) =
     LevelDbMutationQueueKey_Key user_id"
| "Encode LevelDbTargetGlobalKey =
     LevelDbTargetGlobalKey_Key"
| "Encode (LevelDbTargetKey target_id) =
     LevelDbTargetKey_Key target_id"
| "Encode (LevelDbQueryTargetKey canonical_id target_id) =
     LevelDbQueryTargetKey_Key canonical_id target_id"
| "Encode (LevelDbTargetDocumentKey target_id document_key) =
     LevelDbTargetDocumentKey_Key target_id document_key"
| "Encode (LevelDbDocumentTargetKey document_key target_id) =
     LevelDbDocumentTargetKey_Key document_key target_id"
| "Encode (LevelDbRemoteDocumentKey document_key) =
     LevelDbRemoteDocumentKey_Key document_key"
| "Encode (LevelDbCollectionParentKey collection_id parent) =
     LevelDbCollectionParentKey_Key collection_id parent"
| "Encode (LevelDbRemoteDocumentReadTimeKey collection_path read_time document_id) =
     LevelDbRemoteDocumentReadTimeKey_Key collection_path read_time document_id"
| "Encode (LevelDbGlobalKey global_name) =
     LevelDbGlobalKey_Key global_name"
| "Encode (LevelDbBundleKey bundle_id) =
     LevelDbBundleKey_Key bundle_id"
| "Encode (LevelDbNamedQueryKey query_name) =
     LevelDbNamedQueryKey_Key query_name"
| "Encode (LevelDbIndexConfigurationKey index_id collection_group) =
     LevelDbIndexConfigurationKey_Key index_id collection_group"
| "Encode (LevelDbIndexStateKey user_id index_id) =
     LevelDbIndexStateKey_Key user_id index_id"
| "Encode (LevelDbIndexEntryKey index_id user_id arr_value directional_value ordered_document_key document_key) =
     LevelDbIndexEntryKey_Key index_id user_id arr_value directional_value ordered_document_key document_key"
| "Encode (LevelDbIndexEntryDocumentKeyIndexKey index_id user_id document_key seq_number) =
     LevelDbIndexEntryDocumentKeyIndexKey_Key index_id user_id document_key seq_number"
| "Encode (LevelDbDocumentOverlayKey user_id document_key largest_batch_id) =
     LevelDbDocumentOverlayKey_Key user_id document_key largest_batch_id"
| "Encode (LevelDbDocumentOverlayLargestBatchIdIndexKey user_id largest_batch_id document_key) =
     LevelDbDocumentOverlayLargestBatchIdIndexKey_Key user_id largest_batch_id document_key"
| "Encode (LevelDbDocumentOverlayCollectionIndexKey user_id largest_batch_id document_key) =
     CollectionIndexKey_of user_id document_key largest_batch_id"
| "Encode (LevelDbDocumentOverlayCollectionGroupIndexKey user_id collection_group largest_batch_id document_key) =
     LevelDbDocumentOverlayCollectionGroupIndexKey_Key user_id collection_group largest_batch_id document_key"
| "Encode (LevelDbDataMigrationKey migration_name) =
     LevelDbDataMigrationKey_Key migration_name"

fun Decode :: "LevelDbKey \<Rightarrow> byte list \<Rightarrow> (LevelDbKey \<times> bool) option" where
  "Decode (LevelDbMutationKey _ _) = LevelDbMutationKey_Decode"
| "Decode (LevelDbDocumentMutationKey _ _ _) = LevelDbDocumentMutationKey_Decode"
| "Decode (LevelDbMutationQueueKey _) = LevelDbMutationQueueKey_Decode"
| "Decode LevelDbTargetGlobalKey = LevelDbTargetGlobalKey_Decode"
| "Decode (LevelDbTargetKey _) = LevelDbTargetKey_Decode"
| "Decode (LevelDbQueryTargetKey _ _) = LevelDbQueryTargetKey_Decode"
| "Decode (LevelDbTargetDocumentKey _ _) = LevelDbTargetDocumentKey_Decode"
| "Decode (LevelDbDocumentTargetKey _ _) = LevelDbDocumentTargetKey_Decode"
| "Decode (LevelDbRemoteDocumentKey _) = LevelDbRemoteDocumentKey_Decode"
| "Decode (LevelDbCollectionParentKey _ _) = LevelDbCollectionParentKey_Decode"
| "Decode (LevelDbRemoteDocumentReadTimeKey _ _ _) = LevelDbRemoteDocumentReadTimeKey_Decode"
| "Decode (LevelDbGlobalKey _) = LevelDbGlobalKey_Decode"
| "Decode (LevelDbBundleKey _) = LevelDbBundleKey_Decode"
| "Decode (LevelDbNamedQueryKey _) = LevelDbNamedQueryKey_Decode"
| "Decode (LevelDbIndexConfigurationKey _ _) = LevelDbIndexConfigurationKey_Decode"
| "Decode (LevelDbIndexStateKey _ _) = LevelDbIndexStateKey_Decode"
| "Decode (LevelDbIndexEntryKey _ _ _ _ _ _) = LevelDbIndexEntryKey_Decode"
| "Decode (LevelDbIndexEntryDocumentKeyIndexKey _ _ _ _) = LevelDbIndexEntryDocumentKeyIndexKey_Decode"
| "Decode (LevelDbDocumentOverlayKey _ _ _) = LevelDbDocumentOverlayKey_Decode"
| "Decode (LevelDbDocumentOverlayLargestBatchIdIndexKey _ _ _) = LevelDbDocumentOverlayLargestBatchIdIndexKey_Decode"
| "Decode (LevelDbDocumentOverlayCollectionIndexKey _ _ _) = LevelDbDocumentOverlayCollectionIndexKey_Decode"
| "Decode (LevelDbDocumentOverlayCollectionGroupIndexKey _ _ _ _) = LevelDbDocumentOverlayCollectionGroupIndexKey_Decode"
| "Decode (LevelDbDataMigrationKey _) = LevelDbDataMigrationKey_Decode"

end
