(* ===== verification/LevelDbRoundTrip.thy ===== *)
theory LevelDbRoundTrip
  imports LevelDbKeys
begin

text \<open>
  The components a key of the persistent store is made of, the bytes of a component, and what the
  writer and the reader do with them.
\<close>

section \<open>Components\<close>

datatype component =
    StringComponent ComponentLabel string
  | Int32Component ComponentLabel "32 word"
  | Int64Component ComponentLabel "64 word"
  | VersionComponent Timestamp
  | TerminatorComponent

fun component_items :: "component \<Rightarrow> item list" where
  "component_items (StringComponent l s) = [SignedItem False (label_value l), TextItem False (Text (bytes_of s))]"
| "component_items (Int32Component l n) = [SignedItem False (label_value l), SignedItem False (scast n)]"
| "component_items (Int64Component l n) = [SignedItem False (label_value l), SignedItem False n]"
| "component_items (VersionComponent v) =
     [SignedItem False (label_value SnapshotVersion), SignedItem False (seconds v), SignedItem False (scast (nanos v))]"
| "component_items TerminatorComponent = [SignedItem False (label_value Terminator)]"

definition component_bytes :: "component \<Rightarrow> byte list" where
  "component_bytes c = concat (map item_bytes (component_items c))"

definition components_bytes :: "component list \<Rightarrow> byte list" where
  "components_bytes cs = concat (map component_bytes cs)"

abbreviation path_components :: "path \<Rightarrow> component list" where
  "path_components \<equiv> map (StringComponent PathSegment)"

lemma components_bytes_simps [simp]:
  "components_bytes [] = []"
  "components_bytes (c # cs) = component_bytes c @ components_bytes cs"
  "components_bytes (cs @ ds) = components_bytes cs @ components_bytes ds"
  by (simp_all add: components_bytes_def)

section \<open>Writing\<close>

named_theorems write_component

lemma WriteComponentLabel_ok: "WriteComponentLabel l dest = Some (dest @ item_bytes (SignedItem False (label_value l)))"
  by (simp add: WriteComponentLabel_def WriteSignedNumIncreasing_ok flip_bytes_def)

lemma WriteLabeledString_ok: "WriteLabeledString l s dest = Some (dest @ component_bytes (StringComponent l s))"
  by (simp add: WriteLabeledString_def WriteComponentLabel_ok WriteString_ok component_bytes_def flip_bytes_def)

lemma WriteLabeledInt32_ok: "WriteLabeledInt32 l n dest = Some (dest @ component_bytes (Int32Component l n))"
  by (simp add: WriteLabeledInt32_def WriteComponentLabel_ok WriteSignedNumIncreasing_ok component_bytes_def flip_bytes_def)

lemma WriteLabeledInt64_ok: "WriteLabeledInt64 l n dest = Some (dest @ component_bytes (Int64Component l n))"
  by (simp add: WriteLabeledInt64_def WriteComponentLabel_ok WriteSignedNumIncreasing_ok component_bytes_def flip_bytes_def)

lemma WriteResourcePath_ok [write_component]:
  "WriteResourcePath p dest = Some (dest @ components_bytes (path_components p))"
  by (induction p arbitrary: dest)
    (simp_all add: WriteComponentLabel_ok WriteString_ok component_bytes_def flip_bytes_def)

lemma WriteSnapshotVersion_ok [write_component]:
  "WriteSnapshotVersion v dest = Some (dest @ component_bytes (VersionComponent v))"
  by (simp add: WriteSnapshotVersion_def WriteComponentLabel_ok WriteSignedNumIncreasing_ok component_bytes_def flip_bytes_def)

lemma WriteTerminator_ok [write_component]: "WriteTerminator dest = Some (dest @ component_bytes TerminatorComponent)"
  by (simp add: WriteTerminator_def WriteSignedNumIncreasing_ok component_bytes_def flip_bytes_def)

lemma write_strings [write_component]:
  "WriteTableName s dest = Some (dest @ component_bytes (StringComponent TableName s))"
  "WriteGlobalName s dest = Some (dest @ component_bytes (StringComponent GlobalName s))"
  "WriteCanonicalId s dest = Some (dest @ component_bytes (StringComponent CanonicalId s))"
  "WriteUserId s dest = Some (dest @ component_bytes (StringComponent UserId s))"
  "WriteCollectionId s dest = Some (dest @ component_bytes (StringComponent CollectionId s))"
  "WriteDocumentId s dest = Some (dest @ component_bytes (StringComponent DocumentId s))"
  "WriteOrderedDocumentKey s dest = Some (dest @ component_bytes (StringComponent OrderedDocumentKey s))"
  "WriteBundleId s dest = Some (dest @ component_bytes (StringComponent BundleId s))"
  "WriteQueryName s dest = Some (dest @ component_bytes (StringComponent QueryName s))"
  "WriteCollectionGroup s dest = Some (dest @ component_bytes (StringComponent CollectionGroup s))"
  "WriteIndexArrayValue s dest = Some (dest @ component_bytes (StringComponent IndexArrayValue s))"
  "WriteIndexDirectionalValue s dest = Some (dest @ component_bytes (StringComponent IndexDirectionalValue s))"
  "WriteDataMigrationName s dest = Some (dest @ component_bytes (StringComponent DataMigrationName s))"
  by (simp_all only: WriteLabeledString_ok WriteTableName_def WriteGlobalName_def WriteCanonicalId_def WriteUserId_def
    WriteCollectionId_def WriteDocumentId_def WriteOrderedDocumentKey_def WriteBundleId_def WriteQueryName_def
    WriteCollectionGroup_def WriteIndexArrayValue_def WriteIndexDirectionalValue_def WriteDataMigrationName_def)

lemma write_numbers [write_component]:
  "WriteBatchId n dest = Some (dest @ component_bytes (Int32Component BatchId n))"
  "WriteTargetId n dest = Some (dest @ component_bytes (Int32Component TargetId n))"
  "WriteIndexId n dest = Some (dest @ component_bytes (Int32Component IndexId n))"
  "WriteSequenceNumber m dest = Some (dest @ component_bytes (Int64Component SequenceNumber m))"
  by (simp_all only: WriteLabeledInt32_ok WriteLabeledInt64_ok WriteBatchId_def WriteTargetId_def WriteIndexId_def
    WriteSequenceNumber_def)

section \<open>Reading\<close>

definition at :: "byte list \<Rightarrow> Reader" where
  "at src = \<lparr>reader_src = src, reader_ok = True\<rparr>"

definition failed :: "byte list \<Rightarrow> Reader" where
  "failed src = \<lparr>reader_src = src, reader_ok = False\<rparr>"

lemma at_simps [simp]:
  "reader_src (at src) = src" "reader_ok (at src)" "Fail (at src) = failed src"
  "reader_src (failed src) = src" "\<not> reader_ok (failed src)" "Fail (failed src) = failed src"
  "(at src)\<lparr>reader_src := src'\<rparr> = at src'" "(failed src)\<lparr>reader_src := src'\<rparr> = failed src'"
  by (simp_all add: at_def failed_def Fail_def)

lemma Reader_new_at: "Reader_new src = at src"
  by (simp add: Reader_new_def at_def)

lemma reader_cases: obtains src where "r = at src" | src where "r = failed src"
  by (cases r; cases "reader_ok r") (auto simp: at_def failed_def)

named_theorems read_component

lemma Reader_ReadSigned_ok: "Reader_ReadSignedNumIncreasing (at (signed_code n @ rest)) = Some (n, at rest)"
  by (simp add: Reader_ReadSignedNumIncreasing_def ReadSignedNumIncreasing_ok)

lemma Reader_ReadString_ok: "Reader_ReadString (at (escaped s @ rest)) = Some (string_of s, at rest)"
  using ReadString_escaped [of False s rest "[]"]
  by (simp add: Reader_ReadString_def ReadString_def flip_bytes_def)

lemma ReadComponentLabelMatching_ok:
  "ReadComponentLabelMatching l (at (signed_code (label_value m) @ rest)) = Some (m = l, at rest)"
  by (simp add: ReadComponentLabelMatching_def Reader_ReadSigned_ok)

lemma ReadInt32_ok: "ReadInt32 (at (signed_code (scast n) @ rest)) = Some (n, at rest)"
proof -
  have "sint (scast n :: 64 word) = sint n" by (rule sint_up_scast) (simp add: is_up)
  moreover have "- (2 ^ 31) \<le> sint n" "sint n < 2 ^ 31" using sint_ge [of n] sint_lt [of n] by simp_all
  moreover have "ucast (scast n :: 64 word) = n" by (rule bit_word_eqI) (auto simp: bit_simps)
  ultimately show ?thesis by (simp add: ReadInt32_def Reader_ReadSigned_ok)
qed

lemma ReadLabeledString_ok:
  "ReadLabeledString l (at (component_bytes (StringComponent m s) @ rest)) =
     (if l = m then Some (s, at rest) else Some ('''', failed (escaped (bytes_of s) @ rest)))"
  by (simp add: ReadLabeledString_def component_bytes_def flip_bytes_def ReadComponentLabelMatching_ok Reader_ReadString_ok
    Reader_ReadString_def [of "failed _"])

lemma ReadLabeledInt32_ok:
  "ReadLabeledInt32 l (at (component_bytes (Int32Component l n) @ rest)) = Some (n, at rest)"
  by (simp add: ReadLabeledInt32_def component_bytes_def flip_bytes_def ReadComponentLabelMatching_ok ReadInt32_ok)

lemma ReadLabeledInt64_ok:
  "ReadLabeledInt64 l (at (component_bytes (Int64Component l n) @ rest)) = Some (n, at rest)"
  by (simp add: ReadLabeledInt64_def component_bytes_def flip_bytes_def ReadComponentLabelMatching_ok ReadInt64_def
    Reader_ReadSigned_ok)

lemma ReadTableNameMatching_ok:
  "ReadTableNameMatching t (at (component_bytes (StringComponent TableName s) @ rest)) =
     Some (if s = t then at rest else failed rest)"
  by (simp add: ReadTableNameMatching_def ReadLabeledStringMatching_def ReadLabeledString_ok)

lemma ReadTerminator_ok [read_component]: "ReadTerminator (at (component_bytes TerminatorComponent @ rest)) = Some (at rest)"
  by (simp add: ReadTerminator_def component_bytes_def flip_bytes_def ReadComponentLabelMatching_ok del: label_value.simps)

lemma ReadSnapshotVersion_ok [read_component]:
  "ValidateBounds v \<Longrightarrow> ReadSnapshotVersion (at (component_bytes (VersionComponent v) @ rest)) = Some (v, at rest)"
  by (cases v) (simp add: ReadSnapshotVersion_def component_bytes_def flip_bytes_def ReadComponentLabelMatching_ok
    ReadInt64_def Reader_ReadSigned_ok ReadInt32_ok Let_def del: label_value.simps)

lemma read_strings [read_component]:
  "ReadGlobalName (at (component_bytes (StringComponent GlobalName s) @ rest)) = Some (s, at rest)"
  "ReadCanonicalId (at (component_bytes (StringComponent CanonicalId s) @ rest)) = Some (s, at rest)"
  "ReadUserId (at (component_bytes (StringComponent UserId s) @ rest)) = Some (s, at rest)"
  "ReadCollectionId (at (component_bytes (StringComponent CollectionId s) @ rest)) = Some (s, at rest)"
  "ReadDocumentId (at (component_bytes (StringComponent DocumentId s) @ rest)) = Some (s, at rest)"
  "ReadOrderedDocumentKey (at (component_bytes (StringComponent OrderedDocumentKey s) @ rest)) = Some (s, at rest)"
  "ReadBundleId (at (component_bytes (StringComponent BundleId s) @ rest)) = Some (s, at rest)"
  "ReadQueryName (at (component_bytes (StringComponent QueryName s) @ rest)) = Some (s, at rest)"
  "ReadCollectionGroup (at (component_bytes (StringComponent CollectionGroup s) @ rest)) = Some (s, at rest)"
  "ReadIndexArrayValue (at (component_bytes (StringComponent IndexArrayValue s) @ rest)) = Some (s, at rest)"
  "ReadIndexDirectionalValue (at (component_bytes (StringComponent IndexDirectionalValue s) @ rest)) = Some (s, at rest)"
  "ReadDataMigrationName (at (component_bytes (StringComponent DataMigrationName s) @ rest)) = Some (s, at rest)"
  by (simp_all add: ReadLabeledString_ok ReadGlobalName_def ReadCanonicalId_def ReadUserId_def ReadCollectionId_def
    ReadDocumentId_def ReadOrderedDocumentKey_def ReadBundleId_def ReadQueryName_def ReadCollectionGroup_def
    ReadIndexArrayValue_def ReadIndexDirectionalValue_def ReadDataMigrationName_def)

lemma read_numbers [read_component]:
  "ReadBatchId (at (component_bytes (Int32Component BatchId n) @ rest)) = Some (n, at rest)"
  "ReadTargetId (at (component_bytes (Int32Component TargetId n) @ rest)) = Some (n, at rest)"
  "ReadIndexId (at (component_bytes (Int32Component IndexId n) @ rest)) = Some (n, at rest)"
  "ReadSequenceNumber (at (component_bytes (Int64Component SequenceNumber m) @ rest)) = Some (m, at rest)"
  by (simp_all add: ReadLabeledInt32_ok ReadLabeledInt64_ok ReadBatchId_def ReadTargetId_def ReadIndexId_def
    ReadSequenceNumber_def)

text \<open>A path is read up to the next component that is not a segment.\<close>

fun ends_path :: "component \<Rightarrow> bool" where
  "ends_path (StringComponent l s) \<longleftrightarrow> l \<noteq> PathSegment"
| "ends_path (Int32Component l n) \<longleftrightarrow> l \<noteq> PathSegment"
| "ends_path (Int64Component l n) \<longleftrightarrow> l \<noteq> PathSegment"
| "ends_path _ \<longleftrightarrow> True"

lemma component_bytes_label:
  assumes "ends_path c"
  obtains l more where "component_bytes c = signed_code (label_value l) @ more" "l \<noteq> PathSegment"
proof (cases c)
  case (VersionComponent v)
  then show ?thesis
    by (intro that [of SnapshotVersion]) (simp_all add: component_bytes_def flip_bytes_def del: label_value.simps)
next
  case TerminatorComponent
  then show ?thesis
    by (intro that [of Terminator "[]"]) (simp_all add: component_bytes_def flip_bytes_def del: label_value.simps)
qed (use assms in \<open>auto simp: component_bytes_def flip_bytes_def intro: that\<close>)

lemma path_loop_ok:
  assumes "ends_path c"
  shows "path_loop segments (at (components_bytes (path_components p) @ component_bytes c @ rest)) =
    Some (segments @ p, at (component_bytes c @ rest))"
proof (induction p arbitrary: segments)
  case Nil
  obtain l more where c: "component_bytes c = signed_code (label_value l) @ more" "l \<noteq> PathSegment"
    by (rule component_bytes_label [OF assms])
  then show ?case
    by (subst path_loop.simps) (simp add: reader_empty_def ReadComponentLabelMatching_ok)
next
  case (Cons s p)
  have "component_bytes (StringComponent PathSegment s) = signed_code (label_value PathSegment) @ escaped (bytes_of s)"
    by (simp add: component_bytes_def flip_bytes_def)
  then show ?case
    using Cons.IH [of "segments @ [s]"]
    by (subst path_loop.simps)
      (simp add: reader_empty_def ReadComponentLabelMatching_ok Reader_ReadString_ok del: label_value.simps)
qed

lemma ReadResourcePath_ok [read_component]:
  "ends_path c \<Longrightarrow> ReadResourcePath (at (components_bytes (path_components p) @ component_bytes c @ rest)) =
    Some (p, at (component_bytes c @ rest))"
  by (simp add: ReadResourcePath_def path_loop_ok)

lemma ReadDocumentKey_ok [read_component]:
  "ends_path c \<Longrightarrow> IsDocumentKey p \<Longrightarrow> p \<noteq> [] \<Longrightarrow>
    ReadDocumentKey (at (components_bytes (path_components p) @ component_bytes c @ rest)) =
    Some (p, at (component_bytes c @ rest))"
  by (simp add: ReadDocumentKey_def ReadResourcePath_ok DocumentKey_of_def)

section \<open>A failed reader\<close>

lemma read_failed:
  "Reader_ReadSignedNumIncreasing (failed src) = Some (0, failed src)"
  "Reader_ReadString (failed src) = Some ('''', failed src)"
  "ReadComponentLabelMatching l (failed src) = Some (False, failed src)"
  "ReadInt32 (failed src) = Some (0, failed src)"
  "ReadTerminator (failed src) = Some (failed src)"
  "ReadResourcePath (failed src) = Some ([], failed src)"
  "ReadDocumentKey (failed src) = Some ([], failed src)"
  by (simp_all add: Reader_ReadSignedNumIncreasing_def Reader_ReadString_def ReadComponentLabelMatching_def ReadInt32_def
    ReadTerminator_def ReadResourcePath_def path_loop.simps [of _ "failed _"] reader_empty_def ReadDocumentKey_def)

lemma read_labeled_failed:
  "ReadLabeledString l (failed src) = Some ('''', failed src)"
  "ReadLabeledInt32 l (failed src) = Some (0, failed src)"
  "ReadLabeledInt64 l (failed src) = Some (0, failed src)"
  "ReadSnapshotVersion (failed src) = Some (\<lparr>seconds = 0, nanos = 0\<rparr>, failed src)"
  by (simp_all add: ReadLabeledString_def ReadLabeledInt32_def ReadLabeledInt64_def ReadInt64_def ReadSnapshotVersion_def
    read_failed ValidateBounds_def)

lemmas labeled_read_defs = ReadBatchId_def ReadCanonicalId_def ReadTargetId_def ReadUserId_def ReadCollectionId_def
  ReadDocumentId_def ReadOrderedDocumentKey_def ReadBundleId_def ReadGlobalName_def ReadQueryName_def ReadIndexId_def
  ReadCollectionGroup_def ReadIndexArrayValue_def ReadIndexDirectionalValue_def ReadSequenceNumber_def
  ReadDataMigrationName_def

end
