(* ===== verification/LevelDbKeyProperties.thy ===== *)
theory LevelDbKeyProperties
  imports LevelDbRoundTrip "HOL-Library.Sublist"
begin

text \<open>
  What the keys of the persistent store promise: every object is decoded from its key by its own class and
  refused by the others, keys sort by table and then by their fields, and a prefix belongs to exactly the
  keys that share its fields.
\<close>

section \<open>The components of a key\<close>

fun table :: "LevelDbKey \<Rightarrow> string" where
  "table (LevelDbMutationKey _ _) = kMutationsTable"
| "table (LevelDbDocumentMutationKey _ _ _) = kDocumentMutationsTable"
| "table (LevelDbMutationQueueKey _) = kMutationQueuesTable"
| "table LevelDbTargetGlobalKey = kTargetGlobalTable"
| "table (LevelDbTargetKey _) = kTargetsTable"
| "table (LevelDbQueryTargetKey _ _) = kQueryTargetsTable"
| "table (LevelDbTargetDocumentKey _ _) = kTargetDocumentsTable"
| "table (LevelDbDocumentTargetKey _ _) = kDocumentTargetsTable"
| "table (LevelDbRemoteDocumentKey _) = kRemoteDocumentsTable"
| "table (LevelDbCollectionParentKey _ _) = kCollectionParentsTable"
| "table (LevelDbRemoteDocumentReadTimeKey _ _ _) = kRemoteDocumentReadTimeTable"
| "table (LevelDbGlobalKey _) = kGlobalsTable"
| "table (LevelDbBundleKey _) = kBundlesTable"
| "table (LevelDbNamedQueryKey _) = kNamedQueriesTable"
| "table (LevelDbIndexConfigurationKey _ _) = kIndexConfigurationTable"
| "table (LevelDbIndexStateKey _ _) = kIndexStateTable"
| "table (LevelDbIndexEntryKey _ _ _ _ _ _) = kIndexEntriesTable"
| "table (LevelDbIndexEntryDocumentKeyIndexKey _ _ _ _) = kIndexEntriesDocumentKeyIndexTable"
| "table (LevelDbDocumentOverlayKey _ _ _) = kDocumentOverlaysTable"
| "table (LevelDbDocumentOverlayLargestBatchIdIndexKey _ _ _) = kDocumentOverlaysLargestBatchIdIndexTable"
| "table (LevelDbDocumentOverlayCollectionIndexKey _ _ _) = kDocumentOverlaysCollectionIndexTable"
| "table (LevelDbDocumentOverlayCollectionGroupIndexKey _ _ _ _) = kDocumentOverlaysCollectionGroupIndexTable"
| "table (LevelDbDataMigrationKey _) = kDataMigrationTable"

text \<open>The fields of an object as components, in the order of its key.\<close>

fun key_fields :: "LevelDbKey \<Rightarrow> component list" where
  "key_fields (LevelDbMutationKey user_id batch_id) = [StringComponent UserId user_id, Int32Component BatchId batch_id]"
| "key_fields (LevelDbDocumentMutationKey user_id document_key batch_id) =
     [StringComponent UserId user_id] @ path_components document_key @ [Int32Component BatchId batch_id]"
| "key_fields (LevelDbMutationQueueKey user_id) = [StringComponent UserId user_id]"
| "key_fields LevelDbTargetGlobalKey = []"
| "key_fields (LevelDbTargetKey target_id) = [Int32Component TargetId target_id]"
| "key_fields (LevelDbQueryTargetKey canonical_id target_id) =
     [StringComponent CanonicalId canonical_id, Int32Component TargetId target_id]"
| "key_fields (LevelDbTargetDocumentKey target_id document_key) =
     [Int32Component TargetId target_id] @ path_components document_key"
| "key_fields (LevelDbDocumentTargetKey document_key target_id) =
     path_components document_key @ [Int32Component TargetId target_id]"
| "key_fields (LevelDbRemoteDocumentKey document_key) = path_components document_key"
| "key_fields (LevelDbCollectionParentKey collection_id parent) =
     [StringComponent CollectionId collection_id] @ path_components parent"
| "key_fields (LevelDbRemoteDocumentReadTimeKey collection_path read_time document_id) =
     path_components collection_path @ [VersionComponent read_time, StringComponent DocumentId document_id]"
| "key_fields (LevelDbGlobalKey global_name) = [StringComponent GlobalName global_name]"
| "key_fields (LevelDbBundleKey bundle_id) = [StringComponent BundleId bundle_id]"
| "key_fields (LevelDbNamedQueryKey query_name) = [StringComponent QueryName query_name]"
| "key_fields (LevelDbIndexConfigurationKey index_id collection_group) =
     [Int32Component IndexId index_id, StringComponent CollectionGroup collection_group]"
| "key_fields (LevelDbIndexStateKey user_id index_id) =
     [StringComponent UserId user_id, Int32Component IndexId index_id]"
| "key_fields (LevelDbIndexEntryKey index_id user_id arr_value directional_value ordered_document_key document_key) =
     [Int32Component IndexId index_id, StringComponent UserId user_id, StringComponent IndexArrayValue arr_value, StringComponent IndexDirectionalValue directional_value, StringComponent OrderedDocumentKey ordered_document_key, StringComponent DocumentId document_key]"
| "key_fields (LevelDbIndexEntryDocumentKeyIndexKey index_id user_id document_key seq_number) =
     [Int32Component IndexId index_id, StringComponent UserId user_id, StringComponent DocumentId document_key, Int64Component SequenceNumber seq_number]"
| "key_fields (LevelDbDocumentOverlayKey user_id document_key largest_batch_id) =
     [StringComponent UserId user_id] @ path_components document_key @ [Int32Component BatchId largest_batch_id]"
| "key_fields (LevelDbDocumentOverlayLargestBatchIdIndexKey user_id largest_batch_id document_key) =
     [StringComponent UserId user_id, Int32Component BatchId largest_batch_id] @ path_components document_key"
| "key_fields (LevelDbDocumentOverlayCollectionIndexKey user_id largest_batch_id document_key) =
     [StringComponent UserId user_id] @ path_components (butlast document_key) @
     [Int32Component BatchId largest_batch_id, StringComponent DocumentId (last document_key)]"
| "key_fields (LevelDbDocumentOverlayCollectionGroupIndexKey user_id collection_group largest_batch_id document_key) =
     [StringComponent UserId user_id, StringComponent CollectionGroup collection_group, Int32Component BatchId largest_batch_id] @ path_components document_key"
| "key_fields (LevelDbDataMigrationKey migration_name) = [StringComponent DataMigrationName migration_name]"

definition key_components :: "LevelDbKey \<Rightarrow> component list" where
  "key_components k = StringComponent TableName (table k) # key_fields k @ [TerminatorComponent]"

text \<open>
  The objects that have a key: document keys are not empty and have an even number of segments, and versions are
  in bounds, as the classes \<^verbatim>\<open>DocumentKey\<close> and \<^verbatim>\<open>Timestamp\<close> assert.
\<close>

definition document_path :: "path \<Rightarrow> bool" where
  "document_path p \<longleftrightarrow> p \<noteq> [] \<and> IsDocumentKey p"

fun key_ok :: "LevelDbKey \<Rightarrow> bool" where
  "key_ok (LevelDbDocumentMutationKey user_id document_key batch_id) \<longleftrightarrow> document_path document_key"
| "key_ok (LevelDbTargetDocumentKey target_id document_key) \<longleftrightarrow> document_path document_key"
| "key_ok (LevelDbDocumentTargetKey document_key target_id) \<longleftrightarrow> document_path document_key"
| "key_ok (LevelDbRemoteDocumentKey document_key) \<longleftrightarrow> document_path document_key"
| "key_ok (LevelDbRemoteDocumentReadTimeKey collection_path read_time document_id) \<longleftrightarrow> ValidateBounds read_time"
| "key_ok (LevelDbDocumentOverlayKey user_id document_key largest_batch_id) \<longleftrightarrow> document_path document_key"
| "key_ok (LevelDbDocumentOverlayLargestBatchIdIndexKey user_id largest_batch_id document_key) \<longleftrightarrow> document_path document_key"
| "key_ok (LevelDbDocumentOverlayCollectionIndexKey user_id largest_batch_id document_key) \<longleftrightarrow> document_path document_key"
| "key_ok (LevelDbDocumentOverlayCollectionGroupIndexKey user_id collection_group largest_batch_id document_key) \<longleftrightarrow> document_path document_key"
| "key_ok _ \<longleftrightarrow> True"

lemma table_inject: "table k = table l \<Longrightarrow> Decode k = Decode l"
  by (cases k; cases l) (simp_all add: table_defs)

section \<open>Encoding\<close>

lemmas Key_defs = LevelDbMutationKey_Key_def
    LevelDbDocumentMutationKey_Key_def
    LevelDbMutationQueueKey_Key_def
    LevelDbTargetGlobalKey_Key_def
    LevelDbTargetKey_Key_def
    LevelDbQueryTargetKey_Key_def
    LevelDbTargetDocumentKey_Key_def
    LevelDbDocumentTargetKey_Key_def
    LevelDbRemoteDocumentKey_Key_def
    LevelDbCollectionParentKey_Key_def
    LevelDbRemoteDocumentReadTimeKey_Key_def
    LevelDbGlobalKey_Key_def
    LevelDbBundleKey_Key_def
    LevelDbNamedQueryKey_Key_def
    LevelDbIndexConfigurationKey_Key_def
    LevelDbIndexStateKey_Key_def
    LevelDbIndexEntryKey_Key_def
    LevelDbIndexEntryDocumentKeyIndexKey_Key_def
    LevelDbDocumentOverlayKey_Key_def
    LevelDbDocumentOverlayLargestBatchIdIndexKey_Key_def
    LevelDbDocumentOverlayCollectionIndexKey_Key_def
    LevelDbDocumentOverlayCollectionGroupIndexKey_Key_def
    LevelDbDataMigrationKey_Key_def
  CollectionIndexKey_of_def

lemma Encode_ok: "key_ok k \<Longrightarrow> Encode k = Some (components_bytes (key_components k))"
  by (cases k) (simp_all add: Key_defs write_component key_components_def document_path_def PopLast_def last_segment_def
    butlast_conv_take last_conv_nth)

section \<open>Decoding\<close>

lemmas Decode_defs = LevelDbMutationKey_Decode_def
    LevelDbDocumentMutationKey_Decode_def
    LevelDbMutationQueueKey_Decode_def
    LevelDbTargetGlobalKey_Decode_def
    LevelDbTargetKey_Decode_def
    LevelDbQueryTargetKey_Decode_def
    LevelDbTargetDocumentKey_Decode_def
    LevelDbDocumentTargetKey_Decode_def
    LevelDbRemoteDocumentKey_Decode_def
    LevelDbCollectionParentKey_Decode_def
    LevelDbRemoteDocumentReadTimeKey_Decode_def
    LevelDbGlobalKey_Decode_def
    LevelDbBundleKey_Decode_def
    LevelDbNamedQueryKey_Decode_def
    LevelDbIndexConfigurationKey_Decode_def
    LevelDbIndexStateKey_Decode_def
    LevelDbIndexEntryKey_Decode_def
    LevelDbIndexEntryDocumentKeyIndexKey_Decode_def
    LevelDbDocumentOverlayKey_Decode_def
    LevelDbDocumentOverlayLargestBatchIdIndexKey_Decode_def
    LevelDbDocumentOverlayCollectionIndexKey_Decode_def
    LevelDbDocumentOverlayCollectionGroupIndexKey_Decode_def
    LevelDbDataMigrationKey_Decode_def

lemmas decode_component = Reader_new_at ReadTableNameMatching_ok read_component

lemma append_nonempty_last: "p \<noteq> [] \<Longrightarrow> path_append (butlast p) (last p) = p"
  by (simp add: path_append_def)

lemma Decode_ok: "key_ok k \<Longrightarrow> Decode k (components_bytes (key_components k) @ rest) = Some (k, True)"
  by (cases k) (simp_all add: Decode_defs key_components_def document_path_def decode_component DocumentKey_of_def
    append_nonempty_last)

lemma key_round_trip: "key_ok k \<Longrightarrow> \<exists>bytes. Encode k = Some bytes \<and> Decode k bytes = Some (k, True)"
  using Encode_ok Decode_ok [where rest = "[]"] by simp

lemma Decode_failed:
  assumes "table k \<noteq> table l" 
  shows "case Decode l (components_bytes (key_components k) @ rest) of
     None \<Rightarrow> table l = kDocumentOverlaysCollectionIndexTable
   | Some (m, answer) \<Rightarrow> table l \<noteq> kDocumentOverlaysCollectionIndexTable \<and> \<not> answer"
proof -
  have start: "components_bytes (key_components k) @ rest =
      component_bytes (StringComponent TableName (table k)) @ components_bytes (key_fields k @ [TerminatorComponent]) @ rest"
    by (simp add: key_components_def)
  show ?thesis
    unfolding start using assms
    by (cases l) (simp_all add: Decode_defs Reader_new_at ReadTableNameMatching_ok read_failed labeled_read_defs
      read_labeled_failed DocumentKey_of_def IsDocumentKey_def path_append_def table_defs)
qed

section \<open>Reading one component\<close>

text \<open>The label of a component decides what follows it.\<close>

fun component_label :: "component \<Rightarrow> ComponentLabel" where
  "component_label (StringComponent l s) = l"
| "component_label (Int32Component l n) = l"
| "component_label (Int64Component l n) = l"
| "component_label (VersionComponent v) = SnapshotVersion"
| "component_label TerminatorComponent = Terminator"

fun component_ok :: "component \<Rightarrow> bool" where
  "component_ok (StringComponent l s) \<longleftrightarrow> l \<notin> {Terminator, BatchId, TargetId, IndexId, SequenceNumber, SnapshotVersion}"
| "component_ok (Int32Component l n) \<longleftrightarrow> l \<in> {BatchId, TargetId, IndexId}"
| "component_ok (Int64Component l n) \<longleftrightarrow> l = SequenceNumber"
| "component_ok _ \<longleftrightarrow> True"

lemma path_components_ok [simp]: "list_all component_ok (path_components p)"
  by (induction p) simp_all

lemma key_components_ok: "list_all component_ok (key_components k)"
  by (cases k) (simp_all add: key_components_def)

lemma signed_code_read: "signed_code m @ x = signed_code n @ y \<Longrightarrow> m = n \<and> x = y"
  by (metis ReadSignedNumIncreasing_ok option.inject prod.inject)

lemma escaped_read: "escaped s @ x = escaped t @ y \<Longrightarrow> s = t \<and> x = y"
  by (metis unescape_escaped option.inject prod.inject)

lemma sint_scast_32: "sint (scast (n :: 32 word) :: 64 word) = sint n"
  by (rule sint_up_scast) (simp add: is_up)

lemma scast_32_inject: "(scast (m :: 32 word) :: 64 word) = scast n \<Longrightarrow> m = n"
proof -
  assume "(scast m :: 64 word) = scast n"
  then have "sint m = sint n" by (metis sint_scast_32)
  then show ?thesis by (rule signed_word_eqI)
qed

lemma component_bytes_simps:
  "component_bytes (StringComponent l s) = signed_code (label_value l) @ escaped (bytes_of s)"
  "component_bytes (Int32Component l n) = signed_code (label_value l) @ signed_code (scast n)"
  "component_bytes (Int64Component l m) = signed_code (label_value l) @ signed_code m"
  "component_bytes (VersionComponent v) =
     signed_code (label_value SnapshotVersion) @ signed_code (seconds v) @ signed_code (scast (nanos v))"
  "component_bytes TerminatorComponent = signed_code (label_value Terminator)"
  by (simp_all add: component_bytes_def flip_bytes_def)

lemma component_bytes_split:
  obtains body where "component_bytes c = signed_code (label_value (component_label c)) @ body"
  by (cases c) (auto simp: component_bytes_simps simp del: label_value.simps)

lemma component_read:
  assumes "component_ok c" "component_ok d" "component_bytes c @ x = component_bytes d @ y"
  shows "c = d \<and> x = y"
proof -
  obtain a where a: "component_bytes c = signed_code (label_value (component_label c)) @ a"
    by (rule component_bytes_split)
  obtain b where b: "component_bytes d = signed_code (label_value (component_label d)) @ b"
    by (rule component_bytes_split)
  have label: "component_label c = component_label d"
  proof -
    have "signed_code (label_value (component_label c)) @ (a @ x) = signed_code (label_value (component_label d)) @ (b @ y)"
      using assms(3) unfolding a b by simp
    then have "label_value (component_label c) = label_value (component_label d)" using signed_code_read by blast
    then show ?thesis by simp
  qed
  show ?thesis
    using assms label
    by (cases c; cases d) (auto simp: component_bytes_simps simp del: label_value.simps
      dest!: signed_code_read escaped_read scast_32_inject)
qed

section \<open>Prefixes\<close>

lemma components_prefix:
  assumes "list_all component_ok cs" "list_all component_ok ds"
  shows "prefix (components_bytes cs) (components_bytes ds) \<longleftrightarrow> prefix cs ds"
  using assms
proof (induction cs arbitrary: ds)
  case (Cons c cs)
  show ?case
  proof (cases ds)
    case Nil
    then show ?thesis by (cases c) (simp_all add: component_bytes_simps)
  next
    case (Cons d es)
    have read: "component_bytes c @ x = component_bytes d @ y \<longleftrightarrow> c = d \<and> x = y" for x y
      using component_read [of c d x y] Cons Cons.prems by auto
    have "prefix (components_bytes (c # cs)) (components_bytes ds) \<longleftrightarrow>
        (\<exists>z. component_bytes d @ components_bytes es = component_bytes c @ (components_bytes cs @ z))"
      by (simp add: Cons prefix_def)
    also have "\<dots> \<longleftrightarrow> c = d \<and> prefix (components_bytes cs) (components_bytes es)"
      by (simp only: read eq_commute [of "component_bytes d @ _"] prefix_def) (auto simp: eq_commute)
    also have "\<dots> \<longleftrightarrow> prefix (c # cs) ds" using Cons.IH [of es] Cons Cons.prems by auto
    finally show ?thesis .
  qed
qed simp

text \<open>The path of a prefix, and that of a key, which a component ends that is not a segment.\<close>

lemma path_prefix: "ends_path c \<Longrightarrow> prefix (path_components p) (path_components d @ c # cs) \<longleftrightarrow> prefix p d"
proof (induction p arbitrary: d)
  case (Cons s p)
  then show ?case by (cases d; cases c) auto
qed simp

lemma path_prefix_more:
  "ends_path c \<Longrightarrow> ends_path e \<Longrightarrow> prefix (path_components p @ e # es) (path_components d @ c # cs) \<longleftrightarrow>
    p = d \<and> prefix (e # es) (c # cs)"
proof (induction p arbitrary: d)
  case Nil
  then show ?case by (cases d; cases e) auto
next
  case (Cons s p)
  then show ?case by (cases d; cases c) auto
qed

definition has_prefix :: "byte list option \<Rightarrow> LevelDbKey \<Rightarrow> bool" where
  "has_prefix p k \<longleftrightarrow> (case (p, Encode k) of (Some start, Some bytes) \<Rightarrow> prefix start bytes | _ \<Rightarrow> False)"

lemma has_prefix_components:
  assumes "p = Some (components_bytes cs)" "list_all component_ok cs" "key_ok k"
  shows "has_prefix p k \<longleftrightarrow> prefix cs (key_components k)"
  using assms components_prefix [OF assms(2) key_components_ok] by (simp add: has_prefix_def Encode_ok)

lemmas KeyPrefix_defs =
  LevelDbMutationKey_KeyPrefix_def
  LevelDbMutationKey_KeyPrefix_user_def
  LevelDbDocumentMutationKey_KeyPrefix_def
  LevelDbDocumentMutationKey_KeyPrefix_user_def
  LevelDbDocumentMutationKey_KeyPrefix_user_path_def
  LevelDbMutationQueueKey_KeyPrefix_def
  LevelDbTargetKey_KeyPrefix_def
  LevelDbQueryTargetKey_KeyPrefix_def
  LevelDbQueryTargetKey_KeyPrefix_canonical_def
  LevelDbTargetDocumentKey_KeyPrefix_def
  LevelDbTargetDocumentKey_KeyPrefix_target_def
  LevelDbDocumentTargetKey_KeyPrefix_def
  LevelDbDocumentTargetKey_KeyPrefix_path_def
  LevelDbRemoteDocumentKey_KeyPrefix_def
  LevelDbRemoteDocumentKey_KeyPrefix_path_def
  LevelDbCollectionParentKey_KeyPrefix_def
  LevelDbCollectionParentKey_KeyPrefix_collection_def
  LevelDbRemoteDocumentReadTimeKey_KeyPrefix_collection_time_def
  LevelDbGlobalKey_KeyPrefix_def
  LevelDbBundleKey_KeyPrefix_def
  LevelDbNamedQueryKey_KeyPrefix_def
  LevelDbIndexConfigurationKey_KeyPrefix_def
  LevelDbIndexStateKey_KeyPrefix_def
  LevelDbIndexStateKey_KeyPrefix_user_def
  LevelDbIndexEntryKey_KeyPrefix_def
  LevelDbIndexEntryKey_KeyPrefix_index_def
  LevelDbIndexEntryKey_KeyPrefix_index_user_array_directional_def
  LevelDbIndexEntryDocumentKeyIndexKey_KeyPrefix_index_user_document_def
  LevelDbDocumentOverlayKey_KeyPrefix_user_def
  LevelDbDocumentOverlayKey_KeyPrefix_user_document_def
  LevelDbDocumentOverlayLargestBatchIdIndexKey_KeyPrefix_user_def
  LevelDbDocumentOverlayLargestBatchIdIndexKey_KeyPrefix_user_batch_def
  LevelDbDocumentOverlayCollectionIndexKey_KeyPrefix_user_def
  LevelDbDocumentOverlayCollectionIndexKey_KeyPrefix_user_collection_def
  LevelDbDocumentOverlayCollectionIndexKey_KeyPrefix_user_collection_batch_def
  LevelDbDocumentOverlayCollectionGroupIndexKey_KeyPrefix_user_def
  LevelDbDocumentOverlayCollectionGroupIndexKey_KeyPrefix_user_group_def
  LevelDbDocumentOverlayCollectionGroupIndexKey_KeyPrefix_user_group_batch_def

lemma KeyPrefix_components:
  "LevelDbMutationKey_KeyPrefix_user u =
     Some (components_bytes ([StringComponent TableName kMutationsTable, StringComponent UserId u]))"
  "LevelDbDocumentMutationKey_KeyPrefix_user u =
     Some (components_bytes ([StringComponent TableName kDocumentMutationsTable, StringComponent UserId u]))"
  "LevelDbDocumentMutationKey_KeyPrefix_user_path u p =
     Some (components_bytes ([StringComponent TableName kDocumentMutationsTable, StringComponent UserId u] @ path_components p))"
  "LevelDbQueryTargetKey_KeyPrefix_canonical s =
     Some (components_bytes ([StringComponent TableName kQueryTargetsTable, StringComponent CanonicalId s]))"
  "LevelDbTargetDocumentKey_KeyPrefix_target t =
     Some (components_bytes ([StringComponent TableName kTargetDocumentsTable, Int32Component TargetId t]))"
  "LevelDbDocumentTargetKey_KeyPrefix_path p =
     Some (components_bytes ([StringComponent TableName kDocumentTargetsTable] @ path_components p))"
  "LevelDbRemoteDocumentKey_KeyPrefix_path p =
     Some (components_bytes ([StringComponent TableName kRemoteDocumentsTable] @ path_components p))"
  "LevelDbCollectionParentKey_KeyPrefix_collection s =
     Some (components_bytes ([StringComponent TableName kCollectionParentsTable, StringComponent CollectionId s]))"
  "LevelDbRemoteDocumentReadTimeKey_KeyPrefix_collection_time c v =
     Some (components_bytes ([StringComponent TableName kRemoteDocumentReadTimeTable] @ path_components c @ [VersionComponent v]))"
  "LevelDbIndexStateKey_KeyPrefix_user u =
     Some (components_bytes ([StringComponent TableName kIndexStateTable, StringComponent UserId u]))"
  "LevelDbIndexEntryKey_KeyPrefix_index i =
     Some (components_bytes ([StringComponent TableName kIndexEntriesTable, Int32Component IndexId i]))"
  "LevelDbIndexEntryKey_KeyPrefix_index_user_array_directional i u x y =
     Some (components_bytes ([StringComponent TableName kIndexEntriesTable, Int32Component IndexId i, StringComponent UserId u, StringComponent IndexArrayValue x, StringComponent IndexDirectionalValue y]))"
  "LevelDbIndexEntryDocumentKeyIndexKey_KeyPrefix_index_user_document i u n =
     Some (components_bytes ([StringComponent TableName kIndexEntriesDocumentKeyIndexTable, Int32Component IndexId i, StringComponent UserId u, StringComponent DocumentId n]))"
  "LevelDbDocumentOverlayKey_KeyPrefix_user u =
     Some (components_bytes ([StringComponent TableName kDocumentOverlaysTable, StringComponent UserId u]))"
  "LevelDbDocumentOverlayKey_KeyPrefix_user_document u d =
     Some (components_bytes ([StringComponent TableName kDocumentOverlaysTable, StringComponent UserId u] @ path_components d))"
  "LevelDbDocumentOverlayLargestBatchIdIndexKey_KeyPrefix_user u =
     Some (components_bytes ([StringComponent TableName kDocumentOverlaysLargestBatchIdIndexTable, StringComponent UserId u]))"
  "LevelDbDocumentOverlayLargestBatchIdIndexKey_KeyPrefix_user_batch u b =
     Some (components_bytes ([StringComponent TableName kDocumentOverlaysLargestBatchIdIndexTable, StringComponent UserId u, Int32Component BatchId b]))"
  "LevelDbDocumentOverlayCollectionIndexKey_KeyPrefix_user u =
     Some (components_bytes ([StringComponent TableName kDocumentOverlaysCollectionIndexTable, StringComponent UserId u]))"
  "LevelDbDocumentOverlayCollectionIndexKey_KeyPrefix_user_collection u c =
     Some (components_bytes ([StringComponent TableName kDocumentOverlaysCollectionIndexTable, StringComponent UserId u] @ path_components c))"
  "LevelDbDocumentOverlayCollectionIndexKey_KeyPrefix_user_collection_batch u c b =
     Some (components_bytes ([StringComponent TableName kDocumentOverlaysCollectionIndexTable, StringComponent UserId u] @ path_components c @ [Int32Component BatchId b]))"
  "LevelDbDocumentOverlayCollectionGroupIndexKey_KeyPrefix_user u =
     Some (components_bytes ([StringComponent TableName kDocumentOverlaysCollectionGroupIndexTable, StringComponent UserId u]))"
  "LevelDbDocumentOverlayCollectionGroupIndexKey_KeyPrefix_user_group u g =
     Some (components_bytes ([StringComponent TableName kDocumentOverlaysCollectionGroupIndexTable, StringComponent UserId u, StringComponent CollectionGroup g]))"
  "LevelDbDocumentOverlayCollectionGroupIndexKey_KeyPrefix_user_group_batch u g b =
     Some (components_bytes ([StringComponent TableName kDocumentOverlaysCollectionGroupIndexTable, StringComponent UserId u, StringComponent CollectionGroup g, Int32Component BatchId b]))"
  by (simp_all add: KeyPrefix_defs write_component)

lemma has_prefix_bytes:
  "list_all component_ok cs \<Longrightarrow> key_ok k \<Longrightarrow>
    has_prefix (Some (components_bytes cs)) k \<longleftrightarrow> prefix cs (key_components k)"
  by (rule has_prefix_components) simp_all

section \<open>The order of keys\<close>

fun contents_compare :: "component \<Rightarrow> component \<Rightarrow> ComparisonResult" where
  "contents_compare (StringComponent _ s) (StringComponent _ t) = DefaultCompare (bytes_of s) (bytes_of t)"
| "contents_compare (Int32Component _ m) (Int32Component _ n) = DefaultCompare (sint m) (sint n)"
| "contents_compare (Int64Component _ m) (Int64Component _ n) = DefaultCompare (sint m) (sint n)"
| "contents_compare (VersionComponent v) (VersionComponent w) =
     (if seconds v = seconds w then DefaultCompare (sint (nanos v)) (sint (nanos w))
      else DefaultCompare (sint (seconds v)) (sint (seconds w)))"
| "contents_compare _ _ = Same"

definition component_compare :: "component \<Rightarrow> component \<Rightarrow> ComparisonResult" where
  "component_compare c d =
     (if component_label c = component_label d then contents_compare c d
      else DefaultCompare (sint (label_value (component_label c))) (sint (label_value (component_label d))))"

lemma sint_same: "sint m = sint n \<longleftrightarrow> m = (n :: 'a::len word)"
  by (auto intro: signed_word_eqI)

lemma DefaultCompare_sint_Same: "DefaultCompare (sint m) (sint n) = Same \<longleftrightarrow> m = (n :: 'a::len word)"
  by (auto simp: DefaultCompare_def intro: signed_word_eqI)

lemma component_items_ok: "list_all item_ok (component_items c)"
  by (cases c) simp_all

lemma component_compare_items:
  assumes "component_ok c" "component_ok d"
  shows "CompareContainer item_compare (component_items c @ x) (component_items d @ y) =
      (if component_compare c d = Same then CompareContainer item_compare x y else component_compare c d)"
    and "same_kinds (component_items c @ x) (component_items d @ y) \<longleftrightarrow> (component_compare c d = Same \<longrightarrow> same_kinds x y)"
proof -
  have Same: "component_label c = component_label d \<longleftrightarrow>
      DefaultCompare (sint (label_value (component_label c))) (sint (label_value (component_label d))) = Same"
    by (metis DefaultCompare_sint_Same label_value_inject)
  have bytes_Same: "DefaultCompare (bytes_of s) (bytes_of t) = Same \<longleftrightarrow> s = t" for s t
    by simp
  show "CompareContainer item_compare (component_items c @ x) (component_items d @ y) =
      (if component_compare c d = Same then CompareContainer item_compare x y else component_compare c d)"
    using assms Same
    by (cases c; cases d) (auto simp: component_compare_def directed_def sint_scast_32 sint_same bytes_Same
      simp del: label_value.simps)
  show "same_kinds (component_items c @ x) (component_items d @ y) \<longleftrightarrow> (component_compare c d = Same \<longrightarrow> same_kinds x y)"
    using assms Same
    by (cases c; cases d) (auto simp: component_compare_def directed_def sint_scast_32 sint_same bytes_Same
      simp del: label_value.simps)
qed

lemma components_order:
  assumes "list_all component_ok A" "list_all component_ok B"
  shows "DefaultCompare (components_bytes A) (components_bytes B) = CompareContainer component_compare A B"
proof -
  let ?items = "\<lambda>cs. concat (map component_items cs)"
  have bytes: "components_bytes cs = concat (map item_bytes (?items cs))" for cs
    by (induction cs) (simp_all add: component_bytes_def)
  have ok: "list_all component_ok cs \<Longrightarrow> list_all item_ok (?items cs)" for cs
    by (induction cs) (simp_all add: component_items_ok list_all_append)
  have nonempty: "component_items c \<noteq> []" for c by (cases c) simp_all
  have "same_kinds (?items A) (?items B) \<and>
      CompareContainer item_compare (?items A) (?items B) = CompareContainer component_compare A B"
    using assms
  proof (induction component_compare A B rule: CompareContainer.induct)
    case (2 d ds)
    then show ?case using nonempty [of d] by (cases "component_items d") simp_all
  next
    case (3 c cs)
    then show ?case using nonempty [of c] by (cases "component_items c") simp_all
  next
    case (4 c cs d ds)
    then show ?case using component_compare_items [of c d] by simp
  qed simp
  then show ?thesis
    using items_order [OF _ ok [OF assms(1)] ok [OF assms(2)]] by (simp add: bytes)
qed

section \<open>Properties\<close>

text \<open>C12: Every object whose document key and version are valid has a key, and its class decodes the key to the
  object again, whatever follows the key.\<close>

theorem leveldb_key_round_trip:
  assumes "key_ok k"
  shows "\<exists>bytes. Encode k = Some bytes \<and> (\<forall>rest. Decode k (bytes @ rest) = Some (k, True))"
  using Encode_ok [OF assms] Decode_ok [OF assms] by blast

lemma leveldb_key_round_trip_witness:
  "\<exists>bytes. Encode (LevelDbDocumentMutationKey ''me'' [''rooms'', ''a''] 7) = Some bytes \<and>
     Decode (LevelDbDocumentMutationKey ''me'' [''rooms'', ''a''] 7) (bytes @ [5]) =
       Some (LevelDbDocumentMutationKey ''me'' [''rooms'', ''a''] 7, True)"
proof -
  have "key_ok (LevelDbDocumentMutationKey ''me'' [''rooms'', ''a''] 7)"
    by (simp add: document_path_def IsDocumentKey_def)
  from leveldb_key_round_trip [OF this] show ?thesis by blast
qed

text \<open>C39: A class answers false on the key of another class, except the index of overlays by collection: it
  constructs a document key from the empty path of the failed reader, and the assertion of that constructor
  fails.\<close>

theorem foreign_key_refused:
  assumes "key_ok k" "table l \<noteq> table k"
  shows "\<exists>bytes. Encode k = Some bytes \<and>
    (if table l = kDocumentOverlaysCollectionIndexTable then Decode l bytes = None
     else \<exists>m. Decode l bytes = Some (m, False))"
  using Encode_ok [OF assms(1)] Decode_failed [of k l "[]"] assms(2) by (auto split: option.splits)

lemma foreign_key_refused_witness:
  "\<exists>bytes. Encode (LevelDbTargetKey 3) = Some bytes \<and>
     Decode (LevelDbDocumentOverlayCollectionIndexKey [] 0 []) bytes = None"
proof -
  have "key_ok (LevelDbTargetKey 3)"
    and "table (LevelDbDocumentOverlayCollectionIndexKey [] 0 []) \<noteq> table (LevelDbTargetKey 3)"
    by (simp_all add: table_defs)
  from foreign_key_refused [OF this] show ?thesis by simp
qed

text \<open>C11: Keys sort by the name of their table, then by the fields of their class in the order of the key: strings
  by their bytes, numbers by their signed value, versions by seconds and nanoseconds, and a path segment by
  segment, where a path that ends comes before one that goes on.\<close>

theorem keys_sort_by_fields:
  assumes "key_ok k" "key_ok l"
  shows "\<exists>p q. Encode k = Some p \<and> Encode l = Some q \<and>
    DefaultCompare p q =
      (if table k \<noteq> table l then DefaultCompare (bytes_of (table k)) (bytes_of (table l))
       else CompareContainer component_compare (key_fields k @ [TerminatorComponent]) (key_fields l @ [TerminatorComponent]))"
  using Encode_ok [OF assms(1)] Encode_ok [OF assms(2)] components_order [OF key_components_ok [of k] key_components_ok [of l]]
  by (auto simp: key_components_def component_compare_def DefaultCompare_Same)

lemma keys_sort_by_fields_witness:
  "\<exists>p q. Encode (LevelDbDocumentOverlayKey ''u'' [''a'', ''b''] 300) = Some p \<and>
     Encode (LevelDbDocumentOverlayKey ''u'' [''a'', ''b'', ''c'', ''d''] 2) = Some q \<and> DefaultCompare p q = Ascending"
proof -
  have "key_ok (LevelDbDocumentOverlayKey ''u'' [''a'', ''b''] 300)"
    and "key_ok (LevelDbDocumentOverlayKey ''u'' [''a'', ''b'', ''c'', ''d''] 2)"
    by (simp_all add: document_path_def IsDocumentKey_def)
  from keys_sort_by_fields [OF this] show ?thesis
    by (simp add: component_compare_def DefaultCompare_def)
qed

text \<open>C13: A key starts with a prefix exactly when it is in the table of the prefix and has its fields; where the
  prefix ends in a path, the paths that extend it belong to it too, but a segment is never matched in part.\<close>

theorem prefix_selects_fields:
  assumes "key_ok k"
  shows "(has_prefix (LevelDbMutationKey_KeyPrefix_user u) k \<longleftrightarrow>
       (\<exists>b. k = LevelDbMutationKey u b)) \<and>
     (has_prefix (LevelDbDocumentMutationKey_KeyPrefix_user u) k \<longleftrightarrow>
       (\<exists>d b. k = LevelDbDocumentMutationKey u d b)) \<and>
     (has_prefix (LevelDbDocumentMutationKey_KeyPrefix_user_path u p) k \<longleftrightarrow>
       (\<exists>d b. k = LevelDbDocumentMutationKey u d b \<and> prefix p d)) \<and>
     (has_prefix (LevelDbQueryTargetKey_KeyPrefix_canonical s) k \<longleftrightarrow>
       (\<exists>t. k = LevelDbQueryTargetKey s t)) \<and>
     (has_prefix (LevelDbTargetDocumentKey_KeyPrefix_target t) k \<longleftrightarrow>
       (\<exists>d. k = LevelDbTargetDocumentKey t d)) \<and>
     (has_prefix (LevelDbDocumentTargetKey_KeyPrefix_path p) k \<longleftrightarrow>
       (\<exists>d t. k = LevelDbDocumentTargetKey d t \<and> prefix p d)) \<and>
     (has_prefix (LevelDbRemoteDocumentKey_KeyPrefix_path p) k \<longleftrightarrow>
       (\<exists>d. k = LevelDbRemoteDocumentKey d \<and> prefix p d)) \<and>
     (has_prefix (LevelDbCollectionParentKey_KeyPrefix_collection s) k \<longleftrightarrow>
       (\<exists>p. k = LevelDbCollectionParentKey s p)) \<and>
     (has_prefix (LevelDbRemoteDocumentReadTimeKey_KeyPrefix_collection_time c v) k \<longleftrightarrow>
       (\<exists>d. k = LevelDbRemoteDocumentReadTimeKey c v d)) \<and>
     (has_prefix (LevelDbIndexStateKey_KeyPrefix_user u) k \<longleftrightarrow>
       (\<exists>i. k = LevelDbIndexStateKey u i)) \<and>
     (has_prefix (LevelDbIndexEntryKey_KeyPrefix_index i) k \<longleftrightarrow>
       (\<exists>u x y e d. k = LevelDbIndexEntryKey i u x y e d)) \<and>
     (has_prefix (LevelDbIndexEntryKey_KeyPrefix_index_user_array_directional i u x y) k \<longleftrightarrow>
       (\<exists>e d. k = LevelDbIndexEntryKey i u x y e d)) \<and>
     (has_prefix (LevelDbIndexEntryDocumentKeyIndexKey_KeyPrefix_index_user_document i u n) k \<longleftrightarrow>
       (\<exists>q. k = LevelDbIndexEntryDocumentKeyIndexKey i u n q)) \<and>
     (has_prefix (LevelDbDocumentOverlayKey_KeyPrefix_user u) k \<longleftrightarrow>
       (\<exists>d b. k = LevelDbDocumentOverlayKey u d b)) \<and>
     (has_prefix (LevelDbDocumentOverlayKey_KeyPrefix_user_document u d) k \<longleftrightarrow>
       (\<exists>d' b. k = LevelDbDocumentOverlayKey u d' b \<and> prefix d d')) \<and>
     (has_prefix (LevelDbDocumentOverlayLargestBatchIdIndexKey_KeyPrefix_user u) k \<longleftrightarrow>
       (\<exists>b d. k = LevelDbDocumentOverlayLargestBatchIdIndexKey u b d)) \<and>
     (has_prefix (LevelDbDocumentOverlayLargestBatchIdIndexKey_KeyPrefix_user_batch u b) k \<longleftrightarrow>
       (\<exists>d. k = LevelDbDocumentOverlayLargestBatchIdIndexKey u b d)) \<and>
     (has_prefix (LevelDbDocumentOverlayCollectionIndexKey_KeyPrefix_user u) k \<longleftrightarrow>
       (\<exists>b d. k = LevelDbDocumentOverlayCollectionIndexKey u b d)) \<and>
     (has_prefix (LevelDbDocumentOverlayCollectionIndexKey_KeyPrefix_user_collection u c) k \<longleftrightarrow>
       (\<exists>b d. k = LevelDbDocumentOverlayCollectionIndexKey u b d \<and> prefix c (butlast d))) \<and>
     (has_prefix (LevelDbDocumentOverlayCollectionIndexKey_KeyPrefix_user_collection_batch u c b) k \<longleftrightarrow>
       (\<exists>d. k = LevelDbDocumentOverlayCollectionIndexKey u b d \<and> butlast d = c)) \<and>
     (has_prefix (LevelDbDocumentOverlayCollectionGroupIndexKey_KeyPrefix_user u) k \<longleftrightarrow>
       (\<exists>g b d. k = LevelDbDocumentOverlayCollectionGroupIndexKey u g b d)) \<and>
     (has_prefix (LevelDbDocumentOverlayCollectionGroupIndexKey_KeyPrefix_user_group u g) k \<longleftrightarrow>
       (\<exists>b d. k = LevelDbDocumentOverlayCollectionGroupIndexKey u g b d)) \<and>
     (has_prefix (LevelDbDocumentOverlayCollectionGroupIndexKey_KeyPrefix_user_group_batch u g b) k \<longleftrightarrow>
       (\<exists>d. k = LevelDbDocumentOverlayCollectionGroupIndexKey u g b d))"
  unfolding KeyPrefix_components
  by (intro conjI; (subst has_prefix_bytes [OF _ assms], simp)?; cases k)
    (auto simp: key_components_def table_defs path_prefix path_prefix_more simp del: prefix_snoc)

lemma prefix_selects_fields_witness:
  "\<not> has_prefix (LevelDbRemoteDocumentKey_KeyPrefix_path [''ro'']) (LevelDbRemoteDocumentKey [''rooms'', ''a'']) \<and>
   has_prefix (LevelDbRemoteDocumentKey_KeyPrefix_path [''rooms'']) (LevelDbRemoteDocumentKey [''rooms'', ''a'', ''x'', ''y''])"
proof -
  have "key_ok (LevelDbRemoteDocumentKey [''rooms'', ''a''])" "key_ok (LevelDbRemoteDocumentKey [''rooms'', ''a'', ''x'', ''y''])"
    by (simp_all add: document_path_def IsDocumentKey_def)
  from this [THEN prefix_selects_fields] show ?thesis by (simp add: table_defs)
qed

text \<open>C40: The entries of an overlay in the three overlay indexes are decoded to objects that refer back to the
  overlay, and the sentinel value of a document to its sequence number.\<close>

theorem overlay_indexes_refer_back:
  assumes "document_path document_key"
  shows "(\<exists>bytes key. LargestBatchIdIndexKey_of user_id document_key batch_id = Some bytes \<and>
      LevelDbDocumentOverlayLargestBatchIdIndexKey_Decode bytes = Some (key, True) \<and>
      ToLevelDbDocumentOverlayKey key = Some (LevelDbDocumentOverlayKey user_id document_key batch_id)) \<and>
    (\<exists>bytes key. CollectionIndexKey_of user_id document_key batch_id = Some bytes \<and>
      LevelDbDocumentOverlayCollectionIndexKey_Decode bytes = Some (key, True) \<and>
      ToLevelDbDocumentOverlayKey key = Some (LevelDbDocumentOverlayKey user_id document_key batch_id)) \<and>
    (\<exists>bytes key. CollectionGroupIndexKey_of user_id document_key batch_id = Some bytes \<and>
      LevelDbDocumentOverlayCollectionGroupIndexKey_Decode bytes = Some (key, True) \<and>
      ToLevelDbDocumentOverlayKey key = Some (LevelDbDocumentOverlayKey user_id document_key batch_id)) \<and>
    (\<exists>bytes. EncodeSentinelValue sequence_number = Some bytes \<and> DecodeSentinelValue bytes = Some sequence_number)"
proof -
  have long: "\<not> length document_key < 2"
    using assms by (cases document_key; cases "tl document_key") (auto simp: document_path_def IsDocumentKey_def)
  have largest: "key_ok (LevelDbDocumentOverlayLargestBatchIdIndexKey user_id batch_id document_key)"
    and collection: "key_ok (LevelDbDocumentOverlayCollectionIndexKey user_id batch_id document_key)"
    and collection_group: "key_ok (LevelDbDocumentOverlayCollectionGroupIndexKey user_id g batch_id document_key)" for g
    using assms by simp_all
  have sentinel: "\<exists>bytes. EncodeSentinelValue sequence_number = Some bytes \<and> DecodeSentinelValue bytes = Some sequence_number"
    using ReadSignedNumIncreasing_ok [of sequence_number "[]"]
    by (simp add: EncodeSentinelValue_def DecodeSentinelValue_def WriteSignedNumIncreasing_ok)
  show ?thesis
    using key_round_trip [OF largest] key_round_trip [OF collection]
      key_round_trip [OF collection_group, of "document_key ! (length document_key - 2)"] long sentinel
    by (auto simp: LargestBatchIdIndexKey_of_def CollectionGroupIndexKey_of_def GetCollectionGroup_def
      ToLevelDbDocumentOverlayKey_def)
qed

lemma overlay_indexes_refer_back_witness:
  "\<exists>bytes key. CollectionIndexKey_of ''me'' [''rooms'', ''a''] 7 = Some bytes \<and>
     LevelDbDocumentOverlayCollectionIndexKey_Decode bytes = Some (key, True) \<and>
     ToLevelDbDocumentOverlayKey key = Some (LevelDbDocumentOverlayKey ''me'' [''rooms'', ''a''] 7)"
proof -
  have "document_path [''rooms'', ''a'']" by (simp add: document_path_def IsDocumentKey_def)
  from overlay_indexes_refer_back [OF this, of "''me''" 7] show ?thesis by blast
qed

end
