(* ===== verification/Spec2Isabelle.thy ===== *)
theory Spec2Isabelle
  imports SortedMap Overlays LogicUtils Queries WatchEvents ViewProperties LevelDbKeyProperties
begin

text \<open>
  A model of the core of the Firestore C++ client (\<^verbatim>\<open>Firestore/core/src\<close>): the immutable sorted
  maps, the values, paths and documents, the mutations and their overlays, the queries and their
  views, the watch changes of the backend, and the keys of the persistent store.  File names below
  are relative to \<^verbatim>\<open>Firestore/core/src\<close>.

  \<^bold>\<open>How the parts interact.\<close>  The client keeps documents, local mutations and query results.
  Local writes are mutations; they are applied to the cached documents, and the effect of all
  mutations on a document is summarised in one overlay.  The backend sends watch changes; they are
  aggregated per target into remote events.  Both change documents, and the view of every query
  turns changed documents into the changes its listeners are told.  Documents, targets and
  mutations are persisted under byte keys whose order makes range scans possible.  Everything
  rests on the order of values and keys, kept in immutable sorted maps.

  \<^bold>\<open>Theories and the code they model.\<close>
  \<^item> \<open>Prelude\<close>: comparison results and the contract of comparators, the locale \<open>comparator\<close>
    (\<^verbatim>\<open>util/comparison.h\<close>); generic lemmas.  \<open>OrderedMap\<close>: the locale \<open>ordered_map\<close>, what
    the maps of \<^verbatim>\<open>immutable/\<close> promise of insert, erase and lookup.
  \<^item> \<open>LlrbNode\<close>, \<open>LlrbCorrect\<close>: the red-black tree and its iterator (\<^verbatim>\<open>immutable/llrb_node.h\<close>,
    \<^verbatim>\<open>llrb_node_iterator.h\<close>); its invariant, and that insertion and deletion keep it and change
    exactly one key.  \<open>SortedMap\<close>: the array map, the tree map and the switch between them
    (\<^verbatim>\<open>array_sorted_map.h\<close>, \<^verbatim>\<open>tree_sorted_map.h\<close>, \<^verbatim>\<open>sorted_map.h\<close>, \<^verbatim>\<open>sorted_set.h\<close>); every history of
    operations refines a partial map, and iteration is ascending and complete.
  \<^item> \<open>Numbers\<close>: the comparison of doubles and integers (\<^verbatim>\<open>util/comparison.cc\<close>), on 64-bit
    patterns.  \<open>Values\<close>, \<open>ValueOrder\<close>: field values, their comparison and equalities
    (\<^verbatim>\<open>model/value_util.cc\<close>, \<^verbatim>\<open>server_timestamp_util.cc\<close>).  \<open>OrderKey\<close>: keys with a linear
    order, the abstract specification every comparison is proved to implement.
  \<^item> \<open>Paths\<close>: paths, their parsers and printers, and document keys (\<^verbatim>\<open>model/base_path.h\<close>,
    \<^verbatim>\<open>field_path.cc\<close>, \<^verbatim>\<open>resource_path.cc\<close>, \<^verbatim>\<open>document_key.cc\<close>).
  \<^item> \<open>ObjectValues\<close>: lookup, setting, deleting and the grouped changes of fields, and field masks
    (\<^verbatim>\<open>model/object_value.cc\<close>, \<^verbatim>\<open>field_mask.cc\<close>).
  \<^item> \<open>Documents\<close>: documents, preconditions and transform operations (\<^verbatim>\<open>model/mutable_document.cc\<close>,
    \<^verbatim>\<open>precondition.cc\<close>, \<^verbatim>\<open>transform_operation.cc\<close>).  \<open>Mutations\<close>: the four mutations, applied
    locally and after an acknowledgement, and batches (\<^verbatim>\<open>model/*mutation*.cc\<close>).  \<open>Overlays\<close>: the
    overlay of a document reproduces it, and replays a chain of patches, for the masks
    \<open>mask_covered\<close> describes, and a family of chains for which it does not.
  \<^item> \<open>Filters\<close>, \<open>LogicUtils\<close>: filters and their disjunctive normal form (\<^verbatim>\<open>core/*filter*\<close>,
    \<^verbatim>\<open>util/logic_utils.cc\<close>).  \<open>Queries\<close>: orderings, bounds, targets and queries
    (\<^verbatim>\<open>core/order_by.cc\<close>, \<^verbatim>\<open>bound.cc\<close>, \<^verbatim>\<open>target.cc\<close>, \<^verbatim>\<open>query.cc\<close>); the comparator of a query is a
    total order on the documents that match it.
  \<^item> \<open>Bytes\<close>, \<open>Md5\<close>, \<open>BloomFilter\<close>: the digest and the bloom filters (\<^verbatim>\<open>util/md5.cc\<close>,
    \<^verbatim>\<open>remote/bloom_filter.cc\<close>); the digest equals a specification after RFC 1321.
  \<^item> \<open>WatchChanges\<close>: target states, the aggregator of watch changes and its events
    (\<^verbatim>\<open>remote/remote_event.cc\<close>, \<^verbatim>\<open>local/target_data.cc\<close>).  \<open>WatchEvents\<close>: the reachable states of a
    watch stream as the relation \<open>watch_reachable\<close>, in which the recorded changes are exact; the
    events raised there; what existence filters do.
  \<^item> \<open>DocumentSets\<close>: sorted sets of documents (\<^verbatim>\<open>model/document_set.cc\<close>), over the locale
    \<open>document_order\<close>, interpreted on the comparator of a query.  \<open>Views\<close>: views and their snapshots
    (\<^verbatim>\<open>core/view.cc\<close>, \<^verbatim>\<open>view_snapshot.cc\<close>).  \<open>ViewResults\<close>, \<open>ViewSnapshots\<close>, \<open>ViewProperties\<close>:
    the documents of a view are the result of its query, its snapshots are exact, and replaying the
    snapshots of a run (\<open>view_run\<close>) gives the documents of the view.
  \<^item> \<open>OrderedCode\<close>, \<open>OrderedStrings\<close>, \<open>OrderedNumbers\<close>, \<open>OrderedItems\<close>: the order-preserving
    encoding (\<^verbatim>\<open>util/ordered_code.cc\<close>, \<^verbatim>\<open>bits.cc\<close>): round trips and the order of the bytes.
    \<open>LevelDbCodec\<close>, \<open>LevelDbKeys\<close>: readers and writers of keys and the classes of keys
    (\<^verbatim>\<open>local/leveldb_key.cc\<close>).  \<open>LevelDbRoundTrip\<close>, \<open>LevelDbKeyProperties\<close>: keys are decoded by
    their own class and refused by the others, and sort and share prefixes as their fields do.

  \<^bold>\<open>Conventions.\<close>  An operation that can fail an assertion (\<^verbatim>\<open>HARD_ASSERT\<close>, \<^verbatim>\<open>HARD_FAIL\<close>) or throw
  returns an option, and \<open>None\<close> is that failure; a \<^verbatim>\<open>Status\<close> or an \<^verbatim>\<open>absl::optional\<close> of the code is
  a value inside it.  That an operation succeeds is part of what is proved of it.  Loops are
  structural recursions or come with a termination proof.  The only fuel is the number of steps
  in which an iterator is collected into a list; the size of the tree is given, which is
  enough, since the iterator holds at most that many entries.

  \<^bold>\<open>Choices of representation.\<close>
  \<^item> The maps and sets of the code (\<^verbatim>\<open>SortedMap\<close>, \<^verbatim>\<open>SortedSet\<close>, \<^verbatim>\<open>std::map\<close>, \<^verbatim>\<open>std::set\<close>) are, in the
    theories above \<open>SortedMap\<close>, sorted lists, HOL maps or sets, which \<open>sorted_map_history_refines\<close>
    justifies; an \<^verbatim>\<open>unordered_map\<close> is an association list in its order of iteration.  Keys of
    documents are compared for equality there.
  \<^item> A path comparison that throws (\<^verbatim>\<open>std::stol\<close> on a segment such as \<^verbatim>\<open>__idle__\<close>) counts as \<^emph>\<open>not
    less\<close> inside ordered masks and transform maps; the lemmas about them assume plain paths, without such segments.
  \<^item> Doubles are 64-bit words, integers \<^verbatim>\<open>int64_t\<close> and \<^verbatim>\<open>int32_t\<close> of values and keys are words.
    Sizes and counters are not bounded: the cached size of a tree node, a bitfield of 31 bits in
    \<^verbatim>\<open>llrb_node.h\<close> (the model is faithful for trees of fewer than \<^verbatim>\<open>2^31\<close> entries), the
    \<^verbatim>\<open>int32_t\<close> bit count of a bloom filter (the theorems that need it assume the bound), the
    pending responses of a target, an \<^verbatim>\<open>int\<close>, the array sizes, and the counts of existence filters.
  \<^item> Bytes are read and written as on a little-endian machine, and \<^verbatim>\<open>__builtin_clz\<close> counts leading
    zeros.  The buffer \<^verbatim>\<open>md5.cc\<close> leaves uninitialized is a parameter; fresh bytes of a string that
    \<^verbatim>\<open>ordered_code.cc\<close> overwrites are zero.
  \<^item> The changes a view keeps by key are a list; their order does not matter, since the view
    sorts them.
  \<^item> Views are views of queries; the views of realtime pipelines run the evaluator of expressions,
    which is not modelled.

  \<^bold>\<open>Not modelled.\<close>  The transport and the streams (\<^verbatim>\<open>remote/\<close> except watch changes and bloom
  filters): I/O against gRPC.  The serializers and \<^verbatim>\<open>nanopb/\<close>: translation from and to generated
  messages.  The stores behind the keys (\<^verbatim>\<open>local/leveldb_*\<close>, \<^verbatim>\<open>local/memory_*\<close>), the local store, the
  index manager and \<^verbatim>\<open>index/\<close>, the garbage collector, the sync engine, the event manager and the remote
  store: they call LevelDB, threads or callbacks around the operations modelled here.
  Transactions, bundles, the public \<^verbatim>\<open>api/\<close>, credentials, queues and executors, and pipelines with their
  expressions.  Of the files that are modelled: printing, hashes, canonical ids and
  logging, and the memory management of values.  The manifest lists every part with its reason.
\<close>

end
